(* ===== verification/Prelude.thy ===== *)
theory Prelude
  imports Main "HOL-Library.Sublist"
begin

text \<open>
  The vocabulary every component shares.

  \<^item> JavaScript strings (\<open>jstring\<close>) are lists of UTF-16 code units, one \<open>nat\<close> per unit, so that
    \<open>length\<close> is \<open>String.prototype.length\<close>; \<open>js ''abc''\<close> is the literal \<open>"abc"\<close>. The string methods
    the code calls (\<open>trim\<close>, \<open>startsWith\<close>, \<open>padEnd\<close>, \<open>padStart\<close>, \<open>slice\<close>) are written out.
  \<^item> A BigInt is an \<open>int\<close> or \<open>nat\<close>; \<open>bigint_to_string\<close> and \<open>bigint_of_digits\<close> are \<open>toString\<close> and
    \<open>BigInt(digits)\<close>.
  \<^item> A thrown value is an \<open>exn\<close>, one constructor per error class the code distinguishes; a handler
    is an \<open>action\<close>: it returns \<open>Inl\<close> the thrown value or \<open>Inr\<close> its result, together with the
    state it leaves behind (state changes made before a throw stay, as in JavaScript).
\<close>

named_theorems action_simps \<open>how the sequencing combinators compute\<close>
named_theorems string_simps \<open>how the string operations compute\<close>

section \<open>Strings\<close>

type_synonym jstring = "nat list"

definition js :: "string \<Rightarrow> jstring" where
  "js s = map of_char s"

lemma js_Nil [simp]: "js [] = []"
  by (simp add: js_def)

lemma js_Cons [simp]: "js (c # cs) = of_char c # js cs"
  by (simp add: js_def)

text \<open>\<open>WhiteSpace\<close> and \<open>LineTerminator\<close> of ECMA-262: what \<open>trim\<close> removes and \<open>\s\<close> matches.\<close>

definition js_space :: "nat \<Rightarrow> bool" where
  "js_space c = (c \<in> set [9, 10, 11, 12, 13, 32, 160, 5760, 8192, 8193, 8194, 8195, 8196, 8197,
     8198, 8199, 8200, 8201, 8202, 8232, 8233, 8239, 8287, 12288, 65279])"

definition trimStart :: "jstring \<Rightarrow> jstring" where
  "trimStart s = dropWhile js_space s"

definition trimEnd :: "jstring \<Rightarrow> jstring" where
  "trimEnd s = rev (dropWhile js_space (rev s))"

definition trim :: "jstring \<Rightarrow> jstring" where
  "trim s = trimEnd (trimStart s)"

definition starts_with :: "jstring \<Rightarrow> jstring \<Rightarrow> bool" where
  "starts_with s p = (take (length p) s = p)"

definition pad_end :: "jstring \<Rightarrow> nat \<Rightarrow> nat \<Rightarrow> jstring" where
  "pad_end s n c = s @ replicate (n - length s) c"

definition pad_start :: "jstring \<Rightarrow> nat \<Rightarrow> nat \<Rightarrow> jstring" where
  "pad_start s n c = replicate (n - length s) c @ s"

definition is_digit :: "nat \<Rightarrow> bool" where
  "is_digit c = (48 \<le> c \<and> c \<le> 57)"

definition is_upper :: "nat \<Rightarrow> bool" where
  "is_upper c = (65 \<le> c \<and> c \<le> 90)"

definition is_lower :: "nat \<Rightarrow> bool" where
  "is_lower c = (97 \<le> c \<and> c \<le> 122)"

lemma trim_all_nonspace: "\<forall>c\<in>set s. \<not> js_space c \<Longrightarrow> trim s = s"
proof -
  have *: "\<forall>c\<in>set t. \<not> js_space c \<Longrightarrow> dropWhile js_space t = t" for t
    by (cases t) auto
  assume "\<forall>c\<in>set s. \<not> js_space c"
  then show ?thesis
    by (simp add: trim_def trimStart_def trimEnd_def *)
qed

lemma digit_not_space: "is_digit c \<Longrightarrow> \<not> js_space c"
  by (auto simp: is_digit_def js_space_def)

lemma set_trim: "set (trim s) \<subseteq> set s"
  unfolding trim_def trimStart_def trimEnd_def
  by (metis set_rev set_dropWhileD subsetI)

lemma length_trim: "length (trim s) \<le> length s"
  unfolding trim_def trimStart_def trimEnd_def
  by (metis length_dropWhile_le length_rev le_trans)

text \<open>No white space is left at either end, so \<open>trim\<close> is idempotent.\<close>

lemma hd_dropWhile_not: "dropWhile P s \<noteq> [] \<Longrightarrow> \<not> P (hd (dropWhile P s))"
  by (rule hd_dropWhile)

lemma last_trim: "trim s \<noteq> [] \<Longrightarrow> \<not> js_space (last (trim s))"
  unfolding trim_def trimEnd_def
  by (metis hd_dropWhile last_rev rev_is_Nil_conv)

lemma dropWhile_rev_snoc_prefix: "prefix (rev (dropWhile P (rev t))) t"
  by (metis append_Nil2 prefix_def rev_append rev_rev_ident takeWhile_dropWhile_id)

lemma hd_trim: "trim s \<noteq> [] \<Longrightarrow> \<not> js_space (hd (trim s))"
proof -
  assume ne: "trim s \<noteq> []"
  let ?t = "dropWhile js_space s"
  have pre: "prefix (trim s) ?t"
    by (simp add: trim_def trimStart_def trimEnd_def dropWhile_rev_snoc_prefix)
  with ne have "hd (trim s) = hd ?t" and "?t \<noteq> []"
    unfolding prefix_def by (metis hd_append2, metis append_is_Nil_conv)
  then show ?thesis
    by (metis hd_dropWhile)
qed

lemma trim_fixed: "s \<noteq> [] \<Longrightarrow> \<not> js_space (hd s) \<Longrightarrow> \<not> js_space (last s) \<Longrightarrow> trim s = s"
proof -
  assume a: "s \<noteq> []" "\<not> js_space (hd s)" "\<not> js_space (last s)"
  then have "dropWhile js_space s = s"
    by (cases s) auto
  moreover from a have "dropWhile js_space (rev s) = rev s"
    by (cases s rule: rev_cases) auto
  ultimately show ?thesis
    by (simp add: trim_def trimStart_def trimEnd_def)
qed

lemma trim_Nil [simp]: "trim [] = []"
  by (simp add: trim_def trimStart_def trimEnd_def)

lemma trim_trim [simp]: "trim (trim s) = trim s"
  by (cases "trim s = []") (simp_all add: trim_fixed hd_trim last_trim)

lemma map_sum_id_iff [simp]:
  "map_sum id f s = Inl e \<longleftrightarrow> s = Inl e" "map_sum id f s = Inr y \<longleftrightarrow> (\<exists>x. s = Inr x \<and> y = f x)"
  by (cases s; auto)+

section \<open>Decimal numerals\<close>

text \<open>\<open>BigInt(n).toString()\<close> of a natural number, and \<open>BigInt(ds)\<close> of a string of digits.\<close>

fun bigint_to_string :: "nat \<Rightarrow> jstring" where
  "bigint_to_string n =
     (if n < 10 then [48 + n] else bigint_to_string (n div 10) @ [48 + n mod 10])"

declare bigint_to_string.simps [simp del]

definition bigint_of_digits :: "jstring \<Rightarrow> nat" where
  "bigint_of_digits ds = foldl (\<lambda>acc c. 10 * acc + (c - 48)) 0 ds"

lemma bigint_to_string_small [simp, string_simps]: "n < 10 \<Longrightarrow> bigint_to_string n = [48 + n]"
  by (simp add: bigint_to_string.simps)

lemma bigint_to_string_big [simp, string_simps]:
  "\<not> n < 10 \<Longrightarrow> bigint_to_string n = bigint_to_string (n div 10) @ [48 + n mod 10]"
  by (simp add: bigint_to_string.simps)

lemma bigint_to_string_ne [simp]: "bigint_to_string n \<noteq> []"
  by (subst bigint_to_string.simps) simp

lemma bigint_of_digits_Nil [simp]: "bigint_of_digits [] = 0"
  by (simp add: bigint_of_digits_def)

lemma bigint_of_digits_snoc [simp]:
  "bigint_of_digits (ds @ [c]) = 10 * bigint_of_digits ds + (c - 48)"
  by (simp add: bigint_of_digits_def)

lemma bigint_of_digits_append:
  "bigint_of_digits (ds @ es) = bigint_of_digits ds * 10 ^ length es + bigint_of_digits es"
proof (induction es rule: rev_induct)
  case Nil
  then show ?case by simp
next
  case (snoc c es)
  have "bigint_of_digits (ds @ es @ [c]) = 10 * bigint_of_digits (ds @ es) + (c - 48)"
    by (metis append.assoc bigint_of_digits_snoc)
  then show ?case
    using snoc by (simp add: algebra_simps)
qed

lemma bigint_of_digits_Cons:
  "bigint_of_digits (c # ds) = (c - 48) * 10 ^ length ds + bigint_of_digits ds"
  using bigint_of_digits_append [of "[c]" ds] by (simp add: bigint_of_digits_def)

lemma bigint_of_to_string [simp]: "bigint_of_digits (bigint_to_string n) = n"
proof (induction n rule: bigint_to_string.induct)
  case (1 n)
  show ?case
  proof (cases "n < 10")
    case True
    then show ?thesis by (simp add: bigint_of_digits_def)
  next
    case False
    then have "bigint_of_digits (bigint_to_string n)
        = 10 * bigint_of_digits (bigint_to_string (n div 10)) + n mod 10"
      by simp
    with False "1.IH" show ?thesis by simp
  qed
qed

lemma bigint_to_string_digits: "list_all is_digit (bigint_to_string n)"
proof (induction n rule: bigint_to_string.induct)
  case (1 n)
  show ?case
  proof (cases "n < 10")
    case True
    then show ?thesis by (simp add: is_digit_def)
  next
    case False
    moreover have "48 + n mod 10 \<le> 57" by presburger
    ultimately show ?thesis using "1.IH" by (simp add: is_digit_def)
  qed
qed

lemma bigint_of_digits_less: "list_all is_digit ds \<Longrightarrow> bigint_of_digits ds < 10 ^ length ds"
proof (induction ds rule: rev_induct)
  case Nil
  then show ?case by simp
next
  case (snoc c ds)
  then have "bigint_of_digits ds < 10 ^ length ds" and "c - 48 \<le> 9"
    by (auto simp: is_digit_def)
  then have "10 * bigint_of_digits ds + (c - 48) < 10 * 10 ^ length ds"
    by linarith
  then show ?case by simp
qed

lemma bigint_of_digits_zeros [simp]: "bigint_of_digits (replicate k 48) = 0"
  by (induction k) (simp_all add: bigint_of_digits_Cons)

lemma bigint_of_digits_lead_zeros [simp]:
  "bigint_of_digits (replicate k 48 @ ds) = bigint_of_digits ds"
  by (simp add: bigint_of_digits_append)

lemma bigint_of_digits_trail_zeros:
  "bigint_of_digits (ds @ replicate k 48) = bigint_of_digits ds * 10 ^ k"
  by (simp add: bigint_of_digits_append)

section \<open>Thrown values\<close>

text \<open>
  One constructor per class a \<open>catch\<close> in the code tells apart. \<open>NonError\<close> is a thrown value that is
  no \<open>Error\<close> instance, with the text \<open>String(err)\<close> gives.
\<close>

datatype exn =
    PlainError jstring
  | InvalidTransitionError jstring
  | RangeError jstring
  | CoreGoError int jstring jstring
  | CoreGoTransportError int jstring
  | CoreGoConfigError jstring
  | EscrowReadError jstring
  | PrismaKnownError jstring jstring
  | HttpResponseError int jstring
  | NonError jstring

text \<open>\<open>err instanceof Error ? err.message : String(err)\<close>.\<close>

fun error_text :: "exn \<Rightarrow> jstring" where
  "error_text (PlainError m) = m"
| "error_text (InvalidTransitionError m) = m"
| "error_text (RangeError m) = m"
| "error_text (CoreGoError _ _ m) = m"
| "error_text (CoreGoTransportError _ m) = m"
| "error_text (CoreGoConfigError m) = m"
| "error_text (EscrowReadError m) = m"
| "error_text (PrismaKnownError _ m) = m"
| "error_text (HttpResponseError _ m) = m"
| "error_text (NonError m) = m"

section \<open>Handlers as state-passing actions\<close>

type_synonym ('w, 'a) action = "'w \<Rightarrow> (exn + 'a) \<times> 'w"

definition return_value :: "'a \<Rightarrow> ('w, 'a) action" where
  "return_value x w = (Inr x, w)"

definition throw :: "exn \<Rightarrow> ('w, 'a) action" where
  "throw e w = (Inl e, w)"

text \<open>\<open>await m (\<lambda>x. k)\<close> is \<open>const x = await m; k\<close>.\<close>

definition await :: "('w, 'a) action \<Rightarrow> ('a \<Rightarrow> ('w, 'b) action) \<Rightarrow> ('w, 'b) action" where
  "await m k w = (case m w of (Inl e, w') \<Rightarrow> (Inl e, w') | (Inr x, w') \<Rightarrow> k x w')"

definition try_catch :: "('w, 'a) action \<Rightarrow> (exn \<Rightarrow> ('w, 'a) action) \<Rightarrow> ('w, 'a) action" where
  "try_catch m h w = (case m w of (Inl e, w') \<Rightarrow> h e w' | (Inr x, w') \<Rightarrow> (Inr x, w'))"

definition read_state :: "('w \<Rightarrow> 'a) \<Rightarrow> ('w, 'a) action" where
  "read_state f w = (Inr (f w), w)"

definition write_state :: "('w \<Rightarrow> 'w) \<Rightarrow> ('w, unit) action" where
  "write_state f w = (Inr (), f w)"

definition lift_result :: "exn + 'a \<Rightarrow> ('w, 'a) action" where
  "lift_result r w = (r, w)"

lemma return_value_apply [simp, action_simps]: "return_value x w = (Inr x, w)"
  by (simp add: return_value_def)

lemma throw_apply [simp, action_simps]: "throw e w = (Inl e, w)"
  by (simp add: throw_def)

lemma read_state_apply [simp, action_simps]: "read_state f w = (Inr (f w), w)"
  by (simp add: read_state_def)

lemma write_state_apply [simp, action_simps]: "write_state f w = (Inr (), f w)"
  by (simp add: write_state_def)

lemma lift_result_apply [simp, action_simps]: "lift_result r w = (r, w)"
  by (simp add: lift_result_def)

lemma await_Inl [simp, action_simps]: "m w = (Inl e, w') \<Longrightarrow> await m k w = (Inl e, w')"
  by (simp add: await_def)

lemma await_Inr [simp, action_simps]: "m w = (Inr x, w') \<Longrightarrow> await m k w = k x w'"
  by (simp add: await_def)

lemma try_catch_Inl [simp, action_simps]: "m w = (Inl e, w') \<Longrightarrow> try_catch m h w = h e w'"
  by (simp add: try_catch_def)

lemma try_catch_Inr [simp, action_simps]: "m w = (Inr x, w') \<Longrightarrow> try_catch m h w = (Inr x, w')"
  by (simp add: try_catch_def)

text \<open>Inversion: what a result of a sequence says of its parts.\<close>

lemma await_InrE:
  assumes "await m k w = (Inr y, w')"
  obtains x v where "m w = (Inr x, v)" and "k x v = (Inr y, w')"
  using assms by (auto simp: await_def split: prod.splits sum.splits)

lemma await_InlE:
  assumes "await m k w = (Inl e, w')"
  obtains (first) "m w = (Inl e, w')"
  | (second) x v where "m w = (Inr x, v)" and "k x v = (Inl e, w')"
  using assms by (auto simp: await_def split: prod.splits sum.splits)

text \<open>
  A property of states that every part keeps is kept by the whole: the rule behind each "this
  handler never changes that table" lemma.
\<close>

definition keeps :: "('w \<Rightarrow> 'w \<Rightarrow> bool) \<Rightarrow> ('w, 'a) action \<Rightarrow> bool" where
  "keeps R m \<longleftrightarrow> (\<forall>w. R w (snd (m w)))"

definition preorder_rel :: "('w \<Rightarrow> 'w \<Rightarrow> bool) \<Rightarrow> bool" where
  "preorder_rel R \<longleftrightarrow> reflp R \<and> transp R"

lemma keepsD: "keeps R m \<Longrightarrow> m w = (r, w') \<Longrightarrow> R w w'"
  by (metis keeps_def snd_conv)

lemma keeps_return [intro]: "preorder_rel R \<Longrightarrow> keeps R (return_value x)"
  by (simp add: keeps_def preorder_rel_def reflpD)

lemma keeps_throw [intro]: "preorder_rel R \<Longrightarrow> keeps R (throw e)"
  by (simp add: keeps_def preorder_rel_def reflpD)

lemma keeps_read [intro]: "preorder_rel R \<Longrightarrow> keeps R (read_state f)"
  by (simp add: keeps_def preorder_rel_def reflpD)

lemma keeps_lift [intro]: "preorder_rel R \<Longrightarrow> keeps R (lift_result r)"
  by (simp add: keeps_def preorder_rel_def reflpD)

lemma keeps_write [intro]: "(\<And>w. R w (f w)) \<Longrightarrow> keeps R (write_state f)"
  by (simp add: keeps_def)

lemma keeps_await [intro]:
  assumes "preorder_rel R" "keeps R m" "\<And>x. keeps R (k x)"
  shows "keeps R (await m k)"
  unfolding keeps_def
proof
  fix w
  obtain r v where m: "m w = (r, v)" by (cases "m w")
  then have 1: "R w v" using assms(2) by (rule keepsD [rotated])
  show "R w (snd (await m k w))"
  proof (cases r)
    case (Inl e)
    with m 1 show ?thesis by simp
  next
    case (Inr x)
    have "R v (snd (k x v))" using assms(3) by (simp add: keeps_def)
    with 1 assms(1) have "R w (snd (k x v))"
      unfolding preorder_rel_def by (meson transpD)
    with m Inr show ?thesis by simp
  qed
qed

lemma keeps_try_catch [intro]:
  assumes "preorder_rel R" "keeps R m" "\<And>e. keeps R (h e)"
  shows "keeps R (try_catch m h)"
  unfolding keeps_def
proof
  fix w
  obtain r v where m: "m w = (r, v)" by (cases "m w")
  then have 1: "R w v" using assms(2) by (rule keepsD [rotated])
  show "R w (snd (try_catch m h w))"
  proof (cases r)
    case (Inr x)
    with m 1 show ?thesis by simp
  next
    case (Inl e)
    have "R v (snd (h e v))" using assms(3) by (simp add: keeps_def)
    with 1 assms(1) have "R w (snd (h e v))"
      unfolding preorder_rel_def by (meson transpD)
    with m Inl show ?thesis by simp
  qed
qed

lemma preorder_same_field [intro, simp]: "preorder_rel (\<lambda>w w'. f w' = f w)"
  by (auto simp: preorder_rel_def intro!: reflpI transpI)

text \<open>
  An action that changes a view of the state at most once, by \<open>E\<close>: one such part among parts that
  leave the view alone.
\<close>

definition changes_once :: "('w \<Rightarrow> 'v) \<Rightarrow> ('v \<Rightarrow> 'v \<Rightarrow> bool) \<Rightarrow> ('w, 'a) action \<Rightarrow> bool" where
  "changes_once f E m \<longleftrightarrow> (\<forall>w. f (snd (m w)) = f w \<or> E (f w) (f (snd (m w))))"

lemma changes_onceD: "changes_once f E m \<Longrightarrow> m w = (r, w') \<Longrightarrow> f w' = f w \<or> E (f w) (f w')"
  unfolding changes_once_def by (metis snd_conv)

lemma changes_once_keeps: "keeps (\<lambda>w w'. f w' = f w) m \<Longrightarrow> changes_once f E m"
  by (simp add: changes_once_def keeps_def)

lemma changes_once_later:
  assumes "keeps (\<lambda>w w'. f w' = f w) m" "\<And>x. changes_once f E (k x)"
  shows "changes_once f E (await m k)"
  unfolding changes_once_def
proof
  fix w
  obtain r v where m: "m w = (r, v)" by (cases "m w")
  then have v: "f v = f w" using keepsD [OF assms(1)] by blast
  show "f (snd (await m k w)) = f w \<or> E (f w) (f (snd (await m k w)))"
  proof (cases r)
    case (Inl e)
    with m v show ?thesis by simp
  next
    case (Inr x)
    with m have "await m k w = k x v" by simp
    then show ?thesis
      using changes_onceD [OF assms(2) surjective_pairing, of x v] v by simp
  qed
qed

lemma changes_once_now:
  assumes "changes_once f E m" "\<And>x. keeps (\<lambda>w w'. f w' = f w) (k x)"
  shows "changes_once f E (await m k)"
  unfolding changes_once_def
proof
  fix w
  obtain r v where m: "m w = (r, v)" by (cases "m w")
  then have v: "f v = f w \<or> E (f w) (f v)" using changes_onceD [OF assms(1)] by blast
  show "f (snd (await m k w)) = f w \<or> E (f w) (f (snd (await m k w)))"
  proof (cases r)
    case (Inl e)
    with m v show ?thesis by simp
  next
    case (Inr x)
    with m have "await m k w = k x v" by simp
    then show ?thesis
      using keepsD [OF assms(2) surjective_pairing, of x v] v by simp
  qed
qed

lemma changes_once_try:
  assumes "changes_once f E m" "\<And>e. keeps (\<lambda>w w'. f w' = f w) (h e)"
  shows "changes_once f E (try_catch m h)"
  unfolding changes_once_def
proof
  fix w
  obtain r v where m: "m w = (r, v)" by (cases "m w")
  then have v: "f v = f w \<or> E (f w) (f v)" using changes_onceD [OF assms(1)] by blast
  show "f (snd (try_catch m h w)) = f w \<or> E (f w) (f (snd (try_catch m h w)))"
  proof (cases r)
    case (Inr x)
    with m v show ?thesis by simp
  next
    case (Inl e)
    with m have "try_catch m h w = h e v" by simp
    then show ?thesis
      using keepsD [OF assms(2) surjective_pairing, of e v] v by simp
  qed
qed

end
