(* ===== verification/Status.thy ===== *)
theory Status
  imports Prelude
begin

text \<open>
  The two lifecycles of \<open>lib/state-machines\<close>: the transition tables of \<open>event.ts\<close> and
  \<open>prize.ts\<close>, the predicates \<open>canTransition*\<close> over them and the assertions that throw
  \<open>InvalidTransitionError\<close> (\<open>errors.ts\<close>). The locale \<open>lifecycle\<close> is the contract a table has to
  meet for a row's history to be a forward walk; both tables are interpreted in it.
\<close>

section \<open>Statuses\<close>

datatype EventStatus = DRAFT | CREATED | LIVE | JUDGING | COMPLETED | DISPUTED | CANCELLED

datatype PrizeStatus = PENDING | ASSIGNED | RELEASED | PAID_OUT | PRIZE_DISPUTED

fun event_status_text :: "EventStatus \<Rightarrow> jstring" where
  "event_status_text DRAFT = js ''DRAFT''"
| "event_status_text CREATED = js ''CREATED''"
| "event_status_text LIVE = js ''LIVE''"
| "event_status_text JUDGING = js ''JUDGING''"
| "event_status_text COMPLETED = js ''COMPLETED''"
| "event_status_text DISPUTED = js ''DISPUTED''"
| "event_status_text CANCELLED = js ''CANCELLED''"

fun prize_status_text :: "PrizeStatus \<Rightarrow> jstring" where
  "prize_status_text PENDING = js ''PENDING''"
| "prize_status_text ASSIGNED = js ''ASSIGNED''"
| "prize_status_text RELEASED = js ''RELEASED''"
| "prize_status_text PAID_OUT = js ''PAID_OUT''"
| "prize_status_text PRIZE_DISPUTED = js ''DISPUTED''"

section \<open>The tables\<close>

fun EVENT_TRANSITIONS :: "EventStatus \<Rightarrow> EventStatus list" where
  "EVENT_TRANSITIONS DRAFT = [CREATED]"
| "EVENT_TRANSITIONS CREATED = [LIVE, DISPUTED, CANCELLED]"
| "EVENT_TRANSITIONS LIVE = [JUDGING, DISPUTED, CANCELLED]"
| "EVENT_TRANSITIONS JUDGING = [COMPLETED, DISPUTED, CANCELLED]"
| "EVENT_TRANSITIONS COMPLETED = []"
| "EVENT_TRANSITIONS DISPUTED = [COMPLETED, CANCELLED]"
| "EVENT_TRANSITIONS CANCELLED = []"

definition canTransitionEvent :: "EventStatus \<Rightarrow> EventStatus \<Rightarrow> bool" where
  "canTransitionEvent a b = (b \<in> set (EVENT_TRANSITIONS a))"

fun PRIZE_TRANSITIONS :: "PrizeStatus \<Rightarrow> PrizeStatus list" where
  "PRIZE_TRANSITIONS PENDING = [ASSIGNED]"
| "PRIZE_TRANSITIONS ASSIGNED = [RELEASED, PRIZE_DISPUTED]"
| "PRIZE_TRANSITIONS RELEASED = [PAID_OUT]"
| "PRIZE_TRANSITIONS PAID_OUT = []"
| "PRIZE_TRANSITIONS PRIZE_DISPUTED = [PAID_OUT]"

definition canTransitionPrize :: "PrizeStatus \<Rightarrow> PrizeStatus \<Rightarrow> bool" where
  "canTransitionPrize a b = (b \<in> set (PRIZE_TRANSITIONS a))"

definition invalid_transition :: "jstring \<Rightarrow> jstring \<Rightarrow> jstring \<Rightarrow> exn" where
  "invalid_transition entity a b =
     InvalidTransitionError
       (js ''Invalid '' @ entity @ js '' transition: '' @ a @ js '' -> '' @ b)"

definition assertEventTransition :: "EventStatus \<Rightarrow> EventStatus \<Rightarrow> exn + unit" where
  "assertEventTransition a b =
     (if \<not> canTransitionEvent a b
      then Inl (invalid_transition (js ''Event'') (event_status_text a) (event_status_text b))
      else Inr ())"

definition assertPrizeTransition :: "PrizeStatus \<Rightarrow> PrizeStatus \<Rightarrow> exn + unit" where
  "assertPrizeTransition a b =
     (if \<not> canTransitionPrize a b
      then Inl (invalid_transition (js ''Prize'') (prize_status_text a) (prize_status_text b))
      else Inr ())"

section \<open>The order in which a lifecycle moves\<close>

text \<open>
  Both tables are acyclic. Each status type is ordered so that every transition goes up, which
  makes "no status is ever visited twice" a fact about strictly sorted lists.
\<close>

fun event_stage :: "EventStatus \<Rightarrow> nat" where
  "event_stage DRAFT = 0"
| "event_stage CREATED = 1"
| "event_stage LIVE = 2"
| "event_stage JUDGING = 3"
| "event_stage DISPUTED = 4"
| "event_stage COMPLETED = 5"
| "event_stage CANCELLED = 6"

fun prize_stage :: "PrizeStatus \<Rightarrow> nat" where
  "prize_stage PENDING = 0"
| "prize_stage ASSIGNED = 1"
| "prize_stage RELEASED = 2"
| "prize_stage PRIZE_DISPUTED = 3"
| "prize_stage PAID_OUT = 4"

lemma event_stage_inj: "event_stage a = event_stage b \<Longrightarrow> a = b"
  by (cases a; cases b) simp_all

lemma prize_stage_inj: "prize_stage a = prize_stage b \<Longrightarrow> a = b"
  by (cases a; cases b) simp_all

instantiation EventStatus :: linorder
begin

definition less_eq_EventStatus :: "EventStatus \<Rightarrow> EventStatus \<Rightarrow> bool" where
  "less_eq_EventStatus a b = (event_stage a \<le> event_stage b)"

definition less_EventStatus :: "EventStatus \<Rightarrow> EventStatus \<Rightarrow> bool" where
  "less_EventStatus a b = (event_stage a < event_stage b)"

instance
  by standard (auto simp: less_eq_EventStatus_def less_EventStatus_def intro: event_stage_inj)

end

instantiation PrizeStatus :: linorder
begin

definition less_eq_PrizeStatus :: "PrizeStatus \<Rightarrow> PrizeStatus \<Rightarrow> bool" where
  "less_eq_PrizeStatus a b = (prize_stage a \<le> prize_stage b)"

definition less_PrizeStatus :: "PrizeStatus \<Rightarrow> PrizeStatus \<Rightarrow> bool" where
  "less_PrizeStatus a b = (prize_stage a < prize_stage b)"

instance
  by standard (auto simp: less_eq_PrizeStatus_def less_PrizeStatus_def intro: prize_stage_inj)

end

section \<open>The contract of a transition table\<close>

locale lifecycle =
  fixes can :: "'s::linorder \<Rightarrow> 's \<Rightarrow> bool"
  assumes forward: "can a b \<Longrightarrow> a < b"
begin

lemma not_self: "\<not> can a a"
  using forward by blast

lemma no_return: "can a b \<Longrightarrow> \<not> can b a"
  using forward by (meson less_asym)

lemma walk_sorted: "successively can xs \<Longrightarrow> sorted_wrt (<) xs"
  by (metis forward successively_conv_sorted_wrt successively_mono transp_on_less)

lemma walk_distinct: "successively can xs \<Longrightarrow> distinct xs"
  by (metis strict_sorted_iff walk_sorted)

lemma walk_end: "successively can (s # ss) \<Longrightarrow> \<forall>t. \<not> can s t \<Longrightarrow> ss = []"
  by (cases ss) auto

end

lemma canTransitionEvent_forward: "canTransitionEvent a b \<Longrightarrow> a < b"
  by (cases a) (auto simp: canTransitionEvent_def less_EventStatus_def)

lemma canTransitionPrize_forward: "canTransitionPrize a b \<Longrightarrow> a < b"
  by (cases a) (auto simp: canTransitionPrize_def less_PrizeStatus_def)

interpretation event_life: lifecycle canTransitionEvent
  by unfold_locales (rule canTransitionEvent_forward)

interpretation prize_life: lifecycle canTransitionPrize
  by unfold_locales (rule canTransitionPrize_forward)

section \<open>What the tables allow\<close>

lemma assertEventTransition_ok [simp]:
  "assertEventTransition a b = Inr () \<longleftrightarrow> canTransitionEvent a b"
  by (simp add: assertEventTransition_def)

lemma assertPrizeTransition_ok [simp]:
  "assertPrizeTransition a b = Inr () \<longleftrightarrow> canTransitionPrize a b"
  by (simp add: assertPrizeTransition_def)

lemma event_terminal_iff: "(\<forall>t. \<not> canTransitionEvent s t) \<longleftrightarrow> s = COMPLETED \<or> s = CANCELLED"
  by (cases s) (auto simp: canTransitionEvent_def)

lemma prize_terminal_iff: "(\<forall>t. \<not> canTransitionPrize s t) \<longleftrightarrow> s = PAID_OUT"
  by (cases s) (auto simp: canTransitionPrize_def)

lemma into_COMPLETED: "canTransitionEvent s COMPLETED \<longleftrightarrow> s = JUDGING \<or> s = DISPUTED"
  by (cases s) (auto simp: canTransitionEvent_def)

lemma out_of_DRAFT: "canTransitionEvent DRAFT t \<longleftrightarrow> t = CREATED"
  by (auto simp: canTransitionEvent_def)

lemma walk_from_DRAFT:
  assumes "successively canTransitionEvent (DRAFT # ss)" "ss \<noteq> []"
  shows "hd ss = CREATED"
  using assms by (cases ss) (auto simp: out_of_DRAFT)

text \<open>
  How long a history can get: the number of transitions left from a status, the longest walk of
  the table. From \<open>DRAFT\<close> it is five (created, live, judging, disputed, then closed).
\<close>

fun event_depth :: "EventStatus \<Rightarrow> nat" where
  "event_depth DRAFT = 5"
| "event_depth CREATED = 4"
| "event_depth LIVE = 3"
| "event_depth JUDGING = 2"
| "event_depth DISPUTED = 1"
| "event_depth COMPLETED = 0"
| "event_depth CANCELLED = 0"

lemma event_depth_step: "canTransitionEvent s t \<Longrightarrow> event_depth t < event_depth s"
  by (cases s) (auto simp: canTransitionEvent_def)

lemma walk_length: "successively canTransitionEvent (s # ss) \<Longrightarrow> length ss \<le> event_depth s"
proof (induction ss arbitrary: s)
  case Nil
  then show ?case by simp
next
  case (Cons t ss)
  then have "event_depth t < event_depth s" and "length ss \<le> event_depth t"
    by (auto intro: event_depth_step)
  then show ?case by simp
qed

end
