(* ===== verification/Store.thy ===== *)
theory Store
  imports Status
begin

text \<open>
  The server's state: the Postgres tables of \<open>prisma/schema.prisma\<close> as lists of rows in insertion
  order, the request's cookies, the clock, and the log of revalidated pages. A query is a
  function on the list; every query goes through \<open>db_call\<close>, which lets the environment fail it:
  \<open>faults\<close> lists, for the calls to come, whether the connection works, breaks before the query
  took effect, or breaks after it did and before the answer arrived (an empty list means no
  further fault). A theorem that quantifies over \<open>faults\<close> holds under any pattern of failures.
  The queries are Prisma's documented behaviour: \<open>findUnique\<close>, \<open>updateMany\<close> (returns the number
  of rows it matched), \<open>create\<close> (P2002 on a unique constraint), \<open>update\<close> and \<open>delete\<close> (P2025 when
  no row matches), \<open>deleteMany\<close>, and \<open>$transaction\<close>, which undoes its writes when it throws.
\<close>

named_theorems query_simps \<open>how the queries compute\<close>

section \<open>Queries on one table\<close>

definition P2002 :: exn where
  "P2002 = PrismaKnownError (js ''P2002'') (js ''Unique constraint failed'')"

definition P2025 :: exn where
  "P2025 = PrismaKnownError (js ''P2025'') (js ''Record not found'')"

definition connection_lost :: exn where
  "connection_lost = PlainError (js ''connection lost'')"

definition find_unique :: "('r \<Rightarrow> bool) \<Rightarrow> 'r list \<Rightarrow> 'r option" where
  "find_unique p t = List.find p t"

definition update_many :: "('r \<Rightarrow> bool) \<Rightarrow> ('r \<Rightarrow> 'r) \<Rightarrow> 'r list \<Rightarrow> nat \<times> 'r list" where
  "update_many p f t = (length (filter p t), map (\<lambda>r. if p r then f r else r) t)"

definition insert_row :: "('r \<Rightarrow> 'r \<Rightarrow> bool) \<Rightarrow> 'r \<Rightarrow> 'r list \<Rightarrow> exn + 'r list" where
  "insert_row clash r t = (if list_ex (clash r) t then Inl P2002 else Inr (t @ [r]))"

definition update_unique :: "('r \<Rightarrow> bool) \<Rightarrow> ('r \<Rightarrow> 'r) \<Rightarrow> 'r list \<Rightarrow> exn + ('r \<times> 'r list)" where
  "update_unique p f t =
     (case List.find p t of
        None \<Rightarrow> Inl P2025
      | Some r \<Rightarrow> Inr (f r, map (\<lambda>r. if p r then f r else r) t))"

definition delete_unique :: "('r \<Rightarrow> bool) \<Rightarrow> 'r list \<Rightarrow> exn + 'r list" where
  "delete_unique p t =
     (if list_ex p t then Inr (filter (\<lambda>r. \<not> p r) t) else Inl P2025)"

definition delete_many :: "('r \<Rightarrow> bool) \<Rightarrow> 'r list \<Rightarrow> 'r list" where
  "delete_many p t = filter (\<lambda>r. \<not> p r) t"

lemma find_unique_Some: "find_unique p t = Some r \<Longrightarrow> r \<in> set t \<and> p r"
  by (auto simp: find_unique_def find_Some_iff)

lemma find_unique_None: "find_unique p t = None \<longleftrightarrow> (\<forall>r\<in>set t. \<not> p r)"
  by (auto simp: find_unique_def find_None_iff)

text \<open>A key that no two rows share makes "the" row with that key well defined.\<close>

lemma distinct_key_eq:
  "distinct (map key t) \<Longrightarrow> r \<in> set t \<Longrightarrow> s \<in> set t \<Longrightarrow> key r = key s \<Longrightarrow> r = s"
  by (metis distinct_map inj_onD)

lemma find_unique_key:
  assumes "distinct (map key t)" "r \<in> set t"
  shows "find_unique (\<lambda>x. key x = key r) t = Some r"
proof (cases "find_unique (\<lambda>x. key x = key r) t")
  case None
  with assms(2) show ?thesis by (auto simp: find_unique_None)
next
  case (Some s)
  then have "s \<in> set t" "key s = key r"
    by (auto dest: find_unique_Some)
  with assms have "s = r" by (auto dest: distinct_key_eq)
  with Some show ?thesis by simp
qed

text \<open>What a keyed, guarded update does to the row looked up by the key.\<close>

lemma find_map_same_key:
  assumes "\<And>r. key (g r) = key r"
  shows "find_unique (\<lambda>x. key x = k) (map g t) = map_option g (find_unique (\<lambda>x. key x = k) t)"
  by (induction t) (simp_all add: find_unique_def assms)

lemma update_many_count_0:
  "fst (update_many p f t) = 0 \<Longrightarrow> snd (update_many p f t) = t"
  by (simp add: update_many_def filter_empty_conv) (metis (mono_tags, lifting) map_idI)

lemma update_many_count_pos:
  assumes "distinct (map key t)" "fst (update_many (\<lambda>r. key r = k \<and> g r) f t) \<noteq> 0"
  shows "\<exists>r. find_unique (\<lambda>x. key x = k) t = Some r \<and> g r"
proof -
  from assms(2) have "filter (\<lambda>r. key r = k \<and> g r) t \<noteq> []"
    by (simp add: update_many_def)
  then obtain r where "r \<in> set t" "key r = k" "g r"
    by (auto simp: filter_empty_conv)
  with find_unique_key [OF assms(1)] show ?thesis by metis
qed

lemma update_many_keeps_keys:
  "(\<And>r. key (f r) = key r) \<Longrightarrow> map key (snd (update_many p f t)) = map key t"
  by (simp add: update_many_def)

lemma insert_row_Inr:
  "insert_row clash r t = Inr t' \<Longrightarrow> t' = t @ [r] \<and> (\<forall>s\<in>set t. \<not> clash r s)"
  by (auto simp: insert_row_def list_ex_iff split: if_splits)

lemma insert_row_distinct:
  assumes "insert_row clash r t = Inr t'" "distinct (map key t)"
    and "\<And>s. key s = key r \<Longrightarrow> clash r s"
  shows "distinct (map key t')"
  using insert_row_Inr [OF assms(1)] assms(2,3) by auto

lemma delete_unique_Inr:
  "delete_unique p t = Inr t' \<Longrightarrow> t' = filter (\<lambda>r. \<not> p r) t \<and> (\<exists>r\<in>set t. p r)"
  by (auto simp: delete_unique_def list_ex_iff split: if_splits)

lemma distinct_map_filter_key: "distinct (map key t) \<Longrightarrow> distinct (map key (filter p t))"
  by (induction t) auto

lemma update_unique_Inr:
  "update_unique p f t = Inr (r', t') \<Longrightarrow>
     \<exists>r. r \<in> set t \<and> p r \<and> r' = f r \<and> t' = map (\<lambda>r. if p r then f r else r) t"
  by (auto simp: update_unique_def find_Some_iff split: option.splits intro!: nth_mem)

section \<open>Rows\<close>

record user_row =
  u_id :: jstring

record wallet_row =
  w_id :: jstring
  w_userId :: jstring
  w_address :: jstring
  w_email :: "jstring option"
  w_profilePublic :: bool
  w_usdcTrustlineVerifiedAt :: "int option"

datatype StellarNetwork = TESTNET | MAINNET

record event_row =
  e_id :: jstring
  e_organizerId :: jstring
  e_organizerWalletId :: jstring
  e_name :: jstring
  e_description :: "jstring option"
  e_timezone :: jstring
  e_judgingDeadlineAt :: "int option"
  e_status :: EventStatus
  e_requireGithub :: bool
  e_network :: StellarNetwork
  e_escrowEventId :: "jstring option"

text \<open>\<open>amount\<close> is a \<open>Decimal(18,7)\<close> column: a number of ten-millionths.\<close>

record prize_row =
  p_id :: jstring
  p_eventId :: jstring
  p_rank :: nat
  p_amount :: nat
  p_status :: PrizeStatus
  p_winnerTeamId :: "jstring option"
  p_releaseTxHash :: "jstring option"
  p_releasedAt :: "int option"

datatype JudgeStatus = ACTIVE | REMOVED

record judge_row =
  j_id :: jstring
  j_eventId :: jstring
  j_walletAddress :: jstring
  j_displayName :: jstring
  j_status :: JudgeStatus

record team_row =
  t_id :: jstring
  t_eventId :: jstring
  t_name :: jstring
  t_submissionUrl :: jstring
  t_submissionVerifiedAt :: "int option"

record member_row =
  m_id :: jstring
  m_teamId :: jstring
  m_eventId :: jstring
  m_walletId :: jstring
  m_shareBasisPoints :: int
  m_ordinal :: int

record nonce_row =
  n_nonce :: jstring
  n_address :: jstring
  n_expiresAt :: int

record linked_row =
  l_id :: jstring
  l_walletId :: jstring
  l_provider :: jstring
  l_providerId :: jstring
  l_username :: jstring
  l_avatarUrl :: "jstring option"
  l_profileUrl :: "jstring option"

section \<open>The server's world\<close>

text \<open>
  \<open>uuid_of k\<close> is the k-th identifier the server draws (\<open>crypto.randomUUID\<close>, Prisma's \<open>uuid()\<close>
  default); which identifiers come is up to the environment.
\<close>

datatype fault = Works | BreaksBefore | BreaksAfter

record io =
  faults :: "fault list"
  clock :: int
  uuid_of :: "nat \<Rightarrow> jstring"
  uuid_next :: nat

record world = io +
  users :: "user_row list"
  wallets :: "wallet_row list"
  events :: "event_row list"
  prizes :: "prize_row list"
  judges :: "judge_row list"
  teams :: "team_row list"
  members :: "member_row list"
  nonces :: "nonce_row list"
  linked :: "linked_row list"
  session_cookie :: "jstring option"
  oauth_cookie :: "jstring option"
  revalidated :: "jstring list"

definition db_call :: "('a io_scheme, 'b) action \<Rightarrow> ('a io_scheme, 'b) action" where
  "db_call m w =
     (case faults w of
        [] \<Rightarrow> m w
      | f # fs \<Rightarrow>
          (case f of
             Works \<Rightarrow> m (w\<lparr>faults := fs\<rparr>)
           | BreaksBefore \<Rightarrow> (Inl connection_lost, w\<lparr>faults := fs\<rparr>)
           | BreaksAfter \<Rightarrow> (Inl connection_lost, snd (m (w\<lparr>faults := fs\<rparr>)))))"

definition random_uuid :: "('a io_scheme, jstring) action" where
  "random_uuid w = (Inr (uuid_of w (uuid_next w)), w\<lparr>uuid_next := Suc (uuid_next w)\<rparr>)"

definition date_now :: "('a io_scheme, int) action" where
  "date_now = read_state clock"

definition revalidate_path :: "jstring \<Rightarrow> (world, unit) action" where
  "revalidate_path p = write_state (\<lambda>w. w\<lparr>revalidated := p # revalidated w\<rparr>)"

text \<open>
  \<open>$transaction\<close>: on a throw every table is as it was. What the transaction consumed of the
  environment (faults, identifiers) stays consumed.
\<close>

definition transaction :: "(world, 'a) action \<Rightarrow> (world, 'a) action" where
  "transaction m w =
     (case m w of
        (Inr x, w') \<Rightarrow> (Inr x, w')
      | (Inl e, w') \<Rightarrow> (Inl e, w\<lparr>faults := faults w', uuid_next := uuid_next w'\<rparr>))"

lemma db_call_no_fault [simp, query_simps]: "faults w = [] \<Longrightarrow> db_call m w = m w"
  by (simp add: db_call_def)

lemma random_uuid_apply [simp, query_simps]:
  "random_uuid w = (Inr (uuid_of w (uuid_next w)), w\<lparr>uuid_next := Suc (uuid_next w)\<rparr>)"
  by (simp add: random_uuid_def)

lemma date_now_apply [simp, query_simps]: "date_now w = (Inr (clock w), w)"
  by (simp add: date_now_def)

lemma revalidate_path_apply [simp, query_simps]:
  "revalidate_path p w = (Inr (), w\<lparr>revalidated := p # revalidated w\<rparr>)"
  by (simp add: revalidate_path_def)

text \<open>
  A call breaks before it took effect (only the fault schedule moves), or it takes effect and its
  answer arrives or is lost.
\<close>

lemma db_callE:
  assumes "db_call m w = (r, w')"
  obtains (before) fs where "r = Inl connection_lost" and "w' = w\<lparr>faults := fs\<rparr>"
  | (ran) fs where "m (w\<lparr>faults := fs\<rparr>) = (r, w')"
  | (lost) fs r' where "r = Inl connection_lost" and "m (w\<lparr>faults := fs\<rparr>) = (r', w')"
proof (cases "faults w")
  case Nil
  then have "m (w\<lparr>faults := []\<rparr>) = (r, w')"
    using assms by (metis db_call_no_fault io.surjective io.update_convs(1))
  then show ?thesis by (rule ran)
next
  case (Cons f fs)
  show ?thesis
  proof (cases f)
    case Works
    with Cons assms have "m (w\<lparr>faults := fs\<rparr>) = (r, w')"
      by (simp add: db_call_def)
    then show ?thesis by (rule ran)
  next
    case BreaksBefore
    with Cons assms show ?thesis
      by (intro before) (auto simp: db_call_def)
  next
    case BreaksAfter
    with Cons assms have "r = Inl connection_lost" "w' = snd (m (w\<lparr>faults := fs\<rparr>))"
      by (auto simp: db_call_def)
    then show ?thesis
      by (intro lost [of fs "fst (m (w\<lparr>faults := fs\<rparr>))"]) simp_all
  qed
qed

lemma db_call_InrE:
  assumes "db_call m w = (Inr x, w')"
  obtains fs where "m (w\<lparr>faults := fs\<rparr>) = (Inr x, w')"
  using assms by (cases rule: db_callE) auto

text \<open>What every outcome of the query itself keeps, the call keeps.\<close>

lemma keeps_db_call:
  assumes "keeps R m" "\<And>w fs v. R (w\<lparr>faults := fs\<rparr>) v = R w v" "\<And>w fs. R w (w\<lparr>faults := fs\<rparr>)"
  shows "keeps R (db_call m)"
  unfolding keeps_def
proof
  fix w
  obtain r w' where dw: "db_call m w = (r, w')" by (cases "db_call m w")
  have "R w w'"
    using dw
  proof (cases rule: db_callE)
    case before
    with assms(3) show ?thesis by simp
  next
    case (ran fs)
    with assms(1,2) show ?thesis by (metis keepsD)
  next
    case (lost fs r')
    with assms(1,2) show ?thesis by (metis keepsD)
  qed
  with dw show "R w (snd (db_call m w))" by simp
qed

text \<open>
  A query of one table: \<open>get\<close> and \<open>put\<close> pick the table, \<open>q\<close> answers or throws and gives the table
  afterwards. \<open>select\<close> is a query that only reads.
\<close>

definition on_table ::
    "('a io_scheme \<Rightarrow> 't) \<Rightarrow> ('t \<Rightarrow> 'a io_scheme \<Rightarrow> 'a io_scheme) \<Rightarrow> ('t \<Rightarrow> exn + ('b \<times> 't)) \<Rightarrow>
     ('a io_scheme, 'b) action" where
  "on_table get put q = db_call (\<lambda>w.
     (case q (get w) of Inl e \<Rightarrow> (Inl e, w) | Inr (x, t) \<Rightarrow> (Inr x, put t w)))"

definition select :: "('a io_scheme \<Rightarrow> 'b) \<Rightarrow> ('a io_scheme, 'b) action" where
  "select f = db_call (read_state f)"

lemma select_no_fault [simp, query_simps]: "faults w = [] \<Longrightarrow> select f w = (Inr (f w), w)"
  by (simp add: select_def)

lemma on_table_no_fault [simp, query_simps]:
  "faults w = [] \<Longrightarrow> on_table get put q w =
     (case q (get w) of Inl e \<Rightarrow> (Inl e, w) | Inr (x, t) \<Rightarrow> (Inr x, put t w))"
  by (simp add: on_table_def)

lemma selectE:
  assumes "select f w = (r, w')"
  obtains fs where "w' = w\<lparr>faults := fs\<rparr>" and "r = Inl connection_lost \<or> r = Inr (f (w\<lparr>faults := fs\<rparr>))"
  using assms unfolding select_def by (cases rule: db_callE) auto

lemma on_tableE:
  assumes "on_table get put q w = (r, w')"
  obtains (unchanged) fs e where "w' = w\<lparr>faults := fs\<rparr>" "r = Inl e"
  | (written) fs x t where "q (get (w\<lparr>faults := fs\<rparr>)) = Inr (x, t)" "w' = put t (w\<lparr>faults := fs\<rparr>)"
      "r = Inr x \<or> r = Inl connection_lost"
  using assms unfolding on_table_def
  by (cases rule: db_callE) (auto split: sum.splits)

lemma on_table_InlE:
  assumes "on_table get put q w = (Inl e, w')"
  obtains (unchanged) fs where "w' = w\<lparr>faults := fs\<rparr>"
  | (written) fs x t where "q (get (w\<lparr>faults := fs\<rparr>)) = Inr (x, t)" "w' = put t (w\<lparr>faults := fs\<rparr>)"
  using assms by (cases rule: on_tableE) auto

lemma on_table_InrE:
  assumes "on_table get put q w = (Inr x, w')"
  obtains fs t where "q (get (w\<lparr>faults := fs\<rparr>)) = Inr (x, t)" "w' = put t (w\<lparr>faults := fs\<rparr>)"
  using assms by (cases rule: on_tableE) auto

text \<open>A view of the state that neither the fault schedule nor the query's table shows in.\<close>

lemma keeps_select:
  assumes "\<And>w fs. f (w\<lparr>faults := fs\<rparr>) = f w"
  shows "keeps (\<lambda>w w'. f w' = f w) (select g)"
  unfolding select_def by (rule keeps_db_call) (auto simp: assms)

lemma keeps_on_table:
  assumes "\<And>w fs. f (w\<lparr>faults := fs\<rparr>) = f w" "\<And>w t. f (put t w) = f w"
  shows "keeps (\<lambda>w w'. f w' = f w) (on_table get put q)"
  unfolding on_table_def
  by (rule keeps_db_call) (auto simp: assms keeps_def split: sum.split)

lemma keeps_random_uuid:
  assumes "\<And>w n. f (w\<lparr>uuid_next := n\<rparr>) = f w"
  shows "keeps (\<lambda>w w'. f w' = f w) random_uuid"
  by (simp add: keeps_def assms)

lemma keeps_date_now [intro]: "preorder_rel R \<Longrightarrow> keeps R date_now"
  unfolding date_now_def by (rule keeps_read)

text \<open>A server with empty tables, whose identifiers are the numerals; where concrete runs start.\<close>

definition empty_world :: world where
  "empty_world =
     \<lparr>faults = [], clock = 1000, uuid_of = bigint_to_string, uuid_next = 0,
      users = [], wallets = [], events = [], prizes = [], judges = [], teams = [], members = [],
      nonces = [], linked = [], session_cookie = None, oauth_cookie = None, revalidated = []\<rparr>"

end
