(* ===== verification/Transitions.thy ===== *)
theory Transitions
  imports Store
begin

text \<open>
  \<open>lib/state-machines/apply.ts\<close>: a transition is asserted against the table and then written with
  one \<open>updateMany\<close> whose \<open>where\<close> names the expected current status, so the write is a compare and
  swap. The locale \<open>guarded_lifecycle\<close> states that contract for any such writer; its lemmas are
  about arbitrary interleavings of calls (each call is one atomic query, so an interleaving is a
  sequence of calls), and both writers are interpreted in it.
\<close>

section \<open>The writers\<close>

definition event_updateMany ::
    "(event_row \<Rightarrow> bool) \<Rightarrow> (event_row \<Rightarrow> event_row) \<Rightarrow> (world, nat) action" where
  "event_updateMany p f =
     db_call (\<lambda>w. (Inr (fst (update_many p f (events w))),
                   w\<lparr>events := snd (update_many p f (events w))\<rparr>))"

definition prize_updateMany ::
    "(prize_row \<Rightarrow> bool) \<Rightarrow> (prize_row \<Rightarrow> prize_row) \<Rightarrow> (world, nat) action" where
  "prize_updateMany p f =
     db_call (\<lambda>w. (Inr (fst (update_many p f (prizes w))),
                   w\<lparr>prizes := snd (update_many p f (prizes w))\<rparr>))"

definition stale_row :: "jstring \<Rightarrow> jstring \<Rightarrow> jstring \<Rightarrow> exn" where
  "stale_row entity rowid status =
     PlainError (entity @ js '' '' @ rowid @ js '' was not in status '' @ status
       @ js '' '' @ [8212] @ js '' concurrent transition or stale read'')"

definition transitionEvent :: "jstring \<Rightarrow> EventStatus \<Rightarrow> EventStatus \<Rightarrow> (world, unit) action" where
  "transitionEvent eventId a b =
     await (lift_result (assertEventTransition a b)) (\<lambda>_.
     await (event_updateMany (\<lambda>r. e_id r = eventId \<and> e_status r = a) (\<lambda>r. r\<lparr>e_status := b\<rparr>)) (\<lambda>count.
     if count = 0 then throw (stale_row (js ''Event'') eventId (event_status_text a))
     else return_value ()))"

text \<open>
  \<open>extra?.releaseTxHash\<close> is tested for truthiness, so an empty hash is not written; \<open>releasedAt\<close>
  is the time of the call.
\<close>

definition prize_data :: "PrizeStatus \<Rightarrow> jstring option \<Rightarrow> int \<Rightarrow> prize_row \<Rightarrow> prize_row" where
  "prize_data b releaseTxHash now r =
     (let r1 = r\<lparr>p_status := b\<rparr>
      in if b = RELEASED
         then let r2 = r1\<lparr>p_releasedAt := Some now\<rparr>
              in (case releaseTxHash of
                    None \<Rightarrow> r2
                  | Some h \<Rightarrow> if h = [] then r2 else r2\<lparr>p_releaseTxHash := Some h\<rparr>)
         else r1)"

definition transitionPrize ::
    "jstring \<Rightarrow> PrizeStatus \<Rightarrow> PrizeStatus \<Rightarrow> jstring option \<Rightarrow> (world, unit) action" where
  "transitionPrize prizeId a b releaseTxHash =
     await (lift_result (assertPrizeTransition a b)) (\<lambda>_.
     await date_now (\<lambda>now.
     await (prize_updateMany (\<lambda>r. p_id r = prizeId \<and> p_status r = a)
             (prize_data b releaseTxHash now)) (\<lambda>count.
     if count = 0 then throw (stale_row (js ''Prize'') prizeId (prize_status_text a))
     else return_value ())))"

section \<open>The contract of a guarded writer\<close>

text \<open>
  \<open>step z i a b\<close> asks to move row \<open>i\<close> from \<open>a\<close> to \<open>b\<close>, writing the data \<open>z\<close> along. If it succeeds the row was in \<open>a\<close>, the table
  allows the move, and only that row changed status. If it throws, either nothing changed or the
  write landed and its answer was lost.
\<close>

fun run_steps ::
    "('x \<Rightarrow> 'i \<Rightarrow> 's \<Rightarrow> 's \<Rightarrow> ('w, unit) action) \<Rightarrow> ('x \<times> 'i \<times> 's \<times> 's) list \<Rightarrow> 'w \<Rightarrow> bool list \<times> 'w" where
  "run_steps step [] w = ([], w)"
| "run_steps step ((z, i, a, b) # cs) w =
     (case step z i a b w of
        (r, w') \<Rightarrow> (case run_steps step cs w' of (oks, w'') \<Rightarrow> ((\<not> isl r) # oks, w'')))"

text \<open>The successful calls of a run that left row \<open>i\<close> from status \<open>a\<close>.\<close>

definition successes :: "bool list \<Rightarrow> ('x \<times> 'i \<times> 's \<times> 's) list \<Rightarrow> 'i \<Rightarrow> 's \<Rightarrow> nat" where
  "successes oks cs i a = length (filter (\<lambda>(ok, _, j, p, _). ok \<and> j = i \<and> p = a) (zip oks cs))"

locale guarded_lifecycle = lifecycle can
  for can :: "'s::linorder \<Rightarrow> 's \<Rightarrow> bool" +
  fixes step :: "'x \<Rightarrow> 'i \<Rightarrow> 's \<Rightarrow> 's \<Rightarrow> ('w, unit) action"
    and status_of :: "'w \<Rightarrow> 'i \<Rightarrow> 's option"
    and inv :: "'w \<Rightarrow> bool"
  assumes step_ok: "inv w \<Longrightarrow> step z i a b w = (Inr (), w') \<Longrightarrow>
      can a b \<and> status_of w i = Some a \<and> status_of w' = (status_of w)(i \<mapsto> b)"
    and step_throws: "inv w \<Longrightarrow> step z i a b w = (Inl e, w') \<Longrightarrow>
      status_of w' = status_of w \<or>
      can a b \<and> status_of w i = Some a \<and> status_of w' = (status_of w)(i \<mapsto> b)"
    and step_inv: "inv w \<Longrightarrow> step z i a b w = (r, w') \<Longrightarrow> inv w'"
begin

lemma step_cases:
  assumes "inv w" "step z i a b w = (r, w')"
  shows "status_of w' = status_of w \<and> isl r \<or>
    can a b \<and> status_of w i = Some a \<and> status_of w' = (status_of w)(i \<mapsto> b)"
  using assms step_ok step_throws by (cases r) auto

lemma step_up:
  assumes "inv w" "step z i a b w = (r, w')" "status_of w j = Some x"
  shows "\<exists>y. status_of w' j = Some y \<and> x \<le> y"
  using step_cases [OF assms(1,2)] assms(3) forward
  by (metis fun_upd_apply less_imp_le option.inject order_refl)

lemma run_inv: "inv w \<Longrightarrow> run_steps step cs w = (oks, w') \<Longrightarrow> inv w'"
proof (induction cs arbitrary: w oks)
  case Nil
  then show ?case by simp
next
  case (Cons c cs)
  obtain z i a b where c: "c = (z, i, a, b)" by (cases c) auto
  obtain r v where s: "step z i a b w = (r, v)" by (cases "step z i a b w")
  obtain oks' where "run_steps step cs v = (oks', w')"
    using Cons.prems(2) c s by (auto split: prod.splits)
  with Cons.IH Cons.prems(1) s show ?case by (meson step_inv)
qed

lemma run_up:
  "inv w \<Longrightarrow> run_steps step cs w = (oks, w') \<Longrightarrow> status_of w j = Some x \<Longrightarrow>
     \<exists>y. status_of w' j = Some y \<and> x \<le> y"
proof (induction cs arbitrary: w oks x)
  case Nil
  then show ?case by simp
next
  case (Cons c cs)
  obtain z i a b where c: "c = (z, i, a, b)" by (cases c) auto
  obtain r v where s: "step z i a b w = (r, v)" by (cases "step z i a b w")
  obtain oks' where rest: "run_steps step cs v = (oks', w')"
    using Cons.prems(2) c s by (auto split: prod.splits)
  obtain y where "status_of v j = Some y" "x \<le> y"
    using step_up [OF Cons.prems(1) s Cons.prems(3)] by blast
  moreover have "inv v" using Cons.prems(1) s by (rule step_inv)
  ultimately show ?case using Cons.IH rest by (meson order_trans)
qed

text \<open>Once a row has gone past a status, no call that expects that status succeeds.\<close>

lemma no_success_past:
  "inv w \<Longrightarrow> run_steps step cs w = (oks, w') \<Longrightarrow> status_of w i = Some x \<Longrightarrow> a < x \<Longrightarrow>
     successes oks cs i a = 0"
proof (induction cs arbitrary: w oks x)
  case Nil
  then show ?case by (simp add: successes_def)
next
  case (Cons c cs)
  obtain z j p q where c: "c = (z, j, p, q)" by (cases c) auto
  obtain r v where s: "step z j p q w = (r, v)" by (cases "step z j p q w")
  obtain oks' where rest: "run_steps step cs v = (oks', w')" and oks: "oks = (\<not> isl r) # oks'"
    using Cons.prems(2) c s by (auto split: prod.splits)
  obtain y where y: "status_of v i = Some y" "x \<le> y"
    using step_up [OF Cons.prems(1) s Cons.prems(3)] by blast
  have "successes oks' cs i a = 0"
    using Cons.IH [OF step_inv [OF Cons.prems(1) s] rest y(1)] Cons.prems(4) y(2) by simp
  moreover have "\<not> (\<not> isl r \<and> j = i \<and> p = a)"
    using step_cases [OF Cons.prems(1) s] Cons.prems(3,4) by auto
  ultimately show ?case by (auto simp: successes_def c oks)
qed

text \<open>The compare and swap: of any calls that expect the same status of a row, one succeeds.\<close>

lemma at_most_one_success:
  "inv w \<Longrightarrow> run_steps step cs w = (oks, w') \<Longrightarrow> successes oks cs i a \<le> 1"
proof (induction cs arbitrary: w oks)
  case Nil
  then show ?case by (simp add: successes_def)
next
  case (Cons c cs)
  obtain z j p q where c: "c = (z, j, p, q)" by (cases c) auto
  obtain r v where s: "step z j p q w = (r, v)" by (cases "step z j p q w")
  obtain oks' where rest: "run_steps step cs v = (oks', w')" and oks: "oks = (\<not> isl r) # oks'"
    using Cons.prems(2) c s by (auto split: prod.splits)
  have iv: "inv v" using Cons.prems(1) s by (rule step_inv)
  show ?case
  proof (cases "\<not> isl r \<and> j = i \<and> p = a")
    case True
    then have "can a q" "status_of v i = Some q"
      using step_cases [OF Cons.prems(1) s] by auto
    then have "successes oks' cs i a = 0"
      using no_success_past [OF iv rest] forward by blast
    then show ?thesis using True by (simp add: successes_def c oks)
  next
    case False
    with Cons.IH [OF iv rest] show ?thesis by (auto simp: successes_def c oks)
  qed
qed

lemma terminal_stays:
  assumes "inv w" "run_steps step cs w = (oks, w')" "status_of w i = Some x" "\<forall>t. \<not> can x t"
  shows "status_of w' i = Some x"
  using assms(1-3)
proof (induction cs arbitrary: w oks)
  case Nil
  then show ?case by simp
next
  case (Cons c cs)
  obtain z j p q where c: "c = (z, j, p, q)" by (cases c) auto
  obtain r v where s: "step z j p q w = (r, v)" by (cases "step z j p q w")
  obtain oks' where rest: "run_steps step cs v = (oks', w')"
    using Cons.prems(2) c s by (auto split: prod.splits)
  have "status_of v i = Some x"
    using step_cases [OF Cons.prems(1) s] Cons.prems(3) assms(4) by auto
  with Cons.IH rest Cons.prems(1) s show ?case by (meson step_inv)
qed

end

section \<open>Both writers meet it\<close>

text \<open>The status each key maps to in a table.\<close>

definition status_map :: "('r \<Rightarrow> 'k) \<Rightarrow> ('r \<Rightarrow> 's) \<Rightarrow> 'r list \<Rightarrow> 'k \<Rightarrow> 's option" where
  "status_map key st t k = map_option st (find_unique (\<lambda>r. key r = k) t)"

definition event_status_of :: "world \<Rightarrow> jstring \<Rightarrow> EventStatus option" where
  "event_status_of w = status_map e_id e_status (events w)"

definition prize_status_of :: "world \<Rightarrow> jstring \<Rightarrow> PrizeStatus option" where
  "prize_status_of w = status_map p_id p_status (prizes w)"

definition event_ids_unique :: "world \<Rightarrow> bool" where
  "event_ids_unique w = distinct (map e_id (events w))"

definition prize_ids_unique :: "world \<Rightarrow> bool" where
  "prize_ids_unique w = distinct (map p_id (prizes w))"

text \<open>The effect of one guarded \<open>updateMany\<close> on the statuses.\<close>

lemma guarded_update_hit:
  assumes u: "distinct (map key t)" and k: "\<And>r. key (f r) = key r" and b: "\<And>r. st (f r) = b"
    and pos: "fst (update_many (\<lambda>r. key r = i \<and> st r = a) f t) \<noteq> 0"
  shows "status_map key st t i = Some a \<and>
    status_map key st (snd (update_many (\<lambda>r. key r = i \<and> st r = a) f t))
      = (status_map key st t)(i \<mapsto> b)"
proof
  obtain r where r: "find_unique (\<lambda>x. key x = i) t = Some r" "st r = a"
    using update_many_count_pos [OF u pos] by blast
  then show "status_map key st t i = Some a" by (simp add: status_map_def)
  show "status_map key st (snd (update_many (\<lambda>r. key r = i \<and> st r = a) f t))
      = (status_map key st t)(i \<mapsto> b)"
  proof
    fix j
    have "find_unique (\<lambda>x. key x = j) (snd (update_many (\<lambda>r. key r = i \<and> st r = a) f t))
        = map_option (\<lambda>r. if key r = i \<and> st r = a then f r else r) (find_unique (\<lambda>x. key x = j) t)"
      unfolding update_many_def snd_conv by (rule find_map_same_key) (simp add: k)
    then show "status_map key st (snd (update_many (\<lambda>r. key r = i \<and> st r = a) f t)) j
      = ((status_map key st t)(i \<mapsto> b)) j"
      using r b by (cases "find_unique (\<lambda>x. key x = j) t")
        (auto simp: status_map_def dest: find_unique_Some)
  qed
qed

lemma guarded_update_any:
  assumes "distinct (map key t)" "\<And>r. key (f r) = key r" "\<And>r. st (f r) = b"
    and "t' = t \<or> t' = snd (update_many (\<lambda>r. key r = i \<and> st r = a) f t)"
  shows "status_map key st t' = status_map key st t \<or>
    status_map key st t i = Some a \<and> status_map key st t' = (status_map key st t)(i \<mapsto> b)"
proof (cases "fst (update_many (\<lambda>r. key r = i \<and> st r = a) f t) = 0")
  case True
  with assms(4) update_many_count_0 show ?thesis by metis
next
  case False
  with assms(4) guarded_update_hit [of key t f st b i a, OF assms(1-3)] show ?thesis by metis
qed

text \<open>
  What one \<open>updateMany\<close> leaves behind: the table before or the updated one; an answer that arrived
  is the number of rows that matched.
\<close>

lemma event_updateMany_cases:
  assumes "event_updateMany p f w = (r, w')"
  shows "(r = Inl connection_lost \<or> r = Inr (fst (update_many p f (events w)))) \<and>
    (events w' = events w \<and> isl r \<or> events w' = snd (update_many p f (events w)))"
  using assms unfolding event_updateMany_def by (cases rule: db_callE) auto

lemma prize_updateMany_cases:
  assumes "prize_updateMany p f w = (r, w')"
  shows "(r = Inl connection_lost \<or> r = Inr (fst (update_many p f (prizes w)))) \<and>
    (prizes w' = prizes w \<and> isl r \<or> prizes w' = snd (update_many p f (prizes w)))"
  using assms unfolding prize_updateMany_def by (cases rule: db_callE) auto

text \<open>What one transition leaves behind.\<close>

lemma transitionEvent_shape:
  assumes "transitionEvent i a b w = (r, w')"
  shows "\<not> canTransitionEvent a b \<and> w' = w \<and> isl r \<or>
    canTransitionEvent a b \<and>
    (let u = update_many (\<lambda>r. e_id r = i \<and> e_status r = a) (\<lambda>r. r\<lparr>e_status := b\<rparr>) (events w)
     in (events w' = events w \<and> isl r \<or> events w' = snd u) \<and> (isl r \<or> fst u \<noteq> 0))"
proof (cases "canTransitionEvent a b")
  case False
  with assms show ?thesis by (auto simp: transitionEvent_def assertEventTransition_def)
next
  case True
  then have ok: "assertEventTransition a b = Inr ()" by simp
  let ?p = "\<lambda>r. e_id r = i \<and> e_status r = a" and ?f = "\<lambda>r. r\<lparr>e_status := b\<rparr>"
  obtain q v where q: "event_updateMany ?p ?f w = (q, v)" by fastforce
  show ?thesis
    using assms ok True event_updateMany_cases [OF q]
    by (cases q) (auto simp: transitionEvent_def q Let_def split: if_splits)
qed

lemma transitionPrize_shape:
  assumes "transitionPrize i a b h w = (r, w')"
  shows "\<not> canTransitionPrize a b \<and> w' = w \<and> isl r \<or>
    canTransitionPrize a b \<and>
    (let u = update_many (\<lambda>r. p_id r = i \<and> p_status r = a) (prize_data b h (clock w)) (prizes w)
     in (prizes w' = prizes w \<and> isl r \<or> prizes w' = snd u) \<and> (isl r \<or> fst u \<noteq> 0))"
proof (cases "canTransitionPrize a b")
  case False
  with assms show ?thesis by (auto simp: transitionPrize_def assertPrizeTransition_def)
next
  case True
  then have ok: "assertPrizeTransition a b = Inr ()" by simp
  let ?p = "\<lambda>r. p_id r = i \<and> p_status r = a" and ?f = "prize_data b h (clock w)"
  obtain q v where q: "prize_updateMany ?p ?f w = (q, v)" by fastforce
  show ?thesis
    using assms ok True prize_updateMany_cases [OF q]
    by (cases q) (auto simp: transitionPrize_def q Let_def split: if_splits)
qed

lemma prize_data_id [simp]: "p_id (prize_data b h now r) = p_id r"
  by (simp add: prize_data_def Let_def split: option.split)

lemma prize_data_status [simp]: "p_status (prize_data b h now r) = b"
  by (simp add: prize_data_def Let_def split: option.split)

lemma transitionEvent_cases:
  assumes "event_ids_unique w" "transitionEvent i a b w = (r, w')"
  shows "event_status_of w' = event_status_of w \<and> isl r \<or>
    canTransitionEvent a b \<and> event_status_of w i = Some a \<and>
    event_status_of w' = (event_status_of w)(i \<mapsto> b)"
  using transitionEvent_shape [OF assms(2)] assms(1)
    guarded_update_any [of e_id "events w" "\<lambda>r. r\<lparr>e_status := b\<rparr>" e_status b "events w'" i a]
    guarded_update_hit [of e_id "events w" "\<lambda>r. r\<lparr>e_status := b\<rparr>" e_status b i a]
  by (auto simp: event_status_of_def event_ids_unique_def Let_def)

lemma transitionPrize_cases:
  assumes "prize_ids_unique w" "transitionPrize i a b h w = (r, w')"
  shows "prize_status_of w' = prize_status_of w \<and> isl r \<or>
    canTransitionPrize a b \<and> prize_status_of w i = Some a \<and>
    prize_status_of w' = (prize_status_of w)(i \<mapsto> b)"
  using transitionPrize_shape [OF assms(2)] assms(1)
    guarded_update_any [of p_id "prizes w" "prize_data b h (clock w)" p_status b "prizes w'" i a]
    guarded_update_hit [of p_id "prizes w" "prize_data b h (clock w)" p_status b i a]
  by (auto simp: prize_status_of_def prize_ids_unique_def Let_def)

lemma transitionEvent_ids:
  assumes "event_ids_unique w" "transitionEvent i a b w = (r, w')"
  shows "event_ids_unique w'"
proof -
  have "map e_id (events w') = map e_id (events w)"
    using transitionEvent_shape [OF assms(2)]
      update_many_keeps_keys [of e_id "\<lambda>r. r\<lparr>e_status := b\<rparr>"]
    by (auto simp: Let_def)
  with assms(1) show ?thesis by (simp add: event_ids_unique_def)
qed

lemma transitionPrize_ids:
  assumes "prize_ids_unique w" "transitionPrize i a b h w = (r, w')"
  shows "prize_ids_unique w'"
proof -
  have "map p_id (prizes w') = map p_id (prizes w)"
    using transitionPrize_shape [OF assms(2)]
      update_many_keeps_keys [of p_id "prize_data b h (clock w)"]
    by (auto simp: Let_def)
  with assms(1) show ?thesis by (simp add: prize_ids_unique_def)
qed

interpretation event_writer:
  guarded_lifecycle canTransitionEvent "\<lambda>(_::unit). transitionEvent" event_status_of event_ids_unique
proof unfold_locales
  fix w i a b w' e r
  assume u: "event_ids_unique w"
  show "transitionEvent i a b w = (Inr (), w') \<Longrightarrow>
      canTransitionEvent a b \<and> event_status_of w i = Some a \<and>
      event_status_of w' = (event_status_of w)(i \<mapsto> b)"
    using transitionEvent_cases [OF u] by fastforce
  show "transitionEvent i a b w = (Inl e, w') \<Longrightarrow>
      event_status_of w' = event_status_of w \<or>
      canTransitionEvent a b \<and> event_status_of w i = Some a \<and>
      event_status_of w' = (event_status_of w)(i \<mapsto> b)"
    using transitionEvent_cases [OF u] by blast
  show "transitionEvent i a b w = (r, w') \<Longrightarrow> event_ids_unique w'"
    using u by (rule transitionEvent_ids)
qed

interpretation prize_writer:
  guarded_lifecycle canTransitionPrize "\<lambda>h i a b. transitionPrize i a b h" prize_status_of
    prize_ids_unique
proof unfold_locales
  fix h w i a b w' e r
  assume u: "prize_ids_unique w"
  show "transitionPrize i a b h w = (Inr (), w') \<Longrightarrow>
      canTransitionPrize a b \<and> prize_status_of w i = Some a \<and>
      prize_status_of w' = (prize_status_of w)(i \<mapsto> b)"
    using transitionPrize_cases [OF u] by fastforce
  show "transitionPrize i a b h w = (Inl e, w') \<Longrightarrow>
      prize_status_of w' = prize_status_of w \<or>
      canTransitionPrize a b \<and> prize_status_of w i = Some a \<and>
      prize_status_of w' = (prize_status_of w)(i \<mapsto> b)"
    using transitionPrize_cases [OF u] by blast
  show "transitionPrize i a b h w = (r, w') \<Longrightarrow> prize_ids_unique w'"
    using u by (rule transitionPrize_ids)
qed

section \<open>Runs\<close>

lemma run_steps_keeps:
  assumes "\<And>z i a b w r w'. Q w \<Longrightarrow> step z i a b w = (r, w') \<Longrightarrow> Q w'"
  shows "Q w \<Longrightarrow> run_steps step cs w = (oks, w') \<Longrightarrow> Q w'"
proof (induction cs arbitrary: w oks)
  case Nil
  then show ?case by simp
next
  case (Cons c cs)
  then show ?case
    by (cases c) (auto split: prod.splits dest: assms)
qed

text \<open>
  What the prize rows record of a release: a \<open>RELEASED\<close> prize carries the time it was released,
  and a prize whose money has not moved carries neither a time nor a transaction hash.
\<close>

definition release_recorded :: "prize_row \<Rightarrow> bool" where
  "release_recorded r =
     ((p_status r = RELEASED \<longrightarrow> p_releasedAt r \<noteq> None) \<and>
      (p_status r \<in> {PENDING, ASSIGNED, PRIZE_DISPUTED} \<longrightarrow>
         p_releasedAt r = None \<and> p_releaseTxHash r = None))"

lemma prize_data_recorded:
  assumes "release_recorded r" "canTransitionPrize (p_status r) b"
  shows "release_recorded (prize_data b h now r)"
  using assms
  by (cases "p_status r") (auto simp: release_recorded_def prize_data_def canTransitionPrize_def
      Let_def split: option.split)

lemma transitionPrize_recorded:
  assumes "list_all release_recorded (prizes w)" "transitionPrize i a b h w = (r, w')"
  shows "list_all release_recorded (prizes w')"
  using transitionPrize_shape [OF assms(2)] assms(1) prize_data_recorded
  by (auto simp: Let_def update_many_def list_all_iff split: if_splits)

text \<open>A world with one event and one prize, for the concrete runs below.\<close>

definition one_event_world :: "EventStatus \<Rightarrow> PrizeStatus \<Rightarrow> world" where
  "one_event_world s q = empty_world
     \<lparr>events := [\<lparr>e_id = js ''ev'', e_organizerId = js ''u'', e_organizerWalletId = js ''w'',
        e_name = js ''Cup'', e_description = None, e_timezone = js ''UTC'',
        e_judgingDeadlineAt = None, e_status = s, e_requireGithub = False, e_network = TESTNET,
        e_escrowEventId = None\<rparr>],
      prizes := [\<lparr>p_id = js ''pz'', p_eventId = js ''ev'', p_rank = 1, p_amount = 5,
        p_status = q, p_winnerTeamId = None, p_releaseTxHash = None, p_releasedAt = None\<rparr>]\<rparr>"

lemmas concrete_world_simps = one_event_world_def empty_world_def event_ids_unique_def
  prize_ids_unique_def

text \<open>C1: Any number of \<open>transitionEvent\<close> calls, in any order and under any pattern of database
  failures: of the calls that expect the same row in the same status, at most one reports success.
  This is the race the guarded \<open>updateMany\<close> is there for.\<close>

theorem transitionEvent_one_winner:
  assumes "event_ids_unique w"
    and "run_steps (\<lambda>_::unit. transitionEvent) calls w = (oks, w')"
  shows "successes oks calls eventId a \<le> 1"
  using assms by (rule event_writer.at_most_one_success)

theorem transitionEvent_one_winner_witness:
  "fst (run_steps (\<lambda>_::unit. transitionEvent)
      [((), js ''ev'', LIVE, JUDGING), ((), js ''ev'', LIVE, CANCELLED)] (one_event_world LIVE PENDING))
     = [True, False] \<and>
   successes [True, False]
      [((), js ''ev'', LIVE, JUDGING), ((), js ''ev'', LIVE, CANCELLED)] (js ''ev'') LIVE \<le> 1"
proof -
  let ?calls = "[((), js ''ev'', LIVE, JUDGING), ((), js ''ev'', LIVE, CANCELLED)]"
  let ?w = "one_event_world LIVE PENDING"
  have oks: "fst (run_steps (\<lambda>_::unit. transitionEvent) ?calls ?w) = [True, False]"
    by code_simp
  have "event_ids_unique ?w"
    by (simp add: concrete_world_simps)
  then have "successes (fst (run_steps (\<lambda>_::unit. transitionEvent) ?calls ?w)) ?calls (js ''ev'') LIVE \<le> 1"
    using transitionEvent_one_winner by (metis prod.collapse)
  then show ?thesis
    unfolding oks by simp
qed

text \<open>A closed event stays closed: from \<open>COMPLETED\<close> or \<open>CANCELLED\<close> no run of \<open>transitionEvent\<close>
  calls changes the status, whatever they ask for.\<close>

theorem closed_event_stays_closed:
  assumes "event_ids_unique w"
    and "run_steps (\<lambda>_::unit. transitionEvent) calls w = (oks, w')"
    and "event_status_of w eventId = Some s" and "s = COMPLETED \<or> s = CANCELLED"
  shows "event_status_of w' eventId = Some s"
  using event_writer.terminal_stays [OF assms(1-3)] assms(4) event_terminal_iff by blast

theorem closed_event_stays_closed_witness:
  "event_status_of (snd (run_steps (\<lambda>_::unit. transitionEvent)
      [((), js ''ev'', COMPLETED, LIVE), ((), js ''ev'', DRAFT, CREATED)]
      (one_event_world COMPLETED PENDING))) (js ''ev'') = Some COMPLETED"
proof -
  let ?w = "one_event_world COMPLETED PENDING"
  let ?calls = "[((), js ''ev'', COMPLETED, LIVE), ((), js ''ev'', DRAFT, CREATED)]"
  have "event_ids_unique ?w" and "event_status_of ?w (js ''ev'') = Some COMPLETED"
    by (simp_all add: concrete_world_simps event_status_of_def status_map_def find_unique_def)
  then show ?thesis
    using closed_event_stays_closed [of ?w ?calls _ _ "js ''ev''" COMPLETED]
    by (metis prod.collapse)
qed

text \<open>Every run of \<open>transitionPrize\<close> calls keeps the release record: a \<open>RELEASED\<close> prize has its
  \<open>releasedAt\<close>, and no prize that is pending, assigned or disputed has a release time or hash.\<close>

theorem prize_release_recorded:
  assumes "list_all release_recorded (prizes w)"
    and "run_steps (\<lambda>h i a b. transitionPrize i a b h) calls w = (oks, w')"
  shows "list_all release_recorded (prizes w')"
  using assms
  by (rule run_steps_keeps [where Q = "\<lambda>w. list_all release_recorded (prizes w)", rotated])
    (rule transitionPrize_recorded)

theorem prize_release_recorded_witness:
  "list_all release_recorded (prizes (snd (run_steps (\<lambda>h i a b. transitionPrize i a b h)
      [(None, js ''pz'', PENDING, ASSIGNED), (Some (js ''aa''), js ''pz'', ASSIGNED, RELEASED)]
      (one_event_world JUDGING PENDING))))"
proof -
  have "list_all release_recorded (prizes (one_event_world JUDGING PENDING))"
    by (simp add: concrete_world_simps release_recorded_def)
  then show ?thesis
    using prize_release_recorded by (metis prod.collapse)
qed

text \<open>What \<open>transitionEvent\<close> does when the database answers: on an allowed move whose row is in
  the expected status it succeeds and rewrites exactly that row's status; on a move the table
  forbids, or a row that is missing or elsewhere, it throws the matching error and writes nothing.\<close>

theorem transitionEvent_behaviour:
  assumes "faults w = []"
  shows "transitionEvent eventId a b w =
    (if \<not> canTransitionEvent a b
     then (Inl (invalid_transition (js ''Event'') (event_status_text a) (event_status_text b)), w)
     else if \<exists>r\<in>set (events w). e_id r = eventId \<and> e_status r = a
     then (Inr (), w\<lparr>events := map (\<lambda>r. if e_id r = eventId \<and> e_status r = a
                                       then r\<lparr>e_status := b\<rparr> else r) (events w)\<rparr>)
     else (Inl (stale_row (js ''Event'') eventId (event_status_text a)), w))"
proof (cases "canTransitionEvent a b")
  case False
  then show ?thesis by (simp add: transitionEvent_def assertEventTransition_def)
next
  case True
  then have ok: "assertEventTransition a b = Inr ()" by simp
  let ?p = "\<lambda>r. e_id r = eventId \<and> e_status r = a" and ?f = "\<lambda>r. r\<lparr>e_status := b\<rparr>"
  have u: "event_updateMany ?p ?f w =
      (Inr (fst (update_many ?p ?f (events w))), w\<lparr>events := snd (update_many ?p ?f (events w))\<rparr>)"
    using assms by (simp add: event_updateMany_def)
  show ?thesis
  proof (cases "\<exists>r\<in>set (events w). ?p r")
    case True
    then have "fst (update_many ?p ?f (events w)) \<noteq> 0"
      by (auto simp: update_many_def filter_empty_conv)
    then have "transitionEvent eventId a b w = (Inr (), w\<lparr>events := snd (update_many ?p ?f (events w))\<rparr>)"
      by (simp add: transitionEvent_def ok u)
    with True \<open>canTransitionEvent a b\<close> show ?thesis by (simp add: update_many_def)
  next
    case False
    then have "fst (update_many ?p ?f (events w)) = 0"
      by (auto simp: update_many_def filter_empty_conv)
    then have "transitionEvent eventId a b w
        = (Inl (stale_row (js ''Event'') eventId (event_status_text a)), w)"
      using update_many_count_0 [of ?p ?f "events w"] by (simp add: transitionEvent_def ok u)
    with False \<open>canTransitionEvent a b\<close> show ?thesis by simp
  qed
qed

theorem transitionEvent_behaviour_witness:
  "fst (transitionEvent (js ''ev'') CREATED LIVE (one_event_world CREATED PENDING)) = Inr ()"
  by (subst transitionEvent_behaviour)
    (simp_all add: concrete_world_simps canTransitionEvent_def)

text \<open>C22: A history of an event from its draft: a list of statuses in which each step is in the
  transition table visits no status twice, makes at most five steps, starts with \<open>CREATED\<close>, and
  reaches \<open>COMPLETED\<close> only out of \<open>JUDGING\<close> or \<open>DISPUTED\<close>.\<close>

theorem event_history:
  assumes "successively canTransitionEvent (DRAFT # ss)"
  shows "distinct (DRAFT # ss) \<and> length ss \<le> 5 \<and> (ss \<noteq> [] \<longrightarrow> hd ss = CREATED) \<and>
    (\<forall>xs s ys. DRAFT # ss = xs @ s # COMPLETED # ys \<longrightarrow> s = JUDGING \<or> s = DISPUTED)"
proof (intro conjI allI impI)
  show "distinct (DRAFT # ss)"
    using assms by (rule event_life.walk_distinct)
  show "length ss \<le> 5"
    using walk_length [OF assms] by simp
  show "ss \<noteq> [] \<Longrightarrow> hd ss = CREATED"
    using assms by (rule walk_from_DRAFT)
  fix xs s ys
  assume "DRAFT # ss = xs @ s # COMPLETED # ys"
  with assms have "canTransitionEvent s COMPLETED"
    by (simp add: successively_append_iff)
  then show "s = JUDGING \<or> s = DISPUTED"
    by (simp add: into_COMPLETED)
qed

theorem event_history_witness:
  "distinct [DRAFT, CREATED, LIVE, JUDGING, DISPUTED, COMPLETED]"
  using event_history [of "[CREATED, LIVE, JUDGING, DISPUTED, COMPLETED]"]
  by (simp add: canTransitionEvent_def)

end
