(* ===== verification/Amounts.thy ===== *)
theory Amounts
  imports Prelude "HOL-Library.Multiset"
begin

text \<open>
  Money as text: \<open>lib/escrow/amount.ts\<close> (decimal USDC to stroops), \<open>formatSmallestUnits\<close> of
  \<open>lib/explorer.ts\<close> (stroops to decimal) and \<open>toStroops\<close> of
  \<open>lib/trustline/verify-trustline.ts\<close> (Horizon's amounts). Stroops are \<open>nat\<close>: a BigInt that
  these functions only ever build from digits. The specification is \<open>is_decimal w f s\<close>, "s spells
  the whole digits w and the fraction digits f", with the value \<open>decimal_value w f\<close>.
\<close>

section \<open>The code\<close>

definition USDC_DECIMALS :: nat where
  "USDC_DECIMALS = 7"

definition SCALE :: nat where
  "SCALE = 10 ^ USDC_DECIMALS"

text \<open>
  The groups of \<open>/^(\d+)(?:\.(\d{1,7}))?$/\<close>. The first group is greedy and a dot is no digit, so the
  split is at the first character that is no digit.
\<close>

definition DECIMAL :: "jstring \<Rightarrow> (jstring \<times> jstring option) option" where
  "DECIMAL s =
     (let w = takeWhile is_digit s
      in if w = [] then None
         else (case dropWhile is_digit s of
                 [] \<Rightarrow> Some (w, None)
               | c # f \<Rightarrow>
                   if c = 46 \<and> 1 \<le> length f \<and> length f \<le> 7 \<and> list_all is_digit f
                   then Some (w, Some f) else None))"

definition parseUsdcAmount :: "jstring \<Rightarrow> nat option" where
  "parseUsdcAmount raw =
     (case DECIMAL (trim raw) of
        None \<Rightarrow> None
      | Some (w, f) \<Rightarrow>
          let whole = bigint_of_digits w;
              frac = (case f of
                        None \<Rightarrow> 0
                      | Some d \<Rightarrow> bigint_of_digits (pad_end d USDC_DECIMALS 48));
              stroops = whole * SCALE + frac
          in if stroops > 0 then Some stroops else None)"

definition not_an_amount :: "jstring \<Rightarrow> exn" where
  "not_an_amount a = PlainError (js ''not a USDC amount: '' @ a)"

text \<open>The \<open>reduce\<close> of \<open>sumUsdcAmounts\<close>, left to right; it throws at the first malformed entry.\<close>

fun sum_from :: "nat \<Rightarrow> jstring list \<Rightarrow> exn + nat" where
  "sum_from acc [] = Inr acc"
| "sum_from acc (a # as) =
     (case parseUsdcAmount a of
        None \<Rightarrow> Inl (not_an_amount a)
      | Some v \<Rightarrow> sum_from (acc + v) as)"

definition sumUsdcAmounts :: "jstring list \<Rightarrow> exn + nat" where
  "sumUsdcAmounts as = sum_from 0 as"

definition strip_zeros :: "jstring \<Rightarrow> jstring" where
  "strip_zeros s = rev (dropWhile (\<lambda>c. c = 48) (rev s))"

definition formatSmallestUnits :: "jstring \<Rightarrow> nat \<Rightarrow> jstring" where
  "formatSmallestUnits amount decimals =
     (let negative = starts_with amount (js ''-'');
          digits = pad_start (if negative then drop 1 amount else amount) (decimals + 1) 48;
          whole = take (length digits - decimals) digits;
          frac = strip_zeros (drop (length digits - decimals) digits)
      in (if negative then js ''-'' else []) @ whole @ (if frac \<noteq> [] then 46 # frac else []))"

definition malformed_amount :: "jstring \<Rightarrow> exn" where
  "malformed_amount v = PlainError (js ''horizon: malformed amount '' @ [34] @ v @ [34])"

definition toStroops :: "jstring option \<Rightarrow> exn + nat" where
  "toStroops v =
     (case v of
        None \<Rightarrow> Inr 0
      | Some s \<Rightarrow>
          if s = [] then Inr 0
          else (case DECIMAL s of
                  None \<Rightarrow> Inl (malformed_amount s)
                | Some (w, f) \<Rightarrow>
                    Inr (bigint_of_digits w * 10000000
                         + bigint_of_digits (pad_end (case f of None \<Rightarrow> [] | Some d \<Rightarrow> d) 7 48))))"

definition trustlineHeadroom ::
    "jstring option \<Rightarrow> jstring option \<Rightarrow> jstring option \<Rightarrow> exn + int" where
  "trustlineHeadroom limit balance buyingLiabilities =
     (case toStroops limit of
        Inl e \<Rightarrow> Inl e
      | Inr l \<Rightarrow>
          (case toStroops balance of
             Inl e \<Rightarrow> Inl e
           | Inr b \<Rightarrow>
               (case toStroops buyingLiabilities of
                  Inl e \<Rightarrow> Inl e
                | Inr u \<Rightarrow> Inr (int l - int b - int u))))"

section \<open>What a decimal spells\<close>

definition is_decimal :: "jstring \<Rightarrow> jstring \<Rightarrow> jstring \<Rightarrow> bool" where
  "is_decimal w f s =
     (w \<noteq> [] \<and> list_all is_digit w \<and> list_all is_digit f \<and> length f \<le> 7 \<and>
      s = w @ (if f = [] then [] else 46 # f))"

definition decimal_value :: "jstring \<Rightarrow> jstring \<Rightarrow> nat" where
  "decimal_value w f = bigint_of_digits w * 10 ^ 7 + bigint_of_digits f * 10 ^ (7 - length f)"

lemma dot_not_digit [simp]: "\<not> is_digit 46"
  by (simp add: is_digit_def)

lemma takeWhile_digits: "list_all is_digit w \<Longrightarrow> takeWhile is_digit (w @ s) = w @ takeWhile is_digit s"
  by (induction w) auto

lemma dropWhile_digits: "list_all is_digit w \<Longrightarrow> dropWhile is_digit (w @ s) = dropWhile is_digit s"
  by (induction w) auto

lemma list_all_takeWhile: "list_all P (takeWhile P s)"
  by (induction s) auto

lemma DECIMAL_spelled:
  assumes "is_decimal w f s"
  shows "DECIMAL s = Some (w, if f = [] then None else Some f)"
proof -
  have tw: "takeWhile is_digit s = w" and dw: "dropWhile is_digit s = (if f = [] then [] else 46 # f)"
    using assms by (auto simp: is_decimal_def takeWhile_digits dropWhile_digits)
  show ?thesis
    unfolding DECIMAL_def Let_def tw dw using assms by (cases f) (simp_all add: is_decimal_def)
qed

lemma DECIMAL_Some:
  assumes "DECIMAL s = Some (w, g)"
  shows "is_decimal w (case g of None \<Rightarrow> [] | Some f \<Rightarrow> f) s \<and> g \<noteq> Some []"
proof -
  have w: "takeWhile is_digit s = w" "w \<noteq> []"
    using assms by (auto simp: DECIMAL_def Let_def split: if_splits list.splits)
  have digits: "list_all is_digit w"
    unfolding w(1) [symmetric] by (rule list_all_takeWhile)
  have s: "s = w @ dropWhile is_digit s"
    unfolding w(1) [symmetric] by simp
  show ?thesis
  proof (cases "dropWhile is_digit s")
    case Nil
    with assms w have "g = None" by (simp add: DECIMAL_def Let_def)
    with w digits s Nil show ?thesis by (simp add: is_decimal_def)
  next
    case (Cons c f)
    with assms w have "g = Some f" "c = 46" "1 \<le> length f" "length f \<le> 7" "list_all is_digit f"
      by (auto simp: DECIMAL_def Let_def split: if_splits)
    with w digits s Cons show ?thesis by (auto simp: is_decimal_def)
  qed
qed

lemma pad_end_value:
  "length f \<le> 7 \<Longrightarrow> bigint_of_digits (pad_end f 7 48) = bigint_of_digits f * 10 ^ (7 - length f)"
  by (simp add: pad_end_def bigint_of_digits_trail_zeros)

lemma parseUsdcAmount_spelled:
  assumes "is_decimal w f (trim raw)"
  shows "parseUsdcAmount raw = (if decimal_value w f > 0 then Some (decimal_value w f) else None)"
  using DECIMAL_spelled [OF assms] assms
  by (simp add: parseUsdcAmount_def decimal_value_def SCALE_def USDC_DECIMALS_def Let_def
      pad_end_value is_decimal_def)

lemma parseUsdcAmount_not_spelled:
  assumes "\<nexists>w f. is_decimal w f (trim raw)"
  shows "parseUsdcAmount raw = None"
proof -
  have "DECIMAL (trim raw) = None"
    using assms DECIMAL_Some by (metis not_None_eq surj_pair)
  then show ?thesis by (simp add: parseUsdcAmount_def)
qed

lemma parse_iff:
  "parseUsdcAmount raw = Some n \<longleftrightarrow>
     (\<exists>w f. is_decimal w f (trim raw) \<and> n = decimal_value w f \<and> 0 < n)"
  using parseUsdcAmount_spelled parseUsdcAmount_not_spelled
  by (metis option.distinct(1) option.inject)

lemma toStroops_spelled:
  assumes "is_decimal w f s"
  shows "toStroops (Some s) = Inr (decimal_value w f)"
proof -
  have "s \<noteq> []" using assms by (auto simp: is_decimal_def)
  then show ?thesis
    using DECIMAL_spelled [OF assms] assms
    by (auto simp: toStroops_def decimal_value_def pad_end_value is_decimal_def)
qed

lemma toStroops_Some_iff:
  assumes "s \<noteq> []"
  shows "toStroops (Some s) = Inr n \<longleftrightarrow> (\<exists>w f. is_decimal w f s \<and> n = decimal_value w f)"
proof
  assume t: "toStroops (Some s) = Inr n"
  then obtain w g where "DECIMAL s = Some (w, g)"
    using assms by (auto simp: toStroops_def split: option.splits)
  then have d: "is_decimal w (case g of None \<Rightarrow> [] | Some f \<Rightarrow> f) s"
    using DECIMAL_Some by blast
  with t show "\<exists>w f. is_decimal w f s \<and> n = decimal_value w f"
    using toStroops_spelled [OF d] by auto
next
  assume "\<exists>w f. is_decimal w f s \<and> n = decimal_value w f"
  then show "toStroops (Some s) = Inr n"
    using toStroops_spelled by blast
qed

section \<open>Formatting\<close>

text \<open>Stripping zeros and what they were worth.\<close>

lemma strip_zeros_split: "s = strip_zeros s @ replicate (length s - length (strip_zeros s)) 48"
proof -
  let ?t = "takeWhile (\<lambda>c. c = 48) (rev s)"
  have t: "?t = replicate (length ?t) 48"
    by (rule replicate_length_same [symmetric]) (auto dest: set_takeWhileD)
  have "rev s = ?t @ dropWhile (\<lambda>c. c = 48) (rev s)"
    by simp
  then have s: "s = strip_zeros s @ rev ?t"
    unfolding strip_zeros_def by (metis rev_append rev_rev_ident)
  moreover have "rev ?t = replicate (length ?t) 48"
    by (subst t) simp
  moreover have "length s - length (strip_zeros s) = length ?t"
    using arg_cong [OF s, of length] by simp
  ultimately show ?thesis by simp
qed

lemma strip_zeros_digits: "list_all is_digit s \<Longrightarrow> list_all is_digit (strip_zeros s)"
  by (metis list_all_append strip_zeros_split)

lemma strip_zeros_length: "length (strip_zeros s) \<le> length s"
  using arg_cong [OF strip_zeros_split [of s], of length] by simp

lemma strip_zeros_value:
  assumes "length s = 7"
  shows "bigint_of_digits (strip_zeros s) * 10 ^ (7 - length (strip_zeros s)) = bigint_of_digits s"
  using arg_cong [OF strip_zeros_split [of s], of bigint_of_digits] assms
  by (simp add: bigint_of_digits_trail_zeros)

lemma strip_zeros_last: "strip_zeros s \<noteq> [] \<Longrightarrow> last (strip_zeros s) \<noteq> 48"
  unfolding strip_zeros_def by (metis (mono_tags) hd_dropWhile last_rev rev.simps(1) rev_rev_ident)

text \<open>The whole and fraction digits \<open>formatSmallestUnits\<close> writes for a number of stroops.\<close>

definition padded :: "nat \<Rightarrow> jstring" where
  "padded n = pad_start (bigint_to_string n) 8 48"

definition whole_part :: "nat \<Rightarrow> jstring" where
  "whole_part n = take (length (padded n) - 7) (padded n)"

definition frac_part :: "nat \<Rightarrow> jstring" where
  "frac_part n = strip_zeros (drop (length (padded n) - 7) (padded n))"

lemma length_padded: "8 \<le> length (padded n)"
  by (simp add: padded_def pad_start_def)

lemma padded_digits: "list_all is_digit (padded n)"
  by (simp add: padded_def pad_start_def bigint_to_string_digits)
    (simp add: list_all_iff is_digit_def)

lemma padded_value: "bigint_of_digits (padded n) = n"
  by (simp add: padded_def pad_start_def)

lemma not_minus: "\<not> starts_with (bigint_to_string n) [45]"
proof -
  have "is_digit (hd (bigint_to_string n))"
    using bigint_to_string_digits [of n] by (cases "bigint_to_string n") auto
  then show ?thesis
    by (cases "bigint_to_string n") (auto simp: starts_with_def is_digit_def)
qed

lemma format_nat:
  "formatSmallestUnits (bigint_to_string n) 7 =
     whole_part n @ (if frac_part n = [] then [] else 46 # frac_part n)"
  by (simp add: formatSmallestUnits_def not_minus whole_part_def frac_part_def padded_def Let_def)

lemma format_is_decimal:
  "is_decimal (whole_part n) (frac_part n) (formatSmallestUnits (bigint_to_string n) 7)"
proof -
  have "whole_part n \<noteq> []"
    using length_padded [of n] by (simp add: whole_part_def) (metis list.size(3) not_numeral_le_zero)
  moreover have "list_all is_digit (whole_part n)"
    using padded_digits [of n] by (auto simp: whole_part_def list_all_iff dest: in_set_takeD)
  moreover have "list_all is_digit (frac_part n)"
    using padded_digits [of n]
    unfolding frac_part_def
    by (intro strip_zeros_digits) (auto simp: list_all_iff dest: in_set_dropD)
  moreover have "length (frac_part n) \<le> 7"
    using strip_zeros_length [of "drop (length (padded n) - 7) (padded n)"] length_padded [of n]
    by (simp add: frac_part_def)
  ultimately show ?thesis
    by (simp add: is_decimal_def format_nat)
qed

lemma format_value: "decimal_value (whole_part n) (frac_part n) = n"
proof -
  let ?f = "drop (length (padded n) - 7) (padded n)"
  have f: "length ?f = 7" using length_padded [of n] by simp
  have "decimal_value (whole_part n) (frac_part n)
      = bigint_of_digits (whole_part n) * 10 ^ length ?f + bigint_of_digits ?f"
    using strip_zeros_value [OF f] f by (simp add: decimal_value_def frac_part_def)
  also have "\<dots> = bigint_of_digits (whole_part n @ ?f)"
    by (simp only: bigint_of_digits_append)
  also have "whole_part n @ ?f = padded n"
    by (simp add: whole_part_def)
  finally show ?thesis by (simp add: padded_value)
qed

lemma decimal_no_space:
  assumes "is_decimal w f s"
  shows "trim s = s"
proof (rule trim_all_nonspace)
  have "\<forall>c\<in>set s. is_digit c \<or> c = 46"
    using assms by (auto simp: is_decimal_def list_all_iff split: if_splits)
  moreover have "\<not> js_space 46" by (simp add: js_space_def)
  ultimately show "\<forall>c\<in>set s. \<not> js_space c"
    using digit_not_space by metis
qed

lemma toStroops_format: "toStroops (Some (formatSmallestUnits (bigint_to_string n) 7)) = Inr n"
  using toStroops_spelled [OF format_is_decimal] by (simp add: format_value)

lemma parse_format:
  "parseUsdcAmount (formatSmallestUnits (bigint_to_string n) 7) = (if n > 0 then Some n else None)"
proof -
  let ?s = "formatSmallestUnits (bigint_to_string n) 7"
  have "is_decimal (whole_part n) (frac_part n) (trim ?s)"
    by (simp only: decimal_no_space [OF format_is_decimal] format_is_decimal)
  from parseUsdcAmount_spelled [OF this] show ?thesis
    by (simp only: format_value)
qed

section \<open>Sums\<close>

lemma sum_from_ok:
  "sum_from acc as = Inr t \<longleftrightarrow>
     (\<exists>vs. map parseUsdcAmount as = map Some vs \<and> t = acc + sum_list vs)"
proof (induction as arbitrary: acc)
  case Nil
  then show ?case by auto
next
  case (Cons a as)
  show ?case
  proof (cases "parseUsdcAmount a")
    case None
    then show ?thesis by (auto simp: Cons_eq_map_conv)
  next
    case (Some v)
    with Cons.IH show ?thesis
      by (auto simp: Cons_eq_map_conv)
  qed
qed

text \<open>It throws exactly when some entry is malformed, and names the first such entry.\<close>

lemma sum_from_throws:
  "sum_from acc as = Inl e \<longleftrightarrow>
     (\<exists>a. List.find (\<lambda>x. parseUsdcAmount x = None) as = Some a \<and> e = not_an_amount a)"
  by (induction as arbitrary: acc) (auto split: option.splits)

section \<open>Properties\<close>

text \<open>C1: Formatting and parsing money round-trip: for every positive number of stroops, the decimal
  text \<open>formatSmallestUnits\<close> shows is one \<open>parseUsdcAmount\<close> reads back as exactly that number. No
  width bound: BigInts do not overflow.\<close>

theorem format_parse_roundtrip:
  assumes "0 < n"
  shows "parseUsdcAmount (formatSmallestUnits (bigint_to_string n) USDC_DECIMALS) = Some n"
  using assms by (simp add: parse_format USDC_DECIMALS_def)

theorem format_parse_roundtrip_witness:
  "formatSmallestUnits (bigint_to_string 25000000) USDC_DECIMALS = js ''2.5'' \<and>
   parseUsdcAmount (js ''2.5'') = Some 25000000"
proof -
  have f: "formatSmallestUnits (bigint_to_string 25000000) USDC_DECIMALS = js ''2.5''"
    by (simp add: formatSmallestUnits_def starts_with_def pad_start_def strip_zeros_def Let_def
        USDC_DECIMALS_def)
  have "parseUsdcAmount (formatSmallestUnits (bigint_to_string 25000000) USDC_DECIMALS) = Some 25000000"
    by (rule format_parse_roundtrip) simp
  with f show ?thesis by simp
qed

text \<open>C23: Exactly which strings are USDC amounts: \<open>parseUsdcAmount\<close> returns n just when the trimmed
  text is one or more digits, optionally followed by a dot and one to seven digits, its value in
  ten-millionths is n, and n is positive.\<close>

theorem parseUsdcAmount_exact:
  "parseUsdcAmount raw = Some n \<longleftrightarrow>
     0 < n \<and>
     (\<exists>w f. w \<noteq> [] \<and> list_all is_digit w \<and> list_all is_digit f \<and> length f \<le> 7 \<and>
        trim raw = w @ (if f = [] then [] else 46 # f) \<and>
        n = bigint_of_digits w * 10 ^ 7 + bigint_of_digits f * 10 ^ (7 - length f))"
  by (auto simp: parse_iff is_decimal_def decimal_value_def)

text \<open>Summing prize amounts: the sum is the exact sum of the parsed entries if every entry is an
  amount, and otherwise the call throws for the first malformed entry; the order of the entries
  does not change a successful sum.\<close>

theorem sumUsdcAmounts_exact:
  "(sumUsdcAmounts as = Inr t \<longleftrightarrow>
      (\<exists>vs. map parseUsdcAmount as = map Some vs \<and> t = sum_list vs)) \<and>
   (sumUsdcAmounts as = Inl e \<longleftrightarrow>
      (\<exists>a. List.find (\<lambda>x. parseUsdcAmount x = None) as = Some a \<and> e = not_an_amount a))"
  using sum_from_ok [of 0 as t] sum_from_throws [of 0 as e] by (simp add: sumUsdcAmounts_def)

text \<open>The two parsers of decimal amounts agree: on a trimmed, non-empty text, the web form's
  \<open>parseUsdcAmount\<close> accepts exactly the texts Horizon's \<open>toStroops\<close> accepts with a positive
  value, and they give the same number of stroops.\<close>

theorem parsers_agree:
  assumes "trim raw \<noteq> []"
  shows "parseUsdcAmount raw = Some n \<longleftrightarrow> toStroops (Some (trim raw)) = Inr n \<and> 0 < n"
  unfolding toStroops_Some_iff [OF assms] parse_iff by blast

theorem parsers_agree_witness:
  "parseUsdcAmount (js '' 1.05 '') = Some 10500000 \<and>
   toStroops (Some (trim (js '' 1.05 ''))) = Inr 10500000"
proof -
  have t: "trim (js '' 1.05 '') = js ''1.05''"
    by (simp add: trim_def trimStart_def trimEnd_def js_space_def)
  have d: "is_decimal (js ''1'') (js ''05'') (js ''1.05'')"
    by (simp add: is_decimal_def is_digit_def)
  have v: "decimal_value (js ''1'') (js ''05'') = 10500000"
    by (simp add: decimal_value_def bigint_of_digits_def)
  have p: "parseUsdcAmount (js '' 1.05 '') = Some 10500000"
    unfolding parse_iff t using d v by force
  have "trim (js '' 1.05 '') \<noteq> []"
    unfolding t by simp
  from parsers_agree [OF this] p show ?thesis by simp
qed

text \<open>The headroom of a trustline is exact: when it spells three decimals within Horizon's
  limits, \<open>trustlineHeadroom\<close> is limit minus balance minus buying liabilities in stroops, and a
  missing or empty field counts as zero.\<close>

theorem trustlineHeadroom_exact:
  assumes "is_decimal lw lf limit" and "is_decimal bw bf balance"
    and "u = None \<or> u = Some [] \<or> (\<exists>w f s. u = Some s \<and> is_decimal w f s \<and> decimal_value w f = l)"
    and "u = None \<or> u = Some [] \<Longrightarrow> l = 0"
  shows "trustlineHeadroom (Some limit) (Some balance) u =
     Inr (int (decimal_value lw lf) - int (decimal_value bw bf) - int l)"
proof -
  have "toStroops u = Inr l"
    using assms(3,4) toStroops_spelled by (auto simp: toStroops_def)
  then show ?thesis
    using toStroops_spelled [OF assms(1)] toStroops_spelled [OF assms(2)]
    by (simp add: trustlineHeadroom_def)
qed

theorem trustlineHeadroom_exact_witness:
  "trustlineHeadroom (Some (js ''922337203685.4775807'')) (Some (js ''2'')) None
     = Inr 9223372036834775807"
proof -
  have l: "is_decimal (js ''922337203685'') (js ''4775807'') (js ''922337203685.4775807'')"
    and b: "is_decimal (js ''2'') [] (js ''2'')"
    by (simp_all add: is_decimal_def is_digit_def)
  have v: "decimal_value (js ''922337203685'') (js ''4775807'') = 9223372036854775807"
    "decimal_value (js ''2'') [] = 20000000"
    by (simp_all add: decimal_value_def bigint_of_digits_def)
  show ?thesis
    using trustlineHeadroom_exact [OF l b, where u = None and l = 0] unfolding v by simp
qed

end
