(* ===== verification/Op_Pipeline.thy ===== *)
theory Op_Pipeline
  imports Store
begin

text \<open>
  \<open>lib/escrow/idempotency.ts\<close> and \<open>lib/escrow/pipeline.ts\<close>: the operation log that makes building
  and submitting a transaction idempotent per key. The pure decisions come first, then the two
  operations over the \<open>op_log\<close> table, and then the same operations query by query, for calls that
  overlap (\<open>op_advance\<close>, \<open>op_run\<close>). \<open>build\<close> and \<open>submit\<close>, the callbacks the caller passes, are
  arguments of the definitions; what they do to the rest of the state (the type variable of
  \<open>op_world_scheme\<close>) is theirs. A JSON payload \<open>{ request, result }\<close> is the pair of columns
  \<open>o_request\<close> and \<open>o_result\<close>, the request kept as the text the caller passed.
\<close>

section \<open>The decisions\<close>

datatype OpStatus = OP_PENDING | OP_SUCCEEDED | OP_FAILED

record StoredResult =
  sr_txHash :: jstring
  sr_contractId :: "jstring option"

datatype op_result = Stored StoredResult | StoredError jstring

record op_row =
  o_key :: jstring
  o_operation :: jstring
  o_status :: OpStatus
  o_request :: "jstring option"
  o_result :: "op_result option"

record OpRecord =
  rec_status :: OpStatus
  rec_txHash :: "jstring option"
  rec_contractId :: "jstring option"

datatype PrepareDecision = Build | PrepareAlreadySucceeded jstring "jstring option"

datatype SubmitDecision = Submit | SubmitAlreadySucceeded jstring "jstring option"

text \<open>A string is truthy when it is present and not empty.\<close>

definition truthy :: "jstring option \<Rightarrow> bool" where
  "truthy s = (case s of None \<Rightarrow> False | Some t \<Rightarrow> t \<noteq> [])"

definition decidePrepare :: "OpRecord option \<Rightarrow> PrepareDecision" where
  "decidePrepare existing =
     (case existing of
        None \<Rightarrow> Build
      | Some r \<Rightarrow>
          if rec_status r = OP_SUCCEEDED \<and> truthy (rec_txHash r)
          then PrepareAlreadySucceeded (the (rec_txHash r)) (rec_contractId r)
          else Build)"

definition no_record :: exn where
  "no_record = PlainError (js ''No operation record found for this idempotency key '' @ [8212]
     @ js '' prepareOperation must run before submitOperation'')"

definition decideSubmit :: "OpRecord option \<Rightarrow> exn + SubmitDecision" where
  "decideSubmit existing =
     (case existing of
        None \<Rightarrow> Inl no_record
      | Some r \<Rightarrow>
          if rec_status r = OP_SUCCEEDED \<and> truthy (rec_txHash r)
          then Inr (SubmitAlreadySucceeded (the (rec_txHash r)) (rec_contractId r))
          else Inr Submit)"

definition toOpRecord :: "op_row option \<Rightarrow> OpRecord option" where
  "toOpRecord row =
     (case row of
        None \<Rightarrow> None
      | Some r \<Rightarrow>
          let result = (case o_result r of Some (Stored s) \<Rightarrow> Some s | _ \<Rightarrow> None)
          in Some \<lparr>rec_status = o_status r, rec_txHash = map_option sr_txHash result,
                   rec_contractId = Option.bind result sr_contractId\<rparr>)"

section \<open>The operations\<close>

record op_world = io +
  op_log :: "op_row list"

definition op_findUnique :: "jstring \<Rightarrow> ('z op_world_scheme, op_row option) action" where
  "op_findUnique key = db_call (read_state (\<lambda>w. find_unique (\<lambda>r. o_key r = key) (op_log w)))"

definition op_update :: "jstring \<Rightarrow> (op_row \<Rightarrow> op_row) \<Rightarrow> ('z op_world_scheme, unit) action" where
  "op_update key f = db_call (\<lambda>w.
     (case update_unique (\<lambda>r. o_key r = key) f (op_log w) of
        Inl e \<Rightarrow> (Inl e, w)
      | Inr (_, t) \<Rightarrow> (Inr (), w\<lparr>op_log := t\<rparr>)))"

definition op_create :: "op_row \<Rightarrow> ('z op_world_scheme, unit) action" where
  "op_create row = db_call (\<lambda>w.
     (case insert_row (\<lambda>r s. o_key r = o_key s) row (op_log w) of
        Inl e \<Rightarrow> (Inl e, w)
      | Inr t \<Rightarrow> (Inr (), w\<lparr>op_log := t\<rparr>)))"

datatype PrepareResult =
    Prepared jstring
  | PrepareDone jstring "jstring option"

text \<open>
  \<open>prepare_rest\<close> is \<open>prepareOperation\<close> from its first query's answer on: between the two, other
  requests may run.
\<close>

definition is_P2002 :: "exn \<Rightarrow> bool" where
  "is_P2002 e = (case e of PrismaKnownError code _ \<Rightarrow> code = js ''P2002'' | _ \<Rightarrow> False)"

definition prepare_write ::
    "jstring \<Rightarrow> jstring \<Rightarrow> jstring \<Rightarrow> op_row option \<Rightarrow> ('z op_world_scheme, unit) action" where
  "prepare_write key operation request existing =
     (case existing of
        Some _ \<Rightarrow>
          op_update key (\<lambda>r. r\<lparr>o_status := OP_PENDING, o_request := Some request, o_result := None\<rparr>)
      | None \<Rightarrow>
          try_catch
            (op_create \<lparr>o_key = key, o_operation = operation, o_status = OP_PENDING,
               o_request = Some request, o_result = None\<rparr>)
            (\<lambda>e. if \<not> is_P2002 e then throw e else return_value ()))"

definition prepare_rest ::
    "jstring \<Rightarrow> jstring \<Rightarrow> jstring \<Rightarrow> ('z op_world_scheme, jstring) action \<Rightarrow> op_row option \<Rightarrow>
     ('z op_world_scheme, PrepareResult) action" where
  "prepare_rest key operation request build existing =
     (case decidePrepare (toOpRecord existing) of
        PrepareAlreadySucceeded h c \<Rightarrow> return_value (PrepareDone h c)
      | Build \<Rightarrow>
          await (prepare_write key operation request existing)
            (\<lambda>_. await build (\<lambda>unsignedXdr. return_value (Prepared unsignedXdr))))"

definition prepareOperation ::
    "jstring \<Rightarrow> jstring \<Rightarrow> jstring \<Rightarrow> ('z op_world_scheme, jstring) action \<Rightarrow>
     ('z op_world_scheme, PrepareResult) action" where
  "prepareOperation key operation request build =
     await (op_findUnique key) (prepare_rest key operation request build)"

record SubmitOperationResult =
  so_txHash :: jstring
  so_contractId :: "jstring option"
  so_alreadySucceeded :: bool

definition record_success ::
    "jstring \<Rightarrow> jstring option \<Rightarrow> StoredResult \<Rightarrow> ('z op_world_scheme, unit) action" where
  "record_success key priorRequest result =
     op_update key (\<lambda>r. r\<lparr>o_status := OP_SUCCEEDED, o_request := priorRequest,
       o_result := Some (Stored result)\<rparr>)"

definition record_failure ::
    "jstring \<Rightarrow> jstring option \<Rightarrow> exn \<Rightarrow> ('z op_world_scheme, unit) action" where
  "record_failure key priorRequest err =
     op_update key (\<lambda>r. r\<lparr>o_status := OP_FAILED, o_request := priorRequest,
       o_result := Some (StoredError (error_text err))\<rparr>)"

definition submit_rest ::
    "jstring \<Rightarrow> jstring \<Rightarrow> (jstring \<Rightarrow> ('z op_world_scheme, StoredResult) action) \<Rightarrow>
     op_row option \<Rightarrow> ('z op_world_scheme, SubmitOperationResult) action" where
  "submit_rest key signedXdr submit existing =
     await (lift_result (decideSubmit (toOpRecord existing))) (\<lambda>decision.
       case decision of
         SubmitAlreadySucceeded h c \<Rightarrow>
           return_value \<lparr>so_txHash = h, so_contractId = c, so_alreadySucceeded = True\<rparr>
       | Submit \<Rightarrow>
           (let priorRequest = Option.bind existing o_request
            in try_catch
                 (await (submit signedXdr) (\<lambda>result.
                  await (record_success key priorRequest result) (\<lambda>_.
                  return_value \<lparr>so_txHash = sr_txHash result, so_contractId = sr_contractId result,
                                so_alreadySucceeded = False\<rparr>)))
                 (\<lambda>err.
                  await (record_failure key priorRequest err) (\<lambda>_. throw err))))"

definition submitOperation ::
    "jstring \<Rightarrow> jstring \<Rightarrow> (jstring \<Rightarrow> ('z op_world_scheme, StoredResult) action) \<Rightarrow>
     ('z op_world_scheme, SubmitOperationResult) action" where
  "submitOperation key signedXdr submit =
     await (op_findUnique key) (submit_rest key signedXdr submit)"

section \<open>One row of the log\<close>

definition op_lookup :: "'z op_world_scheme \<Rightarrow> jstring \<Rightarrow> op_row option" where
  "op_lookup w key = find_unique (\<lambda>r. o_key r = key) (op_log w)"

definition succeeded_row :: "op_row \<Rightarrow> jstring \<Rightarrow> jstring option \<Rightarrow> bool" where
  "succeeded_row r h c =
     (o_status r = OP_SUCCEEDED \<and> h \<noteq> [] \<and>
      o_result r = Some (Stored \<lparr>sr_txHash = h, sr_contractId = c\<rparr>))"

lemma op_lookup_faults [simp]: "op_lookup (w\<lparr>faults := fs\<rparr>) key = op_lookup w key"
  by (simp add: op_lookup_def)

text \<open>The record that "already succeeded" reads off a row.\<close>

lemma succeeded_record:
  "succeeded_row r h c \<Longrightarrow> toOpRecord (Some r) =
     Some \<lparr>rec_status = OP_SUCCEEDED, rec_txHash = Some h, rec_contractId = c\<rparr>"
  by (simp add: succeeded_row_def toOpRecord_def)

lemma decide_succeeded [simp]:
  "h \<noteq> [] \<Longrightarrow> decidePrepare (Some \<lparr>rec_status = OP_SUCCEEDED, rec_txHash = Some h, rec_contractId = c\<rparr>)
     = PrepareAlreadySucceeded h c"
  "h \<noteq> [] \<Longrightarrow> decideSubmit (Some \<lparr>rec_status = OP_SUCCEEDED, rec_txHash = Some h, rec_contractId = c\<rparr>)
     = Inr (SubmitAlreadySucceeded h c)"
  by (simp_all add: decidePrepare_def decideSubmit_def truthy_def)

lemma keeps_op_findUnique:
  "keeps (\<lambda>w w'. op_lookup w' k = op_lookup w k) (op_findUnique key)"
  unfolding op_findUnique_def by (rule keeps_db_call) (auto simp: keeps_def)

lemma find_map_other:
  assumes "\<And>r. o_key (f r) = o_key r" "k' \<noteq> k"
  shows "List.find (\<lambda>r. o_key r = k) (map (\<lambda>r. if o_key r = k' then f r else r) t)
    = List.find (\<lambda>r. o_key r = k) t"
  using assms by (induction t) auto

lemma keeps_op_update:
  assumes "\<And>r. o_key (f r) = o_key r" "k' \<noteq> k"
  shows "keeps (\<lambda>w w'. op_lookup w' k = op_lookup w k) (op_update k' f)"
proof -
  have *: "List.find (\<lambda>r. o_key r = k) t' = List.find (\<lambda>r. o_key r = k) t"
    if "update_unique (\<lambda>r. o_key r = k') f t = Inr (r', t')" for t t' r'
    using update_unique_Inr [OF that] find_map_other [OF assms] by blast
  show ?thesis
    unfolding op_update_def
    by (rule keeps_db_call) (auto simp: keeps_def op_lookup_def find_unique_def *
        split: sum.splits)
qed

lemma find_append_other:
  "o_key r \<noteq> k \<Longrightarrow> List.find (\<lambda>r. o_key r = k) (t @ [r]) = List.find (\<lambda>r. o_key r = k) t"
  by (induction t) auto

lemma keeps_op_create:
  assumes "o_key r \<noteq> k"
  shows "keeps (\<lambda>w w'. op_lookup w' k = op_lookup w k) (op_create r)"
  unfolding op_create_def
  by (rule keeps_db_call)
    (auto simp: keeps_def op_lookup_def find_unique_def find_append_other [OF assms]
      split: sum.splits dest!: insert_row_Inr)

lemma keeps_prepare_write:
  "key \<noteq> k \<Longrightarrow> keeps (\<lambda>w w'. op_lookup w' k = op_lookup w k) (prepare_write key operation request existing)"
  unfolding prepare_write_def
  by (auto split: option.split intro!: keeps_op_update keeps_try_catch keeps_op_create keeps_throw keeps_return)

lemma keeps_record:
  assumes "key \<noteq> k"
  shows "keeps (\<lambda>w w'. op_lookup w' k = op_lookup w k) (record_success key p x)"
    and "keeps (\<lambda>w w'. op_lookup w' k = op_lookup w k) (record_failure key p e)"
  unfolding record_success_def record_failure_def using assms by (auto intro: keeps_op_update)

lemma keeps_submit_other:
  assumes "key \<noteq> k" "keeps (\<lambda>w w'. op_lookup w' k = op_lookup w k) (submit signedXdr)"
  shows "keeps (\<lambda>w w'. op_lookup w' k = op_lookup w k) (submitOperation key signedXdr submit)"
  unfolding submitOperation_def submit_rest_def Let_def
  using assms
  by (intro keeps_await keeps_op_findUnique preorder_same_field)
    (auto split: SubmitDecision.split
      intro!: keeps_await keeps_record keeps_try_catch keeps_throw keeps_return)

lemma op_findUnique_no_fault: "faults w = [] \<Longrightarrow> op_findUnique key w = (Inr (op_lookup w key), w)"
  by (simp add: op_findUnique_def op_lookup_def)

text \<open>The read of a call.\<close>

lemma op_findUnique_cases:
  assumes "op_findUnique key w = (r, w')"
  shows "(\<exists>fs. w' = w\<lparr>faults := fs\<rparr>) \<and> (r = Inr (op_lookup w key) \<or> r = Inl connection_lost)"
  using assms unfolding op_findUnique_def
  by (cases rule: db_callE) (auto simp: op_lookup_def)

section \<open>Calls that overlap\<close>

datatype op_call =
    PrepareCall jstring jstring jstring
  | SubmitCall jstring jstring

fun op_call_key :: "op_call \<Rightarrow> jstring" where
  "op_call_key (PrepareCall key _ _) = key"
| "op_call_key (SubmitCall key _) = key"

datatype op_outcome =
    DidPrepare PrepareResult
  | DidSubmit SubmitOperationResult
  | Threw exn

text \<open>
  Requests run at once: a call is a flight that has read its row, and goes on query by query. \<open>InBuild\<close>
  waits for \<open>build\<close>; \<open>InSubmit\<close> for \<open>submit\<close>, with the request of the row it read; \<open>HasResult\<close> is about
  to record a result, \<open>HasError\<close> an error.
\<close>

datatype op_stage =
    HasRead "op_row option"
  | InBuild
  | InSubmit "jstring option"
  | HasResult "jstring option" StoredResult
  | HasError "jstring option" exn

inductive op_advance ::
    "op_call \<Rightarrow> op_stage \<Rightarrow> 'z op_world_scheme \<Rightarrow> op_stage + op_outcome \<Rightarrow> 'z op_world_scheme \<Rightarrow> bool" where
  prepare_is_done: "decidePrepare (toOpRecord existing) = PrepareAlreadySucceeded h c \<Longrightarrow>
    op_advance (PrepareCall key operation request) (HasRead existing) w (Inr (DidPrepare (PrepareDone h c))) w"
| prepare_writes: "decidePrepare (toOpRecord existing) = Build \<Longrightarrow>
    prepare_write key operation request existing w = (Inr u, w') \<Longrightarrow>
    op_advance (PrepareCall key operation request) (HasRead existing) w (Inl InBuild) w'"
| prepare_breaks: "decidePrepare (toOpRecord existing) = Build \<Longrightarrow>
    prepare_write key operation request existing w = (Inl e, w') \<Longrightarrow>
    op_advance (PrepareCall key operation request) (HasRead existing) w (Inr (Threw e)) w'"
| builds: "op_advance call InBuild w (Inr (DidPrepare (Prepared unsignedXdr))) w"
| build_throws: "op_advance call InBuild w (Inr (Threw e)) w"
| submit_is_refused: "decideSubmit (toOpRecord existing) = Inl e \<Longrightarrow>
    op_advance (SubmitCall key signedXdr) (HasRead existing) w (Inr (Threw e)) w"
| submit_is_done: "decideSubmit (toOpRecord existing) = Inr (SubmitAlreadySucceeded h c) \<Longrightarrow>
    op_advance (SubmitCall key signedXdr) (HasRead existing) w
      (Inr (DidSubmit \<lparr>so_txHash = h, so_contractId = c, so_alreadySucceeded = True\<rparr>)) w"
| submit_goes: "decideSubmit (toOpRecord existing) = Inr Submit \<Longrightarrow>
    op_advance (SubmitCall key signedXdr) (HasRead existing) w (Inl (InSubmit (Option.bind existing o_request))) w"
| submits: "op_advance call (InSubmit p) w (Inl (HasResult p result)) w"
| submit_throws: "op_advance call (InSubmit p) w (Inl (HasError p e)) w"
| success_recorded: "record_success (op_call_key call) p result w = (Inr u, w') \<Longrightarrow>
    op_advance call (HasResult p result) w
      (Inr (DidSubmit \<lparr>so_txHash = sr_txHash result, so_contractId = sr_contractId result,
              so_alreadySucceeded = False\<rparr>)) w'"
| success_breaks: "record_success (op_call_key call) p result w = (Inl e, w') \<Longrightarrow>
    op_advance call (HasResult p result) w (Inl (HasError p e)) w'"
| failure_recorded: "record_failure (op_call_key call) p e w = (Inr u, w') \<Longrightarrow>
    op_advance call (HasError p e) w (Inr (Threw e)) w'"
| failure_breaks: "record_failure (op_call_key call) p e w = (Inl e', w') \<Longrightarrow>
    op_advance call (HasError p e) w (Inr (Threw e')) w'"

inductive_cases op_advance_read: "op_advance call (HasRead existing) w r w'"

text \<open>From a state of the server with some flights to a later one, with the calls answered on the way. What
  is no query of the log leaves it alone.\<close>

inductive op_run ::
    "'z op_world_scheme \<Rightarrow> (op_call \<times> op_stage) list \<Rightarrow> 'z op_world_scheme \<Rightarrow> (op_call \<times> op_stage) list \<Rightarrow>
     (op_call \<times> op_outcome) list \<Rightarrow> bool" for w0 fl0 where
  op_from: "op_run w0 fl0 w0 fl0 []"
| op_begins: "op_run w0 fl0 w fl ds \<Longrightarrow> op_findUnique (op_call_key call) w = (Inr existing, w') \<Longrightarrow>
    op_run w0 fl0 w' (fl @ [(call, HasRead existing)]) ds"
| op_unread: "op_run w0 fl0 w fl ds \<Longrightarrow> op_findUnique (op_call_key call) w = (Inl e, w') \<Longrightarrow>
    op_run w0 fl0 w' fl (ds @ [(call, Threw e)])"
| op_goes_on: "op_run w0 fl0 w fl ds \<Longrightarrow> i < length fl \<Longrightarrow> fl ! i = (call, st) \<Longrightarrow>
    op_advance call st w (Inl st') w' \<Longrightarrow> op_run w0 fl0 w' (fl[i := (call, st')]) ds"
| op_ends: "op_run w0 fl0 w fl ds \<Longrightarrow> i < length fl \<Longrightarrow> fl ! i = (call, st) \<Longrightarrow>
    op_advance call st w (Inr out) w' \<Longrightarrow>
    op_run w0 fl0 w' (take i fl @ drop (Suc i) fl) (ds @ [(call, out)])"
| op_elsewhere: "op_run w0 fl0 w fl ds \<Longrightarrow> op_log w' = op_log w \<Longrightarrow> op_run w0 fl0 w' fl ds"

text \<open>The answers a key may give once it has succeeded: the recorded result, or no connection.\<close>

definition answers_success :: "jstring \<Rightarrow> jstring option \<Rightarrow> op_outcome \<Rightarrow> bool" where
  "answers_success h c out =
     (case out of
        DidPrepare x \<Rightarrow> x = PrepareDone h c
      | DidSubmit x \<Rightarrow> x = \<lparr>so_txHash = h, so_contractId = c, so_alreadySucceeded = True\<rparr>
      | Threw e \<Rightarrow> e = connection_lost)"

lemma op_advance_other:
  assumes "op_advance call st w r w'" "op_call_key call \<noteq> k"
  shows "op_lookup w' k = op_lookup w k"
  using assms
  by (cases rule: op_advance.cases)
    (auto dest: keepsD [OF keeps_prepare_write] keepsD [OF keeps_record(1)] keepsD [OF keeps_record(2)])

lemma op_advance_succeeded:
  assumes "op_advance call (HasRead (Some row)) w r w'" "succeeded_row row h c"
  shows "w' = w \<and> (\<exists>out. r = Inr out \<and> answers_success h c out)"
proof -
  have h: "h \<noteq> []" using assms(2) by (simp add: succeeded_row_def)
  show ?thesis
    using assms(1) h succeeded_record [OF assms(2)]
    by (elim op_advance_read) (auto simp: answers_success_def)
qed

text \<open>Once a row has succeeded: it stays, the flights of its key have read it so, and answers are its.\<close>

definition op_settled ::
    "jstring \<Rightarrow> op_row \<Rightarrow> 'z op_world_scheme \<Rightarrow> (op_call \<times> op_stage) list \<Rightarrow> bool" where
  "op_settled k row w fl \<longleftrightarrow>
     op_lookup w k = Some row \<and> (\<forall>(call, st)\<in>set fl. op_call_key call = k \<longrightarrow> st = HasRead (Some row))"

lemma op_settled_step:
  assumes "op_settled k row w fl" "succeeded_row row h c" "i < length fl" "fl ! i = (call, st)"
    and "op_advance call st w r w'"
  shows "op_lookup w' k = Some row"
    and "op_call_key call = k \<Longrightarrow> \<exists>out. r = Inr out \<and> answers_success h c out"
proof -
  have mem: "(call, st) \<in> set fl" using assms(3,4) by (metis nth_mem)
  have same: "w' = w \<and> (\<exists>out. r = Inr out \<and> answers_success h c out)" if "op_call_key call = k"
  proof (rule op_advance_succeeded [OF _ assms(2)])
    have "st = HasRead (Some row)" using mem assms(1) that unfolding op_settled_def by auto
    then show "op_advance call (HasRead (Some row)) w r w'" using assms(5) by simp
  qed
  then show "op_call_key call = k \<Longrightarrow> \<exists>out. r = Inr out \<and> answers_success h c out" by blast
  show "op_lookup w' k = Some row"
    using same op_advance_other [OF assms(5)] assms(1) unfolding op_settled_def by (cases "op_call_key call = k") auto
qed

lemma op_run_settled:
  assumes "op_run w0 fl0 w fl ds" "op_settled k row w0 fl0" "succeeded_row row h c"
  shows "op_settled k row w fl \<and> (\<forall>(call, out)\<in>set ds. op_call_key call = k \<longrightarrow> answers_success h c out)"
  using assms(1)
proof induction
  case op_from
  with assms(2) show ?case by simp
next
  case (op_begins w fl ds call existing w')
  then show ?case using op_findUnique_cases [OF op_begins(2)] by (auto simp: op_settled_def)
next
  case (op_unread w fl ds call e w')
  then show ?case
    using op_findUnique_cases [OF op_unread(2)] by (auto simp: op_settled_def answers_success_def)
next
  case (op_goes_on w fl ds i call st st' w')
  then have inv: "op_settled k row w fl" by blast
  have "op_call_key call \<noteq> k" using op_settled_step(2) [OF inv assms(3) op_goes_on(2-4)] by blast
  moreover have "set (fl[i := (call, st')]) \<subseteq> insert (call, st') (set fl)" by (rule set_update_subset_insert)
  ultimately show ?case
    using op_goes_on.IH op_settled_step(1) [OF inv assms(3) op_goes_on(2-4)] unfolding op_settled_def by auto
next
  case (op_ends w fl ds i call st out w')
  then have inv: "op_settled k row w fl" by blast
  have "set (take i fl @ drop (Suc i) fl) \<subseteq> set fl" by (auto dest: in_set_takeD in_set_dropD)
  then show ?case
    using op_ends.IH op_settled_step [OF inv assms(3) op_ends(2-4)] unfolding op_settled_def by auto
next
  case (op_elsewhere w fl ds w')
  then show ?case by (simp add: op_settled_def op_lookup_def)
qed

text \<open>A log with one pending row, and callbacks that always answer; where concrete runs start.\<close>

definition one_op_world :: op_world where
  "one_op_world =
     \<lparr>faults = [], clock = 0, uuid_of = bigint_to_string, uuid_next = 0,
      op_log = [\<lparr>o_key = js ''k'', o_operation = js ''release'', o_status = OP_PENDING,
                 o_request = Some (js ''1''), o_result = None\<rparr>]\<rparr>"

definition answering_build :: "(op_world, jstring) action" where
  "answering_build = return_value (js ''xdr'')"

definition answering_submit :: "jstring \<Rightarrow> (op_world, StoredResult) action" where
  "answering_submit xdr = return_value \<lparr>sr_txHash = js ''aa'', sr_contractId = None\<rparr>"

lemma op_update_found:
  assumes "op_lookup w key = Some row" "faults w = []"
  shows "op_update key f w
    = (Inr (), w\<lparr>op_log := map (\<lambda>r. if o_key r = key then f r else r) (op_log w)\<rparr>)"
  using assms by (simp add: op_update_def update_unique_def op_lookup_def find_unique_def)

lemma op_lookup_map:
  assumes "\<And>r. o_key (f r) = o_key r"
  shows "op_lookup (w\<lparr>op_log := map (\<lambda>r. if o_key r = key then f r else r) (op_log w)\<rparr>) key
    = map_option f (op_lookup w key)"
proof -
  have "List.find (\<lambda>r. o_key r = key) (map (\<lambda>r. if o_key r = key then f r else r) t)
    = map_option f (List.find (\<lambda>r. o_key r = key) t)" for t
    by (induction t) (simp_all add: assms)
  then show ?thesis by (simp add: op_lookup_def find_unique_def)
qed

text \<open>
  Two kinds of flight that a success does overtake: a prepare that read the row before writes it back to
  \<open>PENDING\<close>, since its update names the key alone and not the status it read; and a submission that was
  under way writes its own failure over it.
\<close>

lemma stale_prepare_overwrites:
  assumes "op_lookup w key = Some row" "faults w = []" "o_status stale \<noteq> OP_SUCCEEDED"
  shows "\<exists>v row'. op_advance (PrepareCall key operation request) (HasRead (Some stale)) w (Inl InBuild) v \<and>
    op_lookup v key = Some row' \<and> o_status row' = OP_PENDING \<and> o_result row' = None"
proof -
  let ?f = "\<lambda>r. r\<lparr>o_status := OP_PENDING, o_request := Some request, o_result := None\<rparr>"
  have d: "decidePrepare (toOpRecord (Some stale)) = Build"
    using assms(3) by (simp add: decidePrepare_def toOpRecord_def Let_def)
  have "prepare_write key operation request (Some stale) w
      = (Inr (), w\<lparr>op_log := map (\<lambda>r. if o_key r = key then ?f r else r) (op_log w)\<rparr>)"
    using op_update_found [OF assms(1,2), of ?f] by (simp add: prepare_write_def)
  note step = prepare_writes [OF d this]
  have l: "op_lookup (w\<lparr>op_log := map (\<lambda>r. if o_key r = key then ?f r else r) (op_log w)\<rparr>) key = Some (?f row)"
    using op_lookup_map [of ?f key w] assms(1) by simp
  show ?thesis by (rule exI, rule exI [of _ "?f row"], rule conjI [OF step], rule conjI [OF l]) simp
qed

lemma late_failure_overwrites:
  assumes "op_lookup w key = Some row" "faults w = []"
  shows "\<exists>v row'. op_advance (SubmitCall key signedXdr) (HasError p e) w (Inr (Threw e)) v \<and>
    op_lookup v key = Some row' \<and> o_status row' = OP_FAILED"
proof -
  let ?f = "\<lambda>r. r\<lparr>o_status := OP_FAILED, o_request := p, o_result := Some (StoredError (error_text e))\<rparr>"
  have "record_failure (op_call_key (SubmitCall key signedXdr)) p e w
      = (Inr (), w\<lparr>op_log := map (\<lambda>r. if o_key r = key then ?f r else r) (op_log w)\<rparr>)"
    using op_update_found [OF assms, of ?f] by (simp add: record_failure_def)
  note step = failure_recorded [OF this]
  have l: "op_lookup (w\<lparr>op_log := map (\<lambda>r. if o_key r = key then ?f r else r) (op_log w)\<rparr>) key = Some (?f row)"
    using op_lookup_map [of ?f key w] assms(1) by simp
  show ?thesis by (rule exI, rule exI [of _ "?f row"], rule conjI [OF step], rule conjI [OF l]) simp
qed

text \<open>The two operations, called with nothing in between, are such runs.\<close>

lemma one_flight:
  assumes "op_run w0 [] w [(call, st)] ds"
  shows "op_advance call st w (Inl st') w' \<Longrightarrow> op_run w0 [] w' [(call, st')] ds"
    and "op_advance call st w (Inr out) w' \<Longrightarrow> op_run w0 [] w' [] (ds @ [(call, out)])"
  using op_goes_on [OF assms, of 0 call st] op_ends [OF assms, of 0 call st] by simp_all

fun outcome_of :: "('a \<Rightarrow> op_outcome) \<Rightarrow> exn + 'a \<Rightarrow> op_outcome" where
  "outcome_of f (Inl e) = Threw e"
| "outcome_of f (Inr x) = f x"

lemma submitOperation_is_run:
  assumes "submitOperation key signedXdr submit w = (r, w')"
    and "\<And>w. op_log (snd (submit signedXdr w)) = op_log w"
  shows "op_run w [] w' [] [(SubmitCall key signedXdr, outcome_of DidSubmit r)]"
proof -
  let ?c = "SubmitCall key signedXdr"
  obtain q v where q: "op_findUnique (op_call_key ?c) w = (q, v)" by fastforce
  show ?thesis
  proof (cases q)
    case (Inl e)
    then show ?thesis
      using assms(1) q op_unread [OF op_from [of w "[]"], of ?c e v] by (auto simp: submitOperation_def)
  next
    case (Inr existing)
    have read: "op_run w [] v [(?c, HasRead existing)] []"
      using op_begins [OF op_from [of w "[]"], of ?c existing v] q Inr by simp
    have rest: "submit_rest key signedXdr submit existing v = (r, w')"
      using assms(1) q Inr by (simp add: submitOperation_def)
    show ?thesis
    proof (cases "decideSubmit (toOpRecord existing)")
      case d: (Inl e)
      then show ?thesis
        using rest one_flight(2) [OF read submit_is_refused [OF d]] by (auto simp: submit_rest_def)
    next
      case d: (Inr decision)
      show ?thesis
      proof (cases decision)
        case (SubmitAlreadySucceeded h c)
        note d = d [unfolded SubmitAlreadySucceeded]
        then show ?thesis
          using rest one_flight(2) [OF read submit_is_done [OF d]] by (auto simp: submit_rest_def)
      next
        case Submit
        note go = one_flight(1) [OF read submit_goes [OF d [unfolded Submit]]]
        let ?p = "Option.bind existing o_request"
        obtain a u where a: "submit signedXdr v = (a, u)" by fastforce
        then have u: "op_log u = op_log v" using assms(2) [of v] by simp
        have fails: "op_run w [] w' [] [(?c, outcome_of DidSubmit r)]"
          if f: "op_run w [] t [(?c, HasError ?p e)] []" and y: "record_failure key ?p e t = (y, w')"
            and r: "r = (case y of Inl e' \<Rightarrow> Inl e' | Inr _ \<Rightarrow> Inl e)" for t e y
        proof (cases y)
          case (Inl e')
          then show ?thesis using one_flight(2) [OF f failure_breaks, of e' w'] y r by simp
        next
          case (Inr z)
          then show ?thesis using one_flight(2) [OF f failure_recorded, of z w'] y r by simp
        qed
        show ?thesis
        proof (cases a)
          case (Inl e)
          obtain y t where y: "record_failure key ?p e u = (y, t)" by fastforce
          have "op_run w [] u [(?c, HasError ?p e)] []"
            using op_elsewhere [OF one_flight(1) [OF go submit_throws] u] .
          moreover have "t = w'" "r = (case y of Inl e' \<Rightarrow> Inl e' | Inr _ \<Rightarrow> Inl e)"
            using rest d Submit a Inl y by (cases y; auto simp: submit_rest_def Let_def)+
          ultimately show ?thesis using fails y by blast
        next
          case ok: (Inr res)
          have sub: "op_run w [] u [(?c, HasResult ?p res)] []"
            using op_elsewhere [OF one_flight(1) [OF go submits] u] .
          obtain x t where x: "record_success (op_call_key ?c) ?p res u = (x, t)" by fastforce
          show ?thesis
          proof (cases x)
            case (Inl e)
            obtain y t' where y: "record_failure key ?p e t = (y, t')" by fastforce
            have "op_run w [] t [(?c, HasError ?p e)] []"
              using one_flight(1) [OF sub success_breaks] x Inl by blast
            moreover have "t' = w'" "r = (case y of Inl e' \<Rightarrow> Inl e' | Inr _ \<Rightarrow> Inl e)"
              using rest d Submit a ok x Inl y by (cases y; auto simp: submit_rest_def Let_def)+
            ultimately show ?thesis using fails y by blast
          next
            case (Inr z)
            then show ?thesis
              using one_flight(2) [OF sub success_recorded] rest d Submit a ok x
              by (auto simp: submit_rest_def Let_def)
          qed
        qed
      qed
    qed
  qed
qed

lemma prepareOperation_is_run:
  assumes "prepareOperation key operation request build w = (r, w')" and "\<And>w. op_log (snd (build w)) = op_log w"
  shows "op_run w [] w' [] [(PrepareCall key operation request, outcome_of DidPrepare r)]"
proof -
  let ?c = "PrepareCall key operation request"
  obtain q v where q: "op_findUnique (op_call_key ?c) w = (q, v)" by fastforce
  show ?thesis
  proof (cases q)
    case (Inl e)
    then show ?thesis
      using assms(1) q op_unread [OF op_from [of w "[]"], of ?c e v] by (auto simp: prepareOperation_def)
  next
    case (Inr existing)
    have read: "op_run w [] v [(?c, HasRead existing)] []"
      using op_begins [OF op_from [of w "[]"], of ?c existing v] q Inr by simp
    have rest: "prepare_rest key operation request build existing v = (r, w')"
      using assms(1) q Inr by (simp add: prepareOperation_def)
    show ?thesis
    proof (cases "decidePrepare (toOpRecord existing)")
      case (PrepareAlreadySucceeded h c)
      then show ?thesis
        using rest one_flight(2) [OF read prepare_is_done] by (auto simp: prepare_rest_def)
    next
      case Build
      obtain x t where x: "prepare_write key operation request existing v = (x, t)" by fastforce
      show ?thesis
      proof (cases x)
        case (Inl e)
        then show ?thesis
          using rest Build x one_flight(2) [OF read prepare_breaks [OF Build]] by (auto simp: prepare_rest_def)
      next
        case (Inr z)
        have wrote: "op_run w [] t [(?c, InBuild)] []"
          using one_flight(1) [OF read prepare_writes [OF Build]] x Inr by blast
        obtain b u where b: "build t = (b, u)" by fastforce
        then have "op_log u = op_log t" using assms(2) [of t] by simp
        note built = op_elsewhere [OF wrote this]
        show ?thesis
          using rest Build x Inr b one_flight(2) [OF built builds] one_flight(2) [OF built build_throws]
          by (cases b) (auto simp: prepare_rest_def)
      qed
    qed
  qed
qed

text \<open>C18: Success is final for every call that begins after it, however calls overlap: once the row of an
  idempotency key is \<open>SUCCEEDED\<close> with a transaction hash and no call of that key that read an older row
  is under way, any number of \<open>prepareOperation\<close> and \<open>submitOperation\<close> calls, of any keys, interleaved
  query by query and under any database failures, leave the row as it is; every answer to a call of that
  key is the recorded hash (or a lost connection), and none of its calls builds, submits or writes
  again. The condition on the calls under way is needed: a prepare that read the row before it
  succeeded sets it back to \<open>PENDING\<close>, and a submission that was under way sets it to \<open>FAILED\<close>.\<close>

theorem op_success_is_final:
  assumes "op_run w0 fl0 w fl ds" and "op_lookup w0 k = Some row" and "succeeded_row row h c"
    and "\<forall>(call, st)\<in>set fl0. op_call_key call = k \<longrightarrow> st = HasRead (Some row)"
  shows "op_lookup w k = Some row
    \<and> (\<forall>(call, st)\<in>set fl. op_call_key call = k \<longrightarrow> st = HasRead (Some row))
    \<and> (\<forall>(call, out)\<in>set ds. op_call_key call = k \<longrightarrow> answers_success h c out)
    \<and> (faults w0 = [] \<longrightarrow>
        (\<forall>stale operation request. o_status stale \<noteq> OP_SUCCEEDED \<longrightarrow>
          (\<exists>v row'. op_advance (PrepareCall k operation request) (HasRead (Some stale)) w0 (Inl InBuild) v \<and>
             op_lookup v k = Some row' \<and> o_status row' = OP_PENDING \<and> o_result row' = None)) \<and>
        (\<forall>signedXdr p e.
          (\<exists>v row'. op_advance (SubmitCall k signedXdr) (HasError p e) w0 (Inr (Threw e)) v \<and>
             op_lookup v k = Some row' \<and> o_status row' = OP_FAILED)))"
proof (intro conjI impI allI)
  have s: "op_settled k row w0 fl0" unfolding op_settled_def using assms(2,4) by (rule conjI)
  note run = op_run_settled [OF assms(1) s assms(3)]
  then show "op_lookup w k = Some row"
    and "\<forall>(call, st)\<in>set fl. op_call_key call = k \<longrightarrow> st = HasRead (Some row)"
    unfolding op_settled_def by blast+
  show "\<forall>(call, out)\<in>set ds. op_call_key call = k \<longrightarrow> answers_success h c out" using run by blast
  show "\<exists>v row'. op_advance (PrepareCall k operation request) (HasRead (Some stale)) w0 (Inl InBuild) v \<and>
             op_lookup v k = Some row' \<and> o_status row' = OP_PENDING \<and> o_result row' = None"
    if "faults w0 = []" "o_status stale \<noteq> OP_SUCCEEDED" for stale operation request
    using assms(2) that by (rule stale_prepare_overwrites)
  show "\<exists>v row'. op_advance (SubmitCall k signedXdr) (HasError p e) w0 (Inr (Threw e)) v \<and>
             op_lookup v k = Some row' \<and> o_status row' = OP_FAILED"
    if "faults w0 = []" for signedXdr p e
    using assms(2) that by (rule late_failure_overwrites)
qed

text \<open>Two calls that overlap after a success.\<close>

definition won_row :: op_row where
  "won_row = \<lparr>o_key = js ''k'', o_operation = js ''release'', o_status = OP_SUCCEEDED, o_request = Some (js ''1''),
     o_result = Some (Stored \<lparr>sr_txHash = js ''aa'', sr_contractId = None\<rparr>)\<rparr>"

definition won_world :: op_world where
  "won_world = one_op_world\<lparr>op_log := [won_row]\<rparr>"

theorem op_success_is_final_witness:
  "op_log (snd (submitOperation (js ''k'') (js ''signed'') answering_submit one_op_world)) = op_log won_world \<and>
   (\<exists>w ds. op_run won_world [] w [] ds \<and>
     map fst ds = [PrepareCall (js ''k'') (js ''release'') (js ''2''), SubmitCall (js ''k'') (js ''signed'')] \<and>
     op_lookup w (js ''k'') = Some won_row \<and>
     (\<forall>(call, out)\<in>set ds. op_call_key call = js ''k'' \<longrightarrow> answers_success (js ''aa'') None out))"
proof -
  let ?s = "SubmitCall (js ''k'') (js ''signed'')" and ?p = "PrepareCall (js ''k'') (js ''release'') (js ''2'')"
  let ?w = won_world and ?st = "HasRead (Some won_row)"
  let ?po = "DidPrepare (PrepareDone (js ''aa'') None)"
  let ?so = "DidSubmit \<lparr>so_txHash = js ''aa'', so_contractId = None, so_alreadySucceeded = True\<rparr>"
  have row: "op_lookup ?w (js ''k'') = Some won_row" and good: "succeeded_row won_row (js ''aa'') None"
    by (simp_all add: op_lookup_def won_world_def one_op_world_def find_unique_def won_row_def succeeded_row_def)
  have read: "op_findUnique (op_call_key ?s) ?w = (Inr (Some won_row), ?w)"
    "op_findUnique (op_call_key ?p) ?w = (Inr (Some won_row), ?w)"
    using row by (simp_all add: op_findUnique_def op_lookup_def won_world_def one_op_world_def)
  have d: "decidePrepare (toOpRecord (Some won_row)) = PrepareAlreadySucceeded (js ''aa'') None"
    "decideSubmit (toOpRecord (Some won_row)) = Inr (SubmitAlreadySucceeded (js ''aa'') None)"
    using succeeded_record [OF good] by simp_all
  have run0: "op_run ?w [] ?w [(?s, ?st), (?p, ?st)] []"
    using op_begins [OF op_begins [OF op_from [of ?w "[]"] read(1)] read(2)] by (simp del: js_Cons)
  have run1: "op_run ?w [] ?w [(?s, ?st)] [(?p, ?po)]"
    using op_ends [OF run0, of 1 ?p ?st, OF _ _ prepare_is_done [OF d(1)]] by (simp del: js_Cons)
  have run: "op_run ?w [] ?w [] ([(?p, ?po)] @ [(?s, ?so)])"
    using one_flight(2) [OF run1 submit_is_done [OF d(2)]] .
  have "\<forall>(call, out)\<in>set ([(?p, ?po)] @ [(?s, ?so)]). op_call_key call = js ''k'' \<longrightarrow> answers_success (js ''aa'') None out"
    using op_success_is_final [OF run row good] by simp
  moreover have "op_log (snd (submitOperation (js ''k'') (js ''signed'') answering_submit one_op_world)) = op_log won_world"
    by code_simp
  ultimately show ?thesis
    using run row by (intro conjI exI [of _ ?w] exI [of _ "[(?p, ?po)] @ [(?s, ?so)]"]) simp_all
qed

section \<open>What submitOperation records\<close>

lemma op_update_cases:
  assumes "op_update key f w = (r, w')" "op_lookup w key = Some row" "\<And>r. o_key (f r) = o_key r"
  shows "r = Inr () \<and> op_lookup w' key = Some (f row) \<or>
    r = Inl connection_lost \<and> faults w \<noteq> [] \<and> (op_lookup w' key = Some row \<or> op_lookup w' key = Some (f row))"
proof -
  let ?m = "\<lambda>w. case update_unique (\<lambda>r. o_key r = key) f (op_log w) of
        Inl e \<Rightarrow> (Inl e, w)
      | Inr (_, t) \<Rightarrow> (Inr (), w\<lparr>op_log := t\<rparr>)"
  have m: "?m (w\<lparr>faults := fs\<rparr>)
      = (Inr (), w\<lparr>faults := fs, op_log := map (\<lambda>r. if o_key r = key then f r else r) (op_log w)\<rparr>)" for fs
    using assms(2) by (simp add: update_unique_def op_lookup_def find_unique_def)
  have k: "op_lookup (w\<lparr>faults := fs, op_log := map (\<lambda>r. if o_key r = key then f r else r) (op_log w)\<rparr>) key
      = Some (f row)" for fs
    using op_lookup_map [OF assms(3), of key "w\<lparr>faults := fs\<rparr>"] assms(2) by simp
  show ?thesis
  proof (cases "faults w")
    case Nil
    then show ?thesis using assms(1) op_update_found [OF assms(2) Nil, of f] op_lookup_map [OF assms(3), of key w] assms(2) by auto
  next
    case (Cons x fs)
    from assms(1) show ?thesis
      unfolding op_update_def by (cases rule: db_callE) (use Cons m k assms(2) in auto)
  qed
qed

lemma record_row:
  "(row\<lparr>o_status := OP_SUCCEEDED, o_request := o_request row, o_result := x\<rparr>) = row\<lparr>o_status := OP_SUCCEEDED, o_result := x\<rparr>"
  "(row\<lparr>o_status := OP_FAILED, o_request := o_request row, o_result := x\<rparr>) = row\<lparr>o_status := OP_FAILED, o_result := x\<rparr>"
  for row :: op_row
  by (cases row, simp)+

lemma submit_rest_recorded:
  assumes rest: "submit_rest key signedXdr submit (Some row) u = (r, w')"
    and d: "decideSubmit (toOpRecord (Some row)) = Inr Submit"
    and u: "op_lookup u key = Some row" and s: "submit signedXdr u = (a, v)" "op_log v = op_log u"
  shows "case a of
      Inr res \<Rightarrow>
        r = Inr \<lparr>so_txHash = sr_txHash res, so_contractId = sr_contractId res, so_alreadySucceeded = False\<rparr> \<and>
          op_lookup w' key = Some (row\<lparr>o_status := OP_SUCCEEDED, o_result := Some (Stored res)\<rparr>) \<or>
        r = Inl connection_lost \<and> faults v \<noteq> [] \<and> op_lookup w' key \<in>
          {Some row, Some (row\<lparr>o_status := OP_SUCCEEDED, o_result := Some (Stored res)\<rparr>),
           Some (row\<lparr>o_status := OP_FAILED, o_result := Some (StoredError (error_text connection_lost))\<rparr>)}
    | Inl err \<Rightarrow>
        r = Inl err \<and> op_lookup w' key = Some (row\<lparr>o_status := OP_FAILED, o_result := Some (StoredError (error_text err))\<rparr>) \<or>
        r = Inl connection_lost \<and> faults v \<noteq> [] \<and> op_lookup w' key \<in>
          {Some row, Some (row\<lparr>o_status := OP_FAILED, o_result := Some (StoredError (error_text err))\<rparr>)}"
proof -
  have v: "op_lookup v key = Some row" using u s(2) by (simp add: op_lookup_def)
  let ?S = "\<lambda>res r. r\<lparr>o_status := OP_SUCCEEDED, o_request := o_request row, o_result := Some (Stored res)\<rparr>"
  let ?F = "\<lambda>e r. r\<lparr>o_status := OP_FAILED, o_request := o_request row, o_result := Some (StoredError (error_text e))\<rparr>"
  show ?thesis
  proof (cases a)
    case (Inl err)
    obtain y t where y: "op_update key (?F err) v = (y, t)" by fastforce
    have "submit_rest key signedXdr submit (Some row) u = (case y of Inl e' \<Rightarrow> Inl e' | Inr _ \<Rightarrow> Inl err, t)"
      using d s(1) Inl y by (cases y) (simp_all add: submit_rest_def Let_def record_failure_def)
    then have t: "w' = t" "r = (case y of Inl e' \<Rightarrow> Inl e' | Inr _ \<Rightarrow> Inl err)" using rest by simp_all
    show ?thesis
      using op_update_cases [OF y v, unfolded record_row, simplified] by (elim disjE conjE) (simp_all add: Inl t)
  next
    case (Inr res)
    obtain x t where x: "op_update key (?S res) v = (x, t)" by fastforce
    show ?thesis
    proof (cases x)
      case ok: (Inr z)
      then have t: "w' = t" "r = Inr \<lparr>so_txHash = sr_txHash res, so_contractId = sr_contractId res,
          so_alreadySucceeded = False\<rparr>"
        using rest d s Inr x by (auto simp: submit_rest_def Let_def record_success_def)
      show ?thesis
        using op_update_cases [OF x v, unfolded record_row, simplified] by (elim disjE conjE) (simp_all add: Inr t ok)
    next
      case (Inl e)
      then have e: "e = connection_lost" "faults v \<noteq> []"
        and l: "op_lookup t key = Some row \<or> op_lookup t key = Some (?S res row)"
        using op_update_cases [OF x v] by auto
      obtain y t' where y: "op_update key (?F e) t = (y, t')" by fastforce
      have lt: "op_lookup t' key \<in> {Some row, Some (?S res row), Some (?F e row)} \<and>
          (y = Inr () \<longrightarrow> op_lookup t' key = Some (?F e row)) \<and> (y = Inr () \<or> y = Inl connection_lost)"
        using l
      proof
        assume "op_lookup t key = Some row"
        from op_update_cases [OF y this] show ?thesis by auto
      next
        assume "op_lookup t key = Some (?S res row)"
        from op_update_cases [OF y this] show ?thesis by auto
      qed
      have "submit_rest key signedXdr submit (Some row) u
          = (case y of Inl e' \<Rightarrow> Inl e' | Inr _ \<Rightarrow> Inl e, t')"
        using d s(1) Inr x Inl y
        by (cases y) (simp_all add: submit_rest_def Let_def record_success_def record_failure_def)
      then have t: "w' = t'" "r = (case y of Inl e' \<Rightarrow> Inl e' | Inr _ \<Rightarrow> Inl e)" using rest by simp_all
      have c: "r = Inl connection_lost" using t(2) lt e(1) by auto
      show ?thesis
        using lt [unfolded record_row e(1), THEN conjunct1] unfolding Inr sum.case t(1)
        by (intro disjI2 conjI c e(2))
    qed
  qed
qed

lemma decideSubmit_unfinished:
  assumes "\<nexists>h c. succeeded_row row h c"
  shows "decideSubmit (toOpRecord (Some row)) = Inr Submit"
proof -
  have "\<not> (o_status row = OP_SUCCEEDED \<and> (\<exists>s. o_result row = Some (Stored s) \<and> sr_txHash s \<noteq> []))"
    using assms by (auto simp: succeeded_row_def) (metis StoredResult.surjective old.unit.exhaust)
  then show ?thesis
    by (auto simp: decideSubmit_def toOpRecord_def Let_def truthy_def split: option.splits op_result.splits)
qed

text \<open>C19: What \<open>submitOperation\<close> answers and leaves in the log, on every branch and under any database
  failures; the rows of other keys it never touches. Without a row of the key it throws that prepare must
  run first; a \<open>SUCCEEDED\<close> row with a hash is answered from the log, and in neither case anything is
  submitted or written. A row that is \<open>PENDING\<close>, \<open>FAILED\<close> or has no hash leads to a submission. If the
  submission answers, the row becomes \<open>SUCCEEDED\<close> with exactly that result; if it throws, the row becomes
  \<open>FAILED\<close> with exactly that error's text, and the error is thrown on; in both the key, the operation
  and the recorded request stay. Only a broken connection departs from this: it is thrown, and the row is
  as it was, or as it was to become, or \<open>FAILED\<close> with the text of that broken connection.\<close>

theorem submitOperation_records:
  assumes "submitOperation key signedXdr submit w = (r, w')"
    and "\<And>w. op_log (snd (submit signedXdr w)) = op_log w"
  shows "(\<forall>k. k \<noteq> key \<longrightarrow> op_lookup w' k = op_lookup w k) \<and>
    (faults w \<noteq> [] \<and> r = Inl connection_lost \<and> (\<exists>fs. w' = w\<lparr>faults := fs\<rparr>) \<or>
     (case op_lookup w key of
        None \<Rightarrow> r = Inl no_record \<and> (\<exists>fs. w' = w\<lparr>faults := fs\<rparr>)
      | Some row \<Rightarrow>
          (case (o_status row, o_result row) of
             (OP_SUCCEEDED, Some (Stored s)) \<Rightarrow> sr_txHash s \<noteq> []
           | _ \<Rightarrow> False) \<and>
            (\<exists>s. o_result row = Some (Stored s) \<and>
               r = Inr \<lparr>so_txHash = sr_txHash s, so_contractId = sr_contractId s, so_alreadySucceeded = True\<rparr>) \<and>
            (\<exists>fs. w' = w\<lparr>faults := fs\<rparr>) \<or>
          (case (o_status row, o_result row) of
             (OP_SUCCEEDED, Some (Stored s)) \<Rightarrow> sr_txHash s = []
           | _ \<Rightarrow> True) \<and>
            (\<exists>fs. case submit signedXdr (w\<lparr>faults := fs\<rparr>) of
               (Inr res, v) \<Rightarrow>
                 r = Inr \<lparr>so_txHash = sr_txHash res, so_contractId = sr_contractId res, so_alreadySucceeded = False\<rparr> \<and>
                   op_lookup w' key = Some (row\<lparr>o_status := OP_SUCCEEDED, o_result := Some (Stored res)\<rparr>) \<or>
                 r = Inl connection_lost \<and> faults v \<noteq> [] \<and> op_lookup w' key \<in>
                   {Some row, Some (row\<lparr>o_status := OP_SUCCEEDED, o_result := Some (Stored res)\<rparr>),
                    Some (row\<lparr>o_status := OP_FAILED, o_result := Some (StoredError (error_text connection_lost))\<rparr>)}
             | (Inl err, v) \<Rightarrow>
                 r = Inl err \<and>
                   op_lookup w' key = Some (row\<lparr>o_status := OP_FAILED, o_result := Some (StoredError (error_text err))\<rparr>) \<or>
                 r = Inl connection_lost \<and> faults v \<noteq> [] \<and> op_lookup w' key \<in>
                   {Some row, Some (row\<lparr>o_status := OP_FAILED, o_result := Some (StoredError (error_text err))\<rparr>)})))"
    (is "?others \<and> (?lost \<or> ?told)")
proof
  show ?others
    using keepsD [OF keeps_submit_other assms(1)] assms(2) by (auto simp: keeps_def op_lookup_def)
  obtain q u where q: "op_findUnique key w = (q, u)" by fastforce
  obtain fs where fs: "u = w\<lparr>faults := fs\<rparr>" using op_findUnique_cases [OF q] by blast
  show "?lost \<or> ?told"
  proof (cases q)
    case (Inl e)
    then have "?lost"
      using op_findUnique_cases [OF q] op_findUnique_no_fault [of w key] assms(1) q
      by (cases "faults w") (auto simp: submitOperation_def)
    then show ?thesis ..
  next
    case (Inr existing)
    then have x: "existing = op_lookup w key" using op_findUnique_cases [OF q] by simp
    have rest: "submit_rest key signedXdr submit (op_lookup w key) u = (r, w')"
      using assms(1) q Inr x by (simp add: submitOperation_def)
    show ?thesis
    proof (cases "op_lookup w key")
      case None
      then show ?thesis using rest fs by (auto simp: submit_rest_def toOpRecord_def decideSubmit_def)
    next
      case (Some row)
      show ?thesis
      proof (cases "\<exists>h c. succeeded_row row h c")
        case True
        then obtain h c where hc: "succeeded_row row h c" by blast
        then have "h \<noteq> []" "o_status row = OP_SUCCEEDED" "o_result row = Some (Stored \<lparr>sr_txHash = h, sr_contractId = c\<rparr>)"
          by (simp_all add: succeeded_row_def)
        then show ?thesis
          using rest fs Some succeeded_record [OF hc] by (auto simp: submit_rest_def)
      next
        case False
        note d = decideSubmit_unfinished [OF False]
        have c: "case (o_status row, o_result row) of (OP_SUCCEEDED, Some (Stored s)) \<Rightarrow> sr_txHash s = [] | _ \<Rightarrow> True"
          using False by (auto simp: succeeded_row_def split: OpStatus.splits option.splits op_result.splits)
            (metis StoredResult.surjective old.unit.exhaust)
        obtain a v where a: "submit signedXdr (w\<lparr>faults := fs\<rparr>) = (a, v)" by fastforce
        then have "op_log v = op_log (w\<lparr>faults := fs\<rparr>)" using assms(2) [of "w\<lparr>faults := fs\<rparr>"] by simp
        moreover have "op_lookup (w\<lparr>faults := fs\<rparr>) key = Some row" using Some by simp
        ultimately have "?told"
          using submit_rest_recorded [OF rest [unfolded Some fs] d _ a] c a
          unfolding Some option.case by (intro disjI2 conjI exI [of _ fs]) (simp_all split: sum.splits)
        then show ?thesis ..
      qed
    qed
  qed
qed

theorem submitOperation_records_witness:
  "\<exists>r w'. submitOperation (js ''k'') (js ''signed'') answering_submit (one_op_world\<lparr>faults := [Works, BreaksAfter]\<rparr>) = (r, w') \<and>
     r = Inl connection_lost \<and>
     op_lookup w' (js ''k'') \<in>
       {Some (hd (op_log one_op_world)),
        Some ((hd (op_log one_op_world))\<lparr>o_status := OP_SUCCEEDED,
          o_result := Some (Stored \<lparr>sr_txHash = js ''aa'', sr_contractId = None\<rparr>)\<rparr>),
        Some ((hd (op_log one_op_world))\<lparr>o_status := OP_FAILED,
          o_result := Some (StoredError (error_text connection_lost))\<rparr>)}"
proof -
  let ?w = "one_op_world\<lparr>faults := [Works, BreaksAfter]\<rparr>" and ?row = "hd (op_log one_op_world)"
  obtain r w' where run: "submitOperation (js ''k'') (js ''signed'') answering_submit ?w = (r, w')"
    by fastforce
  have r: "r = Inl connection_lost"
    using run by (simp add: submitOperation_def submit_rest_def op_findUnique_def one_op_world_def db_call_def find_unique_def
        decideSubmit_def toOpRecord_def answering_submit_def record_success_def record_failure_def op_update_def
        update_unique_def await_def try_catch_def Let_def read_state_def)
  have l: "op_lookup ?w (js ''k'') = Some ?row"
    by (simp add: op_lookup_def one_op_world_def find_unique_def)
  have s: "o_status ?row = OP_PENDING" "o_result ?row = None" by (simp_all add: one_op_world_def)
  have "op_log (snd (answering_submit (js ''signed'') w)) = op_log w" for w by (simp add: answering_submit_def)
  moreover have "op_lookup one_op_world (js ''k'') = Some ?row" using l by simp
  ultimately show ?thesis
    using submitOperation_records [OF run, THEN conjunct2] run r unfolding l option.case s prod.case by (auto simp: answering_submit_def simp del: js_Cons)
qed

section \<open>A departure from "only SUCCEEDED is terminal"\<close>

text \<open>
  A transaction the network accepted is recorded as \<open>FAILED\<close> when the update that should record
  its success loses its connection: the same \<open>catch\<close> covers both.
\<close>

lemma accepted_recorded_as_failed:
  "let w = one_op_world\<lparr>faults := [Works, BreaksBefore]\<rparr>;
       (r, w') = submitOperation (js ''k'') (js ''signed'') answering_submit w
   in r = Inl connection_lost \<and> map_option o_status (op_lookup w' (js ''k'')) = Some OP_FAILED"
  by code_simp

end
