(* ===== verification/Numbers.thy ===== *)
theory Numbers
  imports Complex_Main Prelude
begin

text \<open>
  JavaScript's \<open>number\<close>: a finite double is the rational it denotes (the sign of zero is not
  kept), beside the infinities and \<open>NaN\<close>. \<open>round_double\<close> rounds to the nearest double, ties to
  even, with gradual underflow and overflow to infinity; \<open>number_text\<close> is \<open>String(n)\<close> for the
  integers below \<open>1e21\<close>, the only numbers the code prints.
\<close>

datatype js_number = Finite rat | PosInfinity | NegInfinity | NaN

definition js_int :: "int \<Rightarrow> js_number" where
  "js_int n = Finite (of_int n)"

definition is_integer :: "js_number \<Rightarrow> bool" where
  "is_integer x = (case x of Finite q \<Rightarrow> of_int \<lfloor>q\<rfloor> = q | _ \<Rightarrow> False)"

definition js_less :: "js_number \<Rightarrow> js_number \<Rightarrow> bool" where
  "js_less x y =
     (case (x, y) of
        (Finite p, Finite q) \<Rightarrow> p < q
      | (NegInfinity, NegInfinity) \<Rightarrow> False
      | (PosInfinity, PosInfinity) \<Rightarrow> False
      | (NaN, _) \<Rightarrow> False
      | (_, NaN) \<Rightarrow> False
      | (NegInfinity, _) \<Rightarrow> True
      | (_, PosInfinity) \<Rightarrow> True
      | _ \<Rightarrow> False)"

text \<open>\<open>x <= y\<close> is false when either side is \<open>NaN\<close>.\<close>

definition js_le :: "js_number \<Rightarrow> js_number \<Rightarrow> bool" where
  "js_le x y = (js_less x y \<or> (x = y \<and> x \<noteq> NaN))"

lemma js_int_simps [simp]:
  "is_integer (js_int n)"
  "js_less (js_int m) (js_int n) \<longleftrightarrow> m < n"
  "js_le (js_int m) (js_int n) \<longleftrightarrow> m \<le> n"
  "js_int m = js_int n \<longleftrightarrow> m = n"
  by (auto simp: js_int_def is_integer_def js_less_def js_le_def)

lemma is_integer_iff: "is_integer x \<longleftrightarrow> (\<exists>n. x = js_int n)"
proof
  assume "is_integer x"
  then obtain q where "x = Finite q" "of_int \<lfloor>q\<rfloor> = q"
    by (auto simp: is_integer_def split: js_number.splits)
  then show "\<exists>n. x = js_int n"
    by (metis js_int_def)
qed auto

section \<open>Text of an integer\<close>

definition int_text :: "int \<Rightarrow> jstring" where
  "int_text n = (if n < 0 then 45 # bigint_to_string (nat (- n)) else bigint_to_string (nat n))"

definition number_text :: "js_number \<Rightarrow> jstring option" where
  "number_text x =
     (case x of
        Finite q \<Rightarrow>
          if of_int \<lfloor>q\<rfloor> = q \<and> \<bar>q\<bar> < 10 ^ 21 then Some (int_text \<lfloor>q\<rfloor>) else None
      | PosInfinity \<Rightarrow> Some (js ''Infinity'')
      | NegInfinity \<Rightarrow> Some (js ''-Infinity'')
      | NaN \<Rightarrow> Some (js ''NaN''))"

lemma number_text_int: "\<bar>n\<bar> < 10 ^ 21 \<Longrightarrow> number_text (js_int n) = Some (int_text n)"
proof -
  assume "\<bar>n\<bar> < 10 ^ 21"
  then have "of_int \<bar>n\<bar> < (of_int (10 ^ 21) :: rat)"
    by (rule of_int_less_iff [THEN iffD2])
  then show ?thesis by (simp add: number_text_def js_int_def)
qed

section \<open>Rounding to a double\<close>

definition round_half_even :: "rat \<Rightarrow> int" where
  "round_half_even x =
     (let f = \<lfloor>x\<rfloor>; d = x - of_int f
      in if d < 1/2 then f else if 1/2 < d then f + 1 else if even f then f else f + 1)"

text \<open>Bring a positive rational to 53 significant bits: \<open>m * 2^e\<close> with \<open>2^52 \<le> m < 2^53\<close>, or
  \<open>e = -1074\<close> for a subnormal.\<close>

function scale_down :: "rat \<Rightarrow> int \<Rightarrow> rat \<times> int" where
  "scale_down x e = (if 2 ^ 53 \<le> x then scale_down (x / 2) (e + 1) else (x, e))"
  by pat_completeness auto
termination
proof (relation "measure (\<lambda>(x, _). nat \<lfloor>x\<rfloor>)", simp)
  fix x :: rat and e :: int
  assume x: "2 ^ 53 \<le> x"
  then have "x / 2 \<le> x - 1" by simp
  then have "\<lfloor>x / 2\<rfloor> \<le> \<lfloor>x - 1\<rfloor>" by (rule floor_mono)
  then have "\<lfloor>x / 2\<rfloor> < \<lfloor>x\<rfloor>" by simp
  moreover have "0 < \<lfloor>x\<rfloor>" using x by simp
  ultimately show "((x / 2, e + 1), (x, e)) \<in> measure (\<lambda>(x, _). nat \<lfloor>x\<rfloor>)"
    by simp
qed

function scale_up :: "rat \<Rightarrow> int \<Rightarrow> rat \<times> int" where
  "scale_up x e = (if x < 2 ^ 52 \<and> -1074 < e then scale_up (x * 2) (e - 1) else (x, e))"
  by pat_completeness auto
termination
  by (relation "measure (\<lambda>(_, e). nat (e + 1074))") auto

declare scale_down.simps [simp del] scale_up.simps [simp del]

definition round_positive :: "rat \<Rightarrow> rat" where
  "round_positive x =
     (case scale_down x 0 of (y, e) \<Rightarrow>
        (case scale_up y e of (m, k) \<Rightarrow> of_int (round_half_even m) * 2 powi k))"

definition round_double :: "rat \<Rightarrow> js_number" where
  "round_double x =
     (if x = 0 then Finite 0
      else let r = round_positive \<bar>x\<bar>
           in if 2 ^ 1024 \<le> r then (if x < 0 then NegInfinity else PosInfinity)
              else Finite (if x < 0 then - r else r))"

text \<open>Every integer of magnitude up to \<open>2^53\<close> is a double.\<close>

lemma round_half_even_int [simp]: "round_half_even (of_int n) = n"
  by (simp add: round_half_even_def)

lemma scale_up_int:
  "\<exists>n' k'. scale_up (of_int n) e = (of_int n', k') \<and> of_int n' * 2 powi k' = (of_int n * 2 powi e :: rat)"
proof (induction "nat (e + 1074)" arbitrary: n e)
  case 0
  then show ?case by (subst scale_up.simps) auto
next
  case (Suc j)
  show ?case
  proof (cases "of_int n < (2::rat) ^ 52 \<and> -1074 < e")
    case True
    have "j = nat (e - 1 + 1074)" using Suc.hyps(2) True by linarith
    then obtain n' k' where r: "scale_up (of_int (2 * n)) (e - 1) = (of_int n', k')"
      "of_int n' * 2 powi k' = (of_int (2 * n) * 2 powi (e - 1) :: rat)"
      using Suc.hyps(1) by blast
    have "(2::rat) powi e = 2 * 2 powi (e - 1)"
      by (simp add: power_int_diff)
    with r True show ?thesis
      by (subst scale_up.simps) (auto simp: mult.commute)
  next
    case False
    then show ?thesis by (subst scale_up.simps) auto
  qed
qed

lemma round_positive_int:
  assumes "0 < n" "n \<le> 2 ^ 53"
  shows "round_positive (of_int n) = of_int n"
proof (cases "n = 2 ^ 53")
  case True
  then have "scale_down (of_int n) 0 = (of_int (2 ^ 52), 1)"
    by (subst scale_down.simps) (simp add: scale_down.simps)
  with True show ?thesis
    using scale_up_int [of "2 ^ 52" 1] by (auto simp: round_positive_def)
next
  case False
  with assms have "of_int n < (of_int (2 ^ 53) :: rat)"
    by (intro of_int_less_iff [THEN iffD2]) simp
  then have "scale_down (of_int n) 0 = (of_int n, 0)"
    by (subst scale_down.simps) simp
  then show ?thesis
    using scale_up_int [of n 0] by (auto simp: round_positive_def)
qed

lemma round_double_int:
  assumes "\<bar>n\<bar> \<le> 2 ^ 53"
  shows "round_double (of_int n) = js_int n"
proof (cases "n = 0")
  case True
  then show ?thesis by (simp add: round_double_def js_int_def)
next
  case False
  then have r: "round_positive (of_int \<bar>n\<bar>) = of_int \<bar>n\<bar>"
    using assms by (intro round_positive_int) simp_all
  have "(of_int \<bar>n\<bar> :: rat) \<le> of_int (2 ^ 53)"
    using assms by (rule of_int_le_iff [THEN iffD2])
  also have "\<dots> < 2 ^ 1024" by (simp add: power_strict_increasing)
  finally show ?thesis
    using False r by (auto simp: round_double_def js_int_def abs_if)
qed

end
