(* ===== verification/Teams.thy ===== *)
theory Teams
  imports Numbers "HOL-Library.Multiset"
begin

text \<open>
  \<open>lib/teams/shares.ts\<close>: the rule a set of member shares must meet. Shares are JavaScript numbers;
  the sum of at most \<open>2^32\<close> integers between 1 and 10000 is exact in a double, so it is the sum of
  integers. \<open>num_text\<close> is how JavaScript prints a number that need not be an integer; it only
  appears in a reason's text.
\<close>

definition FULL_UNIT_BASIS_POINTS :: int where
  "FULL_UNIT_BASIS_POINTS = 10000"

record TeamShareValidationResult =
  valid :: bool
  reason :: "jstring option"

fun first_bad_share :: "js_number list \<Rightarrow> js_number option" where
  "first_bad_share [] = None"
| "first_bad_share (share # shares) =
     (if \<not> is_integer share \<or> js_le share (js_int 0)
         \<or> js_less (js_int FULL_UNIT_BASIS_POINTS) share
      then Some share else first_bad_share shares)"

definition js_floor :: "js_number \<Rightarrow> int" where
  "js_floor x = (case x of Finite q \<Rightarrow> \<lfloor>q\<rfloor> | _ \<Rightarrow> 0)"

definition validateTeamShares ::
    "(js_number \<Rightarrow> jstring) \<Rightarrow> js_number list \<Rightarrow> TeamShareValidationResult" where
  "validateTeamShares num_text shares =
     (if shares = [] then
        \<lparr>valid = False, reason = Some (js ''a team must have at least one member'')\<rparr>
      else (case first_bad_share shares of
              Some share \<Rightarrow>
                \<lparr>valid = False,
                 reason = Some (js ''each member's share must be an integer between 1 and ''
                   @ int_text FULL_UNIT_BASIS_POINTS @ js '' bp, got '' @ num_text share)\<rparr>
            | None \<Rightarrow>
                let sum = sum_list (map js_floor shares)
                in if sum \<noteq> FULL_UNIT_BASIS_POINTS then
                     \<lparr>valid = False,
                      reason = Some (js ''member shares sum to '' @ int_text sum
                        @ js '' bp, must sum to exactly '' @ int_text FULL_UNIT_BASIS_POINTS)\<rparr>
                   else \<lparr>valid = True, reason = None\<rparr>))"

lemma first_bad_share_None:
  "first_bad_share shares = None \<longleftrightarrow>
     (\<exists>ns. shares = map js_int ns \<and> list_all (\<lambda>n. 1 \<le> n \<and> n \<le> FULL_UNIT_BASIS_POINTS) ns)"
proof (induction shares)
  case Nil
  then show ?case by simp
next
  case (Cons share shares)
  show ?case
  proof (cases "is_integer share")
    case True
    then obtain n where n: "share = js_int n" by (auto simp: is_integer_iff)
    show ?thesis
      using Cons.IH by (auto simp: n Cons_eq_map_conv intro: exI [of _ "n # _"])
  next
    case False
    then show ?thesis by (auto simp: is_integer_iff Cons_eq_map_conv)
  qed
qed

lemma js_floor_int [simp]: "js_floor (js_int n) = n"
  by (simp add: js_floor_def js_int_def)

lemma valid_iff_no_reason: "valid (validateTeamShares num_text shares) \<longleftrightarrow>
    reason (validateTeamShares num_text shares) = None"
  by (simp add: validateTeamShares_def Let_def split: option.split)

text \<open>\<open>validateTeamShares\<close> accepts exactly what the database accepts: shares that are integers
  between 1 and 10000 (the row check) and sum to 10000 over at least one member (the deferred
  trigger). A refusal always has a reason, an acceptance never, and the order of the members does
  not matter.\<close>

theorem validateTeamShares_iff:
  "(valid (validateTeamShares num_text shares) \<longleftrightarrow>
      (\<exists>ns. shares = map js_int ns \<and> ns \<noteq> [] \<and>
         list_all (\<lambda>n. 1 \<le> n \<and> n \<le> FULL_UNIT_BASIS_POINTS) ns \<and>
         sum_list ns = FULL_UNIT_BASIS_POINTS)) \<and>
   (reason (validateTeamShares num_text shares) = None \<longleftrightarrow>
      valid (validateTeamShares num_text shares)) \<and>
   valid (validateTeamShares num_text (rev shares)) = valid (validateTeamShares num_text shares)"
proof -
  have iff: "valid (validateTeamShares num_text shares) \<longleftrightarrow>
      (\<exists>ns. shares = map js_int ns \<and> ns \<noteq> [] \<and>
         list_all (\<lambda>n. 1 \<le> n \<and> n \<le> FULL_UNIT_BASIS_POINTS) ns \<and>
         sum_list ns = FULL_UNIT_BASIS_POINTS)" for shares
  proof (cases "first_bad_share shares")
    case None
    then obtain ns where "shares = map js_int ns"
      "list_all (\<lambda>n. 1 \<le> n \<and> n \<le> FULL_UNIT_BASIS_POINTS) ns"
      by (auto simp: first_bad_share_None)
    moreover have "inj js_int" by (auto intro: injI)
    ultimately show ?thesis
      using None by (auto simp: validateTeamShares_def Let_def comp_def)
  next
    case (Some share)
    then have "first_bad_share shares \<noteq> None" by simp
    with Some show ?thesis
      unfolding first_bad_share_None by (auto simp: validateTeamShares_def)
  qed
  have "(\<exists>ns. rev shares = map js_int ns \<and> Q ns) \<longleftrightarrow> (\<exists>ns. shares = map js_int ns \<and> Q (rev ns))" for Q
    by (metis rev_map rev_rev_ident)
  then have "valid (validateTeamShares num_text (rev shares)) = valid (validateTeamShares num_text shares)"
    unfolding iff by (simp add: sum_list_rev)
  then show ?thesis using iff valid_iff_no_reason by blast
qed

end
