(* ===== verification/Text_Codec.thy ===== *)
theory Text_Codec
  imports Prelude
begin

text \<open>
  The text encodings the code reaches for: UTF-8 (\<open>Buffer.from(s, "utf-8")\<close> and
  \<open>toString("utf-8")\<close>, with the replacement character for what is ill-formed), base64url
  (\<open>toString("base64url")\<close> and \<open>Buffer.from(s, "base64url")\<close>) and \<open>encodeURIComponent\<close>. Strings are
  UTF-16 code units, a byte is a \<open>nat\<close> below 256. Each encoder comes with the lemma that its
  decoder undoes it.
\<close>

section \<open>UTF-16\<close>

definition high_surrogate :: "nat \<Rightarrow> bool" where
  "high_surrogate u = (55296 \<le> u \<and> u \<le> 56319)"

definition low_surrogate :: "nat \<Rightarrow> bool" where
  "low_surrogate u = (56320 \<le> u \<and> u \<le> 57343)"

definition surrogate :: "nat \<Rightarrow> bool" where
  "surrogate u = (55296 \<le> u \<and> u \<le> 57343)"

definition is_unit :: "nat \<Rightarrow> bool" where
  "is_unit u = (u < 65536)"

text \<open>The code points of a string; a lone surrogate stands for itself.\<close>

fun code_points :: "jstring \<Rightarrow> nat list" where
  "code_points [] = []"
| "code_points [u] = [u]"
| "code_points (u # v # s) =
     (if high_surrogate u \<and> low_surrogate v
      then (65536 + (u - 55296) * 1024 + (v - 56320)) # code_points s
      else u # code_points (v # s))"

definition utf16_units :: "nat \<Rightarrow> jstring" where
  "utf16_units p =
     (if p < 65536 then [p] else [55296 + (p - 65536) div 1024, 56320 + (p - 65536) mod 1024])"

definition well_formed :: "jstring \<Rightarrow> bool" where
  "well_formed s = (list_all is_unit s \<and> list_all (\<lambda>p. \<not> surrogate p) (code_points s))"

lemma surrogate_pair_units:
  assumes "high_surrogate u" "low_surrogate v"
  shows "utf16_units (65536 + (u - 55296) * 1024 + (v - 56320)) = [u, v]"
proof -
  have "u = 55296 + (u - 55296)" "v = 56320 + (v - 56320)" "u - 55296 < 1024" "v - 56320 < 1024"
    using assms unfolding high_surrogate_def low_surrogate_def by linarith+
  then obtain a b where "u = 55296 + a" "v = 56320 + b" "a < 1024" "b < 1024"
    by blast
  then show ?thesis by (simp add: utf16_units_def)
qed

lemma units_of_code_points: "list_all is_unit s \<Longrightarrow> concat (map utf16_units (code_points s)) = s"
  by (induction s rule: code_points.induct)
    (auto simp: surrogate_pair_units, auto simp: utf16_units_def is_unit_def)

lemma code_points_bound: "list_all is_unit s \<Longrightarrow> list_all (\<lambda>p. p < 1114112) (code_points s)"
  by (induction s rule: code_points.induct)
    (auto simp: is_unit_def high_surrogate_def low_surrogate_def)

section \<open>UTF-8\<close>

definition utf8_bytes :: "nat \<Rightarrow> nat list" where
  "utf8_bytes p =
     (if p < 128 then [p]
      else if p < 2048 then [192 + p div 64, 128 + p mod 64]
      else if p < 65536 then [224 + p div 4096, 128 + p div 64 mod 64, 128 + p mod 64]
      else [240 + p div 262144, 128 + p div 4096 mod 64, 128 + p div 64 mod 64, 128 + p mod 64])"

definition utf8_encode :: "jstring \<Rightarrow> nat list" where
  "utf8_encode s =
     concat (map (\<lambda>p. utf8_bytes (if surrogate p then 65533 else p)) (code_points s))"

text \<open>
  The decoder is the WHATWG one: the code point so far, the number of continuation bytes still
  needed, and the bounds of the next one. A byte out of bounds ends the sequence with U+FFFD and
  is read again as a first byte.
\<close>

definition utf8_start :: "nat \<Rightarrow> jstring \<times> nat \<times> nat \<times> nat \<times> nat" where
  "utf8_start b =
     (if b < 128 then ([b], 0, 0, 128, 191)
      else if 194 \<le> b \<and> b \<le> 223 then ([], b - 192, 1, 128, 191)
      else if 224 \<le> b \<and> b \<le> 239
        then ([], b - 224, 2, if b = 224 then 160 else 128, if b = 237 then 159 else 191)
      else if 240 \<le> b \<and> b \<le> 244
        then ([], b - 240, 3, if b = 240 then 144 else 128, if b = 244 then 143 else 191)
      else ([65533], 0, 0, 128, 191))"

fun utf8_go :: "nat \<Rightarrow> nat \<Rightarrow> nat \<Rightarrow> nat \<Rightarrow> nat list \<Rightarrow> jstring" where
  "utf8_go cp needed lo hi [] = (if needed = 0 then [] else [65533])"
| "utf8_go cp needed lo hi (b # bs) =
     (if needed = 0 then
        (case utf8_start b of (out, c, n, l, h) \<Rightarrow> out @ utf8_go c n l h bs)
      else if b < lo \<or> hi < b then
        (case utf8_start b of (out, c, n, l, h) \<Rightarrow> 65533 # out @ utf8_go c n l h bs)
      else if needed = 1 then utf16_units (cp * 64 + (b - 128)) @ utf8_go 0 0 128 191 bs
      else utf8_go (cp * 64 + (b - 128)) (needed - 1) 128 191 bs)"

definition utf8_decode :: "nat list \<Rightarrow> jstring" where
  "utf8_decode bs = utf8_go 0 0 128 191 bs"

lemma utf8_start_ascii: "b < 128 \<Longrightarrow> utf8_start b = ([b], 0, 0, 128, 191)"
  by (simp add: utf8_start_def)

text \<open>Splitting a number into base-64 digits.\<close>

lemma div_mod_64:
  fixes p :: nat
  shows "p div 4096 * 4096 + p div 64 mod 64 * 64 + p mod 64 = p"
    and "p div 262144 * 262144 + p div 4096 mod 64 * 4096 + p div 64 mod 64 * 64 + p mod 64 = p"
proof -
  have "p div 4096 = p div 64 div 64" "p div 262144 = p div 4096 div 64"
    by (simp_all add: div_mult2_eq [symmetric])
  then have "p div 4096 * 64 + p div 64 mod 64 = p div 64"
    and "p div 262144 * 64 + p div 4096 mod 64 = p div 4096" and "p div 64 * 64 + p mod 64 = p"
    by simp_all
  then show "p div 4096 * 4096 + p div 64 mod 64 * 64 + p mod 64 = p"
    and "p div 262144 * 262144 + p div 4096 mod 64 * 4096 + p div 64 mod 64 * 64 + p mod 64 = p"
    by linarith+
qed

lemma utf8_go_point:
  assumes "p < 1114112" "\<not> surrogate p"
  shows "utf8_go 0 0 128 191 (utf8_bytes p @ bs) = utf16_units p @ utf8_go 0 0 128 191 bs"
proof -
  consider "p < 128" | "128 \<le> p" "p < 2048" | "2048 \<le> p" "p < 65536" | "65536 \<le> p"
    by linarith
  then show ?thesis
  proof cases
    case 1
    then show ?thesis by (simp add: utf8_bytes_def utf8_start_def utf16_units_def)
  next
    case 2
    define a b where "a = p div 64" and "b = p mod 64"
    have p: "p = a * 64 + b" "b < 64" by (simp_all add: a_def b_def)
    have a: "2 \<le> a" "a < 32" using 2 p by linarith+
    have "utf8_bytes p = [192 + a, 128 + b]" using 2 by (simp add: utf8_bytes_def a_def b_def)
    then show ?thesis using a p 2 by (simp add: utf8_start_def)
  next
    case 3
    define a b c where "a = p div 4096" and "b = p div 64 mod 64" and "c = p mod 64"
    have p: "p = a * 4096 + b * 64 + c" "b < 64" "c < 64"
      unfolding a_def b_def c_def by (simp_all add: div_mod_64)
    have a: "a < 16" using 3 p by linarith
    have e: "utf8_bytes p = [224 + a, 128 + b, 128 + c]"
      using 3 by (simp add: utf8_bytes_def a_def b_def c_def)
    have lo: "a = 0 \<Longrightarrow> 32 \<le> b" using 3 p by linarith
    have hi: "a = 13 \<Longrightarrow> b < 32" using assms(2) p by (simp add: surrogate_def)
    show ?thesis using a p e lo hi by (auto simp: utf8_start_def algebra_simps)
  next
    case 4
    define a b c d where "a = p div 262144" and "b = p div 4096 mod 64"
      and "c = p div 64 mod 64" and "d = p mod 64"
    have p: "p = a * 262144 + b * 4096 + c * 64 + d" "b < 64" "c < 64" "d < 64"
      unfolding a_def b_def c_def d_def by (simp_all add: div_mod_64)
    have a: "a < 5" using assms(1) p by linarith
    have e: "utf8_bytes p = [240 + a, 128 + b, 128 + c, 128 + d]"
      using 4 by (simp add: utf8_bytes_def a_def b_def c_def d_def)
    have lo: "a = 0 \<Longrightarrow> 16 \<le> b" using 4 p by linarith
    have hi: "a = 4 \<Longrightarrow> b < 16" using assms(1) p by linarith
    show ?thesis using a p e lo hi by (auto simp: utf8_start_def algebra_simps)
  qed
qed

lemma utf8_go_points:
  "list_all (\<lambda>p. p < 1114112 \<and> \<not> surrogate p) ps \<Longrightarrow>
     utf8_go 0 0 128 191 (concat (map utf8_bytes ps) @ bs)
     = concat (map utf16_units ps) @ utf8_go 0 0 128 191 bs"
  by (induction ps) (simp_all add: utf8_go_point)

lemma utf8_encode_well_formed:
  "well_formed s \<Longrightarrow> utf8_encode s = concat (map utf8_bytes (code_points s))"
  by (auto simp: utf8_encode_def well_formed_def list_all_iff intro!: arg_cong [where f = concat])

lemma utf8_roundtrip:
  assumes "well_formed s"
  shows "utf8_decode (utf8_encode s) = s"
proof -
  have "list_all is_unit s" using assms by (simp add: well_formed_def)
  moreover have "list_all (\<lambda>p. p < 1114112 \<and> \<not> surrogate p) (code_points s)"
    using assms code_points_bound [of s] by (auto simp: well_formed_def list_all_iff)
  ultimately show ?thesis
    using utf8_go_points [of "code_points s" "[]"] units_of_code_points [of s]
    by (simp add: utf8_decode_def utf8_encode_well_formed [OF assms])
qed

lemma utf8_bytes_bound: "p < 1114112 \<Longrightarrow> list_all (\<lambda>b. b < 256) (utf8_bytes p)"
proof -
  assume "p < 1114112"
  moreover have "p div 64 mod 64 < 64" "p div 4096 mod 64 < 64" "p mod 64 < 64"
    by simp_all
  ultimately show ?thesis
    unfolding utf8_bytes_def by (auto simp: less_mult_imp_div_less intro: order.strict_trans1)
qed


lemma utf8_encode_bound: "list_all is_unit s \<Longrightarrow> list_all (\<lambda>b. b < 256) (utf8_encode s)"
  using code_points_bound [of s] utf8_bytes_bound utf8_bytes_bound [of 65533]
  by (auto simp: utf8_encode_def list_all_iff)

text \<open>Well-formed texts can be put together, and ASCII is its own encoding.\<close>

lemma code_points_append:
  "list_all (\<lambda>p. \<not> surrogate p) (code_points a) \<Longrightarrow> code_points (a @ b) = code_points a @ code_points b"
proof (induction a rule: code_points.induct)
  case 1
  then show ?case by simp
next
  case (2 u)
  then have "\<not> high_surrogate u" by (auto simp: surrogate_def high_surrogate_def)
  then show ?case by (cases b) simp_all
next
  case (3 u v s)
  then show ?case by (auto split: if_splits)
qed

lemma well_formed_append: "well_formed a \<Longrightarrow> well_formed b \<Longrightarrow> well_formed (a @ b)"
  by (simp add: well_formed_def code_points_append)

lemma code_points_plain: "list_all (\<lambda>u. \<not> surrogate u) s \<Longrightarrow> code_points s = s"
  by (induction s rule: code_points.induct) (auto simp: surrogate_def high_surrogate_def)

lemma well_formed_plain: "list_all (\<lambda>u. u < 55296) s \<Longrightarrow> well_formed s"
proof -
  assume a: "list_all (\<lambda>u. u < 55296) s"
  then have "list_all (\<lambda>u. \<not> surrogate u) s" by (auto simp: list_all_iff surrogate_def)
  with a show ?thesis
    by (auto simp: well_formed_def code_points_plain list_all_iff is_unit_def)
qed

lemma well_formed_pair:
  assumes "high_surrogate u" "low_surrogate v" "well_formed s"
  shows "well_formed (u # v # s)"
  using assms by (auto simp: well_formed_def surrogate_def high_surrogate_def low_surrogate_def is_unit_def)

lemma utf8_bytes_ascii: "list_all (\<lambda>b. b < 128) (utf8_bytes p) \<Longrightarrow> p < 128 \<and> utf8_bytes p = [p]"
  by (auto simp: utf8_bytes_def split: if_splits)

lemma code_points_ascii:
  "list_all (\<lambda>p. p < 128) (code_points s) \<Longrightarrow> code_points s = s"
  by (induction s rule: code_points.induct) (auto split: if_splits)

lemma utf8_ascii:
  assumes "list_all (\<lambda>b. b < 128) (utf8_encode s)"
  shows "utf8_encode s = s"
proof -
  let ?f = "\<lambda>p. if surrogate p then 65533 else p"
  have "list_all (\<lambda>b. b < 128) (utf8_bytes (?f p))" if "p \<in> set (code_points s)" for p
    using assms that by (auto simp: utf8_encode_def list_all_iff)
  then have p: "?f p < 128 \<and> utf8_bytes (?f p) = [?f p]" if "p \<in> set (code_points s)" for p
    using utf8_bytes_ascii that by blast
  then have q: "p < 128 \<and> utf8_bytes (?f p) = [p]" if "p \<in> set (code_points s)" for p
    using p [OF that] by (auto split: if_splits)
  then have "utf8_encode s = code_points s"
    unfolding utf8_encode_def by (induction "code_points s") (simp_all add: map_idI cong: map_cong)
  moreover have "list_all (\<lambda>p. p < 128) (code_points s)"
    using q by (auto simp: list_all_iff)
  ultimately show ?thesis using code_points_ascii by metis
qed

lemma ascii_utf8: "list_all (\<lambda>u. u < 128) s \<Longrightarrow> utf8_encode s = s"
proof (induction s rule: code_points.induct)
  case (3 u v s)
  then show ?case
    by (auto simp: utf8_encode_def high_surrogate_def surrogate_def utf8_bytes_def)
qed (auto simp: utf8_encode_def surrogate_def utf8_bytes_def)

section \<open>base64url\<close>

definition base64_char :: "nat \<Rightarrow> nat" where
  "base64_char n =
     (if n < 26 then 65 + n else if n < 52 then 97 + (n - 26) else if n < 62 then 48 + (n - 52)
      else if n = 62 then 45 else 95)"

text \<open>Node reads both alphabets, skips any other character and stops at \<open>=\<close>.\<close>

definition base64_value :: "nat \<Rightarrow> nat option" where
  "base64_value c =
     (if is_upper c then Some (c - 65) else if is_lower c then Some (c - 97 + 26)
      else if is_digit c then Some (c - 48 + 52)
      else if c = 45 \<or> c = 43 then Some 62 else if c = 95 \<or> c = 47 then Some 63 else None)"

fun base64url_encode :: "nat list \<Rightarrow> jstring" where
  "base64url_encode [] = []"
| "base64url_encode [a] = [base64_char (a div 4), base64_char (a mod 4 * 16)]"
| "base64url_encode [a, b] =
     [base64_char (a div 4), base64_char (a mod 4 * 16 + b div 16), base64_char (b mod 16 * 4)]"
| "base64url_encode (a # b # c # r) =
     base64_char (a div 4) # base64_char (a mod 4 * 16 + b div 16)
     # base64_char (b mod 16 * 4 + c div 64) # base64_char (c mod 64) # base64url_encode r"

fun sextets_bytes :: "nat list \<Rightarrow> nat list" where
  "sextets_bytes (a # b # c # d # r) =
     (a * 4 + b div 16) # (b mod 16 * 16 + c div 4) # (c mod 4 * 64 + d) # sextets_bytes r"
| "sextets_bytes [a, b, c] = [a * 4 + b div 16, b mod 16 * 16 + c div 4]"
| "sextets_bytes [a, b] = [a * 4 + b div 16]"
| "sextets_bytes _ = []"

definition base64url_decode :: "jstring \<Rightarrow> nat list" where
  "base64url_decode s = sextets_bytes (List.map_filter base64_value (takeWhile (\<lambda>c. c \<noteq> 61) s))"

lemma base64_value_char: "n < 64 \<Longrightarrow> base64_value (base64_char n) = Some n"
  by (auto simp: base64_value_def base64_char_def is_upper_def is_lower_def is_digit_def)

lemma base64_char_not_special: "base64_char n \<noteq> 61" "base64_char n \<noteq> 46"
  by (auto simp: base64_char_def)

definition sextets :: "nat list \<Rightarrow> bool" where
  "sextets ns = list_all (\<lambda>n. n < 64) ns"

lemma decode_chars:
  assumes "sextets ns"
  shows "List.map_filter base64_value (takeWhile (\<lambda>c. c \<noteq> 61) (map base64_char ns)) = ns"
  using assms
  by (induction ns) (auto simp: sextets_def base64_char_not_special map_filter_simps base64_value_char)

lemma byte_split:
  fixes a b :: nat
  shows "a div 4 * 4 + a mod 4 = a" and "a < 256 \<Longrightarrow> a div 4 < 64"
    and "b < 256 \<Longrightarrow> (a mod 4 * 16 + b div 16) div 16 = a mod 4"
    and "b < 256 \<Longrightarrow> (a mod 4 * 16 + b div 16) mod 16 = b div 16"
    and "b < 256 \<Longrightarrow> a mod 4 * 16 + b div 16 < 64"
    and "b < 256 \<Longrightarrow> (a mod 16 * 4 + b div 64) div 4 = a mod 16"
    and "b < 256 \<Longrightarrow> (a mod 16 * 4 + b div 64) mod 4 = b div 64"
    and "b < 256 \<Longrightarrow> a mod 16 * 4 + b div 64 < 64"
proof -
  show "a div 4 * 4 + a mod 4 = a" by simp
  show "a < 256 \<Longrightarrow> a div 4 < 64" by simp
  assume "b < 256"
  then have b: "b div 16 < 16" "b div 64 < 4" by simp_all
  have a: "a mod 4 < 4" "a mod 16 < 16" by simp_all
  from b show "(a mod 4 * 16 + b div 16) div 16 = a mod 4"
    "(a mod 4 * 16 + b div 16) mod 16 = b div 16"
    "(a mod 16 * 4 + b div 64) div 4 = a mod 16"
    "(a mod 16 * 4 + b div 64) mod 4 = b div 64"
    by simp_all
  from a b show "a mod 4 * 16 + b div 16 < 64" "a mod 16 * 4 + b div 64 < 64"
    by linarith+
qed

lemma base64url_sextets:
  "list_all (\<lambda>b. b < 256) bs \<Longrightarrow>
     \<exists>ns. base64url_encode bs = map base64_char ns \<and> sextets ns \<and> sextets_bytes ns = bs"
proof (induction bs rule: base64url_encode.induct)
  case 1
  then show ?case by (intro exI [of _ "[]"]) (simp add: sextets_def)
next
  case (2 a)
  then show ?case
    by (intro exI [of _ "[a div 4, a mod 4 * 16]"]) (auto simp: sextets_def)
next
  case (3 a b)
  have "b mod 16 < 16" by simp
  then have "b mod 16 * 4 < 64" by linarith
  moreover have "b div 16 < 16" using 3 by (simp add: less_mult_imp_div_less)
  then have "b div 16 div 16 = 0" "b div 16 mod 16 * 16 + b mod 16 = b" by simp_all
  ultimately have "b mod 16 * 4 < 64" "b div 16 div 16 = 0"
    "b div 16 mod 16 * 16 + b mod 16 = b" by blast+
  with 3 show ?case
    by (intro exI [of _ "[a div 4, a mod 4 * 16 + b div 16, b mod 16 * 4]"])
      (simp add: sextets_def byte_split)
next
  case (4 a b c r)
  then obtain ns where "base64url_encode r = map base64_char ns" "sextets ns" "sextets_bytes ns = r"
    by auto
  moreover from 4 have b: "b div 16 < 16" "c div 64 < 4" by (simp_all add: less_mult_imp_div_less)
  then have "b div 16 div 16 = 0" "c div 64 div 4 = 0" "b div 16 mod 16 = b div 16"
    "c div 64 mod 4 = c div 64" by simp_all
  ultimately show ?case
    using 4 by (intro exI [of _ "a div 4 # (a mod 4 * 16 + b div 16) # (b mod 16 * 4 + c div 64)
        # c mod 64 # ns"]) (simp add: sextets_def byte_split)
qed

lemma base64url_roundtrip:
  "list_all (\<lambda>b. b < 256) bs \<Longrightarrow> base64url_decode (base64url_encode bs) = bs"
  using base64url_sextets [of bs] decode_chars by (auto simp: base64url_decode_def)

lemma base64_char_ascii: "base64_char n < 128"
  by (auto simp: base64_char_def)

lemma base64url_ascii: "list_all (\<lambda>c. c < 128) (base64url_encode bs)"
  by (induction bs rule: base64url_encode.induct) (auto simp: base64_char_ascii)

lemma base64url_no_dot: "46 \<notin> set (base64url_encode bs)"
  by (induction bs rule: base64url_encode.induct) (auto simp: base64_char_not_special)

section \<open>encodeURIComponent\<close>

definition uri_unreserved :: "nat \<Rightarrow> bool" where
  "uri_unreserved c =
     (is_upper c \<or> is_lower c \<or> is_digit c \<or> c \<in> set [45, 95, 46, 33, 126, 42, 39, 40, 41])"

definition hex_upper :: "nat \<Rightarrow> nat" where
  "hex_upper n = (if n < 10 then 48 + n else 55 + n)"

definition percent_byte :: "nat \<Rightarrow> jstring" where
  "percent_byte b = [37, hex_upper (b div 16), hex_upper (b mod 16)]"

definition encode_point :: "nat \<Rightarrow> jstring" where
  "encode_point p =
     (if uri_unreserved p then [p] else concat (map percent_byte (utf8_bytes p)))"

text \<open>\<open>None\<close> is the \<open>URIError\<close> a lone surrogate throws.\<close>

definition encodeURIComponent :: "jstring \<Rightarrow> jstring option" where
  "encodeURIComponent s =
     (if list_ex surrogate (code_points s) then None
      else Some (concat (map encode_point (code_points s))))"

text \<open>What a server reads back from a percent-encoded path segment.\<close>

definition hex_value :: "nat \<Rightarrow> nat" where
  "hex_value c = (if c < 58 then c - 48 else c - 55)"

fun percent_decode :: "jstring \<Rightarrow> nat list" where
  "percent_decode [] = []"
| "percent_decode (c # s) =
     (if c = 37 then
        (case s of
           a # b # r \<Rightarrow> (hex_value a * 16 + hex_value b) # percent_decode r
         | _ \<Rightarrow> [])
      else c # percent_decode s)"

definition uri_decode :: "jstring \<Rightarrow> jstring" where
  "uri_decode s = utf8_decode (percent_decode s)"

lemma hex_upper_value [simp]: "n < 16 \<Longrightarrow> hex_value (hex_upper n) = n"
  by (auto simp: hex_value_def hex_upper_def)

lemma hex_byte: "b < 256 \<Longrightarrow> hex_value (hex_upper (b div 16)) * 16 + b mod 16 = b"
  by (subst hex_upper_value) simp_all

lemma percent_decode_bytes:
  "list_all (\<lambda>b. b < 256) bs \<Longrightarrow>
     percent_decode (concat (map percent_byte bs) @ r) = bs @ percent_decode r"
  by (induction bs) (simp_all add: percent_byte_def hex_byte)

lemma uri_unreserved_ascii: "uri_unreserved p \<Longrightarrow> p < 128 \<and> p \<noteq> 37"
  by (auto simp: uri_unreserved_def is_upper_def is_lower_def is_digit_def)

lemma percent_decode_point:
  assumes "p < 1114112"
  shows "percent_decode (encode_point p @ r) = utf8_bytes p @ percent_decode r"
  using percent_decode_bytes [OF utf8_bytes_bound [OF assms]] uri_unreserved_ascii [of p]
  by (auto simp: encode_point_def utf8_bytes_def)

lemma percent_decode_points:
  "list_all (\<lambda>p. p < 1114112) ps \<Longrightarrow>
     percent_decode (concat (map encode_point ps)) = concat (map utf8_bytes ps)"
  by (induction ps) (simp_all add: percent_decode_point)

lemma encodeURIComponent_roundtrip:
  assumes "list_all is_unit s" "encodeURIComponent s = Some t"
  shows "uri_decode t = s"
proof -
  have "list_all (\<lambda>p. \<not> surrogate p) (code_points s)"
    and t: "t = concat (map encode_point (code_points s))"
    using assms(2) by (auto simp: encodeURIComponent_def list_all_iff list_ex_iff split: if_splits)
  with assms(1) have wf: "well_formed s" by (simp add: well_formed_def)
  have "percent_decode t = utf8_encode s"
    unfolding t utf8_encode_well_formed [OF wf]
    by (rule percent_decode_points [OF code_points_bound [OF assms(1)]])
  then show ?thesis by (simp add: uri_decode_def utf8_roundtrip [OF wf])
qed

text \<open>No encoded segment holds a character that delimits a path, a query or a fragment.\<close>

definition segment_char :: "nat \<Rightarrow> bool" where
  "segment_char c = (uri_unreserved c \<or> c = 37)"

lemma hex_upper_segment: "n < 16 \<Longrightarrow> segment_char (hex_upper n)"
  by (auto simp: segment_char_def uri_unreserved_def hex_upper_def is_upper_def is_digit_def)

lemma encode_point_segment:
  assumes "p < 1114112"
  shows "list_all segment_char (encode_point p)"
  using utf8_bytes_bound [OF assms]
  by (auto simp: encode_point_def percent_byte_def list_all_iff hex_upper_segment less_mult_imp_div_less)
    (auto simp: segment_char_def)

lemma encodeURIComponent_segment:
  assumes "list_all is_unit s" "encodeURIComponent s = Some t"
  shows "list_all segment_char t"
proof -
  have "t = concat (map encode_point (code_points s))"
    using assms(2) by (simp add: encodeURIComponent_def split: if_splits)
  moreover have "list_all segment_char (concat (map encode_point ps))"
    if "list_all (\<lambda>p. p < 1114112) ps" for ps
    using that encode_point_segment by (induction ps) auto
  ultimately show ?thesis
    using code_points_bound [OF assms(1)] by simp
qed

end
