(* ===== verification/Auth.thy ===== *)
theory Auth
  imports Store Text_Codec
begin

text \<open>
  Sign-in with a wallet: \<open>lib/uuid.ts\<close>, \<open>lib/stellar-network.ts\<close> (the address pattern),
  \<open>lib/wallet/validation.ts\<close>, \<open>lib/wallet/auth-utils.ts\<close>, \<open>lib/wallet/session.ts\<close> and the route
  \<open>api/auth/nonce\<close>. What the Stellar SDK and the hash compute is the record \<open>stellar_sdk\<close>:
  \<open>valid_public_key\<close> is \<open>StrKey.isValidEd25519PublicKey\<close>, \<open>keypair_verify a m s\<close> is
  \<open>Keypair.fromPublicKey(a).verify(m, s)\<close> with \<open>None\<close> for a throw.
  Ids are native UUID columns: a query with a text that is no UUID throws, and letters compare
  without case.
\<close>

section \<open>Identifiers and addresses\<close>

definition is_hex :: "nat \<Rightarrow> bool" where
  "is_hex c = (is_digit c \<or> 97 \<le> c \<and> c \<le> 102 \<or> 65 \<le> c \<and> c \<le> 70)"

definition isUuid :: "jstring \<Rightarrow> bool" where
  "isUuid s =
     (length s = 36 \<and>
      list_all (\<lambda>i. if i \<in> {8, 13, 18, 23} then s ! i = 45 else is_hex (s ! i)) [0..<36])"

definition uuid_key :: "jstring \<Rightarrow> jstring" where
  "uuid_key s = map (\<lambda>c. if is_upper c then c + 32 else c) s"

definition invalid_uuid :: exn where
  "invalid_uuid = PlainError (js ''22P02: invalid input syntax for type uuid'')"

text \<open>\<open>findUnique\<close> by an id that comes from outside.\<close>

definition select_by_uuid :: "jstring \<Rightarrow> ('a io_scheme \<Rightarrow> 'b) \<Rightarrow> ('a io_scheme, 'b) action" where
  "select_by_uuid i f = db_call (\<lambda>w. if isUuid i then (Inr (f w), w) else (Inl invalid_uuid, w))"

definition STELLAR_ACCOUNT_ID :: "jstring \<Rightarrow> bool" where
  "STELLAR_ACCOUNT_ID s =
     (length s = 56 \<and> hd s = 71 \<and> list_all (\<lambda>c. is_upper c \<or> 50 \<le> c \<and> c \<le> 55) (tl s))"

record stellar_sdk =
  valid_public_key :: "jstring \<Rightarrow> bool"
  keypair_verify :: "jstring \<Rightarrow> nat list \<Rightarrow> nat list \<Rightarrow> bool option"
  sha256 :: "nat list \<Rightarrow> nat list"

definition valid_address :: "stellar_sdk \<Rightarrow> jstring \<Rightarrow> bool" where
  "valid_address sdk address = (STELLAR_ACCOUNT_ID address \<and> valid_public_key sdk address)"

section \<open>Optional email\<close>

definition email_char :: "nat \<Rightarrow> bool" where
  "email_char c = (\<not> js_space c \<and> c \<noteq> 64)"

text \<open>\<open>/^[^\s@]+@[^\s@]+\.[^\s@]+$/\<close>: no part holds an at sign, so the first one splits the text.\<close>

definition EMAIL_REGEX :: "jstring \<Rightarrow> bool" where
  "EMAIL_REGEX s =
     (let l = takeWhile (\<lambda>c. c \<noteq> 64) s; d = drop (Suc (length l)) s
      in l \<noteq> [] \<and> 64 \<in> set s \<and> list_all email_char l \<and> list_all email_char d \<and>
         list_ex (\<lambda>i. d ! i = 46) [1..<length d - 1])"

text \<open>The outer option is \<open>undefined\<close>, the inner one \<open>null\<close>.\<close>

definition validateOptionalEmail :: "jstring option option \<Rightarrow> exn + jstring option" where
  "validateOptionalEmail email =
     (case email of
        Some (Some s) \<Rightarrow>
          let trimmed = trim s
          in if trimmed = [] then Inr None
             else if \<not> EMAIL_REGEX trimmed then Inl (PlainError (js ''Invalid email address format''))
             else Inr (Some trimmed)
      | _ \<Rightarrow> Inr None)"

section \<open>Nonces\<close>

definition NONCE_TTL_MS :: int where
  "NONCE_TTL_MS = 5 * 60 * 1000"

definition formatAuthMessage :: "jstring \<Rightarrow> jstring \<Rightarrow> jstring" where
  "formatAuthMessage address nonce =
     js ''Astrea Authentication'' @ [10] @ js ''Address: '' @ address @ [10] @ js ''Nonce: '' @ nonce"

record issued_nonce =
  in_nonce :: jstring
  in_message :: jstring
  in_expiresAt :: int

definition put_nonces :: "nonce_row list \<Rightarrow> world \<Rightarrow> world" where
  "put_nonces t w = w\<lparr>nonces := t\<rparr>"

definition issueAuthNonce :: "stellar_sdk \<Rightarrow> jstring \<Rightarrow> (world, issued_nonce) action" where
  "issueAuthNonce sdk address =
     (if \<not> valid_address sdk address then throw (PlainError (js ''Invalid Stellar address''))
      else
        await date_now (\<lambda>now.
        await (on_table nonces put_nonces
                 (\<lambda>t. Inr ((), delete_many (\<lambda>r. n_expiresAt r \<le> now) t))) (\<lambda>_.
        await random_uuid (\<lambda>nonce.
        let expiresAt = now + NONCE_TTL_MS in
        await (on_table nonces put_nonces
                 (\<lambda>t. map_sum id (Pair ())
                   (insert_row (\<lambda>r s. n_nonce r = n_nonce s)
                     \<lparr>n_nonce = nonce, n_address = address, n_expiresAt = expiresAt\<rparr> t))) (\<lambda>_.
        return_value \<lparr>in_nonce = nonce, in_message = formatAuthMessage address nonce,
                      in_expiresAt = expiresAt\<rparr>)))))"

text \<open>
  \<open>consume_found\<close> is \<open>consumeAuthNonce\<close> from the first query's answer on; other requests may run
  between the two.
\<close>

definition consume_find :: "jstring \<Rightarrow> (world, nonce_row option) action" where
  "consume_find nonce = select (\<lambda>w. find_unique (\<lambda>r. n_nonce r = nonce) (nonces w))"

definition consume_found :: "jstring \<Rightarrow> jstring \<Rightarrow> nonce_row option \<Rightarrow> (world, bool) action" where
  "consume_found nonce address found =
     (case found of
        None \<Rightarrow> return_value False
      | Some entry \<Rightarrow>
          await (on_table nonces put_nonces
                   (\<lambda>t. map_sum id (Pair ()) (delete_unique (\<lambda>r. n_nonce r = nonce) t))) (\<lambda>_.
          await date_now (\<lambda>now.
          return_value (n_address entry = address \<and> \<not> n_expiresAt entry \<le> now))))"

definition consumeAuthNonce :: "jstring \<Rightarrow> jstring \<Rightarrow> (world, bool) action" where
  "consumeAuthNonce nonce address = await (consume_find nonce) (consume_found nonce address)"

section \<open>Signatures\<close>

definition hex_digit_value :: "nat \<Rightarrow> nat" where
  "hex_digit_value c =
     (if is_digit c then c - 48 else if 97 \<le> c \<and> c \<le> 102 then c - 87 else c - 55)"

fun hex_bytes :: "jstring \<Rightarrow> nat list" where
  "hex_bytes (a # b # r) = (hex_digit_value a * 16 + hex_digit_value b) # hex_bytes r"
| "hex_bytes _ = []"

definition SEP53_PREFIX :: "nat list" where
  "SEP53_PREFIX = utf8_encode (js ''Stellar Signed Message:'' @ [10])"

definition sep53Digest :: "stellar_sdk \<Rightarrow> nat list \<Rightarrow> nat list" where
  "sep53Digest sdk message = sha256 sdk (SEP53_PREFIX @ message)"

definition signature_bytes :: "jstring \<Rightarrow> nat list" where
  "signature_bytes signature =
     (if signature \<noteq> [] \<and> list_all is_hex signature \<and> length signature = 128
      then hex_bytes signature else base64url_decode signature)"

definition verifyStellarSignature :: "stellar_sdk \<Rightarrow> jstring \<Rightarrow> jstring \<Rightarrow> jstring \<Rightarrow> bool" where
  "verifyStellarSignature sdk address message signature =
     (if \<not> valid_address sdk address then False
      else let sigBuffer = signature_bytes signature in
        if length sigBuffer \<noteq> 64 then False
        else let raw = utf8_encode message in
          (case keypair_verify sdk address (sep53Digest sdk raw) sigBuffer of
             None \<Rightarrow> False
           | Some True \<Rightarrow> True
           | Some False \<Rightarrow>
               (case keypair_verify sdk address raw sigBuffer of None \<Rightarrow> False | Some b \<Rightarrow> b)))"

section \<open>Sessions\<close>

definition put_users :: "user_row list \<Rightarrow> world \<Rightarrow> world" where
  "put_users t w = w\<lparr>users := t\<rparr>"

definition put_wallets :: "wallet_row list \<Rightarrow> world \<Rightarrow> world" where
  "put_wallets t w = w\<lparr>wallets := t\<rparr>"

definition user_create :: "(world, jstring) action" where
  "user_create =
     await random_uuid (\<lambda>i.
     on_table users put_users
       (\<lambda>t. map_sum id (Pair i) (insert_row (\<lambda>r s. u_id r = u_id s) \<lparr>u_id = i\<rparr> t)))"

definition wallet_create :: "jstring \<Rightarrow> jstring \<Rightarrow> jstring option \<Rightarrow> (world, wallet_row) action" where
  "wallet_create address userId email =
     await random_uuid (\<lambda>i.
     let row = \<lparr>w_id = i, w_userId = userId, w_address = address, w_email = email,
                w_profilePublic = False, w_usdcTrustlineVerifiedAt = None\<rparr>
     in on_table wallets put_wallets
          (\<lambda>t. map_sum id (Pair row)
            (insert_row (\<lambda>r s. w_id r = w_id s \<or> w_address r = w_address s) row t)))"

definition wallet_update ::
    "jstring \<Rightarrow> (wallet_row \<Rightarrow> wallet_row) \<Rightarrow> (world, wallet_row) action" where
  "wallet_update i f = on_table wallets put_wallets (update_unique (\<lambda>r. w_id r = i) f)"

definition wallet_by_address :: "jstring \<Rightarrow> (world, wallet_row option) action" where
  "wallet_by_address address = select (\<lambda>w. find_unique (\<lambda>r. w_address r = address) (wallets w))"

record associated =
  as_userId :: jstring
  as_walletId :: jstring
  as_address :: jstring
  as_email :: "jstring option"

text \<open>The wallet of the address: found, with the email written when one was given, or created.\<close>

definition signin_wallet :: "jstring \<Rightarrow> jstring option \<Rightarrow> bool \<Rightarrow> (world, wallet_row) action" where
  "signin_wallet address cleanEmail email_given =
     await (wallet_by_address address) (\<lambda>existing.
     case existing of
       None \<Rightarrow> await user_create (\<lambda>userId. wallet_create address userId cleanEmail)
     | Some wallet \<Rightarrow>
         if email_given then wallet_update (w_id wallet) (\<lambda>r. r\<lparr>w_email := cleanEmail\<rparr>)
         else return_value wallet)"

definition associateVerifiedWallet ::
    "stellar_sdk \<Rightarrow> jstring \<Rightarrow> jstring \<Rightarrow> jstring \<Rightarrow> jstring option option \<Rightarrow>
     (world, associated) action" where
  "associateVerifiedWallet sdk address signature nonce email =
     (if \<not> valid_address sdk address then throw (PlainError (js ''Invalid Stellar address''))
      else
        await (lift_result (validateOptionalEmail email)) (\<lambda>cleanEmail.
        await (consumeAuthNonce nonce address) (\<lambda>nonceValid.
        if \<not> nonceValid then throw (PlainError (js ''Invalid or expired authentication nonce''))
        else if \<not> verifyStellarSignature sdk address (formatAuthMessage address nonce) signature
        then throw (PlainError (js ''Invalid cryptographic signature for address''))
        else
          await (signin_wallet address cleanEmail (email \<noteq> None)) (\<lambda>wallet.
          await (write_state (\<lambda>w. w\<lparr>session_cookie := Some (w_id wallet)\<rparr>)) (\<lambda>_.
          return_value \<lparr>as_userId = w_userId wallet, as_walletId = w_id wallet,
                        as_address = w_address wallet, as_email = w_email wallet\<rparr>)))))"

text \<open>The session is the wallet the cookie names, with its linked accounts.\<close>

record session_wallet =
  sw_wallet :: wallet_row
  sw_linkedAccounts :: "linked_row list"

definition session_of :: "jstring \<Rightarrow> world \<Rightarrow> session_wallet option" where
  "session_of i w =
     map_option
       (\<lambda>r. \<lparr>sw_wallet = r, sw_linkedAccounts = filter (\<lambda>l. l_walletId l = w_id r) (linked w)\<rparr>)
       (find_unique (\<lambda>r. w_id r = uuid_key i) (wallets w))"

definition getSessionWallet :: "(world, session_wallet option) action" where
  "getSessionWallet =
     await (read_state session_cookie) (\<lambda>walletId.
     case walletId of
       None \<Rightarrow> return_value None
     | Some i \<Rightarrow> if i = [] then return_value None else select_by_uuid i (session_of i))"

definition not_authenticated :: exn where
  "not_authenticated = PlainError (js ''Not authenticated'')"

definition updateWalletEmail :: "jstring option \<Rightarrow> (world, jstring option) action" where
  "updateWalletEmail email =
     await getSessionWallet (\<lambda>s.
     case s of
       None \<Rightarrow> throw not_authenticated
     | Some sw \<Rightarrow>
         await (lift_result (validateOptionalEmail (Some email))) (\<lambda>cleanEmail.
         await (wallet_update (w_id (sw_wallet sw)) (\<lambda>r. r\<lparr>w_email := cleanEmail\<rparr>)) (\<lambda>updated.
         return_value (w_email updated))))"

definition clearWalletSession :: "(world, unit) action" where
  "clearWalletSession = write_state (\<lambda>w. w\<lparr>session_cookie := None\<rparr>)"

definition updateProfileVisibility :: "bool \<Rightarrow> (world, bool) action" where
  "updateProfileVisibility profilePublic =
     await getSessionWallet (\<lambda>s.
     case s of
       None \<Rightarrow> throw not_authenticated
     | Some sw \<Rightarrow>
         await (wallet_update (w_id (sw_wallet sw)) (\<lambda>r. r\<lparr>w_profilePublic := profilePublic\<rparr>)) (\<lambda>updated.
         return_value (w_profilePublic updated)))"

definition getWalletLinkedAccount :: "jstring \<Rightarrow> jstring \<Rightarrow> (world, linked_row option) action" where
  "getWalletLinkedAccount walletId provider =
     select_by_uuid walletId
       (\<lambda>w. find_unique (\<lambda>l. l_walletId l = uuid_key walletId \<and> l_provider l = provider) (linked w))"

text \<open>The route \<open>GET /api/auth/nonce\<close>: status and body, either the issued nonce or an error text.\<close>

definition nonce_route ::
    "stellar_sdk \<Rightarrow> jstring option \<Rightarrow> (world, int \<times> (jstring + issued_nonce)) action" where
  "nonce_route sdk address =
     (case address of
        None \<Rightarrow> return_value (400, Inl (js ''Missing address parameter''))
      | Some a \<Rightarrow>
          if a = [] then return_value (400, Inl (js ''Missing address parameter''))
          else try_catch
                 (await (issueAuthNonce sdk a) (\<lambda>result. return_value (200, Inr result)))
                 (\<lambda>err. return_value
                    (400, Inl (case err of NonError _ \<Rightarrow> js ''Failed to issue nonce''
                                         | _ \<Rightarrow> error_text err))))"

section \<open>Who is signed in\<close>

lemma select_by_uuidE:
  assumes "select_by_uuid i f w = (r, w')"
  obtains fs where "w' = w\<lparr>faults := fs\<rparr>" and "\<And>x. r = Inr x \<Longrightarrow> isUuid i \<and> x = f w'"
  using assms unfolding select_by_uuid_def
  by (cases rule: db_callE) (auto split: if_splits)

lemma session_of_faults [simp]: "session_of i (w\<lparr>faults := fs\<rparr>) = session_of i w"
  by (simp add: session_of_def)

definition signed_in_as :: "world \<Rightarrow> session_wallet \<Rightarrow> bool" where
  "signed_in_as w s = (\<exists>i. session_cookie w = Some i \<and> session_of i w = Some s)"

lemma getSessionWallet_cases:
  assumes "getSessionWallet w = (r, w')"
  shows "(\<exists>fs. w' = w\<lparr>faults := fs\<rparr>) \<and> (\<forall>s. r = Inr (Some s) \<longrightarrow> signed_in_as w s)"
proof (cases "session_cookie w")
  case None
  then have "r = Inr None" "w' = w\<lparr>faults := faults w\<rparr>"
    using assms by (simp_all add: getSessionWallet_def)
  then show ?thesis by blast
next
  case (Some i)
  show ?thesis
  proof (cases "i = []")
    case True
    then have "r = Inr None" "w' = w\<lparr>faults := faults w\<rparr>"
      using assms Some by (simp_all add: getSessionWallet_def)
    then show ?thesis by blast
  next
    case False
    then have "select_by_uuid i (session_of i) w = (r, w')"
      using assms Some by (simp add: getSessionWallet_def)
    then show ?thesis
      by (cases rule: select_by_uuidE) (auto simp: signed_in_as_def Some)
  qed
qed

lemma signed_in_as_row: "signed_in_as w s \<Longrightarrow> sw_wallet s \<in> set (wallets w)"
  by (auto simp: signed_in_as_def session_of_def dest: find_unique_Some)

text \<open>The cookie is the id alone: whoever presents a stored wallet's id is signed in as that wallet.\<close>

lemma any_stored_id_is_a_session:
  assumes "faults w = []" "r \<in> set (wallets w)" "distinct (map w_id (wallets w))"
    and "isUuid (w_id r)" "uuid_key (w_id r) = w_id r" "w_id r \<noteq> []"
  shows "\<exists>s. fst (getSessionWallet (w\<lparr>session_cookie := Some (w_id r)\<rparr>)) = Inr (Some s) \<and> sw_wallet s = r"
  using assms find_unique_key [of w_id "wallets w" r]
  by (auto simp: getSessionWallet_def select_by_uuid_def session_of_def await_def)

section \<open>What a sign-in leaves alone\<close>

lemmas auth_actions = associateVerifiedWallet_def consumeAuthNonce_def consume_find_def
  consume_found_def wallet_by_address_def user_create_def wallet_create_def wallet_update_def

lemmas auth_puts = put_nonces_def put_users_def put_wallets_def

lemma keeps_consume:
  assumes "\<And>w fs. f (w\<lparr>faults := fs\<rparr>) = f w" "\<And>w t. f (put_nonces t w) = f w"
  shows "keeps (\<lambda>w w'. f w' = f w) (consumeAuthNonce nonce address)"
  unfolding consumeAuthNonce_def consume_find_def consume_found_def using assms
  by (auto split: option.split intro!: keeps_await keeps_select keeps_on_table keeps_date_now
      keeps_return)

lemma keeps_wallet_ops:
  assumes "\<And>w fs. f (w\<lparr>faults := fs\<rparr>) = f w" "\<And>w t. f (put_users t w) = f w"
    "\<And>w t. f (put_wallets t w) = f w" "\<And>w n. f (w\<lparr>uuid_next := n\<rparr>) = f w"
  shows "keeps (\<lambda>w w'. f w' = f w) user_create"
    and "keeps (\<lambda>w w'. f w' = f w) (wallet_create a u e)"
    and "keeps (\<lambda>w w'. f w' = f w) (wallet_update i g)"
    and "keeps (\<lambda>w w'. f w' = f w) (wallet_by_address a)"
  unfolding user_create_def wallet_create_def wallet_update_def wallet_by_address_def Let_def
  using assms
  by (auto intro!: keeps_await keeps_select keeps_on_table keeps_random_uuid)

lemma consume_True:
  assumes "consumeAuthNonce nonce address w = (Inr True, w')"
  shows "(\<exists>entry\<in>set (nonces w). n_nonce entry = nonce \<and> n_address entry = address \<and>
           clock w < n_expiresAt entry) \<and>
    (\<forall>r\<in>set (nonces w'). n_nonce r \<noteq> nonce)"
proof -
  obtain found v where f: "consume_find nonce w = (Inr found, v)"
    and r: "consume_found nonce address found v = (Inr True, w')"
    using assms unfolding consumeAuthNonce_def by (rule await_InrE)
  obtain fs where v: "v = w\<lparr>faults := fs\<rparr>" and found: "found = find_unique (\<lambda>r. n_nonce r = nonce) (nonces w)"
    using f unfolding consume_find_def by (cases rule: selectE) auto
  obtain entry where e: "found = Some entry"
    using r by (cases found) (auto simp: consume_found_def)
  then have mem: "entry \<in> set (nonces w)" "n_nonce entry = nonce"
    using find_unique_Some [of "\<lambda>r. n_nonce r = nonce" "nonces w" entry] found by simp_all
  have "await (on_table nonces put_nonces
      (\<lambda>t. map_sum id (Pair ()) (delete_unique (\<lambda>r. n_nonce r = nonce) t))) (\<lambda>_.
      await date_now (\<lambda>now. return_value (n_address entry = address \<and> \<not> n_expiresAt entry \<le> now))) v
    = (Inr True, w')"
    using r by (simp add: e consume_found_def)
  then obtain u where d: "on_table nonces put_nonces
      (\<lambda>t. map_sum id (Pair ()) (delete_unique (\<lambda>r. n_nonce r = nonce) t)) v = (Inr (), u)"
    and "await date_now (\<lambda>now. return_value (n_address entry = address \<and> \<not> n_expiresAt entry \<le> now)) u
      = (Inr True, w')"
    by (rule await_InrE) auto
  then have k: "n_address entry = address \<and> \<not> n_expiresAt entry \<le> clock u" "w' = u"
    by auto
  obtain fs' t where "map_sum id (Pair ())
        (delete_unique (\<lambda>r. n_nonce r = nonce) (nonces (v\<lparr>faults := fs'\<rparr>))) = Inr ((), t)"
    and u: "u = put_nonces t (v\<lparr>faults := fs'\<rparr>)"
    using d by (rule on_table_InrE)
  then have t: "delete_unique (\<lambda>r. n_nonce r = nonce) (nonces w) = Inr t"
    by (cases "delete_unique (\<lambda>r. n_nonce r = nonce) (nonces w)") (auto simp: v)
  have "clock u = clock w" by (simp add: u v put_nonces_def)
  moreover have "\<forall>r\<in>set (nonces u). n_nonce r \<noteq> nonce"
    using delete_unique_Inr [OF t] by (auto simp: u put_nonces_def)
  ultimately show ?thesis using mem k by auto
qed

text \<open>The wallet a sign-in ends with: it is in the table and has the address.\<close>

lemma wallet_create_Inr:
  assumes "wallet_create address userId email w = (Inr row, w')"
  shows "row \<in> set (wallets w') \<and> w_address row = address"
proof -
  let ?row = "\<lparr>w_id = uuid_of w (uuid_next w), w_userId = userId, w_address = address, w_email = email,
    w_profilePublic = False, w_usdcTrustlineVerifiedAt = None\<rparr>"
  have "on_table wallets put_wallets (\<lambda>t. map_sum id (Pair ?row)
      (insert_row (\<lambda>r s. w_id r = w_id s \<or> w_address r = w_address s) ?row t))
      (w\<lparr>uuid_next := Suc (uuid_next w)\<rparr>) = (Inr row, w')"
    using assms by (simp add: wallet_create_def Let_def)
  then obtain fs t where "map_sum id (Pair ?row) (insert_row (\<lambda>r s. w_id r = w_id s \<or> w_address r = w_address s)
        ?row (wallets (w\<lparr>uuid_next := Suc (uuid_next w), faults := fs\<rparr>))) = Inr (row, t)"
    and w': "w' = put_wallets t (w\<lparr>uuid_next := Suc (uuid_next w), faults := fs\<rparr>)"
    by (rule on_table_InrE)
  then have "insert_row (\<lambda>r s. w_id r = w_id s \<or> w_address r = w_address s) ?row (wallets w) = Inr t"
    and "row = ?row"
    by (cases "insert_row (\<lambda>r s. w_id r = w_id s \<or> w_address r = w_address s) ?row (wallets w)"; simp)+
  then show ?thesis
    using insert_row_Inr w' by (fastforce simp: put_wallets_def)
qed

lemma wallet_update_Inr:
  assumes "wallet_update i g w = (Inr row, w')" "\<And>r. w_address (g r) = w_address r"
    "\<And>r. w_id (g r) = w_id r"
  shows "row \<in> set (wallets w') \<and> w_id row = i \<and>
    (\<exists>r\<in>set (wallets w). w_id r = i \<and> w_address r = w_address row)"
proof -
  obtain fs t where "update_unique (\<lambda>r. w_id r = i) g (wallets (w\<lparr>faults := fs\<rparr>)) = Inr (row, t)"
    and w': "w' = put_wallets t (w\<lparr>faults := fs\<rparr>)"
    using assms(1) unfolding wallet_update_def by (rule on_table_InrE)
  then have "update_unique (\<lambda>r. w_id r = i) g (wallets w) = Inr (row, t)" by simp
  from update_unique_Inr [OF this] obtain r where "r \<in> set (wallets w)" "w_id r = i" "row = g r"
    "t = map (\<lambda>r. if w_id r = i then g r else r) (wallets w)"
    by blast
  with w' assms(2,3) show ?thesis by (auto simp: put_wallets_def)
qed

lemma signin_wallet_Inr:
  assumes "signin_wallet address cleanEmail g w = (Inr wallet, w')" "distinct (map w_id (wallets w))"
  shows "wallet \<in> set (wallets w') \<and> w_address wallet = address"
proof -
  obtain existing v where f: "wallet_by_address address w = (Inr existing, v)"
    and r: "(case existing of
       None \<Rightarrow> await user_create (\<lambda>userId. wallet_create address userId cleanEmail)
     | Some wallet \<Rightarrow>
         if g then wallet_update (w_id wallet) (\<lambda>r. r\<lparr>w_email := cleanEmail\<rparr>)
         else return_value wallet) v = (Inr wallet, w')"
    using assms(1) unfolding signin_wallet_def by (rule await_InrE)
  obtain fs where v: "v = w\<lparr>faults := fs\<rparr>"
    and ex: "existing = find_unique (\<lambda>r. w_address r = address) (wallets w)"
    using f unfolding wallet_by_address_def by (cases rule: selectE) auto
  show ?thesis
  proof (cases existing)
    case None
    then obtain userId u where "wallet_create address userId cleanEmail u = (Inr wallet, w')"
      using r by (auto elim: await_InrE)
    then show ?thesis by (rule wallet_create_Inr)
  next
    case (Some row)
    then have row: "row \<in> set (wallets w)" "w_address row = address"
      using find_unique_Some [of "\<lambda>r. w_address r = address" "wallets w" row] ex by simp_all
    show ?thesis
    proof (cases g)
      case True
      then have "wallet_update (w_id row) (\<lambda>r. r\<lparr>w_email := cleanEmail\<rparr>) v = (Inr wallet, w')"
        using r Some by simp
      from wallet_update_Inr [OF this] obtain r where "wallet \<in> set (wallets w')"
        "r \<in> set (wallets w)" "w_id r = w_id row" "w_address r = w_address wallet"
        by (auto simp: v)
      moreover from this row have "r = row" using distinct_key_eq [OF assms(2)] by metis
      ultimately show ?thesis using row by simp
    next
      case False
      then have "w' = v" "wallet = row" using r Some by simp_all
      then show ?thesis using row v by simp
    qed
  qed
qed

lemma keeps_signin:
  assumes "\<And>w fs. f (w\<lparr>faults := fs\<rparr>) = f w" "\<And>w t. f (put_users t w) = f w"
    "\<And>w t. f (put_wallets t w) = f w" "\<And>w n. f (w\<lparr>uuid_next := n\<rparr>) = f w"
  shows "keeps (\<lambda>w w'. f w' = f w) (signin_wallet a e g)"
  unfolding signin_wallet_def
  by (auto split: option.split intro!: keeps_await keeps_return keeps_wallet_ops assms)

definition test_sdk :: stellar_sdk where
  "test_sdk = \<lparr>valid_public_key = (\<lambda>_. True), keypair_verify = (\<lambda>_ m s. Some (m = s)),
               sha256 = (\<lambda>m. replicate 64 7)\<rparr>"

definition test_address :: jstring where
  "test_address = js ''G'' @ replicate 55 65"

definition test_signature :: jstring where
  "test_signature = concat (replicate 64 (js ''07''))"

definition nonce_world :: world where
  "nonce_world = empty_world\<lparr>nonces :=
     [\<lparr>n_nonce = js ''n1'', n_address = test_address, n_expiresAt = 2000\<rparr>]\<rparr>"

lemma associate_run:
  assumes "distinct (map w_id (wallets w))"
  shows "case associateVerifiedWallet sdk address signature nonce email w of
      (Inr res, w') \<Rightarrow>
        valid_address sdk address \<and>
        verifyStellarSignature sdk address (formatAuthMessage address nonce) signature \<and>
        (\<exists>entry\<in>set (nonces w). n_nonce entry = nonce \<and> n_address entry = address \<and>
           clock w < n_expiresAt entry) \<and>
        (\<forall>r\<in>set (nonces w'). n_nonce r \<noteq> nonce) \<and>
        session_cookie w' = Some (as_walletId res) \<and>
        (\<exists>r\<in>set (wallets w'). w_id r = as_walletId res \<and> w_address r = address)
    | (Inl e, w') \<Rightarrow> session_cookie w' = session_cookie w"
proof -
  let ?m = "associateVerifiedWallet sdk address signature nonce email"
  obtain r w' where run: "?m w = (r, w')" by fastforce
  have ck: "keeps (\<lambda>w w'. session_cookie w' = session_cookie w) (consumeAuthNonce nonce address)"
    and cs: "keeps (\<lambda>w w'. session_cookie w' = session_cookie w) (signin_wallet address e g)" for e g
    by (rule keeps_consume keeps_signin; simp add: auth_puts)+
  have ws: "keeps (\<lambda>w w'. wallets w' = wallets w) (consumeAuthNonce nonce address)"
    and ns: "keeps (\<lambda>w w'. nonces w' = nonces w) (signin_wallet address e g)" for e g
    by (rule keeps_consume keeps_signin; simp add: auth_puts)+
  show ?thesis
  proof (cases "\<not> valid_address sdk address \<or> isl (validateOptionalEmail email)")
    case True
    then have "\<exists>e. ?m w = (Inl e, w)"
      by (cases "validateOptionalEmail email") (auto simp: associateVerifiedWallet_def)
    then show ?thesis by auto
  next
    case False
    then obtain clean where clean: "validateOptionalEmail email = Inr clean"
      by (cases "validateOptionalEmail email") auto
    obtain c v where c: "consumeAuthNonce nonce address w = (c, v)" by fastforce
    have v: "session_cookie v = session_cookie w" "wallets v = wallets w"
      using keepsD [OF ck c] keepsD [OF ws c] by simp_all
    show ?thesis
    proof (cases "c = Inr True \<and>
        verifyStellarSignature sdk address (formatAuthMessage address nonce) signature")
      case False
      then have "\<exists>e. ?m w = (Inl e, v)"
        using \<open>\<not> (\<not> valid_address sdk address \<or> _)\<close> clean c
        by (cases c) (auto simp: associateVerifiedWallet_def)
      then show ?thesis using v by auto
    next
      case True
      obtain s u where s: "signin_wallet address clean (email \<noteq> None) v = (s, u)" by fastforce
      have u: "session_cookie u = session_cookie v" "nonces u = nonces v"
        using keepsD [OF cs s] keepsD [OF ns s] by simp_all
      have m: "?m w = (case s of Inl e \<Rightarrow> (Inl e, u) | Inr wallet \<Rightarrow>
          (Inr \<lparr>as_userId = w_userId wallet, as_walletId = w_id wallet,
                as_address = w_address wallet, as_email = w_email wallet\<rparr>,
           u\<lparr>session_cookie := Some (w_id wallet)\<rparr>))"
        using \<open>\<not> (\<not> valid_address sdk address \<or> _)\<close> True clean c s
        by (cases s) (simp_all add: associateVerifiedWallet_def)
      show ?thesis
      proof (cases s)
        case (Inl e)
        with m u v show ?thesis by simp
      next
        case (Inr wallet)
        have "wallet \<in> set (wallets u) \<and> w_address wallet = address"
          using signin_wallet_Inr s Inr assms v(2) by metis
        then show ?thesis
          using consume_True [of nonce address w v] c True \<open>\<not> (\<not> valid_address sdk address \<or> _)\<close> u m Inr
          by auto
      qed
    qed
  qed
qed

text \<open>C2: A sign-in is sound. Under any pattern of database failures: if \<open>associateVerifiedWallet\<close>
  returns, the address is well formed, the signature verifies over the message that names the
  address and the nonce, a nonce issued to that address had not expired and is gone afterwards, and
  the session cookie names a stored wallet with that address. If it throws, the session cookie is
  what it was.\<close>

theorem associate_sound:
  assumes "distinct (map w_id (wallets w))"
  shows "case associateVerifiedWallet sdk address signature nonce email w of
      (Inr res, w') \<Rightarrow>
        valid_address sdk address \<and>
        verifyStellarSignature sdk address (formatAuthMessage address nonce) signature \<and>
        (\<exists>entry\<in>set (nonces w). n_nonce entry = nonce \<and> n_address entry = address \<and>
           clock w < n_expiresAt entry) \<and>
        (\<forall>r\<in>set (nonces w'). n_nonce r \<noteq> nonce) \<and>
        session_cookie w' = Some (as_walletId res) \<and>
        (\<exists>r\<in>set (wallets w'). w_id r = as_walletId res \<and> w_address r = address)
    | (Inl e, w') \<Rightarrow> session_cookie w' = session_cookie w"
  using assms by (rule associate_run)

lemma test_address_ok: "valid_address test_sdk test_address"
  by (simp add: valid_address_def STELLAR_ACCOUNT_ID_def test_address_def test_sdk_def is_upper_def
      list_all_iff)

lemma test_signature_ok: "verifyStellarSignature test_sdk test_address m test_signature"
proof -
  have "signature_bytes test_signature = replicate 64 7"
    by code_simp
  then show ?thesis
    using test_address_ok
    by (simp add: verifyStellarSignature_def Let_def) (simp add: test_sdk_def sep53Digest_def)
qed

lemma signin_test_run:
  "\<exists>res w'. associateVerifiedWallet test_sdk test_address test_signature (js ''n1'') None nonce_world
     = (Inr res, w')"
  by (simp add: await_def Let_def associateVerifiedWallet_def test_address_ok test_signature_ok validateOptionalEmail_def
      consumeAuthNonce_def consume_find_def consume_found_def nonce_world_def empty_world_def
      find_unique_def delete_unique_def put_nonces_def signin_wallet_def wallet_by_address_def
      user_create_def wallet_create_def insert_row_def put_users_def put_wallets_def)

theorem associate_sound_witness:
  "\<exists>res w'. associateVerifiedWallet test_sdk test_address test_signature (js ''n1'') None nonce_world
     = (Inr res, w') \<and> session_cookie w' = Some (as_walletId res) \<and>
     (\<forall>r\<in>set (nonces w'). n_nonce r \<noteq> js ''n1'')"
proof -
  obtain res w' where "associateVerifiedWallet test_sdk test_address test_signature (js ''n1'') None
      nonce_world = (Inr res, w')"
    using signin_test_run by blast
  moreover have "distinct (map w_id (wallets nonce_world))"
    by (simp add: nonce_world_def empty_world_def)
  ultimately show ?thesis
    using associate_sound [where w = nonce_world and sdk = test_sdk and address = test_address
        and signature = test_signature and nonce = "js ''n1''" and email = None] by auto
qed

section \<open>Nonces under concurrency\<close>

text \<open>
  Requests that consume nonces, interleaved at their queries. A request has arrived, has found its
  row, has answered, or has thrown; meanwhile nonces are issued and time passes.
\<close>

datatype consumer =
    Arrived jstring jstring
  | Found jstring jstring nonce_row
  | Consumed jstring bool
  | Broken

definition after_find :: "jstring \<Rightarrow> jstring \<Rightarrow> exn + nonce_row option \<Rightarrow> consumer" where
  "after_find n a r =
     (case r of Inl _ \<Rightarrow> Broken | Inr None \<Rightarrow> Consumed n False | Inr (Some e) \<Rightarrow> Found n a e)"

definition after_delete :: "jstring \<Rightarrow> exn + bool \<Rightarrow> consumer" where
  "after_delete n r = (case r of Inl _ \<Rightarrow> Broken | Inr b \<Rightarrow> Consumed n b)"

inductive auth_step ::
    "stellar_sdk \<Rightarrow> world \<times> consumer list \<Rightarrow> world \<times> consumer list \<Rightarrow> bool" for sdk where
  issue: "issueAuthNonce sdk a w = (r, w') \<Longrightarrow> auth_step sdk (w, ps) (w', ps)"
| tick: "0 \<le> t \<Longrightarrow> auth_step sdk (w, ps) (w\<lparr>clock := clock w + t\<rparr>, ps)"
| arrive: "auth_step sdk (w, ps) (w, ps @ [Arrived n a])"
| found: "i < length ps \<Longrightarrow> ps ! i = Arrived n a \<Longrightarrow> consume_find n w = (r, w') \<Longrightarrow>
    auth_step sdk (w, ps) (w', ps[i := after_find n a r])"
| finish: "i < length ps \<Longrightarrow> ps ! i = Found n a e \<Longrightarrow> consume_found n a (Some e) w = (r, w') \<Longrightarrow>
    auth_step sdk (w, ps) (w', ps[i := after_delete n r])"

definition nonce_uses :: "consumer list \<Rightarrow> jstring \<Rightarrow> nat" where
  "nonce_uses ps n = length (filter (\<lambda>p. p = Consumed n True) ps)"

definition nonce_rows :: "world \<Rightarrow> jstring \<Rightarrow> nat" where
  "nonce_rows w n = length (filter (\<lambda>r. n_nonce r = n) (nonces w))"

definition nonces_ok :: "world \<times> consumer list \<Rightarrow> bool" where
  "nonces_ok = (\<lambda>(w, ps). inj (uuid_of w) \<and>
     (\<forall>n. nonce_uses ps n + nonce_rows w n \<le> 1 \<and>
          (0 < nonce_uses ps n + nonce_rows w n \<longrightarrow> n \<in> uuid_of w ` {..<uuid_next w})))"

lemma nonce_uses_update:
  "i < length ps \<Longrightarrow> ps ! i \<noteq> Consumed n True \<Longrightarrow>
     nonce_uses (ps[i := q]) n = nonce_uses ps n + (if q = Consumed n True then 1 else 0)"
  unfolding nonce_uses_def
proof (induction ps arbitrary: i)
  case Nil
  then show ?case by simp
next
  case (Cons p ps)
  then show ?case by (cases i) auto
qed

lemma nonces_ok_mono:
  assumes "nonces_ok (w, ps)" "uuid_of w' = uuid_of w" "uuid_next w \<le> uuid_next w'"
    and "\<And>n. nonce_uses ps' n + nonce_rows w' n \<le> nonce_uses ps n + nonce_rows w n"
  shows "nonces_ok (w', ps')"
  unfolding nonces_ok_def prod.case
proof (intro conjI allI impI)
  show "inj (uuid_of w')" using assms(1,2) by (simp add: nonces_ok_def)
  fix n
  have ok: "nonce_uses ps n + nonce_rows w n \<le> 1"
    "0 < nonce_uses ps n + nonce_rows w n \<Longrightarrow> n \<in> uuid_of w ` {..<uuid_next w}"
    using assms(1) by (auto simp: nonces_ok_def)
  show "nonce_uses ps' n + nonce_rows w' n \<le> 1" using ok(1) assms(4) le_trans by blast
  assume "0 < nonce_uses ps' n + nonce_rows w' n"
  then have "n \<in> uuid_of w ` {..<uuid_next w}" using ok(2) assms(4) [of n] by linarith
  then show "n \<in> uuid_of w' ` {..<uuid_next w'}" using assms(2,3) by auto
qed

lemma length_filter_filter_le: "length (filter P (filter Q xs)) \<le> length (filter P xs)"
  by (induction xs) auto

lemma issue_nonces:
  assumes "issueAuthNonce sdk a w = (r, w')" "nonces_ok (w, ps)"
  shows "nonces_ok (w', ps)"
proof (cases "valid_address sdk a")
  case False
  then show ?thesis using assms by (auto simp: issueAuthNonce_def)
next
  case True
  let ?prune = "on_table nonces put_nonces
    (\<lambda>t. Inr ((), delete_many (\<lambda>r. n_expiresAt r \<le> clock w) t)) :: (world, unit) action"
  let ?row = "\<lambda>v. \<lparr>n_nonce = uuid_of v (uuid_next v), n_address = a,
    n_expiresAt = clock w + NONCE_TTL_MS\<rparr>"
  let ?add = "\<lambda>row. on_table nonces put_nonces (\<lambda>t. map_sum id (Pair ())
    (insert_row (\<lambda>r s. n_nonce r = n_nonce s) row t)) :: (world, unit) action"
  obtain p v where p: "?prune w = (p, v)" by fastforce
  have v: "uuid_of v = uuid_of w \<and> uuid_next v = uuid_next w \<and> (\<forall>n. nonce_rows v n \<le> nonce_rows w n)"
    using p by (cases rule: on_tableE)
      (auto simp: put_nonces_def nonce_rows_def delete_many_def length_filter_filter_le
          simp del: filter_filter)
  have okv: "nonces_ok (v, ps)"
    using nonces_ok_mono [OF assms(2), of v ps] v by simp
  show ?thesis
  proof (cases p)
    case (Inl e)
    then have "w' = v" using assms(1) True p by (simp add: issueAuthNonce_def)
    with okv show ?thesis by simp
  next
    case (Inr x)
    let ?u = "v\<lparr>uuid_next := Suc (uuid_next v)\<rparr>"
    obtain q z where q: "?add (?row v) ?u = (q, z)" by fastforce
    have w': "w' = z"
      using assms(1) True p Inr q
      by (cases q) (auto simp: issueAuthNonce_def Let_def)
    have fresh: "nonce_uses ps (uuid_of v (uuid_next v)) + nonce_rows v (uuid_of v (uuid_next v)) = 0"
    proof (rule ccontr)
      assume "\<not> ?thesis"
      then have "uuid_of v (uuid_next v) \<in> uuid_of v ` {..<uuid_next v}" and "inj (uuid_of v)"
        using okv by (auto simp: nonces_ok_def)
      then show False by (auto dest: injD)
    qed
    show ?thesis
      using q
    proof (cases rule: on_tableE)
      case (unchanged fs e)
      then show ?thesis
        unfolding w' by (intro nonces_ok_mono [OF okv]) (simp_all add: nonce_rows_def)
    next
      case (written fs x t)
      then have "nonces z = nonces v @ [?row v]"
        by (cases "insert_row (\<lambda>r s. n_nonce r = n_nonce s) (?row v) (nonces v)")
          (auto simp: put_nonces_def dest!: insert_row_Inr)
      then have rows: "nonce_rows z n = nonce_rows v n + (if n = uuid_of v (uuid_next v) then 1 else 0)"
        for n by (simp add: nonce_rows_def)
      have z: "uuid_of z = uuid_of v" "uuid_next z = Suc (uuid_next v)"
        using written by (simp_all add: put_nonces_def)
      show ?thesis
        unfolding w' nonces_ok_def prod.case z rows
        using okv fresh by (auto simp: nonces_ok_def lessThan_Suc)
    qed
  qed
qed

lemma auth_step_ok: "auth_step sdk c c' \<Longrightarrow> nonces_ok c \<Longrightarrow> nonces_ok c'"
proof (induction rule: auth_step.induct)
  case (issue a w r w' ps)
  then show ?case using issue_nonces by blast
next
  case (tick t w ps)
  then show ?case by (simp add: nonces_ok_def nonce_rows_def)
next
  case (arrive w ps n a)
  then show ?case by (simp add: nonces_ok_def nonce_uses_def)
next
  case (found i ps n a w r w')
  have q: "after_find n a r \<noteq> Consumed m True" for m
    by (simp add: after_find_def split: sum.split option.split)
  obtain fs where "w' = w\<lparr>faults := fs\<rparr>"
    using found(3) unfolding consume_find_def by (cases rule: selectE) auto
  with found(1,2,4) q show ?case
    by (intro nonces_ok_mono [OF found(4)]) (simp_all add: nonce_uses_update nonce_rows_def)
next
  case (finish i ps n a e w r w')
  let ?del = "on_table nonces put_nonces
    (\<lambda>t. map_sum id (Pair ()) (delete_unique (\<lambda>r. n_nonce r = n) t)) :: (world, unit) action"
  obtain d v where d: "?del w = (d, v)" by fastforce
  have w': "w' = v" "isl d \<Longrightarrow> isl r"
    using finish(3) d by (cases d; auto simp: consume_found_def)+
  have uses: "nonce_uses (ps[i := after_delete n r]) m
      = nonce_uses ps m + (if after_delete n r = Consumed m True then 1 else 0)" for m
    using finish(1,2) by (intro nonce_uses_update) simp_all
  show ?case
    using d
  proof (cases rule: on_tableE)
    case (unchanged fs x)
    then have "after_delete n r = Broken"
      using w'(2) by (cases r) (simp_all add: after_delete_def)
    then have "nonce_uses (ps[i := after_delete n r]) m = nonce_uses ps m" for m
      using uses by simp
    with unchanged show ?thesis
      unfolding w'(1) by (intro nonces_ok_mono [OF finish(4)]) (simp_all add: nonce_rows_def)
  next
    case (written fs x t)
    then have t: "t = filter (\<lambda>r. n_nonce r \<noteq> n) (nonces w)" "\<exists>r\<in>set (nonces w). n_nonce r = n"
      by (cases "delete_unique (\<lambda>r. n_nonce r = n) (nonces w)"; auto dest!: delete_unique_Inr)+
    have "nonces v = filter (\<lambda>r. n_nonce r \<noteq> n) (nonces w)"
      using written t by (simp add: put_nonces_def)
    then have rows: "nonce_rows v m = (if m = n then 0 else nonce_rows w m)" for m
      by (auto simp: nonce_rows_def intro!: arg_cong [where f = length] filter_cong)
    have "1 \<le> nonce_rows w n"
      using t(2) by (auto simp: nonce_rows_def Suc_le_eq filter_empty_conv)
    then have "nonce_uses (ps[i := after_delete n r]) m + nonce_rows v m \<le> nonce_uses ps m + nonce_rows w m" for m
      unfolding uses rows by (auto simp: after_delete_def split: sum.splits)
    then show ?thesis
      unfolding w'(1) using written by (intro nonces_ok_mono [OF finish(4)]) (simp_all add: put_nonces_def)
  qed
qed

lemma auth_reachable_ok: "(auth_step sdk)\<^sup>*\<^sup>* c c' \<Longrightarrow> nonces_ok c \<Longrightarrow> nonces_ok c'"
  by (induction rule: rtranclp_induct) (auto intro: auth_step_ok)

text \<open>C3: A nonce is good for one use. Whatever requests arrive, however their queries interleave
  with each other, with new nonces and with the passing of time, and whichever queries fail: of all
  the \<open>consumeAuthNonce\<close> calls for one nonce, at most one answers yes.\<close>

theorem nonce_single_use:
  assumes "inj (uuid_of w0)" and "nonces w0 = []"
    and "(auth_step sdk)\<^sup>*\<^sup>* (w0, []) (w, ps)"
  shows "nonce_uses ps n \<le> 1"
proof -
  have "nonces_ok (w0, [])"
    using assms(1,2) by (simp add: nonces_ok_def nonce_uses_def nonce_rows_def)
  with assms(3) have "nonces_ok (w, ps)" by (rule auth_reachable_ok)
  then have "nonce_uses ps n + nonce_rows w n \<le> 1" by (simp add: nonces_ok_def)
  then show ?thesis by linarith
qed

text \<open>Two requests race for one nonce: one is answered yes, the other's delete throws.\<close>

lemma two_consumers_race:
  "\<exists>w ps. (auth_step test_sdk)\<^sup>*\<^sup>* (empty_world, []) (w, ps) \<and>
     ps = [Consumed (js ''0'') True, Broken]"
proof -
  let ?n = "js ''0''" and ?a = "test_address"
  let ?row = "\<lparr>n_nonce = ?n, n_address = ?a, n_expiresAt = 301000\<rparr>"
  let ?w1 = "empty_world\<lparr>uuid_next := 1, nonces := [?row]\<rparr>" and ?w2 = "empty_world\<lparr>uuid_next := 1\<rparr>"
  have issue: "issueAuthNonce test_sdk ?a empty_world = (Inr \<lparr>in_nonce = ?n,
      in_message = formatAuthMessage ?a ?n, in_expiresAt = 301000\<rparr>, ?w1)"
    by (simp add: issueAuthNonce_def test_address_ok await_def empty_world_def Let_def insert_row_def
        delete_many_def put_nonces_def NONCE_TTL_MS_def)
  have find: "consume_find ?n ?w1 = (Inr (Some ?row), ?w1)"
    by (simp add: consume_find_def empty_world_def find_unique_def)
  have win: "consume_found ?n ?a (Some ?row) ?w1 = (Inr True, ?w2)"
    by (simp add: consume_found_def await_def empty_world_def delete_unique_def put_nonces_def)
  have lose: "consume_found ?n ?a (Some ?row) ?w2 = (Inl P2025, ?w2)"
    by (simp add: consume_found_def await_def empty_world_def delete_unique_def)
  note steps = auth_step.issue [OF issue, of "[]"]
    auth_step.arrive [of test_sdk ?w1 "[]" ?n ?a]
    auth_step.arrive [of test_sdk ?w1 "[Arrived ?n ?a]" ?n ?a]
    auth_step.found [OF _ _ find, of 0 "[Arrived ?n ?a, Arrived ?n ?a]" ?a test_sdk]
    auth_step.found [OF _ _ find, of 1 "[Found ?n ?a ?row, Arrived ?n ?a]" ?a test_sdk]
    auth_step.finish [OF _ _ win, of 0 "[Found ?n ?a ?row, Found ?n ?a ?row]" test_sdk]
    auth_step.finish [OF _ _ lose, of 1 "[Consumed ?n True, Found ?n ?a ?row]" test_sdk]
  have "(auth_step test_sdk)\<^sup>*\<^sup>* (empty_world, []) (?w2, [Consumed ?n True, Broken])"
    using steps by (simp add: after_find_def after_delete_def)
  then show ?thesis by blast
qed

theorem nonce_single_use_witness:
  "\<exists>w ps. (auth_step test_sdk)\<^sup>*\<^sup>* (empty_world, []) (w, ps) \<and>
     ps = [Consumed (js ''0'') True, Broken] \<and> nonce_uses ps (js ''0'') \<le> 1"
proof -
  obtain w ps where r: "(auth_step test_sdk)\<^sup>*\<^sup>* (empty_world, []) (w, ps)"
    "ps = [Consumed (js ''0'') True, Broken]"
    using two_consumers_race by blast
  have "inj (uuid_of empty_world)" "nonces empty_world = []"
    by (auto simp: empty_world_def intro: inj_on_inverseI [of _ bigint_of_digits])
  with nonce_single_use [OF this r(1)] r show ?thesis by blast
qed

end
