(* ===== verification/Json.thy ===== *)
theory Json
  imports Numbers Text_Codec
begin

text \<open>
  \<open>JSON.stringify\<close> and \<open>JSON.parse\<close> of ECMA-262. An object is the list of its members in order.
  \<open>json_stringify\<close> is \<open>None\<close> for a number whose text \<open>number_text\<close> does not give (one that is not an
  integer, or is \<open>1e21\<close> or more): the code never prints such a number. \<open>json_parse\<close> is \<open>None\<close> where
  \<open>JSON.parse\<close> throws its \<open>SyntaxError\<close>; its recursion runs on fuel, twice the length of the text
  and two more, which \<open>json_fuel\<close> shows is always enough.
\<close>

datatype json =
    JNull
  | JBool bool
  | JNum js_number
  | JStr jstring
  | JArr "json list"
  | JObj "(jstring \<times> json) list"

text \<open>Member access: of two members of one name, the later one counts.\<close>

definition members_get :: "(jstring \<times> json) list \<Rightarrow> jstring \<Rightarrow> json option" where
  "members_get ms k = map_of (rev ms) k"

section \<open>JSON.stringify\<close>

definition hex_lower :: "nat \<Rightarrow> nat" where
  "hex_lower n = (if n < 10 then 48 + n else 87 + n)"

definition hex4 :: "nat \<Rightarrow> jstring" where
  "hex4 u = [hex_lower (u div 4096), hex_lower (u div 256 mod 16), hex_lower (u div 16 mod 16),
             hex_lower (u mod 16)]"

definition escape_unit :: "nat \<Rightarrow> jstring" where
  "escape_unit u =
     (if u = 8 then [92, 98] else if u = 9 then [92, 116] else if u = 10 then [92, 110]
      else if u = 12 then [92, 102] else if u = 13 then [92, 114]
      else if u = 34 then [92, 34] else if u = 92 then [92, 92]
      else if u < 32 \<or> surrogate u then [92, 117] @ hex4 u
      else [u])"

fun quote_units :: "jstring \<Rightarrow> jstring" where
  "quote_units [] = []"
| "quote_units [u] = escape_unit u"
| "quote_units (u # v # s) =
     (if high_surrogate u \<and> low_surrogate v then u # v # quote_units s
      else escape_unit u @ quote_units (v # s))"

definition json_quote :: "jstring \<Rightarrow> jstring" where
  "json_quote s = [34] @ quote_units s @ [34]"

definition join_text :: "jstring option \<Rightarrow> jstring option \<Rightarrow> jstring option" where
  "join_text a b = Option.bind a (\<lambda>s. map_option (\<lambda>t. s @ t) b)"

fun json_stringify :: "json \<Rightarrow> jstring option"
  and elements_text :: "json list \<Rightarrow> jstring option"
  and members_text :: "(jstring \<times> json) list \<Rightarrow> jstring option" where
  "json_stringify JNull = Some (js ''null'')"
| "json_stringify (JBool b) = Some (if b then js ''true'' else js ''false'')"
| "json_stringify (JNum x) =
     (case x of Finite _ \<Rightarrow> number_text x | _ \<Rightarrow> Some (js ''null''))"
| "json_stringify (JStr s) = Some (json_quote s)"
| "json_stringify (JArr []) = Some (js ''[]'')"
| "json_stringify (JArr (x # xs)) =
     join_text (Some [91]) (join_text (json_stringify x) (elements_text xs))"
| "json_stringify (JObj []) = Some (js ''{}'')"
| "json_stringify (JObj ((k, x) # ms)) =
     join_text (Some (123 # json_quote k @ [58])) (join_text (json_stringify x) (members_text ms))"
| "elements_text [] = Some [93]"
| "elements_text (x # xs) =
     join_text (Some [44]) (join_text (json_stringify x) (elements_text xs))"
| "members_text [] = Some [125]"
| "members_text ((k, x) # ms) =
     join_text (Some (44 # json_quote k @ [58])) (join_text (json_stringify x) (members_text ms))"

section \<open>JSON.parse\<close>

definition json_ws :: "nat \<Rightarrow> bool" where
  "json_ws c = (c = 9 \<or> c = 10 \<or> c = 13 \<or> c = 32)"

definition skip_ws :: "jstring \<Rightarrow> jstring" where
  "skip_ws s = dropWhile json_ws s"

definition hex_digit :: "nat \<Rightarrow> nat option" where
  "hex_digit c =
     (if is_digit c then Some (c - 48)
      else if 97 \<le> c \<and> c \<le> 102 then Some (c - 87)
      else if 65 \<le> c \<and> c \<le> 70 then Some (c - 55) else None)"

definition read_hex4 :: "nat \<Rightarrow> nat \<Rightarrow> nat \<Rightarrow> nat \<Rightarrow> nat option" where
  "read_hex4 a b c d =
     (case (hex_digit a, hex_digit b, hex_digit c, hex_digit d) of
        (Some x, Some y, Some z, Some t) \<Rightarrow> Some (((x * 16 + y) * 16 + z) * 16 + t)
      | _ \<Rightarrow> None)"

definition simple_escape :: "nat \<Rightarrow> nat option" where
  "simple_escape e =
     (if e = 34 \<or> e = 92 \<or> e = 47 then Some e else if e = 98 then Some 8 else if e = 102 then Some 12
      else if e = 110 then Some 10 else if e = 114 then Some 13 else if e = 116 then Some 9 else None)"

text \<open>The characters of a string up to its closing quote, and what follows the quote.\<close>

fun json_chars :: "jstring \<Rightarrow> (jstring \<times> jstring) option" where
  "json_chars [] = None"
| "json_chars (c # s) =
     (if c = 34 then Some ([], s)
      else if c < 32 then None
      else if c \<noteq> 92 then map_option (apfst (Cons c)) (json_chars s)
      else (case s of
              [] \<Rightarrow> None
            | e # r \<Rightarrow>
                if e = 117 then
                  (case r of
                     h1 # h2 # h3 # h4 # r' \<Rightarrow>
                       (case read_hex4 h1 h2 h3 h4 of
                          None \<Rightarrow> None
                        | Some u \<Rightarrow> map_option (apfst (Cons u)) (json_chars r'))
                   | _ \<Rightarrow> None)
                else (case simple_escape e of
                        None \<Rightarrow> None
                      | Some u \<Rightarrow> map_option (apfst (Cons u)) (json_chars r))))"

definition read_digits :: "jstring \<Rightarrow> (jstring \<times> jstring) option" where
  "read_digits s =
     (let d = takeWhile is_digit s in if d = [] then None else Some (d, dropWhile is_digit s))"

definition read_fraction :: "jstring \<Rightarrow> (jstring \<times> jstring) option" where
  "read_fraction s =
     (case s of c # r \<Rightarrow> if c = 46 then read_digits r else Some ([], s) | [] \<Rightarrow> Some ([], []))"

definition read_exponent :: "jstring \<Rightarrow> (int \<times> jstring) option" where
  "read_exponent s =
     (case s of
        [] \<Rightarrow> Some (0, [])
      | c # r \<Rightarrow>
          if c = 101 \<or> c = 69 then
            (case r of
               [] \<Rightarrow> None
             | g # r' \<Rightarrow>
                 if g = 43 then map_option (apfst (\<lambda>d. int (bigint_of_digits d))) (read_digits r')
                 else if g = 45 then map_option (apfst (\<lambda>d. - int (bigint_of_digits d))) (read_digits r')
                 else map_option (apfst (\<lambda>d. int (bigint_of_digits d))) (read_digits r))
          else Some (0, s))"

definition json_unsigned :: "jstring \<Rightarrow> (rat \<times> jstring) option" where
  "json_unsigned s =
     (case read_digits s of
        None \<Rightarrow> None
      | Some (d, r) \<Rightarrow>
          if hd d = 48 \<and> length d \<noteq> 1 then None
          else (case read_fraction r of
                  None \<Rightarrow> None
                | Some (f, r') \<Rightarrow>
                    (case read_exponent r' of
                       None \<Rightarrow> None
                     | Some (e, r'') \<Rightarrow>
                         Some ((of_nat (bigint_of_digits d)
                                + of_nat (bigint_of_digits f) / 10 ^ length f) * 10 powi e, r''))))"

definition json_number :: "jstring \<Rightarrow> (json \<times> jstring) option" where
  "json_number s =
     (case s of
        [] \<Rightarrow> None
      | c # r \<Rightarrow>
          if c = 45 then map_option (apfst (\<lambda>q. JNum (round_double (- q)))) (json_unsigned r)
          else map_option (apfst (\<lambda>q. JNum (round_double q))) (json_unsigned s))"

definition json_word :: "jstring \<Rightarrow> (json \<times> jstring) option" where
  "json_word s =
     (if starts_with s (js ''true'') then Some (JBool True, drop 4 s)
      else if starts_with s (js ''false'') then Some (JBool False, drop 5 s)
      else if starts_with s (js ''null'') then Some (JNull, drop 4 s)
      else json_number s)"

fun json_value :: "nat \<Rightarrow> jstring \<Rightarrow> (json \<times> jstring) option"
  and json_elements :: "nat \<Rightarrow> jstring \<Rightarrow> (json list \<times> jstring) option"
  and json_members :: "nat \<Rightarrow> jstring \<Rightarrow> ((jstring \<times> json) list \<times> jstring) option" where
  "json_value 0 s = None"
| "json_value (Suc n) s =
     (case skip_ws s of
        [] \<Rightarrow> None
      | c # r \<Rightarrow>
          if c = 34 then map_option (apfst JStr) (json_chars r)
          else if c = 91 then
            (case skip_ws r of
               [] \<Rightarrow> None
             | d # r' \<Rightarrow> if d = 93 then Some (JArr [], r')
                        else map_option (apfst JArr) (json_elements n (d # r')))
          else if c = 123 then
            (case skip_ws r of
               [] \<Rightarrow> None
             | d # r' \<Rightarrow> if d = 125 then Some (JObj [], r')
                        else map_option (apfst JObj) (json_members n (d # r')))
          else json_word (c # r))"
| "json_elements 0 s = None"
| "json_elements (Suc n) s =
     (case json_value n s of
        None \<Rightarrow> None
      | Some (x, r) \<Rightarrow>
          (case skip_ws r of
             [] \<Rightarrow> None
           | c # r' \<Rightarrow>
               if c = 44 then map_option (apfst (Cons x)) (json_elements n r')
               else if c = 93 then Some ([x], r') else None))"
| "json_members 0 s = None"
| "json_members (Suc n) s =
     (case skip_ws s of
        [] \<Rightarrow> None
      | q # r \<Rightarrow>
          if q \<noteq> 34 then None
          else (case json_chars r of
                  None \<Rightarrow> None
                | Some (k, r1) \<Rightarrow>
                    (case skip_ws r1 of
                       [] \<Rightarrow> None
                     | c # r2 \<Rightarrow>
                         if c \<noteq> 58 then None
                         else (case json_value n r2 of
                                 None \<Rightarrow> None
                               | Some (x, r3) \<Rightarrow>
                                   (case skip_ws r3 of
                                      [] \<Rightarrow> None
                                    | d # r4 \<Rightarrow>
                                        if d = 44
                                        then map_option (apfst (Cons (k, x))) (json_members n r4)
                                        else if d = 125 then Some ([(k, x)], r4) else None)))))"

definition json_parse :: "jstring \<Rightarrow> json option" where
  "json_parse s =
     (case json_value (2 * length s + 2) s of
        Some (v, r) \<Rightarrow> if skip_ws r = [] then Some v else None
      | None \<Rightarrow> None)"

section \<open>The fuel is enough\<close>

lemma skip_ws_length: "length (skip_ws s) \<le> length s"
  by (simp add: skip_ws_def length_dropWhile_le)

lemma skip_ws_Cons_length: "skip_ws s = c # r \<Longrightarrow> length r < length s"
  using skip_ws_length [of s] by simp

lemma json_chars_length: "json_chars s = Some (t, r) \<Longrightarrow> length r < length s"
proof (induction s arbitrary: t r rule: length_induct)
  case (1 s)
  have IH: "json_chars u = Some (t', r') \<Longrightarrow> length u < length s \<Longrightarrow> length r' < length s" for u t' r'
    using 1(1) less_trans by blast
  then show ?case
    using 1(2) by (cases s) (auto split: if_splits list.splits option.splits)
qed

lemma read_digits_length: "read_digits s = Some (d, r) \<Longrightarrow> length r < length s"
proof -
  assume "read_digits s = Some (d, r)"
  then have "takeWhile is_digit s \<noteq> []" and r: "r = dropWhile is_digit s"
    by (auto simp: read_digits_def Let_def split: if_splits)
  then obtain c t where "s = c # t" "is_digit c"
    by (cases s) (auto split: if_splits)
  then show ?thesis using r by (simp add: length_dropWhile_le le_imp_less_Suc)
qed

lemma read_fraction_length: "read_fraction s = Some (f, r) \<Longrightarrow> length r \<le> length s"
  by (auto simp: read_fraction_def split: list.splits if_splits dest!: read_digits_length)

lemma read_exponent_length: "read_exponent s = Some (e, r) \<Longrightarrow> length r \<le> length s"
  by (fastforce simp: read_exponent_def split: list.splits if_splits dest!: read_digits_length)

lemma json_unsigned_length: "json_unsigned s = Some (q, r) \<Longrightarrow> length r < length s"
  by (fastforce simp: json_unsigned_def split: option.splits if_splits
      dest!: read_digits_length read_fraction_length read_exponent_length)

lemma json_number_length: "json_number s = Some (v, r) \<Longrightarrow> length r < length s"
  by (fastforce simp: json_number_def split: list.splits if_splits dest!: json_unsigned_length)

lemma json_word_length: "json_word s = Some (v, r) \<Longrightarrow> length r < length s"
  using json_number_length [of s v r]
  by (cases s) (auto simp: json_word_def starts_with_def split: if_splits)

text \<open>How each parser can succeed.\<close>

lemma json_value_SucE:
  assumes "json_value (Suc n) s = Some (v, r)"
  obtains (chars) q t where "skip_ws s = 34 # q" "json_chars q = Some (t, r)"
  | (empty) c q d where "skip_ws s = c # q" "skip_ws q = d # r"
  | (elements) c q vs where "skip_ws s = c # q" "json_elements n (skip_ws q) = Some (vs, r)"
  | (members) c q ms where "skip_ws s = c # q" "json_members n (skip_ws q) = Some (ms, r)"
  | (word) "json_word (skip_ws s) = Some (v, r)"
  using assms by (cases "skip_ws s") (auto split: list.splits if_splits)

lemma json_elements_SucE:
  assumes "json_elements (Suc n) s = Some (vs, r)"
  obtains (last) x r1 where "json_value n s = Some (x, r1)" "skip_ws r1 = 93 # r"
  | (more) x r1 r2 ws where "json_value n s = Some (x, r1)" "skip_ws r1 = 44 # r2"
      "json_elements n r2 = Some (ws, r)"
  using assms by (auto split: list.splits if_splits option.splits)

lemma json_members_SucE:
  assumes "json_members (Suc n) s = Some (ms, r)"
  obtains (last) k r0 r1 r2 x r3 where "skip_ws s = 34 # r0" "json_chars r0 = Some (k, r1)"
      "skip_ws r1 = 58 # r2" "json_value n r2 = Some (x, r3)" "skip_ws r3 = 125 # r"
  | (more) k r0 r1 r2 x r3 r4 ws where "skip_ws s = 34 # r0" "json_chars r0 = Some (k, r1)"
      "skip_ws r1 = 58 # r2" "json_value n r2 = Some (x, r3)" "skip_ws r3 = 44 # r4"
      "json_members n r4 = Some (ws, r)"
  using assms by (auto split: list.splits if_splits option.splits)

lemma json_value_length:
  "json_value n s = Some (v, r) \<Longrightarrow> length r < length s"
  "json_elements n s = Some (vs, r) \<Longrightarrow> length r < length s"
  "json_members n s = Some (ms, r) \<Longrightarrow> length r < length s"
proof (induction n arbitrary: s v vs ms r)
  case 0
  { case 1 then show ?case by simp }
  { case 2 then show ?case by simp }
  { case 3 then show ?case by simp }
next
  case (Suc n)
  note ws = skip_ws_length skip_ws_Cons_length
  {
    case 1
    then show ?case
    proof (cases rule: json_value_SucE)
      case (chars q t)
      then show ?thesis using json_chars_length ws by fastforce
    next
      case (empty c q d)
      then show ?thesis using ws(2) [of s] ws(2) [of q] by fastforce
    next
      case (elements c q vs)
      then show ?thesis using Suc.IH(2) skip_ws_length [of q] ws(2) [of s] by fastforce
    next
      case (members c q ms)
      then show ?thesis using Suc.IH(3) skip_ws_length [of q] ws(2) [of s] by fastforce
    next
      case word
      then show ?thesis using json_word_length skip_ws_length [of s] by fastforce
    qed
  next
    case 2
    then show ?case
    proof (cases rule: json_elements_SucE)
      case (last x r1)
      then show ?thesis using Suc.IH(1) ws(2) [of r1] by fastforce
    next
      case (more x r1 r2 ws)
      then show ?thesis using Suc.IH(1,2) skip_ws_Cons_length [of r1] by fastforce
    qed
  next
    case 3
    then show ?case
    proof (cases rule: json_members_SucE)
      case (last k r0 r1 r2 x r3)
      then show ?thesis
        using Suc.IH(1) [of r2 x r3] ws(2) [of s] ws(2) [of r1] ws(2) [of r3]
          json_chars_length [of r0] by fastforce
    next
      case (more k r0 r1 r2 x r3 r4 ws)
      then show ?thesis
        using Suc.IH(1) [of r2 x r3] Suc.IH(3) [of r4] skip_ws_Cons_length [of s]
          skip_ws_Cons_length [of r1] skip_ws_Cons_length [of r3] json_chars_length [of r0]
        by fastforce
    qed
  }
qed

text \<open>Past a bound that the length of the text gives, more fuel changes nothing.\<close>

lemma json_fuel_step:
  "2 * length s < n \<Longrightarrow> 2 * length s < m \<Longrightarrow> json_value n s = json_value m s"
  "2 * length s + 1 < n \<Longrightarrow> 2 * length s + 1 < m \<Longrightarrow> json_elements n s = json_elements m s"
  "2 * length s + 1 < n \<Longrightarrow> 2 * length s + 1 < m \<Longrightarrow> json_members n s = json_members m s"
proof (induction n arbitrary: s m)
  case 0
  { case 1 then show ?case by simp }
  { case 2 then show ?case by simp }
  { case 3 then show ?case by simp }
next
  case (Suc n)
  {
    case 1
    then obtain m' where m: "m = Suc m'" by (cases m) auto
    have "json_elements n (skip_ws r) = json_elements m' (skip_ws r) \<and>
      json_members n (skip_ws r) = json_members m' (skip_ws r)" if "skip_ws s = c # r" for c r
    proof -
      have "length (skip_ws r) < length s"
        using skip_ws_length [of r] skip_ws_Cons_length [OF that] by simp
      then show ?thesis using Suc.IH(2,3) [of "skip_ws r" m'] 1 m by simp
    qed
    then show ?case unfolding m by (auto split: list.split)
  next
    case 2
    then obtain m' where m: "m = Suc m'" by (cases m) auto
    have v: "json_value n s = json_value m' s"
      using Suc.IH(1) [of s m'] 2 m by simp
    have "json_elements n r' = json_elements m' r'"
      if "json_value n s = Some (x, r)" "skip_ws r = c # r'" for x r c r'
      using Suc.IH(2) [of r' m'] json_value_length(1) [OF that(1)] skip_ws_Cons_length [OF that(2)] 2 m
      by simp
    then show ?case unfolding m using v by (auto split: option.split list.split)
  next
    case 3
    then obtain m' where m: "m = Suc m'" by (cases m) auto
    have v: "json_value n r2 = json_value m' r2 \<and>
        (\<forall>x r3 d r4. json_value n r2 = Some (x, r3) \<longrightarrow> skip_ws r3 = d # r4 \<longrightarrow>
           json_members n r4 = json_members m' r4)"
      if "skip_ws s = q # r" "json_chars r = Some (k, r1)" "skip_ws r1 = c # r2" for q r k r1 c r2
    proof -
      have l: "length r2 < length s"
        using skip_ws_Cons_length [OF that(1)] json_chars_length [OF that(2)]
          skip_ws_Cons_length [OF that(3)] by simp
      have "json_members n r4 = json_members m' r4"
        if "json_value n r2 = Some (x, r3)" "skip_ws r3 = d # r4" for x r3 d r4
        using json_value_length(1) [OF that(1)] skip_ws_Cons_length [OF that(2)] l
          Suc.IH(3) [of r4 m'] 3 m by simp
      then show ?thesis using Suc.IH(1) [of r2 m'] l 3 m by auto
    qed
    then show ?case unfolding m by (auto split: option.split list.split)
  }
qed

lemma json_fuel: "2 * length s < n \<Longrightarrow> json_value n s = json_value (2 * length s + 2) s"
  by (rule json_fuel_step(1)) simp_all

section \<open>Parsing what was printed\<close>

lemma hex_digit_lower: "n < 16 \<Longrightarrow> hex_digit (hex_lower n) = Some n"
  by (auto simp: hex_digit_def hex_lower_def is_digit_def)

lemma read_hex4_of:
  assumes "u < 65536"
  shows "read_hex4 (hex_lower (u div 4096)) (hex_lower (u div 256 mod 16))
      (hex_lower (u div 16 mod 16)) (hex_lower (u mod 16)) = Some u"
proof -
  have "u div 4096 = u div 256 div 16" "u div 256 = u div 16 div 16"
    by (simp_all add: div_mult2_eq [symmetric])
  then have "u div 4096 * 16 + u div 256 mod 16 = u div 256"
    and "u div 256 * 16 + u div 16 mod 16 = u div 16" and "u div 16 * 16 + u mod 16 = u"
    by simp_all
  then have "((u div 4096 * 16 + u div 256 mod 16) * 16 + u div 16 mod 16) * 16 + u mod 16 = u"
    by simp
  moreover have "u div 4096 < 16" using assms by (simp add: less_mult_imp_div_less)
  ultimately show ?thesis by (simp add: read_hex4_def hex_digit_lower)
qed

lemma json_chars_escape:
  assumes "is_unit u"
  shows "json_chars (escape_unit u @ r) = map_option (apfst (Cons u)) (json_chars r)"
proof -
  consider "u \<in> {8, 9, 10, 12, 13, 34, 92}"
    | "u \<notin> {8, 9, 10, 12, 13, 34, 92}" "u < 32 \<or> surrogate u"
    | "u \<notin> {8, 9, 10, 12, 13, 34, 92}" "\<not> (u < 32 \<or> surrogate u)"
    by blast
  then show ?thesis
  proof cases
    case 1
    then show ?thesis by (auto simp: escape_unit_def simple_escape_def)
  next
    case 2
    then have "escape_unit u = [92, 117] @ hex4 u" by (auto simp: escape_unit_def)
    then show ?thesis
      using read_hex4_of [of u] assms by (simp add: hex4_def is_unit_def)
  next
    case 3
    then have "escape_unit u = [u]" by (auto simp: escape_unit_def)
    with 3 show ?thesis by simp
  qed
qed

lemma json_chars_plain:
  "c \<noteq> 34 \<Longrightarrow> \<not> c < 32 \<Longrightarrow> c \<noteq> 92 \<Longrightarrow> json_chars (c # s) = map_option (apfst (Cons c)) (json_chars s)"
  by simp

lemma json_chars_quote:
  "list_all is_unit s \<Longrightarrow> json_chars (quote_units s @ 34 # r) = Some (s, r)"
proof (induction s rule: quote_units.induct)
  case 1
  then show ?case by simp
next
  case (2 u)
  then show ?case by (simp add: json_chars_escape)
next
  case (3 u v s)
  show ?case
  proof (cases "high_surrogate u \<and> low_surrogate v")
    case True
    then have u: "\<not> u < 32" "u \<noteq> 34" "u \<noteq> 92" and v: "\<not> v < 32" "v \<noteq> 34" "v \<noteq> 92"
      by (auto simp: high_surrogate_def low_surrogate_def)
    with True 3 show ?thesis
      by (simp add: json_chars_plain del: json_chars.simps)
  next
    case False
    then have "quote_units (u # v # s) = escape_unit u @ quote_units (v # s)"
      by (simp only: quote_units.simps False if_False)
    with False 3 show ?thesis by (simp add: json_chars_escape del: json_chars.simps quote_units.simps)
  qed
qed

text \<open>\<open>JSON.stringify\<close> escapes lone surrogates, so its text is well-formed and survives UTF-8.\<close>

lemma hex_lower_bound: "n < 16 \<Longrightarrow> hex_lower n < 128"
  by (auto simp: hex_lower_def)

lemma escape_unit_well_formed: "is_unit u \<Longrightarrow> well_formed (escape_unit u)"
proof (cases "u < 32 \<or> surrogate u")
  case True
  assume u: "is_unit u"
  then have "u div 4096 < 16" by (simp add: is_unit_def less_mult_imp_div_less)
  then have "list_all (\<lambda>c. c < 128) (hex4 u)"
    by (simp add: hex4_def hex_lower_bound)
  then have "list_all (\<lambda>c. c < 55296) (hex4 u)" by (auto simp: list_all_iff)
  with True show ?thesis
    unfolding escape_unit_def by (auto intro!: well_formed_plain simp: surrogate_def)
next
  case False
  then show "is_unit u \<Longrightarrow> well_formed (escape_unit u)"
    by (auto simp: escape_unit_def well_formed_def is_unit_def surrogate_def)
qed

lemma quote_units_well_formed: "list_all is_unit s \<Longrightarrow> well_formed (quote_units s)"
proof (induction s rule: quote_units.induct)
  case 1
  then show ?case by (simp add: well_formed_def)
next
  case (2 u)
  then show ?case by (simp add: escape_unit_well_formed)
next
  case (3 u v s)
  then show ?case
    by (auto intro!: well_formed_pair well_formed_append escape_unit_well_formed)
qed

lemma well_formed_Cons: "c < 55296 \<Longrightarrow> well_formed s \<Longrightarrow> well_formed (c # s)"
  using well_formed_append [of "[c]" s] well_formed_plain [of "[c]"] by simp

lemma well_formed_Nil [simp]: "well_formed []"
  by (simp add: well_formed_def)

lemma json_quote_well_formed: "list_all is_unit s \<Longrightarrow> well_formed (json_quote s)"
  unfolding json_quote_def
  by (intro well_formed_append quote_units_well_formed) (simp_all add: well_formed_plain)

text \<open>A number must not be followed by a character that could continue it.\<close>

definition ends_number :: "jstring \<Rightarrow> bool" where
  "ends_number r = (r = [] \<or> \<not> is_digit (hd r) \<and> hd r \<notin> {46, 101, 69})"

lemma ends_number_special [simp]:
  "ends_number []" "ends_number (44 # r)" "ends_number (93 # r)" "ends_number (125 # r)"
  by (simp_all add: ends_number_def is_digit_def)

lemma read_digits_text:
  assumes "ends_number r"
  shows "read_digits (bigint_to_string n @ r) = Some (bigint_to_string n, r)"
proof -
  have d: "list_all is_digit (bigint_to_string n)" by (rule bigint_to_string_digits)
  have r: "takeWhile is_digit r = []" "dropWhile is_digit r = r"
    using assms by (cases r; auto simp: ends_number_def)+
  have "takeWhile is_digit (bigint_to_string n @ r) = bigint_to_string n"
    "dropWhile is_digit (bigint_to_string n @ r) = r"
    using d r by (simp_all add: list_all_iff takeWhile_append2 dropWhile_append2)
  then show ?thesis by (simp add: read_digits_def Let_def)
qed

lemma bigint_to_string_lead: "hd (bigint_to_string n) = 48 \<Longrightarrow> length (bigint_to_string n) = 1"
proof (induction n rule: bigint_to_string.induct)
  case (1 n)
  show ?case
  proof (cases "n < 10")
    case True
    then show ?thesis by simp
  next
    case False
    define t where "t = bigint_to_string (n div 10)"
    have t: "t \<noteq> []" "bigint_to_string n = t @ [48 + n mod 10]"
      using False by (simp_all add: t_def bigint_to_string.simps [of n] del: bigint_to_string_big)
    have h: "hd t = 48" using "1.prems" unfolding t(2) using t(1) by simp
    have "length t = 1" unfolding t_def by (rule "1.IH" [OF False h [unfolded t_def]])
    with h have "hd t = 48" "length t = 1" by blast+
    then have "t = [48]" by (cases t) auto
    moreover have "bigint_of_digits t = n div 10" by (simp add: t_def)
    ultimately have "n div 10 = 0" by (simp add: bigint_of_digits_def)
    then show ?thesis using False by presburger
  qed
qed

lemma json_unsigned_text:
  assumes "ends_number r"
  shows "json_unsigned (bigint_to_string n @ r) = Some (of_nat n, r)"
proof -
  have "read_fraction r = Some ([], r)" "read_exponent r = Some (0, r)"
    using assms by (cases r; simp add: read_fraction_def read_exponent_def ends_number_def)+
  then show ?thesis
    using read_digits_text [OF assms, of n] bigint_to_string_lead [of n]
    by (auto simp: json_unsigned_def)
qed

lemma bigint_to_string_Cons: "\<exists>c t. bigint_to_string n = c # t \<and> is_digit c"
  using bigint_to_string_digits [of n] by (cases "bigint_to_string n") auto

lemma json_number_text:
  assumes "ends_number r" "\<bar>n\<bar> \<le> 2 ^ 53"
  shows "json_word (int_text n @ r) = Some (JNum (js_int n), r)"
proof -
  obtain c t where ct: "int_text n @ r = c # t" "c = 45 \<or> is_digit c"
  proof (cases "n < 0")
    case True
    then show ?thesis by (intro that [of 45]) (simp_all add: int_text_def)
  next
    case False
    obtain c t where "bigint_to_string (nat n) = c # t" "is_digit c"
      using bigint_to_string_Cons by blast
    with False show ?thesis by (intro that [of c]) (simp_all add: int_text_def)
  qed
  then have word: "json_word (int_text n @ r) = json_number (int_text n @ r)"
    by (auto simp: json_word_def starts_with_def is_digit_def)
  show ?thesis
  proof (cases "n < 0")
    case True
    then have "- rat_of_nat (nat (- n)) = of_int n" by simp
    then show ?thesis
      unfolding word using True round_double_int [OF assms(2)] json_unsigned_text [OF assms(1)]
      by (simp add: json_number_def int_text_def)
  next
    case False
    then have "rat_of_nat (nat n) = of_int n" by simp
    moreover obtain c t where "bigint_to_string (nat n) = c # t" "is_digit c"
      using bigint_to_string_Cons by blast
    ultimately show ?thesis
      unfolding word using False round_double_int [OF assms(2)] json_unsigned_text [OF assms(1), of "nat n"]
      by (auto simp: json_number_def int_text_def is_digit_def)
  qed
qed

text \<open>The values the code prints: strings of code units, and integers a double holds exactly.\<close>

fun printable :: "json \<Rightarrow> bool"
  and printable_members :: "(jstring \<times> json) list \<Rightarrow> bool"
  and printable_elements :: "json list \<Rightarrow> bool" where
  "printable (JNum x) = (\<exists>n. x = js_int n \<and> \<bar>n\<bar> \<le> 2 ^ 53)"
| "printable (JStr s) = list_all is_unit s"
| "printable (JArr xs) = printable_elements xs"
| "printable (JObj ms) = printable_members ms"
| "printable JNull = True"
| "printable (JBool _) = True"
| "printable_elements [] = True"
| "printable_elements (x # xs) = (printable x \<and> printable_elements xs)"
| "printable_members [] = True"
| "printable_members ((k, x) # ms) = (list_all is_unit k \<and> printable x \<and> printable_members ms)"

lemma skip_ws_no [simp]: "\<not> json_ws c \<Longrightarrow> skip_ws (c # s) = c # s"
  by (simp add: skip_ws_def)

lemma json_ws_not [simp]:
  "\<not> json_ws 44" "\<not> json_ws 93" "\<not> json_ws 125" "\<not> json_ws 34" "\<not> json_ws 58" "\<not> json_ws 91"
  "\<not> json_ws 123"
  by (simp_all add: json_ws_def)

lemma int_text_start: "\<exists>c t. int_text n = c # t \<and> (c = 45 \<or> is_digit c)"
proof (cases "n < 0")
  case True
  then show ?thesis by (simp add: int_text_def)
next
  case False
  then have "int_text n = bigint_to_string (nat n)" by (simp add: int_text_def)
  then show ?thesis using bigint_to_string_Cons by metis
qed

lemma join_text_Some [simp]:
  "join_text a b = Some t \<longleftrightarrow> (\<exists>x y. a = Some x \<and> b = Some y \<and> t = x @ y)"
  by (cases a; cases b) (auto simp: join_text_def)

lemma json_int_text:
  "json_stringify (JNum (js_int n)) = Some t \<Longrightarrow> t = int_text n"
  by (auto simp: js_int_def number_text_def split: if_splits)

text \<open>A printed value starts with no white space and with no closing bracket.\<close>

lemma printed_start:
  assumes "json_stringify v = Some t" "printable v"
  shows "\<exists>c u. t = c # u \<and> \<not> json_ws c \<and> c \<noteq> 93 \<and> c \<noteq> 125"
proof (cases v)
  case (JNum x)
  then obtain n where "t = int_text n" using assms json_int_text by auto
  moreover obtain c u where "int_text n = c # u" "c = 45 \<or> is_digit c"
    using int_text_start by blast
  ultimately show ?thesis by (auto simp: json_ws_def is_digit_def)
next
  case (JArr xs)
  then show ?thesis using assms by (cases xs) (auto simp: json_ws_def)
next
  case (JObj ms)
  then show ?thesis using assms by (cases ms) (auto simp: json_ws_def)
qed (use assms in \<open>auto simp: json_ws_def json_quote_def split: if_splits\<close>)

lemma elements_text_ends: "elements_text xs = Some t \<Longrightarrow> ends_number (t @ r)"
  by (cases xs) auto

lemma members_text_ends: "members_text ms = Some t \<Longrightarrow> ends_number (t @ r)"
  by (cases ms) auto

lemma json_chars_quoted:
  "list_all is_unit k \<Longrightarrow> json_chars (quote_units k @ 34 # r) = Some (k, r)"
  by (rule json_chars_quote)

lemma json_value_scalar:
  assumes "json_stringify v = Some t" "printable v" "ends_number r"
    and "case v of JArr _ \<Rightarrow> False | JObj _ \<Rightarrow> False | _ \<Rightarrow> True"
  shows "json_value (Suc n) (t @ r) = Some (v, r)"
proof (cases v)
  case (JNum x)
  then obtain m where m: "x = js_int m" "\<bar>m\<bar> \<le> 2 ^ 53" using assms(2) by auto
  then have t: "t = int_text m" using JNum assms(1) json_int_text by blast
  obtain c u where cu: "int_text m = c # u" "c = 45 \<or> is_digit c"
    using int_text_start by blast
  have "json_value (Suc n) (t @ r) = json_word (int_text m @ r)"
    using t cu by (auto simp: json_ws_def is_digit_def)
  then show ?thesis using json_number_text [OF assms(3) m(2)] JNum m(1) by simp
next
  case (JStr s)
  then show ?thesis using assms(1,2) by (auto simp: json_quote_def json_chars_quoted del: json_chars.simps)
qed (use assms in \<open>auto simp: json_ws_def json_word_def starts_with_def split: if_splits\<close>)

lemma json_scalar_text:
  assumes "json_stringify v = Some t" "printable v" "ends_number r"
    and "case v of JArr _ \<Rightarrow> False | JObj _ \<Rightarrow> False | _ \<Rightarrow> True"
  shows "\<exists>n0. \<forall>n\<ge>n0. json_value n (t @ r) = Some (v, r)"
  using json_value_scalar [OF assms] by (metis Suc_le_D)

lemma json_text_roundtrip:
  "json_stringify v = Some t \<Longrightarrow> printable v \<Longrightarrow> ends_number r \<Longrightarrow>
     \<exists>n0. \<forall>n\<ge>n0. json_value n (t @ r) = Some (v, r)"
  "elements_text xs = Some t \<Longrightarrow> printable_elements xs \<Longrightarrow>
     \<exists>n0. \<forall>n\<ge>n0. \<forall>x s. json_value n s = Some (x, t @ r) \<longrightarrow>
       json_elements (Suc n) s = Some (x # xs, r)"
  "members_text ms = Some t \<Longrightarrow> printable_members ms \<Longrightarrow>
     \<exists>n0. \<forall>n\<ge>n0. \<forall>k x u. list_all is_unit k \<longrightarrow> json_value n u = Some (x, t @ r) \<longrightarrow>
       json_members (Suc n) (json_quote k @ 58 # u) = Some ((k, x) # ms, r)"
proof (induction v and xs and ms arbitrary: t r and t r and t r
    rule: json_stringify_elements_text_members_text.induct)
  case (6 x xs)
  then obtain a b where t: "t = 91 # a @ b" and a: "json_stringify x = Some a" "printable x"
    and b: "elements_text xs = Some b" "printable_elements xs" by auto
  obtain n1 where n1: "\<And>n. n \<ge> n1 \<Longrightarrow> json_value n (a @ b @ r) = Some (x, b @ r)"
    using "6.IH"(1) [OF a elements_text_ends [OF b(1)]] by blast
  obtain n2 where n2: "\<And>n x s. n \<ge> n2 \<Longrightarrow> json_value n s = Some (x, b @ r) \<Longrightarrow>
      json_elements (Suc n) s = Some (x # xs, r)"
    using "6.IH"(2) [OF b] by blast
  obtain c u where cu: "a = c # u" "\<not> json_ws c" "c \<noteq> 93"
    using printed_start [OF a] by blast
  have "json_value n (t @ r) = Some (JArr (x # xs), r)" if "Suc (Suc (max n1 n2)) \<le> n" for n
  proof -
    from that have m: "n = Suc (Suc (n - 2))" "n1 \<le> n - 2" "n2 \<le> n - 2" by linarith+
    define m where "m = n - 2"
    note m = m [folded m_def]
    have "json_elements (Suc m) (a @ b @ r) = Some (x # xs, r)"
      using n1 n2 m by blast
    then show ?thesis
      unfolding m(1) t using cu by (simp del: json_elements.simps)
  qed
  then show ?case by blast
next
  case (8 k x ms)
  then obtain a b where t: "t = 123 # json_quote k @ 58 # a @ b" and a: "json_stringify x = Some a" "printable x"
    and b: "members_text ms = Some b" "printable_members ms" and k: "list_all is_unit k" by auto
  obtain n1 where n1: "\<And>n. n \<ge> n1 \<Longrightarrow> json_value n (a @ b @ r) = Some (x, b @ r)"
    using "8.IH"(1) [OF a members_text_ends [OF b(1)]] by blast
  obtain n2 where n2: "\<And>n k x u. n \<ge> n2 \<Longrightarrow> list_all is_unit k \<Longrightarrow> json_value n u = Some (x, b @ r) \<Longrightarrow>
      json_members (Suc n) (json_quote k @ 58 # u) = Some ((k, x) # ms, r)"
    using "8.IH"(2) [OF b] by blast
  have "json_value n (t @ r) = Some (JObj ((k, x) # ms), r)" if "Suc (Suc (max n1 n2)) \<le> n" for n
  proof -
    from that have m: "n = Suc (Suc (n - 2))" "n1 \<le> n - 2" "n2 \<le> n - 2" by linarith+
    define m where "m = n - 2"
    note m = m [folded m_def]
    have "json_members (Suc m) (json_quote k @ 58 # a @ b @ r) = Some ((k, x) # ms, r)"
      using n1 n2 m k by blast
    then show ?thesis
      unfolding m(1) t by (simp add: json_quote_def del: json_members.simps)
  qed
  then show ?case by blast
next
  case (10 x xs)
  then obtain a b where t: "t = 44 # a @ b" and a: "json_stringify x = Some a" "printable x"
    and b: "elements_text xs = Some b" "printable_elements xs" by auto
  obtain n1 where n1: "\<And>n. n \<ge> n1 \<Longrightarrow> json_value n (a @ b @ r) = Some (x, b @ r)"
    using "10.IH"(1) [OF a elements_text_ends [OF b(1)]] by blast
  obtain n2 where n2: "\<And>n x s. n \<ge> n2 \<Longrightarrow> json_value n s = Some (x, b @ r) \<Longrightarrow>
      json_elements (Suc n) s = Some (x # xs, r)"
    using "10.IH"(2) [OF b] by blast
  have "json_elements (Suc n) s = Some (y # x # xs, r)"
    if "Suc (max n1 n2) \<le> n" "json_value n s = Some (y, t @ r)" for n y s
  proof -
    from that(1) have m: "n = Suc (n - 1)" "n1 \<le> n - 1" "n2 \<le> n - 1" by linarith+
    define m where "m = n - 1"
    note m = m [folded m_def]
    have "json_elements n (a @ b @ r) = Some (x # xs, r)"
      unfolding m(1) using n1 n2 m by blast
    then show ?thesis
      using that(2) t by (simp del: json_value.simps)
  qed
  then show ?case by blast
next
  case (12 k x ms)
  then obtain a b where t: "t = 44 # json_quote k @ 58 # a @ b" and a: "json_stringify x = Some a" "printable x"
    and b: "members_text ms = Some b" "printable_members ms" and k: "list_all is_unit k" by auto
  obtain n1 where n1: "\<And>n. n \<ge> n1 \<Longrightarrow> json_value n (a @ b @ r) = Some (x, b @ r)"
    using "12.IH"(1) [OF a members_text_ends [OF b(1)]] by blast
  obtain n2 where n2: "\<And>n k x u. n \<ge> n2 \<Longrightarrow> list_all is_unit k \<Longrightarrow> json_value n u = Some (x, b @ r) \<Longrightarrow>
      json_members (Suc n) (json_quote k @ 58 # u) = Some ((k, x) # ms, r)"
    using "12.IH"(2) [OF b] by blast
  have "json_members (Suc n) (json_quote k' @ 58 # u) = Some ((k', y) # (k, x) # ms, r)"
    if "Suc (max n1 n2) \<le> n" "list_all is_unit k'" "json_value n u = Some (y, t @ r)" for n k' y u
  proof -
    from that(1) have m: "n = Suc (n - 1)" "n1 \<le> n - 1" "n2 \<le> n - 1" by linarith+
    define m where "m = n - 1"
    note m = m [folded m_def]
    have "json_members n (json_quote k @ 58 # a @ b @ r) = Some ((k, x) # ms, r)"
      unfolding m(1) using n1 n2 m k by blast
    then show ?thesis
      using that(2,3) t
      by (simp add: json_quote_def json_chars_quoted del: json_value.simps json_chars.simps)
  qed
  then show ?case by blast
next
  case (9 t r)
  then show ?case by (auto simp del: json_value.simps)
next
  case (11 t r)
  then show ?case
    by (auto simp: json_quote_def json_chars_quoted simp del: json_value.simps json_chars.simps)
next
  case 5
  then show ?case by (intro exI [of _ 1]) (auto simp: Suc_le_eq gr0_conv_Suc)
next
  case 7
  then show ?case by (intro exI [of _ 1]) (auto simp: Suc_le_eq gr0_conv_Suc)
qed (erule json_scalar_text; simp)+

theorem json_roundtrip:
  assumes "printable v" "json_stringify v = Some t"
  shows "json_parse t = Some v"
proof -
  obtain n0 where n0: "\<And>n. n \<ge> n0 \<Longrightarrow> json_value n t = Some (v, [])"
    using json_text_roundtrip(1) [OF assms(2,1), of "[]"] by auto
  have "json_value (2 * length t + 2) t = json_value (n0 + 2 * length t + 1) t"
    by (rule json_fuel [symmetric]) simp
  then show ?thesis
    using n0 [of "n0 + 2 * length t + 1"] by (simp add: json_parse_def skip_ws_def)
qed


lemma int_text_plain: "list_all (\<lambda>c. c < 55296) (int_text n)"
proof -
  have "list_all (\<lambda>c. c < 55296) (bigint_to_string m)" for m
    using bigint_to_string_digits [of m] by (auto simp: list_all_iff is_digit_def)
  then show ?thesis by (simp add: int_text_def)
qed

lemma json_text_well_formed:
  "json_stringify v = Some t \<Longrightarrow> printable v \<Longrightarrow> well_formed t"
  "elements_text xs = Some t \<Longrightarrow> printable_elements xs \<Longrightarrow> well_formed t"
  "members_text ms = Some t \<Longrightarrow> printable_members ms \<Longrightarrow> well_formed t"
proof (induction v and xs and ms arbitrary: t and t and t
    rule: json_stringify_elements_text_members_text.induct)
  case (3 x)
  then obtain n where "x = js_int n" by auto
  with 3 have "t = int_text n" using json_int_text by blast
  then show ?case using int_text_plain well_formed_plain by simp
qed (auto intro!: well_formed_append well_formed_Cons json_quote_well_formed split: if_splits)

end
