(* ===== verification/Core_Go.thy ===== *)
theory Core_Go
  imports Store Json
begin

text \<open>
  \<open>lib/core-go/client.ts\<close> and \<open>types.ts\<close>: the typed client of the Go service that builds and
  submits every contract call. The environment is the record \<open>core_go\<close>: the two variables of
  \<open>env.ts\<close>, \<open>new_URL p b\<close> for \<open>new URL(p, b)\<close>, and \<open>fetch\<close>, an action on the state the caller
  threads, since the service writes the same database. A response body is its text.
\<close>

datatype http_method = GET | POST

record http_request =
  rq_method :: http_method
  rq_url :: jstring
  rq_headers :: "(jstring \<times> jstring) list"
  rq_body :: "jstring option"

record http_response =
  rs_status :: int
  rs_body :: jstring

definition response_ok :: "http_response \<Rightarrow> bool" where
  "response_ok res = (200 \<le> rs_status res \<and> rs_status res \<le> 299)"

record 'w core_go =
  CORE_GO_URL :: "jstring option"
  CORE_GO_SERVICE_TOKEN :: "jstring option"
  new_URL :: "jstring \<Rightarrow> jstring \<Rightarrow> exn + jstring"
  fetch :: "http_request \<Rightarrow> ('w, http_response) action"

section \<open>Requests\<close>

definition present :: "jstring option \<Rightarrow> bool" where
  "present s = (case s of None \<Rightarrow> False | Some t \<Rightarrow> t \<noteq> [])"

definition core_config :: "'w core_go \<Rightarrow> exn + (jstring \<times> jstring)" where
  "core_config cg =
     (if \<not> present (CORE_GO_URL cg)
      then Inl (CoreGoConfigError (js ''CORE_GO_URL is not configured''))
      else if \<not> present (CORE_GO_SERVICE_TOKEN cg)
      then Inl (CoreGoConfigError (js ''CORE_GO_SERVICE_TOKEN is not configured''))
      else Inr (the (CORE_GO_URL cg), the (CORE_GO_SERVICE_TOKEN cg)))"

text \<open>The code and message of \<open>{ error: { code, message } }\<close> when a body is that envelope.\<close>

definition isErrorBody :: "json \<Rightarrow> (jstring \<times> jstring) option" where
  "isErrorBody v =
     (case v of
        JObj ms \<Rightarrow>
          (case members_get ms (js ''error'') of
             Some (JObj es) \<Rightarrow>
               (case (members_get es (js ''code''), members_get es (js ''message'')) of
                  (Some (JStr c), Some (JStr m)) \<Rightarrow> Some (c, m)
                | _ \<Rightarrow> None)
           | _ \<Rightarrow> None)
      | _ \<Rightarrow> None)"

definition transport_error :: "int \<Rightarrow> jstring \<Rightarrow> exn" where
  "transport_error status detail =
     CoreGoTransportError status
       (js ''core-go returned a non-JSON response (HTTP '' @ int_text status @ js ''): '' @ detail)"

definition read_response :: "http_response \<Rightarrow> exn + json" where
  "read_response res =
     (case json_parse (rs_body res) of
        None \<Rightarrow> Inl (transport_error (rs_status res) (take 200 (rs_body res)))
      | Some v \<Rightarrow>
          if \<not> response_ok res then
            (case isErrorBody v of
               Some (c, m) \<Rightarrow> Inl (CoreGoError (rs_status res) c m)
             | None \<Rightarrow> Inl (transport_error (rs_status res) (take 200 (rs_body res))))
          else Inr v)"

definition core_headers :: "http_method \<Rightarrow> jstring \<Rightarrow> jstring \<Rightarrow> (jstring \<times> jstring) list" where
  "core_headers meth token wallet =
     [(js ''Authorization'', js ''Bearer '' @ token), (js ''X-Astrea-Wallet'', wallet),
      (js ''Accept'', js ''application/json'')]
     @ (if meth = POST then [(js ''Content-Type'', js ''application/json'')] else [])"

text \<open>The bodies of this client always print (see \<open>body_prints\<close>); no body is \<open>body ?? {}\<close>.\<close>

definition request ::
    "'w core_go \<Rightarrow> http_method \<Rightarrow> jstring \<Rightarrow> jstring \<Rightarrow> json option \<Rightarrow> ('w, json) action" where
  "request cg meth path wallet body =
     await (lift_result (core_config cg)) (\<lambda>(url, token).
     await (lift_result (new_URL cg path url)) (\<lambda>target.
     await (fetch cg \<lparr>rq_method = meth, rq_url = target,
                      rq_headers = core_headers meth token wallet,
                      rq_body = (if meth = POST
                                 then Some (the (json_stringify (case body of None \<Rightarrow> JObj [] | Some b \<Rightarrow> b)))
                                 else None)\<rparr>) (\<lambda>res.
     lift_result (read_response res))))"

definition post :: "'w core_go \<Rightarrow> jstring \<Rightarrow> jstring \<Rightarrow> json \<Rightarrow> ('w, json) action" where
  "post cg path wallet body = request cg POST path wallet (Some body)"

definition get :: "'w core_go \<Rightarrow> jstring \<Rightarrow> jstring \<Rightarrow> ('w, json) action" where
  "get cg path wallet = request cg GET path wallet None"

section \<open>The calls\<close>

definition uri_malformed :: exn where
  "uri_malformed = PlainError (js ''URI malformed'')"

text \<open>\<open>`/events/${encodeURIComponent(id)}/...`\<close>.\<close>

definition core_path :: "jstring \<Rightarrow> jstring \<Rightarrow> jstring \<Rightarrow> exn + jstring" where
  "core_path base segment rest =
     (case encodeURIComponent segment of
        None \<Rightarrow> Inl uri_malformed
      | Some s \<Rightarrow> Inr (base @ s @ rest))"

record ReleaseAssignment =
  ra_rank :: int
  ra_teamId :: jstring

definition assignment_json :: "ReleaseAssignment \<Rightarrow> json" where
  "assignment_json a =
     JObj [(js ''rank'', JNum (js_int (ra_rank a))), (js ''teamId'', JStr (ra_teamId a))]"

definition releaseBuild ::
    "'w core_go \<Rightarrow> jstring \<Rightarrow> jstring \<Rightarrow> ReleaseAssignment list \<Rightarrow> ('w, json) action" where
  "releaseBuild cg eventId wallet assignments =
     await (lift_result (core_path (js ''/events/'') eventId (js ''/release/build''))) (\<lambda>path.
     post cg path wallet (JObj [(js ''assignments'', JArr (map assignment_json assignments))]))"

definition signed_body :: "jstring \<Rightarrow> json" where
  "signed_body signedTransactionXdr =
     JObj [(js ''signedTransactionXdr'', JStr signedTransactionXdr)]"

definition releaseSubmit :: "'w core_go \<Rightarrow> jstring \<Rightarrow> jstring \<Rightarrow> jstring \<Rightarrow> ('w, json) action" where
  "releaseSubmit cg eventId wallet signedTransactionXdr =
     await (lift_result (core_path (js ''/events/'') eventId (js ''/release/submit''))) (\<lambda>path.
     post cg path wallet (signed_body signedTransactionXdr))"

definition walletBalance :: "'w core_go \<Rightarrow> jstring \<Rightarrow> jstring \<Rightarrow> ('w, json) action" where
  "walletBalance cg address wallet =
     await (lift_result (core_path (js ''/wallets/'') address (js ''/balance''))) (\<lambda>path.
     get cg path wallet)"

definition depositBuild :: "'w core_go \<Rightarrow> jstring \<Rightarrow> jstring \<Rightarrow> jstring \<Rightarrow> ('w, json) action" where
  "depositBuild cg address wallet amount =
     await (lift_result (core_path (js ''/wallets/'') address (js ''/deposit/build''))) (\<lambda>path.
     post cg path wallet (JObj [(js ''amount'', JStr amount)]))"

definition depositSubmit ::
    "'w core_go \<Rightarrow> jstring \<Rightarrow> jstring \<Rightarrow> jstring \<Rightarrow> jstring \<Rightarrow> ('w, json) action" where
  "depositSubmit cg address wallet opId signedTransactionXdr =
     await (lift_result (core_path (js ''/wallets/'') address (js ''/deposit/submit''))) (\<lambda>path.
     post cg path wallet
       (JObj [(js ''opId'', JStr opId), (js ''signedTransactionXdr'', JStr signedTransactionXdr)]))"

definition createBuild :: "'w core_go \<Rightarrow> jstring \<Rightarrow> jstring \<Rightarrow> ('w, json) action" where
  "createBuild cg eventId wallet =
     await (lift_result (core_path (js ''/events/'') eventId (js ''/create/build''))) (\<lambda>path.
     post cg path wallet (JObj []))"

definition createSubmit :: "'w core_go \<Rightarrow> jstring \<Rightarrow> jstring \<Rightarrow> jstring \<Rightarrow> ('w, json) action" where
  "createSubmit cg eventId wallet signedTransactionXdr =
     await (lift_result (core_path (js ''/events/'') eventId (js ''/create/submit''))) (\<lambda>path.
     post cg path wallet (signed_body signedTransactionXdr))"

definition startQuote :: "'w core_go \<Rightarrow> jstring \<Rightarrow> jstring \<Rightarrow> ('w, json) action" where
  "startQuote cg eventId wallet =
     await (lift_result (core_path (js ''/events/'') eventId (js ''/start/quote''))) (\<lambda>path.
     get cg path wallet)"

definition startBuild :: "'w core_go \<Rightarrow> jstring \<Rightarrow> jstring \<Rightarrow> ('w, json) action" where
  "startBuild cg eventId wallet =
     await (lift_result (core_path (js ''/events/'') eventId (js ''/start/build''))) (\<lambda>path.
     post cg path wallet (JObj []))"

definition startSubmit :: "'w core_go \<Rightarrow> jstring \<Rightarrow> jstring \<Rightarrow> jstring \<Rightarrow> ('w, json) action" where
  "startSubmit cg eventId wallet signedTransactionXdr =
     await (lift_result (core_path (js ''/events/'') eventId (js ''/start/submit''))) (\<lambda>path.
     post cg path wallet (signed_body signedTransactionXdr))"

section \<open>Bodies and paths\<close>

text \<open>Go reads back every body: the ranks are integers a double holds, and strings always print.\<close>

lemma json_quote_prints [simp]: "json_stringify (JStr s) = Some (json_quote s)"
  by simp

definition exact_rank :: "ReleaseAssignment \<Rightarrow> bool" where
  "exact_rank a = (\<bar>ra_rank a\<bar> \<le> 2 ^ 53 \<and> list_all is_unit (ra_teamId a))"

lemma number_prints: "\<bar>n\<bar> \<le> 2 ^ 53 \<Longrightarrow> json_stringify (JNum (js_int n)) = Some (int_text n)"
proof -
  assume "\<bar>n\<bar> \<le> 2 ^ 53"
  then have "\<bar>n\<bar> < 10 ^ 21" by simp
  then show ?thesis using number_text_int [of n] by (simp add: js_int_def)
qed

lemma assignments_print:
  "list_all exact_rank as \<Longrightarrow> \<exists>t. elements_text (map assignment_json as) = Some t"
proof (induction as)
  case Nil
  then show ?case by simp
next
  case (Cons a as)
  then show ?case
    using number_prints [of "ra_rank a"]
    by (auto simp: assignment_json_def exact_rank_def simp del: json_stringify.simps(3))
qed

lemma assignments_printable:
  "list_all exact_rank as \<Longrightarrow> printable_elements (map assignment_json as)"
proof (induction as)
  case Nil
  then show ?case by simp
next
  case (Cons a as)
  then show ?case
    by (auto simp: assignment_json_def exact_rank_def is_unit_def)
qed

lemma body_prints:
  assumes "list_all exact_rank as"
  shows "\<exists>t. json_stringify (JObj [(js ''assignments'', JArr (map assignment_json as))]) = Some t \<and>
    json_parse t = Some (JObj [(js ''assignments'', JArr (map assignment_json as))])"
proof -
  let ?v = "JObj [(js ''assignments'', JArr (map assignment_json as))]"
  have "\<exists>t. json_stringify (JArr (map assignment_json as)) = Some t"
    using assignments_print [OF assms] number_prints assms
    by (cases as) (auto simp: assignment_json_def exact_rank_def simp del: json_stringify.simps(3))
  then obtain t where t: "json_stringify ?v = Some t" by auto
  moreover have "printable ?v"
    using assignments_printable [OF assms] by (simp add: is_unit_def)
  ultimately show ?thesis using json_roundtrip by blast
qed

lemma core_path_segment:
  assumes "core_path base segment rest = Inr path" "list_all is_unit segment"
  shows "\<exists>s. path = base @ s @ rest \<and> list_all segment_char s \<and> uri_decode s = segment"
  using assms encodeURIComponent_roundtrip encodeURIComponent_segment
  by (auto simp: core_path_def split: option.splits)

end
