(* ===== verification/Organizer_Actions.thy ===== *)
theory Organizer_Actions
  imports Auth Core_Go Transitions
begin

text \<open>
  The organizer's server actions: \<open>organizer/events/[id]/action-result.ts\<close>, \<open>actions.ts\<close>,
  \<open>fund/actions.ts\<close> and \<open>start/actions.ts\<close>. An action never throws what Go answers: it returns
  the members of an object with \<open>ok: true\<close>, or an \<open>ActionFailure\<close>. A JSON result is used
  unchecked, as the code does, so a missing member is simply absent. \<open>tx_hash\<close> is
  \<open>TransactionBuilder.fromXDR(..).hash().toString("hex")\<close>, \<open>None\<close> when it throws; \<open>num_text\<close> is how
  JavaScript prints a number that \<open>number_text\<close> does not give.
\<close>

section \<open>action-result.ts\<close>

record ActionFailure =
  f_status :: int
  f_code :: jstring
  f_message :: jstring
  f_txHash :: "jstring option"

datatype action_result =
    Answer "(jstring \<times> json) list"
  | Failed ActionFailure

definition action_failure :: "int \<Rightarrow> jstring \<Rightarrow> jstring \<Rightarrow> ActionFailure" where
  "action_failure status code message =
     \<lparr>f_status = status, f_code = code, f_message = message, f_txHash = None\<rparr>"

definition NOT_CONNECTED :: ActionFailure where
  "NOT_CONNECTED = action_failure 401 (js ''not_connected'') []"

definition failure :: "exn \<Rightarrow> ActionFailure" where
  "failure err =
     (case err of
        CoreGoError status code message \<Rightarrow> action_failure status code message
      | CoreGoTransportError status message \<Rightarrow> action_failure status (js ''transport'') message
      | CoreGoConfigError message \<Rightarrow> action_failure 0 (js ''config'') message
      | _ \<Rightarrow> action_failure 0 (js ''unknown'') (error_text err))"

definition ownAddress :: "session_wallet \<Rightarrow> jstring \<Rightarrow> ActionFailure option" where
  "ownAddress session address =
     (if w_address (sw_wallet session) = address then None
      else Some (action_failure 403 (js ''not_wallet_owner'')
        (js ''address is not the session wallet'')))"

section \<open>Reading a result\<close>

definition null_access :: exn where
  "null_access = PlainError (js ''Cannot read properties of null'')"

definition json_field :: "json \<Rightarrow> jstring \<Rightarrow> exn + json option" where
  "json_field v k =
     (case v of
        JNull \<Rightarrow> Inl null_access
      | JObj ms \<Rightarrow> Inr (members_get ms k)
      | _ \<Rightarrow> Inr None)"

definition json_fields :: "json \<Rightarrow> jstring list \<Rightarrow> exn + (jstring \<times> json) list" where
  "json_fields v ks =
     (if v = JNull then Inl null_access
      else Inr (List.map_filter
        (\<lambda>k. case json_field v k of Inr (Some x) \<Rightarrow> Some (k, x) | _ \<Rightarrow> None) ks))"

text \<open>\<open>{ ok: true, ...res }\<close>.\<close>

definition spread :: "json \<Rightarrow> (jstring \<times> json) list" where
  "spread v =
     (case v of
        JObj ms \<Rightarrow> ms
      | JArr xs \<Rightarrow> zip (map bigint_to_string [0..<length xs]) xs
      | JStr s \<Rightarrow> zip (map bigint_to_string [0..<length s]) (map (\<lambda>u. JStr [u]) s)
      | _ \<Rightarrow> [])"

definition ok_with :: "(jstring \<times> json) list \<Rightarrow> action_result" where
  "ok_with ms = Answer ((js ''ok'', JBool True) # ms)"

text \<open>\<open>String(v)\<close>; \<open>None\<close> is \<open>undefined\<close>.\<close>

fun js_String :: "(js_number \<Rightarrow> jstring) \<Rightarrow> json \<Rightarrow> jstring"
  and js_join :: "(js_number \<Rightarrow> jstring) \<Rightarrow> json list \<Rightarrow> jstring"
  and js_element :: "(js_number \<Rightarrow> jstring) \<Rightarrow> json \<Rightarrow> jstring" where
  "js_String nt JNull = js ''null''"
| "js_String nt (JBool b) = (if b then js ''true'' else js ''false'')"
| "js_String nt (JNum x) = (case number_text x of Some t \<Rightarrow> t | None \<Rightarrow> nt x)"
| "js_String nt (JStr s) = s"
| "js_String nt (JArr xs) = js_join nt xs"
| "js_String nt (JObj _) = js ''[object Object]''"
| "js_element nt JNull = []"
| "js_element nt (JBool b) = js_String nt (JBool b)"
| "js_element nt (JNum x) = js_String nt (JNum x)"
| "js_element nt (JStr s) = s"
| "js_element nt (JArr xs) = js_join nt xs"
| "js_element nt (JObj ms) = js ''[object Object]''"
| "js_join nt [] = []"
| "js_join nt (x # xs) = (if xs = [] then js_element nt x else js_element nt x @ [44] @ js_join nt xs)"

definition string_member :: "(js_number \<Rightarrow> jstring) \<Rightarrow> json \<Rightarrow> jstring \<Rightarrow> (jstring \<times> json)" where
  "string_member nt v k =
     (k, JStr (case json_field v k of Inr (Some x) \<Rightarrow> js_String nt x | _ \<Rightarrow> js ''undefined''))"

section \<open>actions.ts\<close>

text \<open>The session, or the \<open>NOT_CONNECTED\<close> answer.\<close>

definition with_session ::
    "(session_wallet \<Rightarrow> (world, action_result) action) \<Rightarrow> (world, action_result) action" where
  "with_session k =
     await getSessionWallet (\<lambda>s.
     case s of None \<Rightarrow> return_value (Failed NOT_CONNECTED) | Some session \<Rightarrow> k session)"

definition session_address :: "session_wallet \<Rightarrow> jstring" where
  "session_address session = w_address (sw_wallet session)"

text \<open>\<open>try { .. } catch (err) { return failure(err); }\<close>.\<close>

definition failing :: "(world, action_result) action \<Rightarrow> (world, action_result) action" where
  "failing m = try_catch m (\<lambda>err. return_value (Failed (failure err)))"

definition buildDeposit :: "world core_go \<Rightarrow> jstring \<Rightarrow> jstring \<Rightarrow> (world, action_result) action" where
  "buildDeposit cg address amount =
     with_session (\<lambda>session.
     case ownAddress session address of
       Some refused \<Rightarrow> return_value (Failed refused)
     | None \<Rightarrow>
         failing (await (depositBuild cg (session_address session) (session_address session) amount) (\<lambda>res.
           return_value (ok_with (spread res)))))"

definition submitDeposit ::
    "world core_go \<Rightarrow> jstring \<Rightarrow> jstring \<Rightarrow> jstring \<Rightarrow> (world, action_result) action" where
  "submitDeposit cg address opId signedTransactionXdr =
     with_session (\<lambda>session.
     case ownAddress session address of
       Some refused \<Rightarrow> return_value (Failed refused)
     | None \<Rightarrow>
         failing (await (depositSubmit cg (session_address session) (session_address session) opId
                           signedTransactionXdr) (\<lambda>res.
           return_value (ok_with (spread res)))))"

definition find_event :: "jstring \<Rightarrow> world \<Rightarrow> event_row option" where
  "find_event i w = find_unique (\<lambda>r. e_id r = uuid_key i) (events w)"

definition event_page :: "jstring \<Rightarrow> jstring" where
  "event_page eventId = js ''/[locale]/events/'' @ eventId"

definition organizer_page :: "jstring \<Rightarrow> jstring \<Rightarrow> jstring" where
  "organizer_page eventId screen = js ''/[locale]/organizer/events/'' @ eventId @ screen"

definition readEventStatus :: "jstring \<Rightarrow> (world, action_result) action" where
  "readEventStatus eventId =
     with_session (\<lambda>session.
     await (if isUuid eventId then select_by_uuid eventId (find_event eventId)
            else return_value None) (\<lambda>event.
     case event of
       None \<Rightarrow> return_value (Failed (action_failure 404 (js ''event_not_found'') []))
     | Some e \<Rightarrow>
         if e_organizerWalletId e \<noteq> w_id (sw_wallet session)
         then return_value (Failed (action_failure 403 (js ''not_organizer'') []))
         else
           await (if e_status e = CREATED \<or> e_status e = LIVE
                  then revalidate_path (event_page eventId) else return_value ()) (\<lambda>_.
           return_value (ok_with
             [(js ''status'', JStr (event_status_text (e_status e))),
              (js ''escrowEventId'',
               case e_escrowEventId e of None \<Rightarrow> JNull | Some i \<Rightarrow> JStr i)]))))"

section \<open>fund/actions.ts\<close>

definition readBalance :: "world core_go \<Rightarrow> jstring \<Rightarrow> (world, action_result) action" where
  "readBalance cg address =
     with_session (\<lambda>session.
     case ownAddress session address of
       Some refused \<Rightarrow> return_value (Failed refused)
     | None \<Rightarrow>
         failing (await (walletBalance cg (session_address session) (session_address session)) (\<lambda>res.
           await (lift_result (json_fields res [js ''balance''])) (\<lambda>ms.
           return_value (ok_with ms)))))"

definition buildCreate ::
    "world core_go \<Rightarrow> (js_number \<Rightarrow> jstring) \<Rightarrow> jstring \<Rightarrow> (world, action_result) action" where
  "buildCreate cg num_text eventId =
     with_session (\<lambda>session.
     failing (await (createBuild cg eventId (session_address session)) (\<lambda>res.
       await (lift_result (json_fields res [js ''unsignedTransactionXdr'', js ''escrowEventId''])) (\<lambda>ms.
       return_value (ok_with (ms @ [string_member num_text res (js ''reward'')]))))))"

text \<open>The failure, with the hash of what was signed when the build row had been replaced.\<close>

definition replaced_failure ::
    "(jstring \<Rightarrow> jstring option) \<Rightarrow> jstring \<Rightarrow> jstring \<Rightarrow> exn \<Rightarrow> ActionFailure" where
  "replaced_failure tx_hash code signedTransactionXdr err =
     (let f = failure err
      in if f_code f = code then f\<lparr>f_txHash := tx_hash signedTransactionXdr\<rparr> else f)"

definition submitCreate ::
    "world core_go \<Rightarrow> (jstring \<Rightarrow> jstring option) \<Rightarrow> jstring \<Rightarrow> jstring \<Rightarrow> (world, action_result) action" where
  "submitCreate cg tx_hash eventId signedTransactionXdr =
     with_session (\<lambda>session.
     try_catch
       (await (createSubmit cg eventId (session_address session) signedTransactionXdr) (\<lambda>res.
        await (revalidate_path (event_page eventId)) (\<lambda>_.
        await (revalidate_path (organizer_page eventId (js ''/fund''))) (\<lambda>_.
        return_value (ok_with (spread res))))))
       (\<lambda>err. return_value (Failed
          (replaced_failure tx_hash (js ''create_build_replaced'') signedTransactionXdr err))))"

section \<open>start/actions.ts\<close>

definition readQuote :: "world core_go \<Rightarrow> jstring \<Rightarrow> (world, action_result) action" where
  "readQuote cg eventId =
     with_session (\<lambda>session.
     failing (await (startQuote cg eventId (session_address session)) (\<lambda>res.
       return_value (ok_with (spread res)))))"

definition buildStart ::
    "world core_go \<Rightarrow> (js_number \<Rightarrow> jstring) \<Rightarrow> jstring \<Rightarrow> (world, action_result) action" where
  "buildStart cg num_text eventId =
     with_session (\<lambda>session.
     failing (await (startBuild cg eventId (session_address session)) (\<lambda>res.
       await (lift_result (json_fields res [js ''unsignedTransactionXdr'', js ''judgingDeadline''])) (\<lambda>ms.
       return_value (ok_with (ms @ [string_member num_text res (js ''fee'')]))))))"

definition submitStart ::
    "world core_go \<Rightarrow> (jstring \<Rightarrow> jstring option) \<Rightarrow> jstring \<Rightarrow> jstring \<Rightarrow> (world, action_result) action" where
  "submitStart cg tx_hash eventId signedTransactionXdr =
     with_session (\<lambda>session.
     try_catch
       (await (startSubmit cg eventId (session_address session) signedTransactionXdr) (\<lambda>res.
        await (revalidate_path (event_page eventId)) (\<lambda>_.
        await (revalidate_path (organizer_page eventId (js ''/start''))) (\<lambda>_.
        return_value (ok_with (spread res))))))
       (\<lambda>err. return_value (Failed
          (replaced_failure tx_hash (js ''start_build_replaced'') signedTransactionXdr err))))"

section \<open>What Go's answer becomes\<close>

text \<open>\<open>go_answers cg w path res w'\<close>: the service is configured, and a request to the path is answered.\<close>

definition go_answers :: "'w core_go \<Rightarrow> 'w \<Rightarrow> jstring \<Rightarrow> http_response \<Rightarrow> 'w \<Rightarrow> bool" where
  "go_answers cg w path res w' \<longleftrightarrow>
     (\<exists>url token target. core_config cg = Inr (url, token) \<and> new_URL cg path url = Inr target \<and>
        (\<forall>rq. rq_url rq = target \<longrightarrow> fetch cg rq w = (Inr res, w')))"

lemma request_answers:
  assumes "go_answers cg w path res w'"
  shows "request cg meth path wallet body w = (read_response res, w')"
proof -
  obtain url token target where "core_config cg = Inr (url, token)" "new_URL cg path url = Inr target"
    and "\<And>rq. rq_url rq = target \<Longrightarrow> fetch cg rq w = (Inr res, w')"
    using assms by (auto simp: go_answers_def)
  then show ?thesis by (simp add: request_def)
qed

definition envelope :: "jstring \<Rightarrow> jstring \<Rightarrow> json" where
  "envelope code message =
     JObj [(js ''error'', JObj [(js ''code'', JStr code), (js ''message'', JStr message)])]"

lemma isErrorBody_envelope [simp]: "isErrorBody (envelope c m) = Some (c, m)"
  by (simp add: isErrorBody_def envelope_def members_get_def)

text \<open>A service that always answers with one response, for the concrete runs.\<close>

definition answering_go :: "http_response \<Rightarrow> world core_go" where
  "answering_go res = \<lparr>CORE_GO_URL = Some (js ''http://go''), CORE_GO_SERVICE_TOKEN = Some (js ''t''),
     new_URL = (\<lambda>p b. Inr (b @ p)), fetch = (\<lambda>_. return_value res)\<rparr>"

definition test_wallet_id :: jstring where
  "test_wallet_id = js ''00000000-0000-4000-8000-000000000001''"

lemma test_wallet_id: "isUuid test_wallet_id" "uuid_key test_wallet_id = test_wallet_id" "test_wallet_id \<noteq> []"
  by code_simp+

definition test_wallet :: wallet_row where
  "test_wallet = \<lparr>w_id = test_wallet_id, w_userId = js ''u'', w_address = js ''GA'', w_email = None,
     w_profilePublic = False, w_usdcTrustlineVerifiedAt = None\<rparr>"

definition signed_in_world :: world where
  "signed_in_world = empty_world\<lparr>wallets := [test_wallet], session_cookie := Some test_wallet_id\<rparr>"

definition test_event_id :: jstring where
  "test_event_id = js ''00000000-0000-4000-8000-000000000002''"

definition test_team_id :: jstring where
  "test_team_id = js ''00000000-0000-4000-8000-000000000003''"

lemma test_ids: "isUuid test_event_id" "uuid_key test_event_id = test_event_id" "isUuid test_team_id"
  "uuid_key test_team_id = test_team_id"
  by code_simp+

definition test_event :: event_row where
  "test_event = \<lparr>e_id = test_event_id, e_organizerId = js ''u'', e_organizerWalletId = test_wallet_id,
     e_name = js ''Cup'', e_description = None, e_timezone = js ''UTC'',
     e_judgingDeadlineAt = None, e_status = LIVE, e_requireGithub = False, e_network = TESTNET,
     e_escrowEventId = None\<rparr>"

definition test_session :: session_wallet where
  "test_session = \<lparr>sw_wallet = test_wallet, sw_linkedAccounts = []\<rparr>"

lemma signed_in: "getSessionWallet signed_in_world = (Inr (Some test_session), signed_in_world)"
  by (simp add: getSessionWallet_def await_def select_by_uuid_def find_unique_def signed_in_world_def
      empty_world_def test_session_def session_of_def test_wallet_def test_wallet_id)

text \<open>Go's error envelope in a body, whatever JSON text it is: spaces, escapes and further members included.\<close>

definition go_told :: "http_response \<Rightarrow> jstring \<Rightarrow> jstring \<Rightarrow> bool" where
  "go_told res code message \<longleftrightarrow>
     (\<exists>ms es. json_parse (rs_body res) = Some (JObj ms) \<and> members_get ms (js ''error'') = Some (JObj es) \<and>
        members_get es (js ''code'') = Some (JStr code) \<and> members_get es (js ''message'') = Some (JStr message))"

lemma isErrorBody_Some:
  "isErrorBody v = Some (c, m) \<longleftrightarrow>
     (\<exists>ms es. v = JObj ms \<and> members_get ms (js ''error'') = Some (JObj es) \<and>
        members_get es (js ''code'') = Some (JStr c) \<and> members_get es (js ''message'') = Some (JStr m))"
  by (cases v) (auto simp: isErrorBody_def simp del: js_Cons split: option.splits json.splits)

lemma read_response_failure:
  assumes "\<not> response_ok res"
  obtains err code message where "read_response res = Inl err"
    "failure err = action_failure (rs_status res) code message"
    "go_told res code message \<or> (\<nexists>c m. go_told res c m) \<and> code = js ''transport'' \<and>
       message = js ''core-go returned a non-JSON response (HTTP '' @ int_text (rs_status res) @ js ''): '' @
         take 200 (rs_body res)"
proof (cases "\<exists>v c m. json_parse (rs_body res) = Some v \<and> isErrorBody v = Some (c, m)")
  case True
  then obtain v c m where v: "json_parse (rs_body res) = Some v" "isErrorBody v = Some (c, m)" by blast
  then have "go_told res c m" unfolding go_told_def isErrorBody_Some by blast
  then show ?thesis
    using v assms by (intro that [of "CoreGoError (rs_status res) c m" c m]) (simp_all add: read_response_def failure_def)
next
  case False
  then have "\<nexists>c m. go_told res c m" unfolding go_told_def using isErrorBody_Some by blast
  moreover have "read_response res = Inl (transport_error (rs_status res) (take 200 (rs_body res)))"
    using False assms by (auto simp: read_response_def split: option.splits)
  ultimately show ?thesis
    by (intro that [OF \<open>read_response res = _\<close>]) (simp_all add: failure_def transport_error_def del: js_Cons)
qed

text \<open>What the actions do with a call that throws.\<close>

lemma failing_throws: "m w = (Inl err, w') \<Longrightarrow> failing m w = (Inr (Failed (failure err)), w')"
  by (simp add: failing_def)

lemma go_call_throws:
  assumes "go_answers cg w path res w'" "read_response res = Inl err"
  shows "request cg meth path wallet body w = (Inl err, w')"
  using request_answers [OF assms(1)] assms(2) by simp

text \<open>C21: What Go answers in error reaches the organizer as Go said it, from every action that calls Go,
  deposit, balance, create and start alike. If Go answers with a status outside 200-299 and a body that
  \<open>JSON.parse\<close> reads as its envelope, however it is spaced and escaped, the action returns exactly that
  status, code and message; if the body is no such text, it returns the status, the code \<open>transport\<close> and
  the first 200 characters of the body. Only a replaced build adds the hash of what was signed, and
  nothing is revalidated.\<close>

theorem go_error_verbatim:
  assumes "getSessionWallet w = (Inr (Some session), w1)" and "\<not> response_ok res"
    and "encodeURIComponent eventId = Some seg" and "encodeURIComponent (session_address session) = Some adr"
  shows "\<exists>code message.
    (go_told res code message \<or> (\<nexists>c m. go_told res c m) \<and> code = js ''transport'' \<and>
       message = js ''core-go returned a non-JSON response (HTTP '' @ int_text (rs_status res) @ js ''): '' @
         take 200 (rs_body res)) \<and>
    (let plain = Failed \<lparr>f_status = rs_status res, f_code = code, f_message = message, f_txHash = None\<rparr>;
         signed = (\<lambda>replaced. Failed \<lparr>f_status = rs_status res, f_code = code, f_message = message,
           f_txHash = (if code = replaced then tx_hash signedXdr else None)\<rparr>)
     in (go_answers cg w1 (js ''/wallets/'' @ adr @ js ''/balance'') res w2 \<longrightarrow>
           readBalance cg (session_address session) w = (Inr plain, w2)) \<and>
        (go_answers cg w1 (js ''/wallets/'' @ adr @ js ''/deposit/build'') res w2 \<longrightarrow>
           buildDeposit cg (session_address session) amount w = (Inr plain, w2)) \<and>
        (go_answers cg w1 (js ''/wallets/'' @ adr @ js ''/deposit/submit'') res w2 \<longrightarrow>
           submitDeposit cg (session_address session) opId signedXdr w = (Inr plain, w2)) \<and>
        (go_answers cg w1 (js ''/events/'' @ seg @ js ''/create/build'') res w2 \<longrightarrow>
           buildCreate cg nt eventId w = (Inr plain, w2)) \<and>
        (go_answers cg w1 (js ''/events/'' @ seg @ js ''/create/submit'') res w2 \<longrightarrow>
           submitCreate cg tx_hash eventId signedXdr w = (Inr (signed (js ''create_build_replaced'')), w2)) \<and>
        (go_answers cg w1 (js ''/events/'' @ seg @ js ''/start/quote'') res w2 \<longrightarrow>
           readQuote cg eventId w = (Inr plain, w2)) \<and>
        (go_answers cg w1 (js ''/events/'' @ seg @ js ''/start/build'') res w2 \<longrightarrow>
           buildStart cg nt eventId w = (Inr plain, w2)) \<and>
        (go_answers cg w1 (js ''/events/'' @ seg @ js ''/start/submit'') res w2 \<longrightarrow>
           submitStart cg tx_hash eventId signedXdr w = (Inr (signed (js ''start_build_replaced'')), w2)))"
proof -
  obtain err code message where r: "read_response res = Inl err"
    and f: "failure err = action_failure (rs_status res) code message"
    and t: "go_told res code message \<or> (\<nexists>c m. go_told res c m) \<and> code = js ''transport'' \<and>
       message = js ''core-go returned a non-JSON response (HTTP '' @ int_text (rs_status res) @ js ''): '' @
         take 200 (rs_body res)"
    using assms(2) by (rule read_response_failure)
  have own: "ownAddress session (session_address session) = None"
    by (simp add: ownAddress_def session_address_def)
  note throws = go_call_throws [OF _ r]
  note defs = with_session_def core_path_def assms(1,3,4) own f action_failure_def failing_def
    replaced_failure_def post_def get_def throws
  show ?thesis
    unfolding Let_def
    by (rule exI [of _ code], rule exI [of _ message], rule conjI [OF t], intro conjI impI)
      (simp_all only: readBalance_def buildDeposit_def submitDeposit_def buildCreate_def submitCreate_def
        readQuote_def buildStart_def submitStart_def walletBalance_def depositBuild_def depositSubmit_def
        createBuild_def createSubmit_def startQuote_def startBuild_def startSubmit_def,
       simp_all add: defs del: js_Cons)
qed

text \<open>A body as Go's encoder writes it: \<open><\<close> as an escape, and a line break at the end.\<close>

definition go_body :: "jstring \<Rightarrow> jstring \<Rightarrow> jstring" where
  "go_body code_text message_text =
     [123, 34] @ js ''error'' @ [34, 58, 123, 34] @ js ''code'' @ [34, 58, 34] @ code_text @ [34, 44, 34] @
     js ''message'' @ [34, 58, 34] @ message_text @ [34, 125, 125, 10]"

definition replaced_answer :: http_response where
  "replaced_answer = \<lparr>rs_status = 409,
     rs_body = go_body (js ''create_build_replaced'') (js ''a '' @ [92] @ js ''u003c b'')\<rparr>"

lemma replaced_answer_told: "go_told replaced_answer (js ''create_build_replaced'') (js ''a < b'')"
proof -
  have "json_parse (rs_body replaced_answer) = Some (envelope (js ''create_build_replaced'') (js ''a < b''))"
    by code_simp
  then show ?thesis by (simp add: go_told_def envelope_def members_get_def)
qed

theorem go_error_verbatim_witness:
  "submitCreate (answering_go replaced_answer) (\<lambda>_. Some (js ''hash'')) (js ''e'') (js ''xdr'')
     signed_in_world =
   (Inr (Failed \<lparr>f_status = 409, f_code = js ''create_build_replaced'', f_message = js ''a < b'',
      f_txHash = Some (js ''hash'')\<rparr>), signed_in_world)"
proof -
  have e: "encodeURIComponent (js ''e'') = Some (js ''e'')"
    "encodeURIComponent (session_address test_session) = Some (js ''GA'')"
    by (simp_all add: encodeURIComponent_def surrogate_def encode_point_def uri_unreserved_def is_upper_def
        is_lower_def high_surrogate_def session_address_def test_session_def test_wallet_def)
  have g: "go_answers (answering_go replaced_answer) signed_in_world
      (js ''/events/'' @ js ''e'' @ js ''/create/submit'') replaced_answer signed_in_world"
    by (simp add: go_answers_def answering_go_def core_config_def present_def del: js_Cons)
      (simp add: js_def)
  have s: "\<not> response_ok replaced_answer" "rs_status replaced_answer = 409"
    by (simp_all add: response_ok_def replaced_answer_def)
  obtain code message where told: "go_told replaced_answer code message \<or> (\<nexists>c m. go_told replaced_answer c m)"
    and sub: "submitCreate (answering_go replaced_answer) (\<lambda>_. Some (js ''hash'')) (js ''e'') (js ''xdr'') signed_in_world =
      (Inr (Failed \<lparr>f_status = rs_status replaced_answer, f_code = code, f_message = message,
         f_txHash = (if code = js ''create_build_replaced'' then Some (js ''hash'') else None)\<rparr>), signed_in_world)"
    using go_error_verbatim [OF signed_in s(1) e, unfolded Let_def,
        where cg = "answering_go replaced_answer" and ?w2.0 = signed_in_world and tx_hash = "\<lambda>_. Some (js ''hash'')"
          and signedXdr = "js ''xdr''" and nt = "\<lambda>_. []" and amount = "[]" and opId = "[]"]
    by (elim exE conjE) (rule that, blast, rule mp, assumption, rule g)
  have "go_told replaced_answer code message" using told replaced_answer_told by blast
  then have "code = js ''create_build_replaced'' \<and> message = js ''a < b''"
    using replaced_answer_told unfolding go_told_def by (auto simp del: js_Cons)
  then show ?thesis using sub s(2) by (simp only: simp_thms if_True)
qed

text \<open>What an answered status tells, and that nothing but the revalidation is written.\<close>

lemma readEventStatus_told:
  "case readEventStatus eventId w of (r, w') \<Rightarrow>
     (\<forall>ms. r = Inr (Answer ms) \<longrightarrow>
        (\<exists>session e. signed_in_as w session \<and> e \<in> set (events w) \<and> e_id e = uuid_key eventId \<and>
           e_organizerWalletId e = w_id (sw_wallet session) \<and>
           members_get ms (js ''status'') = Some (JStr (event_status_text (e_status e))))) \<and>
     w'\<lparr>faults := [], revalidated := []\<rparr> = w\<lparr>faults := [], revalidated := []\<rparr>"
proof -
  obtain r w' where run: "readEventStatus eventId w = (r, w')" by fastforce
  obtain q v where q: "getSessionWallet w = (q, v)" by fastforce
  obtain fs where v: "v = w\<lparr>faults := fs\<rparr>" and si: "\<And>s. q = Inr (Some s) \<Longrightarrow> signed_in_as w s"
    using getSessionWallet_cases [OF q] by blast
  show ?thesis
  proof (cases "\<exists>s. q = Inr (Some s)")
    case False
    then have "w' = v \<and> (\<forall>ms. r \<noteq> Inr (Answer ms))"
      using run q by (cases q) (auto simp: readEventStatus_def with_session_def split: option.splits)
    then show ?thesis using run v by simp
  next
    case True
    then obtain s where s: "q = Inr (Some s)" by blast
    let ?look = "if isUuid eventId then select_by_uuid eventId (find_event eventId)
            else return_value None"
    obtain p u where p: "?look v = (p, u)" by fastforce
    have u: "\<exists>fs. u = w\<lparr>faults := fs\<rparr>" "\<And>x. p = Inr (Some x) \<Longrightarrow> find_event eventId w = Some x"
      using p v by (auto simp: find_event_def split: if_splits elim!: select_by_uuidE)
    show ?thesis
    proof (cases "\<exists>e. p = Inr (Some e) \<and> e_organizerWalletId e = w_id (sw_wallet s)")
      case False
      then have "w' = u \<and> (\<forall>ms. r \<noteq> Inr (Answer ms))"
        using run q s p
        by (cases p) (auto simp: readEventStatus_def with_session_def split: option.splits if_splits)
      then show ?thesis using run u(1) by auto
    next
      case True
      then obtain e where e: "p = Inr (Some e)" "e_organizerWalletId e = w_id (sw_wallet s)" by blast
      then have mem: "e \<in> set (events w)" "e_id e = uuid_key eventId"
        using u(2) find_unique_Some unfolding find_event_def by fastforce+
      have "r = Inr (ok_with [(js ''status'', JStr (event_status_text (e_status e))),
              (js ''escrowEventId'', case e_escrowEventId e of None \<Rightarrow> JNull | Some i \<Rightarrow> JStr i)])"
        and "w' = (if e_status e = CREATED \<or> e_status e = LIVE
          then u\<lparr>revalidated := event_page eventId # revalidated u\<rparr> else u)"
        using run q s p e by (auto simp: readEventStatus_def with_session_def split: if_splits)
      then have "members_get ms (js ''status'') = Some (JStr (event_status_text (e_status e)))"
        if "r = Inr (Answer ms)" for ms
        using that by (auto simp: ok_with_def members_get_def)
      moreover have "w'\<lparr>faults := [], revalidated := []\<rparr> = w\<lparr>faults := [], revalidated := []\<rparr>"
        using \<open>w' = _\<close> u(1) by auto
      ultimately show ?thesis
        unfolding run prod.case using mem e(2) si [OF s] by blast
    qed
  qed
qed

text \<open>An event's status is told to its organizer only. Under any database failure: if
  \<open>readEventStatus\<close> answers, the caller's session wallet is the organizer wallet of the event with
  that id, and what it tells is that event's status; and no table is changed, whatever it answers.\<close>

theorem status_only_to_organizer:
  "case readEventStatus eventId w of (r, w') \<Rightarrow>
     (\<forall>ms. r = Inr (Answer ms) \<longrightarrow>
        (\<exists>session e. signed_in_as w session \<and> e \<in> set (events w) \<and> e_id e = uuid_key eventId \<and>
           e_organizerWalletId e = w_id (sw_wallet session) \<and>
           members_get ms (js ''status'') = Some (JStr (event_status_text (e_status e))))) \<and>
     w'\<lparr>faults := [], revalidated := []\<rparr> = w\<lparr>faults := [], revalidated := []\<rparr>"
  by (rule readEventStatus_told)


theorem status_only_to_organizer_witness:
  "\<exists>ms. fst (readEventStatus test_event_id (signed_in_world\<lparr>events := [test_event]\<rparr>)) = Inr (Answer ms) \<and>
     members_get ms (js ''status'') = Some (JStr (js ''LIVE''))"
proof -
  let ?w = "signed_in_world\<lparr>events := [test_event]\<rparr>"
  have s: "getSessionWallet ?w = (Inr (Some test_session), ?w)"
    by (simp add: getSessionWallet_def await_def select_by_uuid_def find_unique_def signed_in_world_def
        empty_world_def test_session_def session_of_def test_wallet_def test_wallet_id)
  have f: "select_by_uuid test_event_id (find_event test_event_id) ?w = (Inr (Some test_event), ?w)"
    by (simp add: select_by_uuid_def find_event_def find_unique_def test_ids test_event_def
        signed_in_world_def empty_world_def)
  obtain ms where ms: "fst (readEventStatus test_event_id ?w) = Inr (Answer ms)"
    using s f by (simp add: readEventStatus_def with_session_def test_ids test_event_def
        test_session_def test_wallet_def ok_with_def)
  then obtain e where "e \<in> set (events ?w)"
    "members_get ms (js ''status'') = Some (JStr (event_status_text (e_status e)))"
    using status_only_to_organizer [where eventId = test_event_id and w = ?w]
    by (cases "readEventStatus test_event_id ?w") auto
  then have "members_get ms (js ''status'') = Some (JStr (js ''LIVE''))"
    by (simp add: test_event_def)
  with ms show ?thesis by blast
qed

end
