(* ===== verification/Trustline.thy ===== *)
theory Trustline
  imports Auth Amounts
begin

text \<open>
  \<open>lib/trustline/verify-trustline.ts\<close>, \<open>verify-and-record.ts\<close> and
  \<open>lib/reconciliation/transaction-confirmation.ts\<close>. Horizon is the record \<open>horizon\<close>:
  \<open>loadAccount\<close> answers an account's balance lines and \<open>transaction_call\<close> looks a transaction up;
  both may throw, with \<open>HttpResponseError s\<close> for an answer of status \<open>s\<close>.
\<close>

record balance_line =
  b_asset_code :: "jstring option"
  b_asset_issuer :: "jstring option"
  b_is_authorized :: "bool option"
  b_limit :: "jstring option"
  b_balance :: "jstring option"
  b_buying_liabilities :: "jstring option"

record 'w horizon =
  loadAccount :: "jstring \<Rightarrow> ('w, balance_line list) action"
  transaction_call :: "jstring \<Rightarrow> ('w, unit) action"

record usdc_env =
  USDC_SYMBOL :: jstring
  USDC_ISSUER :: jstring

definition isNotFoundError :: "exn \<Rightarrow> bool" where
  "isNotFoundError e = (case e of HttpResponseError s _ \<Rightarrow> s = 404 | _ \<Rightarrow> False)"

definition usdc_line :: "usdc_env \<Rightarrow> balance_line list \<Rightarrow> balance_line option" where
  "usdc_line env balances =
     List.find (\<lambda>b. b_asset_code b = Some (USDC_SYMBOL env) \<and> b_asset_issuer b = Some (USDC_ISSUER env))
       balances"

definition line_can_receive :: "balance_line option \<Rightarrow> exn + bool" where
  "line_can_receive found =
     (case found of
        None \<Rightarrow> Inr False
      | Some line \<Rightarrow>
          if b_is_authorized line \<noteq> Some True then Inr False
          else map_sum id (\<lambda>h. 0 < h)
                 (trustlineHeadroom (b_limit line) (b_balance line) (b_buying_liabilities line)))"

definition hasUsdcTrustline :: "'w horizon \<Rightarrow> usdc_env \<Rightarrow> jstring \<Rightarrow> ('w, bool) action" where
  "hasUsdcTrustline hz env publicKey =
     try_catch
       (await (loadAccount hz publicKey) (\<lambda>balances.
        lift_result (line_can_receive (usdc_line env balances))))
       (\<lambda>err. if isNotFoundError err then return_value False else throw err)"

definition verifyAndRecordTrustline ::
    "world horizon \<Rightarrow> usdc_env \<Rightarrow> jstring \<Rightarrow> jstring \<Rightarrow> (world, bool) action" where
  "verifyAndRecordTrustline hz env walletId address =
     await (hasUsdcTrustline hz env address) (\<lambda>verified.
     await (if verified
            then await date_now (\<lambda>now.
                 await (wallet_update walletId (\<lambda>r. r\<lparr>w_usdcTrustlineVerifiedAt := Some now\<rparr>)) (\<lambda>_.
                 return_value ()))
            else return_value ()) (\<lambda>_.
     return_value verified))"

definition isTransactionConfirmed :: "'w horizon \<Rightarrow> jstring \<Rightarrow> ('w, bool) action" where
  "isTransactionConfirmed hz txHash =
     try_catch
       (await (transaction_call hz txHash) (\<lambda>_. return_value True))
       (\<lambda>err. if isNotFoundError err then return_value False else throw err)"

section \<open>Properties\<close>

lemma toStroops_throws_plain: "toStroops v = Inl e \<Longrightarrow> \<exists>m. e = PlainError m"
  by (auto simp: toStroops_def malformed_amount_def split: option.splits if_splits)

lemma headroom_throws_plain: "trustlineHeadroom l b u = Inl e \<Longrightarrow> \<exists>m. e = PlainError m"
  by (auto simp: trustlineHeadroom_def split: sum.splits dest: toStroops_throws_plain)

lemma can_receive_throws_plain: "line_can_receive line = Inl e \<Longrightarrow> \<exists>m. e = PlainError m"
  by (auto simp: line_can_receive_def split: option.splits if_splits dest!: headroom_throws_plain)


lemma not_found_plain [simp]: "\<not> isNotFoundError (PlainError m)"
  by (simp add: isNotFoundError_def)

lemma hasUsdcTrustline_run:
  "hasUsdcTrustline hz env pk w =
     (case loadAccount hz pk w of
        (Inl e, v) \<Rightarrow> (if isNotFoundError e then Inr False else Inl e, v)
      | (Inr bs, v) \<Rightarrow> (line_can_receive (usdc_line env bs), v))"
proof (cases "loadAccount hz pk w")
  case (Pair q v)
  show ?thesis
  proof (cases q)
    case (Inl e)
    with Pair show ?thesis by (simp add: hasUsdcTrustline_def)
  next
    case (Inr bs)
    with Pair show ?thesis
      using can_receive_throws_plain [of "usdc_line env bs"]
      by (cases "line_can_receive (usdc_line env bs)") (auto simp: hasUsdcTrustline_def)
  qed
qed

text \<open>The three amounts of a line in stroops, when Horizon spelled each of them.\<close>

definition line_stroops :: "balance_line \<Rightarrow> nat \<Rightarrow> nat \<Rightarrow> nat \<Rightarrow> bool" where
  "line_stroops line l b u =
     (toStroops (b_limit line) = Inr l \<and> toStroops (b_balance line) = Inr b \<and>
      toStroops (b_buying_liabilities line) = Inr u)"

lemma headroom_stroops:
  "line_stroops line l b u \<Longrightarrow>
     trustlineHeadroom (b_limit line) (b_balance line) (b_buying_liabilities line) = Inr (int l - int b - int u)"
  by (simp add: line_stroops_def trustlineHeadroom_def)

lemma headroom_Inr:
  "trustlineHeadroom (b_limit line) (b_balance line) (b_buying_liabilities line) = Inr h \<Longrightarrow>
     \<exists>l b u. line_stroops line l b u \<and> h = int l - int b - int u"
  by (auto simp: line_stroops_def trustlineHeadroom_def split: sum.splits)

text \<open>C20: What "can receive a payment" means. \<open>hasUsdcTrustline\<close> answers yes exactly when Horizon
  returns the account and its USDC line is authorized and leaves room for one stroop beside its
  balance and buying liabilities; an account Horizon does not know (404) is a no. Any other
  failure, and any amount that is not spelled as a decimal, is thrown: an outage never reads as
  "no trustline".\<close>

theorem trustline_check_exact:
  "(hasUsdcTrustline hz env pk w = (Inr True, w') \<longleftrightarrow>
      (\<exists>bs line l b u. loadAccount hz pk w = (Inr bs, w') \<and> usdc_line env bs = Some line \<and>
         b_is_authorized line = Some True \<and> line_stroops line l b u \<and> b + u + 1 \<le> l)) \<and>
   (hasUsdcTrustline hz env pk w = (Inl e, w') \<longleftrightarrow>
      loadAccount hz pk w = (Inl e, w') \<and> \<not> isNotFoundError e \<or>
      (\<exists>bs line. loadAccount hz pk w = (Inr bs, w') \<and> usdc_line env bs = Some line \<and>
         b_is_authorized line = Some True \<and>
         trustlineHeadroom (b_limit line) (b_balance line) (b_buying_liabilities line) = Inl e))"
proof -
  have yes: "line_can_receive found = Inr True \<longleftrightarrow>
      (\<exists>line l b u. found = Some line \<and> b_is_authorized line = Some True \<and>
         line_stroops line l b u \<and> b + u + 1 \<le> l)" for found
  proof
    assume t: "line_can_receive found = Inr True"
    then obtain line where line: "found = Some line" "b_is_authorized line = Some True"
      by (auto simp: line_can_receive_def split: option.splits if_splits)
    with t obtain h where "trustlineHeadroom (b_limit line) (b_balance line) (b_buying_liabilities line) = Inr h"
      "0 < h" by (auto simp: line_can_receive_def)
    with headroom_Inr obtain l b u where "line_stroops line l b u" "0 < int l - int b - int u" by blast
    with line show "\<exists>line l b u. found = Some line \<and> b_is_authorized line = Some True \<and>
         line_stroops line l b u \<and> b + u + 1 \<le> l"
      by (intro exI [of _ line] exI [of _ l] exI [of _ b] exI [of _ u]) simp
  next
    assume "\<exists>line l b u. found = Some line \<and> b_is_authorized line = Some True \<and>
         line_stroops line l b u \<and> b + u + 1 \<le> l"
    then obtain line l b u where "found = Some line" "b_is_authorized line = Some True"
      "line_stroops line l b u" "b + u + 1 \<le> l" by blast
    then show "line_can_receive found = Inr True"
      by (simp add: line_can_receive_def headroom_stroops)
  qed
  have no: "line_can_receive found = Inl e \<longleftrightarrow>
      (\<exists>line. found = Some line \<and> b_is_authorized line = Some True \<and>
         trustlineHeadroom (b_limit line) (b_balance line) (b_buying_liabilities line) = Inl e)" for found
    by (auto simp: line_can_receive_def split: option.splits)
  show ?thesis
    unfolding hasUsdcTrustline_run
    by (auto simp: yes no split: prod.splits sum.splits if_splits)
qed

text \<open>The verification time of a wallet is written only after a yes: if the run of
  \<open>verifyAndRecordTrustline\<close> changes the wallets at all, the check answered yes, and only the time of
  the given wallet changed, to the present. Any database failure is allowed.\<close>

theorem verified_at_only_after_yes:
  assumes "\<And>a. keeps (\<lambda>w w'. wallets w' = wallets w) (loadAccount hz a)"
    and "verifyAndRecordTrustline hz env walletId address w = (r, w')"
    and "wallets w' \<noteq> wallets w"
  shows "\<exists>v. hasUsdcTrustline hz env address w = (Inr True, v) \<and>
    wallets w' = map (\<lambda>r. if w_id r = walletId then r\<lparr>w_usdcTrustlineVerifiedAt := Some (clock v)\<rparr> else r)
      (wallets w)"
proof -
  obtain q v where q: "hasUsdcTrustline hz env address w = (q, v)" by fastforce
  have kv: "wallets v = wallets w"
    using q assms(1) [THEN keepsD] unfolding hasUsdcTrustline_run
    by (auto split: prod.splits sum.splits if_splits)
  have yes: "q = Inr True"
  proof (rule ccontr)
    assume "q \<noteq> Inr True"
    then have "w' = v"
      using assms(2) q by (cases q) (auto simp: verifyAndRecordTrustline_def)
    with kv assms(3) show False by simp
  qed
  let ?f = "\<lambda>r. r\<lparr>w_usdcTrustlineVerifiedAt := Some (clock v)\<rparr>"
  obtain u z where u: "wallet_update walletId ?f v = (u, z)" by fastforce
  have z: "w' = z"
    using assms(2) q yes u by (cases u) (auto simp: verifyAndRecordTrustline_def)
  have "wallets z = wallets v \<or>
      wallets z = map (\<lambda>r. if w_id r = walletId then ?f r else r) (wallets v)"
    using u unfolding wallet_update_def
    by (cases rule: on_tableE) (auto simp: put_wallets_def dest!: update_unique_Inr)
  with q yes kv z assms(3) show ?thesis by auto
qed

definition open_line :: balance_line where
  "open_line = \<lparr>b_asset_code = Some (js ''USDC''), b_asset_issuer = Some (js ''GI''),
     b_is_authorized = Some True, b_limit = Some (js ''5''), b_balance = Some (js ''2''),
     b_buying_liabilities = None\<rparr>"

definition test_horizon :: "world horizon" where
  "test_horizon = \<lparr>loadAccount = (\<lambda>_. return_value [open_line]), transaction_call = (\<lambda>_. return_value ())\<rparr>"

definition test_usdc :: usdc_env where
  "test_usdc = \<lparr>USDC_SYMBOL = js ''USDC'', USDC_ISSUER = js ''GI''\<rparr>"

definition one_wallet_world :: world where
  "one_wallet_world = empty_world\<lparr>wallets :=
     [\<lparr>w_id = js ''w'', w_userId = js ''u'', w_address = js ''GA'', w_email = None,
       w_profilePublic = False, w_usdcTrustlineVerifiedAt = None\<rparr>]\<rparr>"

lemma test_open_line: "hasUsdcTrustline test_horizon test_usdc a w = (Inr True, w)"
proof -
  have "is_decimal (js ''5'') [] (js ''5'')" "is_decimal (js ''2'') [] (js ''2'')"
    by (simp_all add: is_decimal_def is_digit_def)
  then have "toStroops (Some (js ''5'')) = Inr 50000000" "toStroops (Some (js ''2'')) = Inr 20000000"
    by (simp_all only: toStroops_spelled) (simp_all add: decimal_value_def bigint_of_digits_def)
  then show ?thesis
    by (simp add: hasUsdcTrustline_run test_horizon_def test_usdc_def usdc_line_def line_can_receive_def
        open_line_def trustlineHeadroom_def) (simp add: toStroops_def)
qed

theorem verified_at_only_after_yes_witness:
  "wallets (snd (verifyAndRecordTrustline test_horizon test_usdc (js ''w'') (js ''GA'') one_wallet_world))
     \<noteq> wallets one_wallet_world \<and>
   fst (hasUsdcTrustline test_horizon test_usdc (js ''GA'') one_wallet_world) = Inr True"
proof -
  let ?m = "verifyAndRecordTrustline test_horizon test_usdc (js ''w'') (js ''GA'') one_wallet_world"
  have changed: "wallets (snd ?m) \<noteq> wallets one_wallet_world"
    by (simp add: verifyAndRecordTrustline_def test_open_line wallet_update_def update_unique_def
        await_def one_wallet_world_def empty_world_def put_wallets_def)
  have "keeps (\<lambda>w w'. wallets w' = wallets w) (loadAccount test_horizon a)" for a
    by (simp add: test_horizon_def keeps_def)
  from verified_at_only_after_yes [OF this surjective_pairing changed] changed
  show ?thesis by auto
qed

end
