(* ===== verification/Judge_Actions.thy ===== *)
theory Judge_Actions
  imports Organizer_Actions Trustline "HOL-Library.List_Lexorder" "HOL-Library.Product_Lexorder"
begin

text \<open>
  The judge's server actions, \<open>events/[id]/judge/actions.ts\<close>: building and submitting
  \<open>release_reward\<close>. The web side re-checks the winners' trustlines before it asks Go to build.
  \<open>Promise.all\<close> runs its elements in order here: each one reads Horizon and writes one wallet's
  row, all of them run even when one throws, and the first throw is the one that counts.
\<close>

fun settle_all :: "('w, 'a) action list \<Rightarrow> 'w \<Rightarrow> (exn + 'a) list \<times> 'w" where
  "settle_all [] w = ([], w)"
| "settle_all (m # ms) w =
     (case m w of (r, v) \<Rightarrow> (case settle_all ms v of (rs, u) \<Rightarrow> (r # rs, u)))"

fun all_results :: "(exn + 'a) list \<Rightarrow> exn + 'a list" where
  "all_results [] = Inr []"
| "all_results (Inl e # rs) = Inl e"
| "all_results (Inr x # rs) = map_sum id (Cons x) (all_results rs)"

definition promise_all :: "('w, 'a) action list \<Rightarrow> ('w, 'a list) action" where
  "promise_all ms w = (case settle_all ms w of (rs, v) \<Rightarrow> (all_results rs, v))"

datatype build_result =
    Built "(jstring \<times> json) list"
  | ReleaseFailed ActionFailure
  | MissingTrustline jstring "jstring list"

definition release_failure :: "exn \<Rightarrow> ActionFailure" where
  "release_failure err =
     (case err of
        CoreGoError status code message \<Rightarrow> action_failure status code message
      | CoreGoTransportError status message \<Rightarrow> action_failure status (js ''transport'') message
      | _ \<Rightarrow> action_failure 0 (js ''unknown'') (error_text err))"

definition active_judges :: "event_row \<Rightarrow> world \<Rightarrow> judge_row list" where
  "active_judges e w = filter (\<lambda>j. j_eventId j = e_id e \<and> j_status j = ACTIVE) (judges w)"

definition isActiveJudge :: "jstring \<Rightarrow> jstring \<Rightarrow> (world, bool) action" where
  "isActiveJudge eventId address =
     (if \<not> isUuid eventId then return_value False
      else
        await (select_by_uuid eventId
                 (\<lambda>w. map_option (\<lambda>e. (e, active_judges e w)) (find_event eventId w))) (\<lambda>found.
        return_value
          (case found of
             None \<Rightarrow> False
           | Some (e, actives) \<Rightarrow>
               e_status e = JUDGING \<and> length actives = 1 \<and> j_walletAddress (hd actives) = address)))"

text \<open>The member wallets of the assigned teams, by team and ordinal.\<close>

definition winning_wallets :: "jstring \<Rightarrow> jstring list \<Rightarrow> world \<Rightarrow> wallet_row list" where
  "winning_wallets eventId teamIds w =
     List.map_filter (\<lambda>m. find_unique (\<lambda>r. w_id r = m_walletId m) (wallets w))
       (sort_key (\<lambda>m. (m_teamId m, m_ordinal m))
         (filter (\<lambda>m. m_eventId m = uuid_key eventId \<and> m_teamId m \<in> set (map uuid_key teamIds))
           (members w)))"

definition check_winner ::
    "world horizon \<Rightarrow> usdc_env \<Rightarrow> wallet_row \<Rightarrow> (world, jstring \<times> bool) action" where
  "check_winner hz env r =
     await (verifyAndRecordTrustline hz env (w_id r) (w_address r)) (\<lambda>ok.
     return_value (w_address r, ok))"

definition winnersWithoutTrustline ::
    "world horizon \<Rightarrow> usdc_env \<Rightarrow> jstring \<Rightarrow> ReleaseAssignment list \<Rightarrow> (world, jstring list) action" where
  "winnersWithoutTrustline hz env eventId assignments =
     (let teamIds = remdups (map ra_teamId assignments) in
      await (db_call (\<lambda>w. if list_all isUuid teamIds
                          then (Inr (winning_wallets eventId teamIds w), w)
                          else (Inl invalid_uuid, w))) (\<lambda>winners.
      await (promise_all (map (check_winner hz env) winners)) (\<lambda>checked.
      return_value (map fst (filter (\<lambda>(_, ok). \<not> ok) checked)))))"

definition buildRelease ::
    "world core_go \<Rightarrow> world horizon \<Rightarrow> usdc_env \<Rightarrow> jstring \<Rightarrow> ReleaseAssignment list \<Rightarrow>
     (world, build_result) action" where
  "buildRelease cg hz env eventId assignments =
     await getSessionWallet (\<lambda>s.
     case s of
       None \<Rightarrow> return_value (ReleaseFailed NOT_CONNECTED)
     | Some session \<Rightarrow>
         try_catch
           (await (isActiveJudge eventId (session_address session)) (\<lambda>judge.
            await (if judge then winnersWithoutTrustline hz env eventId assignments
                   else return_value []) (\<lambda>missing.
            if missing \<noteq> [] then
              return_value (MissingTrustline (USDC_SYMBOL env @ [58] @ USDC_ISSUER env) missing)
            else
              await (releaseBuild cg eventId (session_address session) assignments) (\<lambda>res.
              await (lift_result (json_fields res [js ''unsignedTransactionXdr'', js ''winners''])) (\<lambda>ms.
              return_value (Built ((js ''ok'', JBool True) # ms)))))))
           (\<lambda>err. return_value (ReleaseFailed (release_failure err))))"

definition submitRelease :: "world core_go \<Rightarrow> jstring \<Rightarrow> jstring \<Rightarrow> (world, build_result) action" where
  "submitRelease cg eventId signedTransactionXdr =
     await getSessionWallet (\<lambda>s.
     case s of
       None \<Rightarrow> return_value (ReleaseFailed NOT_CONNECTED)
     | Some session \<Rightarrow>
         try_catch
           (await (releaseSubmit cg eventId (session_address session) signedTransactionXdr) (\<lambda>res.
            await (revalidate_path (event_page eventId)) (\<lambda>_.
            return_value (Built ((js ''ok'', JBool True) # spread res)))))
           (\<lambda>err. return_value (ReleaseFailed (release_failure err))))"

section \<open>The trustline gate\<close>

text \<open>Horizon answers each account the same way throughout, and changes nothing.\<close>

definition steady_horizon :: "world horizon \<Rightarrow> (jstring \<Rightarrow> balance_line list) \<Rightarrow> bool" where
  "steady_horizon hz lines \<longleftrightarrow> (\<forall>a w. loadAccount hz a w = (Inr (lines a), w))"

definition can_receive :: "usdc_env \<Rightarrow> (jstring \<Rightarrow> balance_line list) \<Rightarrow> jstring \<Rightarrow> bool" where
  "can_receive env lines a \<longleftrightarrow> line_can_receive (usdc_line env (lines a)) = Inr True"

definition readable :: "usdc_env \<Rightarrow> (jstring \<Rightarrow> balance_line list) \<Rightarrow> jstring \<Rightarrow> bool" where
  "readable env lines a \<longleftrightarrow> \<not> isl (line_can_receive (usdc_line env (lines a)))"

lemma verify_steady:
  assumes "steady_horizon hz lines" "readable env lines address" "faults w = []"
    and "\<exists>r\<in>set (wallets w). w_id r = walletId"
  shows "\<exists>w'. verifyAndRecordTrustline hz env walletId address w
      = (Inr (can_receive env lines address), w') \<and> faults w' = [] \<and>
      map w_id (wallets w') = map w_id (wallets w)"
proof -
  have h: "hasUsdcTrustline hz env address w = (Inr (can_receive env lines address), w)"
    using assms(1,2) unfolding hasUsdcTrustline_run steady_horizon_def readable_def can_receive_def
    by (cases "line_can_receive (usdc_line env (lines address))") auto
  have "List.find (\<lambda>r. w_id r = walletId) (wallets w) \<noteq> None"
    using assms(4) by (auto simp: find_None_iff)
  then obtain r where "List.find (\<lambda>r. w_id r = walletId) (wallets w) = Some r" by blast
  then have u: "wallet_update walletId (\<lambda>r. r\<lparr>w_usdcTrustlineVerifiedAt := Some (clock w)\<rparr>) w
      = (Inr (r\<lparr>w_usdcTrustlineVerifiedAt := Some (clock w)\<rparr>),
         put_wallets (map (\<lambda>r. if w_id r = walletId
           then r\<lparr>w_usdcTrustlineVerifiedAt := Some (clock w)\<rparr> else r) (wallets w)) w)"
    using assms(3) by (simp add: wallet_update_def update_unique_def)
  show ?thesis
    using h u assms(3) by (auto simp: verifyAndRecordTrustline_def put_wallets_def)
qed

lemma settle_checks:
  assumes "steady_horizon hz lines"
  shows "faults w = [] \<Longrightarrow> \<forall>r\<in>set rs. readable env lines (w_address r) \<and> w_id r \<in> w_id ` set (wallets w) \<Longrightarrow>
    \<exists>w'. promise_all (map (check_winner hz env) rs) w
      = (Inr (map (\<lambda>r. (w_address r, can_receive env lines (w_address r))) rs), w') \<and> faults w' = []"
proof (induction rs arbitrary: w)
  case Nil
  then show ?case by (simp add: promise_all_def)
next
  case (Cons r rs)
  then have "\<exists>s\<in>set (wallets w). w_id s = w_id r" "readable env lines (w_address r)" by force+
  with Cons.prems(1) obtain v where v: "verifyAndRecordTrustline hz env (w_id r) (w_address r) w
      = (Inr (can_receive env lines (w_address r)), v)" "faults v = []"
    "map w_id (wallets v) = map w_id (wallets w)"
    using verify_steady [OF assms, of env "w_address r" w "w_id r"] by blast
  have "w_id ` set (wallets v) = w_id ` set (wallets w)"
    using v(3) by (metis list.set_map)
  with Cons.prems(2) have "\<forall>r\<in>set rs. readable env lines (w_address r) \<and> w_id r \<in> w_id ` set (wallets v)"
    by simp
  from Cons.IH [OF v(2) this] obtain w' where
    "promise_all (map (check_winner hz env) rs) v
      = (Inr (map (\<lambda>r. (w_address r, can_receive env lines (w_address r))) rs), w')" "faults w' = []"
    by blast
  moreover have "check_winner hz env r w = (Inr (w_address r, can_receive env lines (w_address r)), v)"
    using v(1) by (simp add: check_winner_def)
  ultimately show ?case
    by (auto simp: promise_all_def split: prod.splits)
qed


definition judging_event :: event_row where
  "judging_event = test_event\<lparr>e_status := JUDGING\<rparr>"

definition judging_world :: world where
  "judging_world = signed_in_world
     \<lparr>events := [judging_event],
      judges := [\<lparr>j_id = js ''j'', j_eventId = test_event_id, j_walletAddress = js ''GA'',
        j_displayName = js ''J'', j_status = ACTIVE\<rparr>],
      members := [\<lparr>m_id = js ''m'', m_teamId = test_team_id, m_eventId = test_event_id,
        m_walletId = test_wallet_id, m_shareBasisPoints = 10000, m_ordinal = 0\<rparr>]\<rparr>"

definition closed_horizon :: "world horizon" where
  "closed_horizon = \<lparr>loadAccount = (\<lambda>_. return_value []), transaction_call = (\<lambda>_. return_value ())\<rparr>"

lemma judging_world_views:
  "getSessionWallet judging_world = (Inr (Some test_session), judging_world)"
  "isActiveJudge test_event_id (session_address test_session) judging_world = (Inr True, judging_world)"
  "winning_wallets test_event_id [test_team_id] judging_world = [test_wallet]"
  by (simp_all add: judging_world_def signed_in_world_def empty_world_def getSessionWallet_def await_def
      select_by_uuid_def session_of_def find_unique_def test_wallet_def test_wallet_id test_session_def
      isActiveJudge_def test_ids find_event_def judging_event_def test_event_def active_judges_def session_address_def
      winning_wallets_def List.map_filter_def)


end
