(* ===== verification/GitHub.thy ===== *)
theory GitHub
  imports Organizer_Actions
begin

text \<open>
  Linking a GitHub account: \<open>lib/github/oauth.ts\<close>, \<open>lib/github/repo-ownership.ts\<close> and the routes
  \<open>api/auth/github/start\<close> and \<open>callback\<close>. The record \<open>github_env\<close> holds the two variables of
  \<open>env.ts\<close>, \<open>hmac k m\<close> (the HMAC-SHA256 digest of a text under a key), \<open>gh_fetch\<close>, \<open>gh_URL p b\<close>
  for \<open>new URL(p, b)\<close> and \<open>num_text\<close> (see \<open>Organizer_Actions\<close>). A redirect is the URL it was built
  from and the search parameters set on it, in order. The state payload is used as the JSON value
  it parses to, as the code does.
\<close>

record github_env =
  GITHUB_CLIENT_ID :: "jstring option"
  GITHUB_CLIENT_SECRET :: "jstring option"
  hmac :: "jstring \<Rightarrow> jstring \<Rightarrow> nat list"
  gh_fetch :: "http_request \<Rightarrow> (world, http_response) action"
  gh_URL :: "jstring \<Rightarrow> jstring \<Rightarrow> exn + jstring"
  num_text :: "js_number \<Rightarrow> jstring"

section \<open>JavaScript values\<close>

definition js_truthy :: "json option \<Rightarrow> bool" where
  "js_truthy v =
     (case v of
        None \<Rightarrow> False
      | Some JNull \<Rightarrow> False
      | Some (JBool b) \<Rightarrow> b
      | Some (JNum x) \<Rightarrow> x \<noteq> Finite 0 \<and> x \<noteq> NaN
      | Some (JStr s) \<Rightarrow> s \<noteq> []
      | Some _ \<Rightarrow> True)"

fun split_on :: "nat \<Rightarrow> jstring \<Rightarrow> jstring list" where
  "split_on c [] = [[]]"
| "split_on c (x # s) =
     (if x = c then [] # split_on c s
      else (case split_on c s of t # ts \<Rightarrow> (x # t) # ts | [] \<Rightarrow> [[x]]))"

section \<open>oauth.ts: the signed state\<close>

definition OAUTH_STATE_TTL_MS :: int where
  "OAUTH_STATE_TTL_MS = 10 * 60 * 1000"

record OAuthStatePayload =
  os_walletId :: jstring
  os_nonce :: jstring
  os_timestamp :: int
  os_returnTo :: "jstring option"

definition getSigningSecret :: "github_env \<Rightarrow> jstring" where
  "getSigningSecret gh =
     (if present (GITHUB_CLIENT_SECRET gh) then the (GITHUB_CLIENT_SECRET gh)
      else js ''astrea_github_oauth_signing_fallback_key'')"

definition payload_json :: "OAuthStatePayload \<Rightarrow> json" where
  "payload_json p = JObj
     ([(js ''walletId'', JStr (os_walletId p)), (js ''nonce'', JStr (os_nonce p)),
       (js ''timestamp'', JNum (js_int (os_timestamp p)))]
      @ (case os_returnTo p of None \<Rightarrow> [] | Some r \<Rightarrow> [(js ''returnTo'', JStr r)]))"

definition state_signature :: "github_env \<Rightarrow> jstring \<Rightarrow> jstring" where
  "state_signature gh encodedPayload = base64url_encode (hmac gh (getSigningSecret gh) encodedPayload)"

definition signOAuthState :: "github_env \<Rightarrow> OAuthStatePayload \<Rightarrow> jstring" where
  "signOAuthState gh payload =
     (let encodedPayload = base64url_encode (utf8_encode (the (json_stringify (payload_json payload))))
      in encodedPayload @ [46] @ state_signature gh encodedPayload)"

definition timing_length_error :: exn where
  "timing_length_error = RangeError (js ''Input buffers must have the same byte length'')"

definition timestamp_expired :: "int \<Rightarrow> js_number \<Rightarrow> bool" where
  "timestamp_expired now x =
     (case x of
        Finite q \<Rightarrow> of_int OAUTH_STATE_TTL_MS < of_int now - q
      | NegInfinity \<Rightarrow> True
      | _ \<Rightarrow> False)"

text \<open>The part inside \<open>try\<close>: \<open>None\<close> also where the code catches a throw.\<close>

definition read_payload :: "int \<Rightarrow> jstring option \<Rightarrow> jstring \<Rightarrow> json option" where
  "read_payload now expectedWalletId encodedPayload =
     (case json_parse (utf8_decode (base64url_decode encodedPayload)) of
        None \<Rightarrow> None
      | Some payload \<Rightarrow>
          (case (json_field payload (js ''walletId''), json_field payload (js ''nonce''),
                 json_field payload (js ''timestamp'')) of
             (Inr i, Inr n, Inr t) \<Rightarrow>
               if \<not> js_truthy i \<or> \<not> js_truthy n then None
               else (case t of
                       Some (JNum x) \<Rightarrow>
                         if timestamp_expired now x then None
                         else if present expectedWalletId \<and> i \<noteq> Some (JStr (the expectedWalletId))
                         then None else Some payload
                     | _ \<Rightarrow> None)
           | _ \<Rightarrow> None))"

definition verifyOAuthState ::
    "github_env \<Rightarrow> int \<Rightarrow> jstring \<Rightarrow> jstring option \<Rightarrow> exn + json option" where
  "verifyOAuthState gh now stateString expectedWalletId =
     (if stateString = [] then Inr None
      else (case split_on 46 stateString of
              [encodedPayload, signature] \<Rightarrow>
                let expectedSignature = state_signature gh encodedPayload in
                if length signature \<noteq> length expectedSignature then Inr None
                else if length (utf8_encode signature) \<noteq> length (utf8_encode expectedSignature)
                then Inl timing_length_error
                else if utf8_encode signature \<noteq> utf8_encode expectedSignature then Inr None
                else Inr (read_payload now expectedWalletId encodedPayload)
            | _ \<Rightarrow> Inr None))"

section \<open>oauth.ts: GitHub's endpoints\<close>

record redirect =
  rd_url :: jstring
  rd_params :: "(jstring \<times> jstring) list"

definition getGitHubAuthUrl ::
    "github_env \<Rightarrow> jstring \<Rightarrow> jstring option \<Rightarrow> jstring option \<Rightarrow> exn + redirect" where
  "getGitHubAuthUrl gh state redirectUri clientId =
     (let activeClientId = (if present clientId then clientId else GITHUB_CLIENT_ID gh)
      in if \<not> present activeClientId
         then Inl (PlainError (js ''GITHUB_CLIENT_ID is not configured''))
         else Inr \<lparr>rd_url = js ''https://github.com/login/oauth/authorize'',
                   rd_params = [(js ''client_id'', the activeClientId), (js ''state'', state),
                     (js ''scope'', js ''read:user user:email'')]
                     @ (if present redirectUri then [(js ''redirect_uri'', the redirectUri)] else [])\<rparr>)"

definition response_json :: "http_response \<Rightarrow> exn + json" where
  "response_json res =
     (case json_parse (rs_body res) of
        None \<Rightarrow> Inl (PlainError (js ''Unexpected token in JSON''))
      | Some v \<Rightarrow> Inr v)"

definition token_request :: "github_env \<Rightarrow> jstring \<Rightarrow> jstring option \<Rightarrow> http_request" where
  "token_request gh code redirectUri =
     \<lparr>rq_method = POST, rq_url = js ''https://github.com/login/oauth/access_token'',
      rq_headers = [(js ''Accept'', js ''application/json''),
                    (js ''Content-Type'', js ''application/json'')],
      rq_body = json_stringify (JObj
        ([(js ''client_id'', JStr (the (GITHUB_CLIENT_ID gh))),
          (js ''client_secret'', JStr (the (GITHUB_CLIENT_SECRET gh))), (js ''code'', JStr code)]
         @ (if present redirectUri then [(js ''redirect_uri'', JStr (the redirectUri))] else [])))\<rparr>"

definition token_of :: "github_env \<Rightarrow> json \<Rightarrow> exn + jstring" where
  "token_of gh data =
     (case (json_field data (js ''error''), json_field data (js ''access_token''),
            json_field data (js ''error_description'')) of
        (Inr err, Inr tok, Inr desc) \<Rightarrow>
          if js_truthy err \<or> \<not> js_truthy tok then
            Inl (PlainError
              (if js_truthy desc then js_String (num_text gh) (the desc)
               else if js_truthy err then js_String (num_text gh) (the err)
               else js ''Failed to obtain access token''))
          else Inr (js_String (num_text gh) (the tok))
      | _ \<Rightarrow> Inl null_access)"

definition exchangeCodeForToken :: "github_env \<Rightarrow> jstring \<Rightarrow> jstring option \<Rightarrow> (world, jstring) action" where
  "exchangeCodeForToken gh code redirectUri =
     (if \<not> present (GITHUB_CLIENT_ID gh) \<or> \<not> present (GITHUB_CLIENT_SECRET gh)
      then throw (PlainError (js ''GitHub OAuth credentials are not configured''))
      else
        await (gh_fetch gh (token_request gh code redirectUri)) (\<lambda>res.
        if \<not> response_ok res
        then throw (PlainError (js ''GitHub token exchange failed: HTTP '' @ int_text (rs_status res)))
        else
          await (lift_result (response_json res)) (\<lambda>data.
          lift_result (token_of gh data))))"

definition getGitHubUser :: "github_env \<Rightarrow> jstring \<Rightarrow> (world, json) action" where
  "getGitHubUser gh token =
     await (gh_fetch gh \<lparr>rq_method = GET, rq_url = js ''https://api.github.com/user'',
              rq_headers = [(js ''Authorization'', js ''Bearer '' @ token),
                (js ''User-Agent'', js ''Astrea-App''),
                (js ''Accept'', js ''application/vnd.github.v3+json'')],
              rq_body = None\<rparr>) (\<lambda>res.
     if \<not> response_ok res
     then throw (PlainError (js ''Failed to fetch GitHub user: HTTP '' @ int_text (rs_status res)))
     else lift_result (response_json res))"

section \<open>The routes\<close>

record oauth_query =
  oq_origin :: jstring
  oq_code :: "jstring option"
  oq_state :: "jstring option"
  oq_error :: "jstring option"
  oq_error_description :: "jstring option"

definition redirect_to :: "github_env \<Rightarrow> jstring \<Rightarrow> jstring \<Rightarrow> (jstring \<times> jstring) list \<Rightarrow> (world, redirect) action" where
  "redirect_to gh path origin params =
     await (lift_result (gh_URL gh path origin)) (\<lambda>url.
     return_value \<lparr>rd_url = url, rd_params = params\<rparr>)"

text \<open>Where to go back to: \<open>returnTo\<close> when it starts with one slash.\<close>

definition not_a_function :: exn where
  "not_a_function = PlainError (js ''returnTo.startsWith is not a function'')"

definition return_path :: "jstring \<Rightarrow> jstring" where
  "return_path returnTo =
     (if starts_with returnTo (js ''/'') \<and> \<not> starts_with returnTo (js ''//'') then returnTo else js ''/'')"

definition return_target :: "json option \<Rightarrow> exn + jstring" where
  "return_target payload =
     (case payload of
        None \<Rightarrow> Inr (js ''/'')
      | Some v \<Rightarrow>
          (case json_field v (js ''returnTo'') of
             Inl e \<Rightarrow> Inl e
           | Inr None \<Rightarrow> Inr (js ''/'')
           | Inr (Some JNull) \<Rightarrow> Inr (js ''/'')
           | Inr (Some (JStr r)) \<Rightarrow> Inr (return_path r)
           | Inr (Some _) \<Rightarrow> Inl not_a_function))"

definition put_linked :: "linked_row list \<Rightarrow> world \<Rightarrow> world" where
  "put_linked t w = w\<lparr>linked := t\<rparr>"

definition linked_delete_many :: "(linked_row \<Rightarrow> bool) \<Rightarrow> (world, unit) action" where
  "linked_delete_many p = on_table linked put_linked (\<lambda>t. Inr ((), delete_many p t))"

definition linked_clash :: "linked_row \<Rightarrow> linked_row \<Rightarrow> bool" where
  "linked_clash r s =
     (l_id r = l_id s \<or> l_provider r = l_provider s \<and> l_providerId r = l_providerId s \<or>
      l_walletId r = l_walletId s \<and> l_provider r = l_provider s)"

definition linked_create :: "linked_row \<Rightarrow> (world, unit) action" where
  "linked_create row =
     await random_uuid (\<lambda>i.
     on_table linked put_linked
       (\<lambda>t. map_sum id (Pair ()) (insert_row linked_clash (row\<lparr>l_id := i\<rparr>) t)))"

definition invalid_argument :: exn where
  "invalid_argument = PlainError (js ''Invalid value provided'')"

text \<open>A required and an optional text column; any other JSON value is refused by Prisma.\<close>

definition text_column :: "json option \<Rightarrow> exn + jstring" where
  "text_column v = (case v of Some (JStr s) \<Rightarrow> Inr s | _ \<Rightarrow> Inl invalid_argument)"

definition optional_column :: "json option \<Rightarrow> exn + jstring option" where
  "optional_column v =
     (case v of
        None \<Rightarrow> Inr None
      | Some JNull \<Rightarrow> Inr None
      | Some (JStr s) \<Rightarrow> Inr (Some s)
      | _ \<Rightarrow> Inl invalid_argument)"

definition GITHUB :: jstring where
  "GITHUB = js ''GITHUB''"

definition github_id :: "github_env \<Rightarrow> json \<Rightarrow> exn + jstring" where
  "github_id gh user =
     (case json_field user (js ''id'') of
        Inl e \<Rightarrow> Inl e
      | Inr None \<Rightarrow> Inr (js ''undefined'')
      | Inr (Some v) \<Rightarrow> Inr (js_String (num_text gh) v))"

text \<open>A member of the profile; \<open>json_field\<close> cannot throw here, since \<open>github_id\<close> read the same value.\<close>

definition profile_field :: "json \<Rightarrow> jstring \<Rightarrow> json option" where
  "profile_field user k = (case json_field user k of Inr v \<Rightarrow> v | Inl _ \<Rightarrow> None)"

definition link_account :: "jstring \<Rightarrow> jstring \<Rightarrow> json \<Rightarrow> (world, unit) action" where
  "link_account walletId providerId user =
     transaction (
       await (linked_delete_many (\<lambda>r. l_walletId r = walletId \<and> l_provider r = GITHUB)) (\<lambda>_.
       await (linked_delete_many (\<lambda>r. l_provider r = GITHUB \<and> l_providerId r = providerId)) (\<lambda>_.
       await (lift_result (text_column (profile_field user (js ''login'')))) (\<lambda>username.
       await (lift_result (optional_column (profile_field user (js ''avatar_url'')))) (\<lambda>avatarUrl.
       await (lift_result (optional_column (profile_field user (js ''html_url'')))) (\<lambda>profileUrl.
       linked_create \<lparr>l_id = [], l_walletId = walletId, l_provider = GITHUB, l_providerId = providerId,
         l_username = username, l_avatarUrl = avatarUrl, l_profileUrl = profileUrl\<rparr>))))))"

definition finish_link ::
    "github_env \<Rightarrow> oauth_query \<Rightarrow> session_wallet \<Rightarrow> jstring \<Rightarrow> json \<Rightarrow> (world, redirect) action" where
  "finish_link gh q session code payload =
     try_catch
       (await (lift_result (gh_URL gh (js ''/api/auth/github/callback'') (oq_origin q))) (\<lambda>callbackUrl.
        await (exchangeCodeForToken gh code (Some callbackUrl)) (\<lambda>token.
        await (getGitHubUser gh token) (\<lambda>user.
        await (lift_result (github_id gh user)) (\<lambda>providerId.
        await (link_account (w_id (sw_wallet session)) providerId user) (\<lambda>_.
        await (lift_result (return_target (Some payload))) (\<lambda>targetPath.
        redirect_to gh targetPath (oq_origin q) [(js ''github'', js ''linked'')])))))))
       (\<lambda>err.
        await (lift_result (return_target (Some payload))) (\<lambda>targetPath.
        redirect_to gh targetPath (oq_origin q)
          ((js ''error'', js ''github_link_failed'') #
           (case err of NonError _ \<Rightarrow> [] | _ \<Rightarrow> [(js ''detail'', error_text err)]))))"

text \<open>The answer when GitHub reports an error: back to where the payload says, if the state verifies.\<close>

definition report_refusal :: "github_env \<Rightarrow> oauth_query \<Rightarrow> session_wallet \<Rightarrow> jstring option \<Rightarrow> int \<Rightarrow>
  (world, redirect) action" where
  "report_refusal gh q session cookieState now =
     await (if present (oq_state q) \<and> present cookieState \<and> oq_state q = cookieState
            then lift_result (verifyOAuthState gh now (the (oq_state q))
                   (Some (w_id (sw_wallet session))))
            else return_value None) (\<lambda>payload.
     await (lift_result (return_target payload)) (\<lambda>targetPath.
     redirect_to gh targetPath (oq_origin q)
       ((js ''error'', if oq_error q = Some (js ''access_denied'') then js ''github_cancelled''
                       else js ''github_error'')
        # (if present (oq_error_description q)
           then [(js ''detail'', the (oq_error_description q))] else []))))"

definition callback_route :: "github_env \<Rightarrow> oauth_query \<Rightarrow> (world, redirect) action" where
  "callback_route gh q =
     await getSessionWallet (\<lambda>s.
     case s of
       None \<Rightarrow> redirect_to gh (js ''/?error=not_connected'') (oq_origin q) []
     | Some session \<Rightarrow>
         await (read_state oauth_cookie) (\<lambda>cookieState.
         await (write_state (\<lambda>w. w\<lparr>oauth_cookie := None\<rparr>)) (\<lambda>_.
         await date_now (\<lambda>now.
         if present (oq_error q) then
           report_refusal gh q session cookieState now
         else if \<not> present (oq_code q) \<or> \<not> present (oq_state q) \<or> \<not> present cookieState \<or>
                 oq_state q \<noteq> cookieState
         then redirect_to gh (js ''/?error=invalid_oauth_state'') (oq_origin q) []
         else
           await (lift_result (verifyOAuthState gh now (the (oq_state q))
                    (Some (w_id (sw_wallet session))))) (\<lambda>payload.
           case payload of
             None \<Rightarrow> redirect_to gh (js ''/?error=invalid_oauth_state'') (oq_origin q) []
           | Some p \<Rightarrow> finish_link gh q session (the (oq_code q)) p)))))"

definition start_route :: "github_env \<Rightarrow> jstring \<Rightarrow> jstring option \<Rightarrow> (world, redirect) action" where
  "start_route gh origin returnTo =
     await getSessionWallet (\<lambda>s.
     case s of
       None \<Rightarrow> redirect_to gh (js ''/?error=not_connected'') origin []
     | Some session \<Rightarrow>
         if \<not> present (GITHUB_CLIENT_ID gh) \<or> \<not> present (GITHUB_CLIENT_SECRET gh)
         then redirect_to gh (js ''/?error=github_not_configured'') origin []
         else
           await random_uuid (\<lambda>nonce.
           await date_now (\<lambda>now.
           let state = signOAuthState gh \<lparr>os_walletId = w_id (sw_wallet session), os_nonce = nonce,
                 os_timestamp = now, os_returnTo = (if present returnTo then returnTo else None)\<rparr>
           in await (lift_result (gh_URL gh (js ''/api/auth/github/callback'') origin)) (\<lambda>callbackUrl.
              await (lift_result (getGitHubAuthUrl gh state (Some callbackUrl) None)) (\<lambda>authUrl.
              await (write_state (\<lambda>w. w\<lparr>oauth_cookie := Some state\<rparr>)) (\<lambda>_.
              return_value authUrl))))))"

section \<open>repo-ownership.ts\<close>

definition repo_char :: "nat \<Rightarrow> bool" where
  "repo_char c = (is_upper c \<or> is_lower c \<or> is_digit c \<or> c = 46 \<or> c = 95 \<or> c = 45)"

definition ascii_lower :: "jstring \<Rightarrow> jstring" where
  "ascii_lower s = map (\<lambda>c. if is_upper c then c + 32 else c) s"

text \<open>
  The tail \<open>([a-zA-Z0-9._-]+?)(?:\.git)?\/?$\<close>: the shortest name after which only an optional
  \<open>.git\<close> and an optional slash are left; \<open>ci\<close> is the flag \<open>i\<close>.
\<close>

definition repo_tail :: "bool \<Rightarrow> jstring \<Rightarrow> jstring option" where
  "repo_tail ci s =
     (let t = (if s \<noteq> [] \<and> last s = 47 then butlast s else s);
          git = drop (length t - 4) t;
          cut = take (length t - 4) t
      in if 4 < length t \<and> (if ci then ascii_lower git else git) = js ''.git'' \<and> list_all repo_char cut
         then Some cut
         else if t \<noteq> [] \<and> list_all repo_char t then Some t else None)"

text \<open>\<open>([a-zA-Z0-9._-]+)\/\<close> and the tail.\<close>

definition owner_and_repo :: "bool \<Rightarrow> jstring \<Rightarrow> (jstring \<times> jstring) option" where
  "owner_and_repo ci s =
     (let owner = takeWhile (\<lambda>c. c \<noteq> 47) s; rest = drop (length owner) s
      in if owner \<noteq> [] \<and> list_all repo_char owner \<and> rest \<noteq> []
         then map_option (Pair owner) (repo_tail ci (tl rest)) else None)"

text \<open>What \<open>parsed.hostname.toLowerCase()\<close> and \<open>parsed.pathname\<close> give; \<open>None\<close> when \<open>new URL\<close> throws.\<close>

type_synonym url_parts = "jstring \<Rightarrow> (jstring \<times> jstring) option"

definition has_http_scheme :: "jstring \<Rightarrow> bool" where
  "has_http_scheme s =
     (starts_with (ascii_lower s) (js ''http://'') \<or> starts_with (ascii_lower s) (js ''https://''))"

definition parseGitHubRepoUrl :: "url_parts \<Rightarrow> jstring \<Rightarrow> (jstring \<times> jstring) option" where
  "parseGitHubRepoUrl parse_url rawUrl =
     (let trimmed = trim rawUrl; ssh = js ''git@github.com:'' in
      if rawUrl = [] \<or> trimmed = [] then None
      else (case (if starts_with (ascii_lower trimmed) ssh
                  then owner_and_repo True (drop (length ssh) trimmed) else None) of
              Some m \<Rightarrow> Some m
            | None \<Rightarrow>
                (case parse_url (if has_http_scheme trimmed then trimmed
                                 else js ''https://'' @ trimmed) of
                   None \<Rightarrow> None
                 | Some (host, path) \<Rightarrow>
                     if host \<noteq> js ''github.com'' \<and> host \<noteq> js ''www.github.com'' then None
                     else if path \<noteq> [] \<and> hd path = 47 then owner_and_repo False (tl path) else None)))"

record RepoOwnershipInput =
  ro_userLogin :: "jstring option"
  ro_repoOwner :: "jstring option"
  ro_admin :: bool
  ro_push :: bool
  ro_isCollaborator :: bool

text \<open>\<open>Inl\<close> is \<open>isOwner: false\<close> with its reason; \<open>lower\<close> is \<open>toLowerCase\<close>.\<close>

definition checkRepoOwnership :: "(jstring \<Rightarrow> jstring) \<Rightarrow> RepoOwnershipInput \<Rightarrow> jstring + unit" where
  "checkRepoOwnership lower x =
     (let user = (case ro_userLogin x of None \<Rightarrow> [] | Some s \<Rightarrow> trim s);
          owner = (case ro_repoOwner x of None \<Rightarrow> [] | Some s \<Rightarrow> trim s)
      in if user = [] \<or> owner = []
         then Inl (js ''Username and repository owner must both be non-empty.'')
         else if lower user = lower owner then Inr ()
         else if ro_admin x \<or> ro_push x then Inr ()
         else if ro_isCollaborator x then Inr ()
         else Inl (js ''GitHub user @'' @ user @ js '' does not match repository owner @'' @ owner
                @ js '' and does not have admin/push permissions.''))"

section \<open>The signed state\<close>

lemma split_on_plain: "c \<notin> set s \<Longrightarrow> split_on c s = [s]"
  by (induction s) auto

lemma split_on_sep: "c \<notin> set a \<Longrightarrow> split_on c (a @ c # b) = a # split_on c b"
  by (induction a) auto

lemma split_on_ne [simp]: "split_on c s \<noteq> []"
  by (induction s) (auto split: list.split)

lemma split_on_two: "split_on c s = [a, b] \<Longrightarrow> s = a @ c # b"
proof (induction s arbitrary: a b)
  case Nil
  then show ?case by simp
next
  case (Cons x s)
  show ?case
  proof (cases "x = c")
    case True
    with Cons.prems have "a = []" "split_on c s = [b]" by simp_all
    moreover have "split_on c t = [u] \<Longrightarrow> t = u" for t u
    proof (induction t arbitrary: u)
      case (Cons y t)
      then show ?case by (auto split: if_splits list.splits)
    qed simp
    ultimately show ?thesis using True by simp
  next
    case False
    with Cons.prems obtain a' where "a = x # a'" "split_on c s = [a', b]"
      by (auto split: list.splits)
    with Cons.IH show ?thesis by simp
  qed
qed

definition storable_payload :: "OAuthStatePayload \<Rightarrow> bool" where
  "storable_payload p =
     (list_all is_unit (os_walletId p) \<and> list_all is_unit (os_nonce p) \<and>
      \<bar>os_timestamp p\<bar> \<le> 2 ^ 53 \<and> (\<forall>r. os_returnTo p = Some r \<longrightarrow> list_all is_unit r))"

lemma payload_printable: "storable_payload p \<Longrightarrow> printable (payload_json p)"
  by (cases "os_returnTo p") (auto simp: storable_payload_def payload_json_def is_unit_def)

lemma payload_prints:
  assumes "storable_payload p"
  shows "\<exists>t. json_stringify (payload_json p) = Some t"
proof -
  have "json_stringify (JNum (js_int (os_timestamp p))) = Some (int_text (os_timestamp p))"
    using assms by (intro number_prints) (simp add: storable_payload_def)
  then show ?thesis
    by (cases "os_returnTo p") (auto simp: payload_json_def simp del: json_stringify.simps(3))
qed

lemma payload_text_decodes:
  assumes "storable_payload p" "json_stringify (payload_json p) = Some t"
  shows "json_parse (utf8_decode (base64url_decode (base64url_encode (utf8_encode t)))) = Some (payload_json p)"
proof -
  have wf: "well_formed t"
    using json_text_well_formed(1) [OF assms(2) payload_printable [OF assms(1)]] .
  then have "list_all (\<lambda>b. b < 256) (utf8_encode t)"
    by (intro utf8_encode_bound) (simp add: well_formed_def)
  then show ?thesis
    using json_roundtrip [OF payload_printable [OF assms(1)] assms(2)]
    by (simp add: base64url_roundtrip utf8_roundtrip [OF wf])
qed

lemma payload_fields:
  "json_field (payload_json p) (js ''walletId'') = Inr (Some (JStr (os_walletId p)))"
  "json_field (payload_json p) (js ''nonce'') = Inr (Some (JStr (os_nonce p)))"
  "json_field (payload_json p) (js ''timestamp'') = Inr (Some (JNum (js_int (os_timestamp p))))"
  "json_field (payload_json p) (js ''returnTo'') = Inr (map_option JStr (os_returnTo p))"
  by (cases "os_returnTo p"; simp add: json_field_def payload_json_def members_get_def)+

lemma timestamp_expired_int [simp]:
  "timestamp_expired now (js_int t) \<longleftrightarrow> OAUTH_STATE_TTL_MS < now - t"
proof -
  have "(rat_of_int OAUTH_STATE_TTL_MS < rat_of_int now - rat_of_int t) \<longleftrightarrow> OAUTH_STATE_TTL_MS < now - t"
    by (simp only: of_int_diff [symmetric] of_int_less_iff)
  then show ?thesis by (simp add: timestamp_expired_def js_int_def)
qed

lemma signed_state_verifies:
  assumes "storable_payload p" and "os_walletId p \<noteq> []" and "os_nonce p \<noteq> []" and "expected \<noteq> []"
  shows "verifyOAuthState gh now (signOAuthState gh p) (Some expected) =
    Inr (if now - os_timestamp p \<le> OAUTH_STATE_TTL_MS \<and> expected = os_walletId p
         then Some (payload_json p) else None)"
proof -
  obtain t where t: "json_stringify (payload_json p) = Some t"
    using payload_prints [OF assms(1)] by blast
  let ?enc = "base64url_encode (utf8_encode t)"
  have state: "signOAuthState gh p = ?enc @ 46 # state_signature gh ?enc"
    by (simp add: signOAuthState_def t Let_def)
  have "split_on 46 (signOAuthState gh p) = [?enc, state_signature gh ?enc]"
    unfolding state state_signature_def
    by (simp add: split_on_sep split_on_plain base64url_no_dot)
  moreover have "read_payload now (Some expected) ?enc =
      (if now - os_timestamp p \<le> OAUTH_STATE_TTL_MS \<and> expected = os_walletId p
       then Some (payload_json p) else None)"
    using payload_text_decodes [OF assms(1) t] assms(2-4)
    by (auto simp: read_payload_def payload_fields js_truthy_def present_def simp del: js_Cons)
  ultimately show ?thesis
    by (simp add: verifyOAuthState_def state)
qed

definition test_github :: github_env where
  "test_github = \<lparr>GITHUB_CLIENT_ID = Some (js ''id''), GITHUB_CLIENT_SECRET = Some (js ''secret''),
     hmac = (\<lambda>k m. replicate 32 (length m mod 256)),
     gh_fetch = (\<lambda>rq. return_value \<lparr>rs_status = 200, rs_body =
       (if rq_method rq = POST then js ''{'' @ [34] @ js ''access_token'' @ [34, 58, 34] @ js ''t'' @ [34] @ js ''}''
        else js ''{'' @ [34] @ js ''id'' @ [34] @ js '':7,'' @ [34] @ js ''login'' @ [34, 58, 34] @ js ''ann''
          @ [34] @ js ''}'')\<rparr>),
     gh_URL = (\<lambda>p b. Inr (b @ p)), num_text = (\<lambda>_. [])\<rparr>"

definition test_payload :: OAuthStatePayload where
  "test_payload = \<lparr>os_walletId = test_wallet_id, os_nonce = js ''n'', os_timestamp = 1000,
     os_returnTo = None\<rparr>"

lemma test_payload_ok: "storable_payload test_payload"
  "os_walletId test_payload = test_wallet_id" "os_nonce test_payload = js ''n''"
  "os_timestamp test_payload = 1000"
proof -
  have "list_all is_unit test_wallet_id" by (simp add: test_wallet_id_def is_unit_def)
  then show "storable_payload test_payload"
    by (simp add: storable_payload_def test_payload_def is_unit_def)
qed (simp_all add: test_payload_def)

text \<open>C24: A signed state reads back as what was signed: for a payload of text and an exact timestamp
  whose wallet id and nonce are not empty, \<open>verifyOAuthState\<close> of \<open>signOAuthState\<close> returns the payload
  to the wallet it names within ten minutes, and nothing after that or to another wallet; under any
  secret and any HMAC.\<close>

theorem oauth_state_roundtrip:
  assumes "storable_payload p" and "os_walletId p \<noteq> []" and "os_nonce p \<noteq> []" and "expected \<noteq> []"
  shows "verifyOAuthState gh now (signOAuthState gh p) (Some expected) =
    Inr (if now - os_timestamp p \<le> OAUTH_STATE_TTL_MS \<and> expected = os_walletId p
         then Some (payload_json p) else None)"
  using assms by (rule signed_state_verifies)

theorem oauth_state_roundtrip_witness:
  "verifyOAuthState test_github 2000 (signOAuthState test_github test_payload) (Some test_wallet_id)
     = Inr (Some (payload_json test_payload))"
  using oauth_state_roundtrip [OF test_payload_ok(1), of test_wallet_id test_github 2000]
  by (simp add: test_payload_ok test_wallet_id OAUTH_STATE_TTL_MS_def)

text \<open>C25: No accepted state without the key: whatever text arrives, if \<open>verifyOAuthState\<close> returns a
  payload then the text is an encoding, a dot, and exactly the signature of that encoding under the
  secret; the payload is what the encoding holds, names the expected wallet, and is not older than
  ten minutes.\<close>

theorem oauth_state_authentic:
  assumes "verifyOAuthState gh now stateString (Some expected) = Inr (Some payload)"
    and "expected \<noteq> []"
  shows "\<exists>enc. stateString = enc @ js ''.'' @ state_signature gh enc \<and>
    json_parse (utf8_decode (base64url_decode enc)) = Some payload \<and>
    json_field payload (js ''walletId'') = Inr (Some (JStr expected)) \<and>
    (\<exists>x. json_field payload (js ''timestamp'') = Inr (Some (JNum x)) \<and> \<not> timestamp_expired now x)"
proof -
  obtain enc sig where s: "split_on 46 stateString = [enc, sig]"
    and u: "utf8_encode sig = utf8_encode (state_signature gh enc)"
    and r: "read_payload now (Some expected) enc = Some payload"
    using assms(1) by (auto simp: verifyOAuthState_def Let_def split: if_splits list.splits)
  have "list_all (\<lambda>c. c < 128) (state_signature gh enc)"
    unfolding state_signature_def by (rule base64url_ascii)
  then have "utf8_encode (state_signature gh enc) = state_signature gh enc"
    and "list_all (\<lambda>c. c < 128) (utf8_encode sig)"
    using u by (simp_all add: ascii_utf8)
  then have "sig = state_signature gh enc"
    using utf8_ascii u by metis
  moreover have "stateString = enc @ 46 # sig" using s by (rule split_on_two)
  moreover have "json_parse (utf8_decode (base64url_decode enc)) = Some payload"
    "json_field payload (js ''walletId'') = Inr (Some (JStr expected))"
    "\<exists>x. json_field payload (js ''timestamp'') = Inr (Some (JNum x)) \<and> \<not> timestamp_expired now x"
    using r assms(2)
    by (auto simp: read_payload_def present_def simp del: js_Cons
        split: option.splits sum.splits if_splits json.splits)
  ultimately show ?thesis by auto
qed


theorem oauth_state_authentic_witness:
  "\<exists>enc. signOAuthState test_github test_payload = enc @ js ''.'' @ state_signature test_github enc"
proof -
  have "verifyOAuthState test_github 2000 (signOAuthState test_github test_payload) (Some test_wallet_id)
      = Inr (Some (payload_json test_payload))"
    using signed_state_verifies [OF test_payload_ok(1), of test_wallet_id test_github 2000]
    by (simp add: test_payload_ok test_wallet_id OAUTH_STATE_TTL_MS_def)
  from oauth_state_authentic [OF this test_wallet_id(3)] show ?thesis by blast
qed

section \<open>Linking\<close>

text \<open>The links after \<open>walletId\<close> took the account \<open>providerId\<close> with a new row.\<close>

definition relinked :: "jstring \<Rightarrow> linked_row list \<Rightarrow> linked_row list \<Rightarrow> bool" where
  "relinked walletId t t' \<longleftrightarrow>
     (\<exists>row. l_walletId row = walletId \<and> l_provider row = GITHUB \<and>
        t' = filter (\<lambda>s. \<not> (l_provider s = GITHUB \<and>
               (l_walletId s = walletId \<or> l_providerId s = l_providerId row))) t @ [row] \<and>
        (\<forall>s\<in>set (butlast t'). \<not> linked_clash row s))"

lemma linked_delete_Inr:
  "linked_delete_many p w = (Inr x, w') \<Longrightarrow> linked w' = filter (\<lambda>r. \<not> p r) (linked w)"
  unfolding linked_delete_many_def
  by (erule on_table_InrE) (auto simp: put_linked_def delete_many_def)

lemma linked_create_Inr:
  assumes "linked_create row w = (Inr x, w')"
  shows "\<exists>i. linked w' = linked w @ [row\<lparr>l_id := i\<rparr>] \<and>
    (\<forall>s\<in>set (linked w). \<not> linked_clash (row\<lparr>l_id := i\<rparr>) s)"
proof -
  let ?row = "row\<lparr>l_id := uuid_of w (uuid_next w)\<rparr>" and ?w = "w\<lparr>uuid_next := Suc (uuid_next w)\<rparr>"
  have "on_table linked put_linked (\<lambda>t. map_sum id (Pair ()) (insert_row linked_clash ?row t)) ?w = (Inr x, w')"
    using assms by (simp add: linked_create_def)
  then obtain fs t where "map_sum id (Pair ()) (insert_row linked_clash ?row (linked (?w\<lparr>faults := fs\<rparr>))) = Inr (x, t)"
    and w': "w' = put_linked t (?w\<lparr>faults := fs\<rparr>)" by (rule on_table_InrE)
  then have "insert_row linked_clash ?row (linked w) = Inr t" by simp
  from insert_row_Inr [OF this] w' show ?thesis by (auto simp: put_linked_def)
qed

lemma link_account_once: "changes_once linked (relinked walletId) (link_account walletId providerId user)"
  unfolding changes_once_def
proof
  fix w
  let ?body = "await (linked_delete_many (\<lambda>r. l_walletId r = walletId \<and> l_provider r = GITHUB)) (\<lambda>_.
       await (linked_delete_many (\<lambda>r. l_provider r = GITHUB \<and> l_providerId r = providerId)) (\<lambda>_.
       await (lift_result (text_column (profile_field user (js ''login'')))) (\<lambda>username.
       await (lift_result (optional_column (profile_field user (js ''avatar_url'')))) (\<lambda>avatarUrl.
       await (lift_result (optional_column (profile_field user (js ''html_url'')))) (\<lambda>profileUrl.
       linked_create \<lparr>l_id = [], l_walletId = walletId, l_provider = GITHUB, l_providerId = providerId,
         l_username = username, l_avatarUrl = avatarUrl, l_profileUrl = profileUrl\<rparr>)))))"
  obtain r v where b: "?body w = (r, v)" by fastforce
  show "linked (snd (link_account walletId providerId user w)) = linked w \<or>
      relinked walletId (linked w) (linked (snd (link_account walletId providerId user w)))"
  proof (cases r)
    case (Inl e)
    with b show ?thesis by (simp add: link_account_def transaction_def)
  next
    case (Inr x)
    let ?rest = "await (lift_result (text_column (profile_field user (js ''login'')))) (\<lambda>username.
       await (lift_result (optional_column (profile_field user (js ''avatar_url'')))) (\<lambda>avatarUrl.
       await (lift_result (optional_column (profile_field user (js ''html_url'')))) (\<lambda>profileUrl.
       linked_create \<lparr>l_id = [], l_walletId = walletId, l_provider = GITHUB, l_providerId = providerId,
         l_username = username, l_avatarUrl = avatarUrl, l_profileUrl = profileUrl\<rparr>)))"
    let ?d2 = "linked_delete_many (\<lambda>r. l_provider r = GITHUB \<and> l_providerId r = providerId)"
    obtain x1 v1 where "linked_delete_many (\<lambda>r. l_walletId r = walletId \<and> l_provider r = GITHUB) w = (Inr x1, v1)"
      and "await ?d2 (\<lambda>_. ?rest) v1 = (Inr x, v)"
      using b [unfolded Inr] by (rule await_InrE)
    then obtain x2 v2 where
      1: "linked_delete_many (\<lambda>r. l_walletId r = walletId \<and> l_provider r = GITHUB) w = (Inr x1, v1)"
      and 2: "?d2 v1 = (Inr x2, v2)" and rest: "?rest v2 = (Inr x, v)"
      by (auto elim: await_InrE)
    have "\<exists>row. l_walletId row = walletId \<and> l_provider row = GITHUB \<and> l_providerId row = providerId \<and>
        linked_create row v2 = (Inr x, v)"
      using rest
      by (cases "text_column (profile_field user (js ''login''))";
          cases "optional_column (profile_field user (js ''avatar_url''))";
          cases "optional_column (profile_field user (js ''html_url''))")
        (simp_all del: js_Cons, metis linked_row.select_convs(2-4))
    then obtain row where row: "l_walletId row = walletId" "l_provider row = GITHUB"
      "l_providerId row = providerId" and 3: "linked_create row v2 = (Inr x, v)" by blast
    obtain i where t: "linked v = linked v2 @ [row\<lparr>l_id := i\<rparr>]"
      "\<forall>s\<in>set (linked v2). \<not> linked_clash (row\<lparr>l_id := i\<rparr>) s"
      using linked_create_Inr [OF 3] by blast
    have "linked v2 = filter (\<lambda>s. \<not> (l_provider s = GITHUB \<and>
               (l_walletId s = walletId \<or> l_providerId s = providerId))) (linked w)"
      using linked_delete_Inr [OF 1] linked_delete_Inr [OF 2] by (auto intro: filter_cong)
    with t row have "relinked walletId (linked w) (linked v)"
      unfolding relinked_def by (intro exI [of _ "row\<lparr>l_id := i\<rparr>"]) simp
    moreover have "snd (link_account walletId providerId user w) = v"
      using b Inr by (simp add: link_account_def transaction_def)
    ultimately show ?thesis by simp
  qed
qed

lemma keeps_redirect_to: "keeps (\<lambda>w w'. linked w' = linked w) (redirect_to gh p b ps)"
  unfolding redirect_to_def by (intro keeps_await keeps_lift keeps_return preorder_same_field)

lemma keeps_report_refusal: "keeps (\<lambda>w w'. linked w' = linked w) (report_refusal gh q s c now)"
  unfolding report_refusal_def
  by (auto intro!: keeps_await keeps_lift keeps_return keeps_redirect_to simp del: js_Cons)

lemma finish_link_once:
  assumes "\<And>rq. keeps (\<lambda>w w'. linked w' = linked w) (gh_fetch gh rq)"
  shows "changes_once linked (relinked (w_id (sw_wallet session))) (finish_link gh q session code payload)"
proof -
  have x: "keeps (\<lambda>w w'. linked w' = linked w) (exchangeCodeForToken gh c u)" for c u
    unfolding exchangeCodeForToken_def using assms
    by (auto intro!: keeps_await keeps_lift keeps_throw)
  have g: "keeps (\<lambda>w w'. linked w' = linked w) (getGitHubUser gh c)" for c
    unfolding getGitHubUser_def using assms
    by (auto intro!: keeps_await keeps_lift keeps_throw)
  show ?thesis
    unfolding finish_link_def
    by (intro changes_once_try changes_once_later x g keeps_lift preorder_same_field
        changes_once_now [OF link_account_once] keeps_await keeps_redirect_to)
qed

definition linked_unique :: "linked_row list \<Rightarrow> bool" where
  "linked_unique t = (distinct (map l_id t) \<and>
     distinct (map (\<lambda>r. (l_provider r, l_providerId r)) t) \<and>
     distinct (map (\<lambda>r. (l_walletId r, l_provider r)) t))"

lemma relinked_unique: "linked_unique t \<Longrightarrow> relinked i t t' \<Longrightarrow> linked_unique t'"
  unfolding linked_unique_def relinked_def
  by (auto simp: distinct_map_filter_key linked_clash_def)

text \<open>The callback of a signed-in wallet, as three cases.\<close>

lemma callback_signed_in:
  assumes "getSessionWallet w = (Inr (Some session), v)" and "u = v\<lparr>oauth_cookie := None\<rparr>"
  shows "callback_route gh q w =
    (if present (oq_error q) then report_refusal gh q session (oauth_cookie v) (clock u) u
     else if present (oq_code q) \<and> present (oq_state q) \<and> present (oauth_cookie v) \<and> oq_state q = oauth_cookie v
     then await (lift_result (verifyOAuthState gh (clock u) (the (oq_state q)) (Some (w_id (sw_wallet session)))))
            (\<lambda>payload. case payload of
                None \<Rightarrow> redirect_to gh (js ''/?error=invalid_oauth_state'') (oq_origin q) []
              | Some p \<Rightarrow> finish_link gh q session (the (oq_code q)) p) u
     else redirect_to gh (js ''/?error=invalid_oauth_state'') (oq_origin q) [] u)"
  unfolding callback_route_def assms(2)
  by (simp add: await_def assms(1) read_state_def write_state_def date_now_def del: js_Cons)

text \<open>A signed-in browser that returns from GitHub with the state it was given.\<close>

definition test_callback :: oauth_query where
  "test_callback = \<lparr>oq_origin = js ''https://app'', oq_code = Some (js ''c''),
     oq_state = Some (signOAuthState test_github test_payload), oq_error = None,
     oq_error_description = None\<rparr>"

definition connecting_world :: world where
  "connecting_world = signed_in_world\<lparr>clock := 2000,
     oauth_cookie := Some (signOAuthState test_github test_payload)\<rparr>"

lemma test_github_keeps: "keeps (\<lambda>w w'. linked w' = linked w) (gh_fetch test_github rq)"
  unfolding test_github_def github_env.simps by (intro keeps_return preorder_same_field)

text \<open>C26: An account is linked only on a request the same wallet started. Under any database
  failure and whatever GitHub answers: if the callback changes the links at all, a wallet is signed
  in, the state cookie of the browser is the state of the request, the state verifies for that
  wallet, and the change replaces that wallet's GitHub link and any link of that GitHub account by
  one new row. One account per wallet and one wallet per account are kept.\<close>

theorem github_link_guarded:
  assumes "\<And>rq. keeps (\<lambda>w w'. linked w' = linked w) (gh_fetch gh rq)"
  shows "case callback_route gh q w of (r, w') \<Rightarrow>
    (linked_unique (linked w) \<longrightarrow> linked_unique (linked w')) \<and>
    (linked w' \<noteq> linked w \<longrightarrow>
      (\<exists>session payload. signed_in_as w session \<and> present (oq_state q) \<and> oauth_cookie w = oq_state q \<and>
         verifyOAuthState gh (clock w) (the (oq_state q)) (Some (w_id (sw_wallet session)))
           = Inr (Some payload) \<and>
         relinked (w_id (sw_wallet session)) (linked w) (linked w')))"
proof -
  obtain r w' where run: "callback_route gh q w = (r, w')" by fastforce
  obtain s v where s: "getSessionWallet w = (s, v)" by fastforce
  obtain fs where v: "v = w\<lparr>faults := fs\<rparr>" and si: "\<And>x. s = Inr (Some x) \<Longrightarrow> signed_in_as w x"
    using getSessionWallet_cases [OF s] by blast
  note stays = keepsD [OF keeps_redirect_to surjective_pairing]
  have "linked w' = linked w \<or>
    (\<exists>session payload. signed_in_as w session \<and> present (oq_state q) \<and> oauth_cookie w = oq_state q \<and>
         verifyOAuthState gh (clock w) (the (oq_state q)) (Some (w_id (sw_wallet session)))
           = Inr (Some payload) \<and>
         relinked (w_id (sw_wallet session)) (linked w) (linked w'))"
  proof (cases "\<exists>session. s = Inr (Some session)")
    case False
    then show ?thesis
      using run s v by (cases s) (auto simp: callback_route_def dest: keepsD [OF keeps_redirect_to] split: option.splits)
  next
    case True
    then obtain session where session: "s = Inr (Some session)" by blast
    let ?u = "v\<lparr>oauth_cookie := None\<rparr>" and ?i = "Some (w_id (sw_wallet session))"
    let ?check = "verifyOAuthState gh (clock w) (the (oq_state q)) ?i"
    have lu: "linked ?u = linked w" "oauth_cookie v = oauth_cookie w" "clock ?u = clock w"
      using v by simp_all
    have run': "callback_route gh q w = (r, w')" by (rule run)
    note cb = callback_signed_in [OF s [unfolded session] refl, of gh q, unfolded run' lu]
    show ?thesis
    proof (cases "\<not> present (oq_error q) \<and> present (oq_code q) \<and> present (oq_state q) \<and>
        present (oauth_cookie w) \<and> oq_state q = oauth_cookie w \<and> (\<exists>p. ?check = Inr (Some p))")
      case True
      then obtain p where p: "?check = Inr (Some p)" by blast
      have "finish_link gh q session (the (oq_code q)) p ?u = (r, w')"
        using cb p True unfolding lift_result_def await_def by simp
      from changes_onceD [OF finish_link_once [OF assms] this] lu(1)
      have "linked w' = linked w \<or> relinked (w_id (sw_wallet session)) (linked w) (linked w')" by simp
      moreover have "oauth_cookie w = oq_state q" using True by simp
      ultimately show ?thesis using True p si [OF session] by blast
    next
      case False
      let ?home = "redirect_to gh (js ''/?error=invalid_oauth_state'') (oq_origin q) [] ?u"
      let ?report = "report_refusal gh q session (oauth_cookie w) (clock w) ?u"
      let ?match = "present (oq_code q) \<and> present (oq_state q) \<and> present (oauth_cookie w) \<and>
        oq_state q = oauth_cookie w"
      consider e where "(r, w') = (Inl e, ?u)" | "(r, w') = ?home" | "(r, w') = ?report"
      proof -
        consider "present (oq_error q)" | "\<not> present (oq_error q)" "\<not> ?match"
          | "\<not> present (oq_error q)" ?match by blast
        then show thesis
        proof cases
          case 1
          from cb [unfolded if_P [OF this]] show thesis by (rule that)
        next
          case 2
          from cb [unfolded if_not_P [OF 2(1)] if_not_P [OF 2(2)]] show thesis by (rule that)
        next
          case 3
          have e: "(r, w') = await (lift_result ?check) (\<lambda>payload. case payload of
                None \<Rightarrow> redirect_to gh (js ''/?error=invalid_oauth_state'') (oq_origin q) []
              | Some p \<Rightarrow> finish_link gh q session (the (oq_code q)) p) ?u"
            using cb [unfolded if_not_P [OF 3(1)] if_P [OF 3(2)]] .
          show thesis
          proof (cases ?check)
            case (Inl x)
            have "(r, w') = (Inl x, ?u)" using e unfolding Inl lift_result_def await_def by simp
            then show thesis by (rule that)
          next
            case (Inr c)
            then have "c = None" using False 3 by (cases c) blast+
            then have "(r, w') = ?home"
              using e unfolding Inr lift_result_def await_def by (simp del: js_Cons)
            then show thesis by (rule that)
          qed
        qed
      qed
      then have "linked w' = linked ?u"
      proof cases
        case 1
        then show ?thesis by simp
      next
        case 2
        from keepsD [OF keeps_redirect_to 2 [symmetric]] show ?thesis .
      next
        case 3
        from keepsD [OF keeps_report_refusal 3 [symmetric]] show ?thesis .
      qed
      then show ?thesis using lu(1) by simp
    qed
  qed
  then show ?thesis
    unfolding run prod.case using relinked_unique by metis
qed

theorem github_link_guarded_witness:
  "case callback_route test_github test_callback connecting_world of (r, w') \<Rightarrow>
    (linked_unique (linked connecting_world) \<longrightarrow> linked_unique (linked w')) \<and>
    (linked w' \<noteq> linked connecting_world \<longrightarrow>
      (\<exists>session payload. signed_in_as connecting_world session \<and> present (oq_state test_callback) \<and>
         oauth_cookie connecting_world = oq_state test_callback \<and>
         verifyOAuthState test_github (clock connecting_world) (the (oq_state test_callback))
           (Some (w_id (sw_wallet session))) = Inr (Some payload) \<and>
         relinked (w_id (sw_wallet session)) (linked connecting_world) (linked w')))"
  by (fact github_link_guarded [where gh = test_github and q = test_callback and w = connecting_world,
        OF test_github_keeps])

end
