(* ===== verification/Int32.thy ===== *)
theory Int32
  imports Prelude "HOL-Library.Word"
begin

text \<open>
  JavaScript's 32-bit operators on numbers. A number of the QR code generator is an integer, here an
  \<open>int\<close>; \<open><<\<close>, \<open>&\<close>, \<open>|\<close> and \<open>^\<close> read their operands as signed 32-bit integers and \<open>>>>\<close> as an
  unsigned one, and a shift count counts modulo 32. \<open>check\<close> is the generator's \<open>assert\<close>, and
  \<open>and_then\<close> the sequencing of computations that may throw.
\<close>

unbundle bit_operations_syntax

section \<open>The operators\<close>

definition to_uint32 :: "int \<Rightarrow> int" where
  "to_uint32 x = x mod 2 ^ 32"

definition to_int32 :: "int \<Rightarrow> int" where
  "to_int32 x = signed_take_bit 31 x"

definition shl :: "int \<Rightarrow> int \<Rightarrow> int" where
  "shl x k = to_int32 (push_bit (nat (k mod 32)) (to_int32 x))"

definition shr :: "int \<Rightarrow> int \<Rightarrow> int" where
  "shr x k = drop_bit (nat (k mod 32)) (to_uint32 x)"

definition bxor :: "int \<Rightarrow> int \<Rightarrow> int" where
  "bxor x y = to_int32 x XOR to_int32 y"

definition band :: "int \<Rightarrow> int \<Rightarrow> int" where
  "band x y = to_int32 x AND to_int32 y"

definition bor :: "int \<Rightarrow> int \<Rightarrow> int" where
  "bor x y = to_int32 x OR to_int32 y"

text \<open>Inside the range of non-negative 32-bit integers the operators are the plain ones.\<close>

lemma to_int32_id [simp]: "0 \<le> x \<Longrightarrow> x < 2 ^ 31 \<Longrightarrow> to_int32 x = x"
  unfolding to_int32_def by (rule signed_take_bit_int_eq_self) simp_all

lemma to_uint32_id [simp]: "0 \<le> x \<Longrightarrow> x < 2 ^ 32 \<Longrightarrow> to_uint32 x = x"
  by (simp add: to_uint32_def)

lemma shr_plain: "0 \<le> x \<Longrightarrow> x < 2 ^ 32 \<Longrightarrow> 0 \<le> k \<Longrightarrow> k < 32 \<Longrightarrow> shr x k = drop_bit (nat k) x"
  by (simp add: shr_def)

lemma shl_plain:
  assumes "0 \<le> x" "0 \<le> k" "k < 32" "x * 2 ^ nat k < 2 ^ 31"
  shows "shl x k = x * 2 ^ nat k"
proof -
  have "x * 1 \<le> x * 2 ^ nat k" using assms(1) by (intro mult_left_mono) simp_all
  with assms show ?thesis by (simp add: shl_def push_bit_eq_mult)
qed

lemma bxor_plain: "0 \<le> x \<Longrightarrow> x < 2 ^ 31 \<Longrightarrow> 0 \<le> y \<Longrightarrow> y < 2 ^ 31 \<Longrightarrow> bxor x y = x XOR y"
  by (simp add: bxor_def)

lemma band_plain: "0 \<le> x \<Longrightarrow> x < 2 ^ 31 \<Longrightarrow> 0 \<le> y \<Longrightarrow> y < 2 ^ 31 \<Longrightarrow> band x y = x AND y"
  by (simp add: band_def)

lemma bor_plain: "0 \<le> x \<Longrightarrow> x < 2 ^ 31 \<Longrightarrow> 0 \<le> y \<Longrightarrow> y < 2 ^ 31 \<Longrightarrow> bor x y = x OR y"
  by (simp add: bor_def)

lemma low_bit: "0 \<le> x \<Longrightarrow> x < 2 ^ 31 \<Longrightarrow> band x 1 = x mod 2"
  by (simp add: band_plain and_one_eq)

lemma bxor_bound: "0 \<le> x \<Longrightarrow> x < 2 ^ n \<Longrightarrow> 0 \<le> y \<Longrightarrow> y < 2 ^ n \<Longrightarrow> n \<le> 31 \<Longrightarrow>
    0 \<le> bxor x y \<and> bxor x y < 2 ^ n"
  using power_increasing [of n 31 "2::int"] by (simp add: bxor_plain XOR_upper)

section \<open>Computations that may throw\<close>

definition and_then :: "exn + 'a \<Rightarrow> ('a \<Rightarrow> exn + 'b) \<Rightarrow> exn + 'b" where
  "and_then r k = (case r of Inl e \<Rightarrow> Inl e | Inr x \<Rightarrow> k x)"

lemma and_then_simps [simp]: "and_then (Inl e) k = Inl e" "and_then (Inr x) k = k x"
  by (simp_all add: and_then_def)

lemma and_then_InrE:
  assumes "and_then r k = Inr y"
  obtains x where "r = Inr x" and "k x = Inr y"
  using assms by (cases r) auto

lemma and_then_cong [fundef_cong]:
  "r = r' \<Longrightarrow> (\<And>x. r' = Inr x \<Longrightarrow> k x = k' x) \<Longrightarrow> and_then r k = and_then r' k'"
  by (cases r') auto

primrec collect :: "('a \<Rightarrow> exn + 'b) \<Rightarrow> 'a list \<Rightarrow> exn + 'b list" where
  "collect f [] = Inr []"
| "collect f (x # xs) = and_then (f x) (\<lambda>y. and_then (collect f xs) (\<lambda>ys. Inr (y # ys)))"

lemma collect_Inr: "(\<And>x. x \<in> set xs \<Longrightarrow> f x = Inr (g x)) \<Longrightarrow> collect f xs = Inr (map g xs)"
  by (induction xs) auto

definition check :: "bool \<Rightarrow> exn + unit" where
  "check b = (if b then Inr () else Inl (PlainError (js ''Assertion error'')))"

lemma check_True [simp]: "check True = Inr ()"
  by (simp add: check_def)

end
