(* ===== verification/Qr_Tables.thy ===== *)
theory Qr_Tables
  imports Int32
begin

text \<open>
  The constants and tables of \<open>lib/qr.ts\<close> and the three functions that only read them:
  \<open>getNumRawDataModules\<close>, \<open>getNumDataCodewords\<close>, \<open>getAlignmentPatternPositions\<close>. Each is checked
  against its comment for all 40 versions and all 4 levels.
\<close>

datatype Ecc = LOW | MEDIUM | QUARTILE | HIGH

primrec ordinal :: "Ecc \<Rightarrow> int" where
  "ordinal LOW = 0" | "ordinal MEDIUM = 1" | "ordinal QUARTILE = 2" | "ordinal HIGH = 3"

primrec formatBits :: "Ecc \<Rightarrow> int" where
  "formatBits LOW = 1" | "formatBits MEDIUM = 0" | "formatBits QUARTILE = 3" | "formatBits HIGH = 2"

definition MIN_VERSION :: int where "MIN_VERSION = 1"
definition MAX_VERSION :: int where "MAX_VERSION = 40"
definition PENALTY_N1 :: int where "PENALTY_N1 = 3"
definition PENALTY_N2 :: int where "PENALTY_N2 = 3"
definition PENALTY_N3 :: int where "PENALTY_N3 = 40"
definition PENALTY_N4 :: int where "PENALTY_N4 = 10"

definition ECC_CODEWORDS_PER_BLOCK :: "int list list" where
  "ECC_CODEWORDS_PER_BLOCK =
    [[- 1, 7, 10, 15, 20, 26, 18, 20, 24, 30, 18, 20, 24, 26, 30, 22, 24, 28,
      30, 28, 28, 28, 28, 30, 30, 26, 28, 30, 30, 30, 30, 30, 30, 30, 30, 30,
      30, 30, 30, 30, 30],
     [- 1, 10, 16, 26, 18, 24, 16, 18, 22, 22, 26, 30, 22, 22, 24, 24, 28, 28,
      26, 26, 26, 26, 28, 28, 28, 28, 28, 28, 28, 28, 28, 28, 28, 28, 28, 28,
      28, 28, 28, 28, 28],
     [- 1, 13, 22, 18, 26, 18, 24, 18, 22, 20, 24, 28, 26, 24, 20, 30, 24, 28,
      28, 26, 30, 28, 30, 30, 30, 30, 28, 30, 30, 30, 30, 30, 30, 30, 30, 30,
      30, 30, 30, 30, 30],
     [- 1, 17, 28, 22, 16, 22, 28, 26, 26, 24, 28, 24, 28, 22, 24, 24, 30, 28,
      28, 26, 28, 30, 24, 30, 30, 30, 30, 30, 30, 30, 30, 30, 30, 30, 30, 30,
      30, 30, 30, 30, 30]]"

definition NUM_ERROR_CORRECTION_BLOCKS :: "int list list" where
  "NUM_ERROR_CORRECTION_BLOCKS =
    [[- 1, 1, 1, 1, 1, 1, 2, 2, 2, 2, 4, 4, 4, 4, 4, 6, 6, 6, 6, 7, 8, 8, 9, 9,
      10, 12, 12, 12, 13, 14, 15, 16, 17, 18, 19, 19, 20, 21, 22, 24, 25],
     [- 1, 1, 1, 1, 2, 2, 4, 4, 4, 5, 5, 5, 8, 9, 9, 10, 10, 11, 13, 14, 16,
      17, 17, 18, 20, 21, 23, 25, 26, 28, 29, 31, 33, 35, 37, 38, 40, 43, 45,
      47, 49],
     [- 1, 1, 1, 2, 2, 4, 4, 6, 6, 8, 8, 8, 10, 12, 16, 12, 17, 16, 18, 21, 20,
      23, 23, 25, 27, 29, 34, 34, 35, 38, 40, 43, 45, 48, 51, 53, 56, 59, 62,
      65, 68],
     [- 1, 1, 1, 2, 4, 4, 4, 5, 6, 8, 8, 11, 11, 16, 16, 18, 16, 19, 21, 25,
      25, 25, 34, 30, 32, 35, 37, 40, 42, 45, 48, 51, 54, 57, 60, 63, 66, 70,
      74, 77, 81]]"

text \<open>\<open>table[i][j]\<close> with both indices in the table.\<close>

definition table_at :: "int list list \<Rightarrow> int \<Rightarrow> int \<Rightarrow> int" where
  "table_at t i j = t ! nat i ! nat j"

definition version_out_of_range :: exn where
  "version_out_of_range = RangeError (js ''Version number out of range'')"

definition getNumRawDataModules :: "int \<Rightarrow> exn + int" where
  "getNumRawDataModules ver =
     (if ver < MIN_VERSION \<or> ver > MAX_VERSION then Inl version_out_of_range
      else
        let result = (16 * ver + 128) * ver + 64;
            result =
              (if ver \<ge> 2 then
                 let numAlign = ver div 7 + 2;
                     result = result - ((25 * numAlign - 10) * numAlign - 55)
                 in if ver \<ge> 7 then result - 36 else result
               else result)
        in and_then (check (208 \<le> result \<and> result \<le> 29648)) (\<lambda>_. Inr result))"

definition getNumDataCodewords :: "int \<Rightarrow> Ecc \<Rightarrow> exn + int" where
  "getNumDataCodewords ver ecl =
     and_then (getNumRawDataModules ver) (\<lambda>raw.
     Inr (raw div 8
          - table_at ECC_CODEWORDS_PER_BLOCK (ordinal ecl) ver
            * table_at NUM_ERROR_CORRECTION_BLOCKS (ordinal ecl) ver))"

text \<open>\<open>getAlignmentPatternPositions\<close> of a code of \<open>version\<close>; \<open>splice(1, 0, pos)\<close> inserts after the
  first entry. The loop runs \<open>numAlign - 1\<close> times.\<close>

primrec alignment_loop :: "nat \<Rightarrow> int \<Rightarrow> int \<Rightarrow> int list \<Rightarrow> int list" where
  "alignment_loop 0 step pos result = result"
| "alignment_loop (Suc n) step pos result =
     alignment_loop n step (pos - step) (take 1 result @ pos # drop 1 result)"

definition getAlignmentPatternPositions :: "int \<Rightarrow> int list" where
  "getAlignmentPatternPositions version =
     (if version = 1 then []
      else
        let numAlign = version div 7 + 2;
            step = (version * 8 + numAlign * 3 + 5) div (numAlign * 4 - 4) * 2
        in alignment_loop (nat (numAlign - 1)) step (version * 4 + 17 - 7) [6])"

section \<open>The tables, version by version\<close>

definition all_ecc :: "Ecc list" where
  "all_ecc = [LOW, MEDIUM, QUARTILE, HIGH]"

lemma all_ecc [simp]: "ecl \<in> set all_ecc"
  by (cases ecl) (simp_all add: all_ecc_def)

text \<open>What the tables give a version and a level: short blocks hold at least one data byte more than
  none, and error correction degrees are those the Reed-Solomon code accepts.\<close>

definition table_ok :: "int \<Rightarrow> Ecc \<Rightarrow> bool" where
  "table_ok ver ecl =
     (case getNumRawDataModules ver of
        Inl _ \<Rightarrow> False
      | Inr raw \<Rightarrow>
          let blocks = table_at NUM_ERROR_CORRECTION_BLOCKS (ordinal ecl) ver;
              eccLen = table_at ECC_CODEWORDS_PER_BLOCK (ordinal ecl) ver
          in 1 \<le> blocks \<and> 7 \<le> eccLen \<and> eccLen \<le> 30 \<and> eccLen < raw div 8 div blocks \<and>
             getNumDataCodewords ver ecl = Inr (raw div 8 - eccLen * blocks) \<and> 9 \<le> raw div 8 - eccLen * blocks)"

lemma tables_ok: "\<forall>ver\<in>set [1..40]. \<forall>ecl\<in>set all_ecc. table_ok ver ecl"
  by code_simp

lemma alignment_ok:
  "\<forall>ver\<in>set [2..40]. let ps = getAlignmentPatternPositions ver in
     int (length ps) = ver div 7 + 2 \<and> hd ps = 6 \<and> last ps = ver * 4 + 10 \<and> sorted_wrt (\<lambda>a b. a + 4 < b) ps"
  by code_simp

lemma capacity_table:
  "\<forall>ver\<in>set [1..39]. \<forall>ecl\<in>set all_ecc.
     (case (getNumDataCodewords ver ecl, getNumDataCodewords (ver + 1) ecl) of
        (Inr m, Inr n) \<Rightarrow> 9 \<le> m \<and> m < n \<and> n \<le> 2956 | _ \<Rightarrow> False)"
  by code_simp

lemma version_cases: "1 \<le> ver \<Longrightarrow> ver \<le> 40 \<Longrightarrow> ver \<in> set [1..40]"
  by (simp only: set_upto atLeastAtMost_iff)

lemma table_ok: "1 \<le> ver \<Longrightarrow> ver \<le> 40 \<Longrightarrow> table_ok ver ecl"
  by (rule tables_ok [rule_format, OF version_cases all_ecc])

lemma capacity_step:
  assumes "1 \<le> v" "v \<le> 39"
  shows "\<exists>m n. getNumDataCodewords v ecl = Inr m \<and> getNumDataCodewords (v + 1) ecl = Inr n \<and>
      9 \<le> m \<and> m < n \<and> n \<le> 2956"
proof -
  have "v \<in> set [1..39]" using assms by (simp only: set_upto atLeastAtMost_iff)
  from capacity_table [rule_format, OF this all_ecc [of ecl]] show ?thesis
    by (auto split: sum.splits)
qed

lemma capacity_range:
  assumes "1 \<le> ver" "ver \<le> 40"
  shows "\<exists>n. getNumDataCodewords ver ecl = Inr n \<and> 9 \<le> n \<and> n \<le> 2956"
  using capacity_step [of ver ecl] capacity_step [of 39 ecl] assms by (cases "ver = 40") auto

text \<open>The size of a code is what its comment says: \<open>getNumRawDataModules\<close> throws exactly outside the
  versions 1 to 40, its assertion never fails, and \<open>getNumDataCodewords\<close> of any level grows with the
  version, between 9 and 2956 bytes.\<close>

theorem capacity_grows:
  "if 1 \<le> ver \<and> ver \<le> 40
   then (\<exists>raw n. getNumRawDataModules ver = Inr raw \<and> 208 \<le> raw \<and> raw \<le> 29648 \<and>
           getNumDataCodewords ver ecl = Inr n \<and> 9 \<le> n \<and> n \<le> 2956 \<and>
           (ver = 40 \<or> (\<exists>n'. getNumDataCodewords (ver + 1) ecl = Inr n' \<and> n < n')))
   else getNumRawDataModules ver = Inl version_out_of_range \<and>
        getNumDataCodewords ver ecl = Inl version_out_of_range"
proof (cases "1 \<le> ver \<and> ver \<le> 40")
  case True
  obtain raw n where raw: "getNumRawDataModules ver = Inr raw" "getNumDataCodewords ver ecl = Inr n"
    using table_ok [of ver ecl] True by (auto simp: table_ok_def Let_def split: sum.splits)
  have "208 \<le> raw \<and> raw \<le> 29648"
    using raw(1) by (auto simp: getNumRawDataModules_def check_def Let_def split: if_splits)
  moreover have "9 \<le> n \<and> n \<le> 2956 \<and> (ver = 40 \<or> (\<exists>n'. getNumDataCodewords (ver + 1) ecl = Inr n' \<and> n < n'))"
  proof (cases "ver = 40")
    case True
    then show ?thesis using capacity_step [of 39 ecl] raw(2) by auto
  next
    case False
    then show ?thesis using capacity_step [of ver ecl] raw(2) \<open>1 \<le> ver \<and> ver \<le> 40\<close> by auto
  qed
  ultimately show ?thesis using True raw by auto
next
  case False
  then show ?thesis
    by (auto simp: getNumRawDataModules_def getNumDataCodewords_def MIN_VERSION_def MAX_VERSION_def)
qed

lemma sorted_between: "sorted_wrt (\<lambda>a b. a + 4 < b) ps \<Longrightarrow> p \<in> set ps \<Longrightarrow> hd ps \<le> p \<and> p \<le> last ps"
  for ps and p :: int
proof (induction ps)
  case (Cons a ps)
  then have "\<forall>q\<in>set ps. a < q" by auto
  with Cons show ?case by (cases "ps = []") (use last_in_set in fastforce)+
qed simp

lemma alignment_facts:
  assumes "2 \<le> version" "version \<le> 40"
  shows "int (length (getAlignmentPatternPositions version)) = version div 7 + 2"
    "hd (getAlignmentPatternPositions version) = 6"
    "last (getAlignmentPatternPositions version) = version * 4 + 10"
    "sorted_wrt (\<lambda>a b. a + 4 < b) (getAlignmentPatternPositions version)"
proof -
  have "version \<in> set [2..40]" using assms by (simp only: set_upto atLeastAtMost_iff)
  from alignment_ok [rule_format, OF this]
  show "int (length (getAlignmentPatternPositions version)) = version div 7 + 2"
    "hd (getAlignmentPatternPositions version) = 6"
    "last (getAlignmentPatternPositions version) = version * 4 + 10"
    "sorted_wrt (\<lambda>a b. a + 4 < b) (getAlignmentPatternPositions version)"
    by (simp_all add: Let_def)
qed

lemma alignment_range:
  "2 \<le> version \<Longrightarrow> version \<le> 40 \<Longrightarrow> p \<in> set (getAlignmentPatternPositions version) \<Longrightarrow>
     6 \<le> p \<and> p \<le> version * 4 + 17 - 7"
  using sorted_between [OF alignment_facts(4), of version p] alignment_facts(2,3) by simp

text \<open>Alignment patterns stay inside the code and apart: for every version from 2 the positions ascend
  from 6 to \<open>size - 7\<close>, one for each of \<open>version / 7 + 2\<close>, more than 4 modules from each other, so the
  5*5 patterns centred on them neither overlap nor leave the grid.\<close>

theorem alignment_positions_apart:
  assumes "2 \<le> version" "version \<le> 40"
  shows "int (length (getAlignmentPatternPositions version)) = version div 7 + 2 \<and>
    hd (getAlignmentPatternPositions version) = 6 \<and>
    last (getAlignmentPatternPositions version) = version * 4 + 17 - 7 \<and>
    sorted_wrt (\<lambda>a b. a + 4 < b) (getAlignmentPatternPositions version) \<and>
    (\<forall>p\<in>set (getAlignmentPatternPositions version). 6 \<le> p \<and> p \<le> version * 4 + 17 - 7)"
proof -
  show ?thesis using alignment_facts [OF assms] alignment_range [OF assms] by simp
qed

theorem alignment_positions_apart_witness:
  "getAlignmentPatternPositions 7 = [6, 22, 38] \<and>
   sorted_wrt (\<lambda>a b. a + 4 < b) (getAlignmentPatternPositions 7) \<and> last (getAlignmentPatternPositions 7) = 38"
proof -
  have "getAlignmentPatternPositions 7 = [6, 22, 38]" by code_simp
  with alignment_positions_apart [of 7] show ?thesis by simp
qed

end
