(* ===== verification/Qr_Segment.thy ===== *)
theory Qr_Segment
  imports Int32 Text_Codec
begin

text \<open>
  The bit buffer and the data segments of \<open>lib/qr.ts\<close>: \<open>appendBits\<close>, \<open>getBit\<close>, the modes, the
  factories of \<open>QrSegment\<close>, \<open>getTotalBits\<close> and \<open>toUtf8ByteArray\<close>. A bit buffer is a list of the
  numbers 0 and 1. A reader of segments, written independently of the factories, gives the round trip
  of \<open>makeSegments\<close>.
\<close>

section \<open>Bits\<close>

text \<open>The loop of \<open>appendBits\<close>: the bits of \<open>val\<close> from position \<open>len - 1\<close> down to 0.\<close>

primrec low_bits :: "int \<Rightarrow> nat \<Rightarrow> int list" where
  "low_bits val 0 = []"
| "low_bits val (Suc i) = band (shr val (int i)) 1 # low_bits val i"

definition appendBits :: "int \<Rightarrow> int \<Rightarrow> int list \<Rightarrow> exn + int list" where
  "appendBits val len bb =
     (if len < 0 \<or> len > 31 \<or> shr val len \<noteq> 0 then Inl (RangeError (js ''Value out of range''))
      else Inr (bb @ low_bits val (nat len)))"

definition getBit :: "int \<Rightarrow> int \<Rightarrow> bool" where
  "getBit x i = (band (shr x i) 1 \<noteq> 0)"

section \<open>Modes and segments\<close>

record Mode =
  modeBits :: int
  numBitsCharCount :: "int list"

definition NUMERIC :: Mode where "NUMERIC = \<lparr>modeBits = 0x1, numBitsCharCount = [10, 12, 14]\<rparr>"

definition ALPHANUMERIC :: Mode where
  "ALPHANUMERIC = \<lparr>modeBits = 0x2, numBitsCharCount = [9, 11, 13]\<rparr>"

definition BYTE :: Mode where "BYTE = \<lparr>modeBits = 0x4, numBitsCharCount = [8, 16, 16]\<rparr>"

definition KANJI :: Mode where "KANJI = \<lparr>modeBits = 0x8, numBitsCharCount = [8, 10, 12]\<rparr>"

definition ECI :: Mode where "ECI = \<lparr>modeBits = 0x7, numBitsCharCount = [0, 0, 0]\<rparr>"

definition numCharCountBits :: "Mode \<Rightarrow> int \<Rightarrow> int" where
  "numCharCountBits mode ver = numBitsCharCount mode ! nat ((ver + 7) div 17)"

record QrSegment =
  seg_mode :: Mode
  numChars :: int
  bitData :: "int list"

definition newSegment :: "Mode \<Rightarrow> int \<Rightarrow> int list \<Rightarrow> exn + QrSegment" where
  "newSegment mode n bits =
     (if n < 0 then Inl (RangeError (js ''Invalid argument''))
      else Inr \<lparr>seg_mode = mode, numChars = n, bitData = bits\<rparr>)"

primrec byte_bits :: "int list \<Rightarrow> int list \<Rightarrow> exn + int list" where
  "byte_bits [] bb = Inr bb"
| "byte_bits (b # data) bb = and_then (appendBits b 8 bb) (byte_bits data)"

definition makeBytes :: "int list \<Rightarrow> exn + QrSegment" where
  "makeBytes data = and_then (byte_bits data []) (newSegment BYTE (int (length data)))"

definition isNumeric :: "jstring \<Rightarrow> bool" where
  "isNumeric text \<longleftrightarrow> list_all is_digit text"

function numeric_bits :: "jstring \<Rightarrow> int list \<Rightarrow> exn + int list" where
  "numeric_bits digits bb =
     (if digits = [] then Inr bb
      else let n = min (length digits) 3 in
        and_then (appendBits (int (bigint_of_digits (take n digits))) (int n * 3 + 1) bb)
          (\<lambda>bb. numeric_bits (drop n digits) bb))"
  by pat_completeness auto
termination by (relation "measure (\<lambda>(digits, _). length digits)") auto

declare numeric_bits.simps [simp del]

definition makeNumeric :: "jstring \<Rightarrow> exn + QrSegment" where
  "makeNumeric digits =
     (if \<not> isNumeric digits
      then Inl (RangeError (js ''String contains non-numeric characters''))
      else and_then (numeric_bits digits []) (newSegment NUMERIC (int (length digits))))"

definition ALPHANUMERIC_CHARSET :: jstring where
  "ALPHANUMERIC_CHARSET = js ''0123456789ABCDEFGHIJKLMNOPQRSTUVWXYZ $%*+-./:''"

text \<open>\<open>s.indexOf(c)\<close> of one character.\<close>

fun indexOf :: "jstring \<Rightarrow> nat \<Rightarrow> int" where
  "indexOf [] c = - 1"
| "indexOf (d # s) c = (if c = d then 0 else let i = indexOf s c in if i < 0 then i else i + 1)"

definition alphanumeric_char :: "nat \<Rightarrow> bool" where
  "alphanumeric_char c =
     (is_upper c \<or> is_digit c \<or> c \<in> set [32, 36, 37, 42, 43, 46, 47, 58, 45])"

definition isAlphanumeric :: "jstring \<Rightarrow> bool" where
  "isAlphanumeric text \<longleftrightarrow> list_all alphanumeric_char text"

fun alphanumeric_bits :: "jstring \<Rightarrow> int list \<Rightarrow> exn + int list" where
  "alphanumeric_bits (a # b # text) bb =
     and_then (appendBits (indexOf ALPHANUMERIC_CHARSET a * 45 + indexOf ALPHANUMERIC_CHARSET b) 11 bb)
       (alphanumeric_bits text)"
| "alphanumeric_bits [a] bb = appendBits (indexOf ALPHANUMERIC_CHARSET a) 6 bb"
| "alphanumeric_bits [] bb = Inr bb"

definition makeAlphanumeric :: "jstring \<Rightarrow> exn + QrSegment" where
  "makeAlphanumeric text =
     (if \<not> isAlphanumeric text
      then Inl (RangeError (js ''String contains unencodable characters in alphanumeric mode''))
      else and_then (alphanumeric_bits text []) (newSegment ALPHANUMERIC (int (length text))))"

text \<open>\<open>encodeURI\<close> of the standard library: as \<open>encodeURIComponent\<close>, with the reserved characters
  \<open>;/?:@&=+$,#\<close> kept too. A lone surrogate is a URIError.\<close>

definition uri_kept :: "nat \<Rightarrow> bool" where
  "uri_kept c = (uri_unreserved c \<or> c \<in> set [59, 47, 63, 58, 64, 38, 61, 43, 36, 44, 35])"

definition encodeURI :: "jstring \<Rightarrow> exn + jstring" where
  "encodeURI s =
     (if list_ex surrogate (code_points s) then Inl (PlainError (js ''URI malformed''))
      else Inr (concat (map (\<lambda>p. if uri_kept p then [p] else concat (map percent_byte (utf8_bytes p)))
                         (code_points s))))"

text \<open>The loop of \<open>toUtf8ByteArray\<close>; \<open>parseInt(_, 16)\<close> of the two digits after a percent sign.\<close>

fun unescape_bytes :: "jstring \<Rightarrow> int list" where
  "unescape_bytes [] = []"
| "unescape_bytes (c # s) =
     (if c \<noteq> 37 then int c # unescape_bytes s
      else int (foldl (\<lambda>n d. n * 16 + hex_value d) 0 (take 2 s)) # unescape_bytes (drop 2 s))"

definition toUtf8ByteArray :: "jstring \<Rightarrow> exn + int list" where
  "toUtf8ByteArray str = and_then (encodeURI str) (\<lambda>str. Inr (unescape_bytes str))"

definition makeSegments :: "jstring \<Rightarrow> exn + QrSegment list" where
  "makeSegments text =
     (if text = [] then Inr []
      else if isNumeric text then and_then (makeNumeric text) (\<lambda>seg. Inr [seg])
      else if isAlphanumeric text then and_then (makeAlphanumeric text) (\<lambda>seg. Inr [seg])
      else and_then (toUtf8ByteArray text) (\<lambda>bytes. and_then (makeBytes bytes) (\<lambda>seg. Inr [seg])))"

definition makeEci :: "int \<Rightarrow> exn + QrSegment" where
  "makeEci assignVal =
     and_then
       (if assignVal < 0 then Inl (RangeError (js ''ECI assignment value out of range''))
        else if assignVal < shl 1 7 then appendBits assignVal 8 []
        else if assignVal < shl 1 14 then and_then (appendBits 2 2 []) (appendBits assignVal 14)
        else if assignVal < 1000000 then and_then (appendBits 6 3 []) (appendBits assignVal 21)
        else Inl (RangeError (js ''ECI assignment value out of range'')))
       (newSegment ECI 0)"

text \<open>\<open>getTotalBits\<close>; \<open>None\<close> is \<open>Infinity\<close>.\<close>

fun total_from :: "QrSegment list \<Rightarrow> int \<Rightarrow> int \<Rightarrow> int option" where
  "total_from [] version result = Some result"
| "total_from (seg # segs) version result =
     (let ccbits = numCharCountBits (seg_mode seg) version in
      if numChars seg \<ge> shl 1 ccbits then None
      else total_from segs version (result + (4 + ccbits + int (length (bitData seg)))))"

definition getTotalBits :: "QrSegment list \<Rightarrow> int \<Rightarrow> int option" where
  "getTotalBits segs version = total_from segs version 0"

section \<open>Reading bits back\<close>

text \<open>The number a run of bits stands for, most significant first.\<close>

definition bits_value :: "int list \<Rightarrow> int" where
  "bits_value bs = foldl (\<lambda>n b. 2 * n + b) 0 bs"

lemma bits_value_Nil [simp]: "bits_value [] = 0"
  by (simp add: bits_value_def)

lemma bits_value_snoc: "bits_value (bs @ [b]) = 2 * bits_value bs + b"
  by (simp add: bits_value_def)

lemma bits_value_append: "bits_value (p @ q) = bits_value p * 2 ^ length q + bits_value q"
proof (induction q rule: rev_induct)
  case (snoc b q)
  have "bits_value (p @ q @ [b]) = 2 * bits_value (p @ q) + b"
    by (metis append.assoc bits_value_snoc)
  then show ?case using snoc by (simp add: bits_value_snoc algebra_simps)
qed simp

lemma bits_value_Cons: "bits_value (b # q) = b * 2 ^ length q + bits_value q"
  using bits_value_append [of "[b]" q] by (simp add: bits_value_def)

definition bit_list :: "int list \<Rightarrow> bool" where
  "bit_list bs \<longleftrightarrow> list_all (\<lambda>b. b = 0 \<or> b = 1) bs"

lemma bit_list_simps [simp]:
  "bit_list []" "bit_list (b # bs) \<longleftrightarrow> (b = 0 \<or> b = 1) \<and> bit_list bs"
  "bit_list (p @ q) \<longleftrightarrow> bit_list p \<and> bit_list q"
  by (auto simp: bit_list_def)

lemma bits_value_bound: "bit_list bs \<Longrightarrow> 0 \<le> bits_value bs \<and> bits_value bs < 2 ^ length bs"
  by (induction bs rule: rev_induct) (auto simp: bits_value_snoc)

lemma low_bits_length [simp]: "length (low_bits val n) = n"
  by (induction n) simp_all

lemma low_bit_value:
  "0 \<le> val \<Longrightarrow> val < 2 ^ 31 \<Longrightarrow> i < 32 \<Longrightarrow> band (shr val (int i)) 1 = val div 2 ^ i mod 2"
proof -
  assume v: "0 \<le> val" "val < 2 ^ 31" "i < 32"
  have "val div 2 ^ i \<le> val div 1" by (rule zdiv_mono2) (use v(1) in simp_all)
  moreover have "0 \<le> val div 2 ^ i" using v(1) by (simp add: pos_imp_zdiv_nonneg_iff)
  ultimately show ?thesis using v by (simp add: shr_plain drop_bit_eq_div low_bit)
qed

lemma low_bits_value:
  assumes "0 \<le> val" "val < 2 ^ 31" "n \<le> 32"
  shows "bits_value (low_bits val n) = val mod 2 ^ n"
  using assms(3)
proof (induction n)
  case (Suc n)
  have "val mod 2 ^ Suc n = val div 2 ^ n mod 2 * 2 ^ n + val mod 2 ^ n"
    using mod_mult2_eq' [of val "2 ^ n" 2] by (simp add: mult.commute)
  with Suc show ?case by (simp add: bits_value_Cons low_bit_value [OF assms(1,2)])
qed simp

lemma low_bits_bits: "0 \<le> val \<Longrightarrow> val < 2 ^ 31 \<Longrightarrow> n \<le> 32 \<Longrightarrow> bit_list (low_bits val n)"
  by (induction n) (auto simp: low_bit_value)

lemma appendBits_ok:
  assumes "0 \<le> val" "0 \<le> len" "len \<le> 31" "val < 2 ^ nat len"
  shows "appendBits val len bb = Inr (bb @ low_bits val (nat len))"
proof -
  have "(2::int) ^ nat len \<le> 2 ^ 31" using assms by (intro power_increasing) auto
  with assms have "val < 2 ^ 32" by simp
  then have "shr val len = 0" using assms by (simp add: shr_plain drop_bit_eq_div)
  with assms show ?thesis by (simp add: appendBits_def)
qed

text \<open>A successful \<open>appendBits\<close> appends exactly \<open>len\<close> bits.\<close>

lemma appendBits_length: "appendBits val len bb = Inr bb' \<Longrightarrow> length bb' = length bb + nat len"
  by (auto simp: appendBits_def split: if_splits)

lemma low_bits_small:
  assumes "0 \<le> val" "n \<le> 31" "val < 2 ^ n"
  shows "bits_value (low_bits val n) = val" "bit_list (low_bits val n)"
proof -
  have "(2::int) ^ n \<le> 2 ^ 31" using assms by (intro power_increasing) auto
  with assms have "val < 2 ^ 31" by simp
  with assms show "bits_value (low_bits val n) = val" "bit_list (low_bits val n)"
    by (simp_all add: low_bits_value low_bits_bits)
qed

text \<open>\<open>appendBits\<close> writes a number that reads back as itself: for a number that is no more than
  31 bits long it appends exactly \<open>len\<close> bits, whose value is the number, and otherwise throws and
  appends nothing.\<close>

theorem appendBits_exact:
  assumes "0 \<le> val" "val < 2 ^ 31"
  shows "if 0 \<le> len \<and> len \<le> 31 \<and> val < 2 ^ nat len
    then \<exists>bits. appendBits val len bb = Inr (bb @ bits) \<and> length bits = nat len \<and>
      bit_list bits \<and> bits_value bits = val
    else appendBits val len bb = Inl (RangeError (js ''Value out of range''))"
proof (cases "0 \<le> len \<and> len \<le> 31 \<and> val < 2 ^ nat len")
  case True
  then have "appendBits val len bb = Inr (bb @ low_bits val (nat len))"
    using assms by (intro appendBits_ok) auto
  moreover have "bits_value (low_bits val (nat len)) = val" "bit_list (low_bits val (nat len))"
    using True assms by (auto intro!: low_bits_small)
  ultimately show ?thesis using True by simp
next
  case False
  have "shr val len \<noteq> 0" if "0 \<le> len" "len \<le> 31" "\<not> val < 2 ^ nat len"
  proof -
    have "val div 2 ^ nat len \<ge> 1"
      using that(3) zdiv_mono1 [of "2 ^ nat len" val "2 ^ nat len"] by simp
    then show ?thesis using assms that by (simp add: shr_plain drop_bit_eq_div)
  qed
  with False show ?thesis by (auto simp: appendBits_def)
qed

theorem appendBits_exact_witness:
  "(\<exists>bits. appendBits 5 4 [1] = Inr ([1] @ bits) \<and> length bits = nat 4 \<and> bit_list bits \<and> bits_value bits = 5) \<and>
   appendBits 16 4 [1] = Inl (RangeError (js ''Value out of range''))"
  using appendBits_exact [of 5 4 "[1]"] appendBits_exact [of 16 4 "[1]"] by simp

section \<open>UTF-8 by way of encodeURI\<close>

lemma uri_kept_ascii: "uri_kept p \<Longrightarrow> p < 128 \<and> p \<noteq> 37"
  using uri_unreserved_ascii [of p] by (auto simp: uri_kept_def)

lemma unescape_percent:
  "list_all (\<lambda>b. b < 256) bs \<Longrightarrow>
     unescape_bytes (concat (map percent_byte bs) @ r) = map int bs @ unescape_bytes r"
  by (induction bs) (simp_all add: percent_byte_def hex_byte)

lemma unescape_points:
  "list_all (\<lambda>p. p < 1114112) ps \<Longrightarrow>
     unescape_bytes (concat (map (\<lambda>p. if uri_kept p then [p] else concat (map percent_byte (utf8_bytes p))) ps)) =
     map int (concat (map utf8_bytes ps))"
proof (induction ps)
  case (Cons p ps)
  then show ?case
    using unescape_percent [OF utf8_bytes_bound [of p]] uri_kept_ascii [of p]
    by (auto simp: utf8_bytes_def)
qed simp

text \<open>\<open>toUtf8ByteArray\<close> is UTF-8: the bytes that \<open>encodeURI\<close> and the unescaping loop give are the
  UTF-8 encoding of the text; a text with a lone surrogate is a URIError.\<close>

theorem toUtf8ByteArray_is_utf8:
  assumes "list_all is_unit str"
  shows "toUtf8ByteArray str =
    (if well_formed str then Inr (map int (utf8_encode str)) else Inl (PlainError (js ''URI malformed'')))"
proof (cases "well_formed str")
  case True
  then have "\<not> list_ex surrogate (code_points str)"
    by (auto simp: well_formed_def list_all_iff list_ex_iff)
  then show ?thesis
    using True unescape_points [OF code_points_bound [OF assms]]
    by (simp add: toUtf8ByteArray_def encodeURI_def utf8_encode_well_formed)
next
  case False
  then have "list_ex surrogate (code_points str)"
    using assms by (auto simp: well_formed_def list_all_iff list_ex_iff)
  then show ?thesis using False by (simp add: toUtf8ByteArray_def encodeURI_def)
qed

theorem toUtf8ByteArray_is_utf8_witness:
  "toUtf8ByteArray [233] = Inr [195, 169]"
  using toUtf8ByteArray_is_utf8 [of "[233]"]
  by (simp add: is_unit_def well_formed_def surrogate_def utf8_encode_def utf8_bytes_def)

section \<open>Reading segments back\<close>

primrec decimal_digits :: "nat \<Rightarrow> nat \<Rightarrow> jstring" where
  "decimal_digits 0 v = []"
| "decimal_digits (Suc k) v = decimal_digits k (v div 10) @ [48 + v mod 10]"

function read_numeric :: "nat \<Rightarrow> int list \<Rightarrow> jstring" where
  "read_numeric n bits =
     (if n = 0 then []
      else let k = min n 3 in decimal_digits k (nat (bits_value (take (3 * k + 1) bits)))
             @ read_numeric (n - k) (drop (3 * k + 1) bits))"
  by pat_completeness auto
termination by (relation "measure fst") auto

declare read_numeric.simps [simp del]

fun read_alphanumeric :: "nat \<Rightarrow> int list \<Rightarrow> jstring" where
  "read_alphanumeric 0 bits = []"
| "read_alphanumeric (Suc 0) bits = [ALPHANUMERIC_CHARSET ! nat (bits_value (take 6 bits))]"
| "read_alphanumeric (Suc (Suc n)) bits =
     (let v = nat (bits_value (take 11 bits)) in
      ALPHANUMERIC_CHARSET ! (v div 45) # ALPHANUMERIC_CHARSET ! (v mod 45)
        # read_alphanumeric n (drop 11 bits))"

primrec read_bytes :: "nat \<Rightarrow> int list \<Rightarrow> nat list" where
  "read_bytes 0 bits = []"
| "read_bytes (Suc n) bits = nat (bits_value (take 8 bits)) # read_bytes n (drop 8 bits)"

text \<open>The text a segment stands for, from its mode, its character count and its bits.\<close>

definition segment_text :: "QrSegment \<Rightarrow> jstring" where
  "segment_text seg =
     (let n = nat (numChars seg); m = modeBits (seg_mode seg) in
      if m = 1 then read_numeric n (bitData seg)
      else if m = 2 then read_alphanumeric n (bitData seg)
      else utf8_decode (read_bytes n (bitData seg)))"

lemma decimal_digits_of:
  "list_all is_digit ds \<Longrightarrow> decimal_digits (length ds) (bigint_of_digits ds) = ds"
proof (induction ds rule: rev_induct)
  case (snoc c ds)
  then obtain d where "c = 48 + d" "d < 10" by (auto simp: is_digit_def nat_le_iff_add)
  with snoc show ?case by simp
qed simp

text \<open>One field of a segment: what is appended, and that it reads back.\<close>

lemma append_field:
  assumes "0 \<le> val" "val < 2 ^ n" "n \<le> 31"
  obtains bits where "\<And>bb. appendBits val (int n) bb = Inr (bb @ bits)" "length bits = n"
    "bit_list bits" "bits_value bits = val"
  using appendBits_ok [of val "int n"] low_bits_small [OF assms(1,3,2)] assms
  by (intro that [of "low_bits val n"]) simp_all

lemma group_bound: "n \<le> 3 \<Longrightarrow> (10::int) ^ n \<le> 2 ^ (3 * n + 1)"
proof -
  assume "n \<le> 3"
  then have "n \<in> {0, 1, 2, 3}" by auto
  then show ?thesis by auto
qed

lemma numeric_bits_read:
  "list_all is_digit digits \<Longrightarrow> \<exists>bits. numeric_bits digits bb = Inr (bb @ bits) \<and> bit_list bits \<and>
     read_numeric (length digits) bits = digits"
proof (induction digits bb rule: numeric_bits.induct)
  case (1 digits bb)
  show ?case
  proof (cases "digits = []")
    case True
    then show ?thesis by (simp add: numeric_bits.simps read_numeric.simps)
  next
    case False
    let ?n = "min (length digits) 3"
    let ?w = "3 * ?n + 1"
    have d: "list_all is_digit (take ?n digits)" "list_all is_digit (drop ?n digits)"
      using "1.prems" by (auto simp: list_all_iff dest: in_set_takeD in_set_dropD)
    have len: "length (take ?n digits) = ?n" by simp
    have "int (bigint_of_digits (take ?n digits)) < 10 ^ ?n"
      using bigint_of_digits_less [OF d(1)] unfolding len
      by (metis of_nat_less_iff of_nat_numeral of_nat_power)
    then have "int (bigint_of_digits (take ?n digits)) < 2 ^ ?w" using group_bound [of ?n] by linarith
    then obtain bits where bits: "\<And>bb. appendBits (int (bigint_of_digits (take ?n digits))) (int ?w) bb = Inr (bb @ bits)"
        "length bits = ?w" "bit_list bits" "bits_value bits = int (bigint_of_digits (take ?n digits))"
      by (elim append_field [rotated]) simp_all
    have w: "int ?n * 3 + 1 = int ?w" by simp
    have app: "appendBits (int (bigint_of_digits (take ?n digits))) (int ?n * 3 + 1) bb = Inr (bb @ bits)"
      unfolding w by (rule bits(1))
    obtain rest where rest: "numeric_bits (drop ?n digits) (bb @ bits) = Inr ((bb @ bits) @ rest)" "bit_list rest"
        "read_numeric (length (drop ?n digits)) rest = drop ?n digits"
      using "1.IH" [OF False refl app d(2)] by blast
    have "numeric_bits digits bb = Inr (bb @ bits @ rest)"
      using False rest(1) app by (subst numeric_bits.simps) (simp add: Let_def)
    moreover have "read_numeric (length digits) (bits @ rest) = digits"
      using False rest(3) bits(2,4) decimal_digits_of [OF d(1)] unfolding len
      by (subst read_numeric.simps) (simp add: Let_def)
    ultimately show ?thesis using bits(3) rest(2) by (intro exI [of _ "bits @ rest"]) simp
  qed
qed


lemma indexOf_found: "c \<in> set s \<Longrightarrow> 0 \<le> indexOf s c \<and> indexOf s c < int (length s) \<and> s ! nat (indexOf s c) = c"
  by (induction s) (auto simp: Let_def nat_add_distrib)

lemma charset_length: "length ALPHANUMERIC_CHARSET = 45"
  by (simp add: ALPHANUMERIC_CHARSET_def)

lemma charset_complete: "\<forall>c\<in>set [0..<91]. alphanumeric_char c \<longrightarrow> c \<in> set ALPHANUMERIC_CHARSET"
  by code_simp

lemma alphanumeric_index:
  assumes "alphanumeric_char c"
  shows "0 \<le> indexOf ALPHANUMERIC_CHARSET c" "indexOf ALPHANUMERIC_CHARSET c < 45"
    "ALPHANUMERIC_CHARSET ! nat (indexOf ALPHANUMERIC_CHARSET c) = c"
proof -
  have "c < 91" using assms by (auto simp: alphanumeric_char_def is_upper_def is_digit_def)
  then have "c \<in> set ALPHANUMERIC_CHARSET"
    by (intro charset_complete [rule_format] assms) simp
  from indexOf_found [OF this]
  show "0 \<le> indexOf ALPHANUMERIC_CHARSET c" "indexOf ALPHANUMERIC_CHARSET c < 45"
    "ALPHANUMERIC_CHARSET ! nat (indexOf ALPHANUMERIC_CHARSET c) = c"
    by (simp_all add: charset_length)
qed

lemma alphanumeric_bits_read:
  "list_all alphanumeric_char cs \<Longrightarrow> \<exists>bits. alphanumeric_bits cs bb = Inr (bb @ bits) \<and> bit_list bits \<and>
     read_alphanumeric (length cs) bits = cs"
proof (induction cs bb rule: alphanumeric_bits.induct)
  case (1 a b cs bb)
  let ?i = "indexOf ALPHANUMERIC_CHARSET a" and ?j = "indexOf ALPHANUMERIC_CHARSET b"
  have a: "0 \<le> ?i" "?i < 45" "ALPHANUMERIC_CHARSET ! nat ?i = a"
    and b: "0 \<le> ?j" "?j < 45" "ALPHANUMERIC_CHARSET ! nat ?j = b"
    using "1.prems" alphanumeric_index [of a] alphanumeric_index [of b] by simp_all
  have "?i * 45 + ?j < 2 ^ 11" using a b by simp
  then obtain bits where bits: "\<And>bb. appendBits (?i * 45 + ?j) (int 11) bb = Inr (bb @ bits)" "length bits = 11"
      "bit_list bits" "bits_value bits = ?i * 45 + ?j"
    by (elim append_field [rotated]) (use a b in simp_all)
  have v: "nat (?i * 45 + ?j) = nat ?i * 45 + nat ?j" using a b by (simp add: nat_add_distrib nat_mult_distrib)
  have app: "appendBits (?i * 45 + ?j) 11 bb = Inr (bb @ bits)" using bits(1) by simp
  obtain rest where "alphanumeric_bits cs (bb @ bits) = Inr ((bb @ bits) @ rest)" "bit_list rest"
      "read_alphanumeric (length cs) rest = cs"
    using "1.IH" [OF app] "1.prems" by auto
  then show ?case
    using app bits(2-4) a b v by (intro exI [of _ "bits @ rest"]) (simp add: Let_def)
next
  case (2 a bb)
  let ?i = "indexOf ALPHANUMERIC_CHARSET a"
  have a: "0 \<le> ?i" "?i < 45" "ALPHANUMERIC_CHARSET ! nat ?i = a"
    using "2.prems" alphanumeric_index [of a] by simp_all
  have "?i < 2 ^ 6" using a by simp
  then obtain bits where "\<And>bb. appendBits ?i (int 6) bb = Inr (bb @ bits)" "length bits = 6"
      "bit_list bits" "bits_value bits = ?i"
    by (elim append_field [rotated]) (use a in simp_all)
  then show ?case using a by (intro exI [of _ bits]) simp
qed simp

lemma byte_bits_read:
  "list_all (\<lambda>b. b < 256) bs \<Longrightarrow> \<exists>bits. byte_bits (map int bs) bb = Inr (bb @ bits) \<and> bit_list bits \<and>
     length bits = 8 * length bs \<and> read_bytes (length bs) bits = bs"
proof (induction bs arbitrary: bb)
  case (Cons b bs)
  then have "int b < 2 ^ 8" by simp
  then obtain bits where bits: "\<And>bb. appendBits (int b) (int 8) bb = Inr (bb @ bits)" "length bits = 8"
      "bit_list bits" "bits_value bits = int b"
    by (elim append_field [rotated]) simp_all
  obtain rest where "byte_bits (map int bs) (bb @ bits) = Inr ((bb @ bits) @ rest)" "bit_list rest"
      "length rest = 8 * length bs" "read_bytes (length bs) rest = bs"
    using Cons.IH [of "bb @ bits"] Cons.prems by auto
  then show ?case
    using bits(1) [of bb] bits(2-4) by (intro exI [of _ "bits @ rest"]) simp
qed simp

lemma segments_read_back:
  assumes "well_formed s"
  shows "\<exists>segs. makeSegments s = Inr segs \<and> length segs \<le> 1 \<and>
    concat (map segment_text segs) = s \<and>
    (\<forall>seg\<in>set segs. bit_list (bitData seg) \<and>
       seg_mode seg = (if isNumeric s then NUMERIC else if isAlphanumeric s then ALPHANUMERIC else BYTE))"
proof -
  have units: "list_all is_unit s" using assms by (simp add: well_formed_def)
  consider "s = []" | "s \<noteq> []" "isNumeric s" | "s \<noteq> []" "\<not> isNumeric s" "isAlphanumeric s"
    | "s \<noteq> []" "\<not> isNumeric s" "\<not> isAlphanumeric s" by blast
  then show ?thesis
  proof cases
    case 1
    then show ?thesis by (simp add: makeSegments_def)
  next
    case 2
    then obtain bits where "numeric_bits s [] = Inr bits" "bit_list bits" "read_numeric (length s) bits = s"
      using numeric_bits_read [of s "[]"] by (auto simp: isNumeric_def)
    with 2 show ?thesis
      by (simp add: makeSegments_def makeNumeric_def newSegment_def segment_text_def NUMERIC_def)
  next
    case 3
    then obtain bits where "alphanumeric_bits s [] = Inr bits" "bit_list bits"
        "read_alphanumeric (length s) bits = s"
      using alphanumeric_bits_read [of s "[]"] by (auto simp: isAlphanumeric_def)
    with 3 show ?thesis
      by (simp add: makeSegments_def makeAlphanumeric_def newSegment_def segment_text_def ALPHANUMERIC_def)
  next
    case 4
    have "list_all (\<lambda>b. b < 256) (utf8_encode s)" by (rule utf8_encode_bound [OF units])
    then obtain bits where "byte_bits (map int (utf8_encode s)) [] = Inr bits" "bit_list bits"
        "read_bytes (length (utf8_encode s)) bits = utf8_encode s"
      using byte_bits_read [of "utf8_encode s" "[]"] by auto
    moreover have "toUtf8ByteArray s = Inr (map int (utf8_encode s))"
      using unescape_points [OF code_points_bound [OF units]] assms
      by (auto simp: toUtf8ByteArray_def encodeURI_def utf8_encode_well_formed well_formed_def
          list_all_iff list_ex_iff)
    ultimately show ?thesis using 4 utf8_roundtrip [OF assms]
      by (simp add: makeSegments_def makeBytes_def newSegment_def segment_text_def BYTE_def)
  qed
qed

text \<open>C28: The segments of a text read back as the text: for every well-formed string \<open>makeSegments\<close> succeeds,
  with at most one segment, in the densest mode that can hold the text, its bits are bits, and reading
  its character count and bits by the mode's own rules gives the text.\<close>

theorem makeSegments_roundtrip:
  assumes "well_formed s"
  shows "\<exists>segs. makeSegments s = Inr segs \<and> length segs \<le> 1 \<and>
    concat (map segment_text segs) = s \<and>
    (\<forall>seg\<in>set segs. bit_list (bitData seg) \<and>
       seg_mode seg = (if isNumeric s then NUMERIC else if isAlphanumeric s then ALPHANUMERIC else BYTE))"
  using assms by (rule segments_read_back)

theorem makeSegments_roundtrip_witness:
  "\<exists>segs. makeSegments (js ''AC-42'') = Inr segs \<and> length segs \<le> 1 \<and>
    concat (map segment_text segs) = js ''AC-42'' \<and>
    (\<forall>seg\<in>set segs. bit_list (bitData seg) \<and>
       seg_mode seg = (if isNumeric (js ''AC-42'') then NUMERIC
         else if isAlphanumeric (js ''AC-42'') then ALPHANUMERIC else BYTE))"
  by (rule makeSegments_roundtrip) (simp add: well_formed_plain)

end
