(* ===== verification/Loops.thy ===== *)
theory Loops
  imports Prelude
begin

text \<open>
  \<open>for\<close> loops whose body is an action, with or without a loop variable that the body updates, and the
  rules for actions that succeed and keep an invariant (\<open>stays P m\<close>: from every state where \<open>P\<close> holds,
  \<open>m\<close> returns normally to such a state).
\<close>

primrec for_each :: "'a list \<Rightarrow> ('a \<Rightarrow> ('w, unit) action) \<Rightarrow> ('w, unit) action" where
  "for_each [] f = return_value ()"
| "for_each (x # xs) f = await (f x) (\<lambda>_. for_each xs f)"

primrec for_each_with :: "'a list \<Rightarrow> 'b \<Rightarrow> ('a \<Rightarrow> 'b \<Rightarrow> ('w, 'b) action) \<Rightarrow> ('w, 'b) action" where
  "for_each_with [] b f = return_value b"
| "for_each_with (x # xs) b f = await (f x b) (\<lambda>b. for_each_with xs b f)"

definition stays :: "('w \<Rightarrow> bool) \<Rightarrow> ('w, 'a) action \<Rightarrow> bool" where
  "stays P m \<longleftrightarrow> (\<forall>w. P w \<longrightarrow> (\<exists>x w'. m w = (Inr x, w') \<and> P w'))"

lemma staysE:
  assumes "stays P m" "P w"
  obtains x w' where "m w = (Inr x, w')" "P w'"
  using assms unfolding stays_def by blast

lemma stays_return [intro]: "stays P (return_value x)"
  by (simp add: stays_def)

lemma stays_lift [intro]: "stays P (lift_result (Inr x))"
  by (simp add: stays_def)

lemma stays_await [intro]:
  assumes "stays P m" "\<And>x. stays P (k x)"
  shows "stays P (await m k)"
  unfolding stays_def
proof (intro allI impI)
  fix w assume "P w"
  with assms(1) obtain x v where m: "m w = (Inr x, v)" "P v" by (rule staysE)
  with assms(2) [of x] show "\<exists>x w'. await m k w = (Inr x, w') \<and> P w'"
    by (auto elim!: staysE)
qed

lemma stays_read:
  assumes "\<And>w. P w \<Longrightarrow> f w = c" "stays P (k c)"
  shows "stays P (await (read_state f) k)"
  using assms unfolding stays_def by (simp add: await_def)

lemma stays_write: "(\<And>w. P w \<Longrightarrow> P (f w)) \<Longrightarrow> stays P (write_state f)"
  by (simp add: stays_def)

lemma stays_for_each:
  "(\<And>x. x \<in> set xs \<Longrightarrow> stays P (f x)) \<Longrightarrow> stays P (for_each xs f)"
  by (induction xs) auto

lemma stays_for_each_with:
  "(\<And>x b. x \<in> set xs \<Longrightarrow> stays P (f x b)) \<Longrightarrow> stays P (for_each_with xs b f)"
  by (induction xs arbitrary: b) auto

text \<open>The same for relations that every state change of the body keeps, whether or not it throws.\<close>

lemma keeps_for_each:
  "preorder_rel R \<Longrightarrow> (\<And>x. keeps R (f x)) \<Longrightarrow> keeps R (for_each xs f)"
  by (induction xs) (auto intro: keeps_return keeps_await)

lemma keeps_for_each_with:
  "preorder_rel R \<Longrightarrow> (\<And>x b. keeps R (f x b)) \<Longrightarrow> keeps R (for_each_with xs b f)"
  by (induction xs arbitrary: b) (auto intro: keeps_return keeps_await)

end
