(* ===== verification/Qr_Draw.thy ===== *)
theory Qr_Draw
  imports Qr_Tables Qr_Segment Loops
begin

text \<open>
  The grid of a QR code under construction: the object's fields as a record, and the methods that draw
  on it as actions over that record. \<open>this.modules[y][x] = v\<close> throws when there is no row \<open>y\<close>, and
  would make a row longer when \<open>x\<close> is past its end; the model stops with an error in both cases, and
  \<open>drawFunctionPatterns_stays_inside\<close> shows that no drawing method reaches either.
\<close>

record qr_object =
  qr_version :: int
  errorCorrectionLevel :: Ecc
  qr_size :: int
  modules :: "bool list list"
  isFunction :: "bool list list"
  qr_mask :: int

section \<open>Cells\<close>

definition no_row :: exn where "no_row = PlainError (js ''Cannot set properties of undefined'')"
definition row_would_grow :: exn where "row_would_grow = PlainError (js ''write past the end of a row'')"

definition write_cell :: "bool list list \<Rightarrow> int \<Rightarrow> int \<Rightarrow> bool \<Rightarrow> exn + bool list list" where
  "write_cell grid x y v =
     (if y < 0 \<or> int (length grid) \<le> y then Inl no_row
      else if x < 0 \<or> int (length (grid ! nat y)) \<le> x then Inl row_would_grow
      else Inr (grid[nat y := (grid ! nat y)[nat x := v]]))"

definition cell :: "bool list list \<Rightarrow> int \<Rightarrow> int \<Rightarrow> bool" where
  "cell grid x y = grid ! nat y ! nat x"

definition set_module :: "int \<Rightarrow> int \<Rightarrow> bool \<Rightarrow> (qr_object, unit) action" where
  "set_module x y v =
     await (read_state modules) (\<lambda>m.
     await (lift_result (write_cell m x y v)) (\<lambda>m.
     write_state (\<lambda>q. q\<lparr>modules := m\<rparr>)))"

definition setFunctionModule :: "int \<Rightarrow> int \<Rightarrow> bool \<Rightarrow> (qr_object, unit) action" where
  "setFunctionModule x y isDark =
     await (set_module x y isDark) (\<lambda>_.
     await (read_state isFunction) (\<lambda>f.
     await (lift_result (write_cell f x y True)) (\<lambda>f.
     write_state (\<lambda>q. q\<lparr>isFunction := f\<rparr>))))"

section \<open>Function patterns\<close>

definition drawFinderPattern :: "int \<Rightarrow> int \<Rightarrow> (qr_object, unit) action" where
  "drawFinderPattern x y =
     for_each [- 4..4] (\<lambda>dy.
     for_each [- 4..4] (\<lambda>dx.
       let dist = max \<bar>dx\<bar> \<bar>dy\<bar>; xx = x + dx; yy = y + dy
       in await (read_state qr_size) (\<lambda>size.
          if 0 \<le> xx \<and> xx < size \<and> 0 \<le> yy \<and> yy < size
          then setFunctionModule xx yy (dist \<noteq> 2 \<and> dist \<noteq> 4) else return_value ())))"

definition drawAlignmentPattern :: "int \<Rightarrow> int \<Rightarrow> (qr_object, unit) action" where
  "drawAlignmentPattern x y =
     for_each [- 2..2] (\<lambda>dy.
     for_each [- 2..2] (\<lambda>dx. setFunctionModule (x + dx) (y + dy) (max \<bar>dx\<bar> \<bar>dy\<bar> \<noteq> 1)))"

definition format_bits :: "int \<Rightarrow> int" where
  "format_bits data =
     (let rem = fold (\<lambda>_ rem. bxor (shl rem 1) (shr rem 9 * 0x537)) [0..9] data
      in bxor (bor (shl data 10) rem) 0x5412)"

definition drawFormatBits :: "int \<Rightarrow> (qr_object, unit) action" where
  "drawFormatBits msk =
     await (read_state errorCorrectionLevel) (\<lambda>ecl.
     await (read_state qr_size) (\<lambda>size.
     let data = bor (shl (formatBits ecl) 3) msk; bits = format_bits data
     in await (lift_result (check (shr bits 15 = 0))) (\<lambda>_.
        await (for_each [0..5] (\<lambda>i. setFunctionModule 8 i (getBit bits i))) (\<lambda>_.
        await (setFunctionModule 8 7 (getBit bits 6)) (\<lambda>_.
        await (setFunctionModule 8 8 (getBit bits 7)) (\<lambda>_.
        await (setFunctionModule 7 8 (getBit bits 8)) (\<lambda>_.
        await (for_each [9..14] (\<lambda>i. setFunctionModule (14 - i) 8 (getBit bits i))) (\<lambda>_.
        await (for_each [0..7] (\<lambda>i. setFunctionModule (size - 1 - i) 8 (getBit bits i))) (\<lambda>_.
        await (for_each [8..14] (\<lambda>i. setFunctionModule 8 (size - 15 + i) (getBit bits i))) (\<lambda>_.
        setFunctionModule 8 (size - 8) True))))))))))"

definition version_bits :: "int \<Rightarrow> int" where
  "version_bits version =
     (let rem = fold (\<lambda>_ rem. bxor (shl rem 1) (shr rem 11 * 0x1f25)) [0..11] version
      in bor (shl version 12) rem)"

definition drawVersion :: "(qr_object, unit) action" where
  "drawVersion =
     await (read_state qr_version) (\<lambda>version.
     if version < 7 then return_value ()
     else
       let bits = version_bits version
       in await (lift_result (check (shr bits 18 = 0))) (\<lambda>_.
          await (read_state qr_size) (\<lambda>size.
          for_each [0..17] (\<lambda>i.
            let color = getBit bits i; a = size - 11 + i mod 3; b = i div 3
            in await (setFunctionModule a b color) (\<lambda>_. setFunctionModule b a color)))))"

definition drawFunctionPatterns :: "(qr_object, unit) action" where
  "drawFunctionPatterns =
     await (read_state qr_size) (\<lambda>size.
     await (for_each [0..size - 1] (\<lambda>i.
        await (setFunctionModule 6 i (i mod 2 = 0)) (\<lambda>_. setFunctionModule i 6 (i mod 2 = 0)))) (\<lambda>_.
     await (drawFinderPattern 3 3) (\<lambda>_.
     await (drawFinderPattern (size - 4) 3) (\<lambda>_.
     await (drawFinderPattern 3 (size - 4)) (\<lambda>_.
     await (read_state (\<lambda>q. getAlignmentPatternPositions (qr_version q))) (\<lambda>alignPatPos.
     let numAlign = int (length alignPatPos)
     in await (for_each [0..numAlign - 1] (\<lambda>i.
          for_each [0..numAlign - 1] (\<lambda>j.
            if \<not> (i = 0 \<and> j = 0 \<or> i = 0 \<and> j = numAlign - 1 \<or> i = numAlign - 1 \<and> j = 0)
            then drawAlignmentPattern (alignPatPos ! nat i) (alignPatPos ! nat j)
            else return_value ()))) (\<lambda>_.
        await (drawFormatBits 0) (\<lambda>_.
        drawVersion))))))))"

section \<open>Codewords\<close>

text \<open>The right columns of the zigzag scan, and the modules in its order.\<close>

function zigzag_columns :: "int \<Rightarrow> int list" where
  "zigzag_columns right =
     (if right < 1 then []
      else let right = (if right = 6 then 5 else right) in right # zigzag_columns (right - 2))"
  by pat_completeness auto
termination by (relation "measure nat") auto

declare zigzag_columns.simps [simp del]

definition scan_positions :: "int \<Rightarrow> (int \<times> int) list" where
  "scan_positions n =
     concat (map (\<lambda>right. concat (map (\<lambda>vert. map (\<lambda>j.
        (right - j, if band (right + 1) 2 = 0 then n - 1 - vert else vert)) [0, 1])
        [0..n - 1])) (zigzag_columns (n - 1)))"

text \<open>The body of the scan; \<open>i\<close> is the bit index.\<close>

definition place_bit :: "int list \<Rightarrow> int \<times> int \<Rightarrow> int \<Rightarrow> (qr_object, int) action" where
  "place_bit data p i =
     (case p of (x, y) \<Rightarrow>
        await (read_state (\<lambda>q. cell (isFunction q) x y)) (\<lambda>function.
        if \<not> function \<and> i < int (length data) * 8
        then await (set_module x y (getBit (data ! nat (shr i 3)) (7 - band i 7))) (\<lambda>_.
             return_value (i + 1))
        else return_value i))"

definition drawCodewords :: "int list \<Rightarrow> (qr_object, unit) action" where
  "drawCodewords data =
     await (read_state qr_version) (\<lambda>version.
     await (lift_result (getNumRawDataModules version)) (\<lambda>raw.
     if int (length data) \<noteq> raw div 8 then throw (RangeError (js ''Invalid argument''))
     else
       await (read_state qr_size) (\<lambda>size.
       await (for_each_with (scan_positions size) 0 (place_bit data)) (\<lambda>i.
       lift_result (check (i = int (length data) * 8))))))"

section \<open>Masks\<close>

definition mask_inverts :: "int \<Rightarrow> int \<Rightarrow> int \<Rightarrow> bool" where
  "mask_inverts msk x y =
     (if msk = 0 then (x + y) mod 2 = 0
      else if msk = 1 then y mod 2 = 0
      else if msk = 2 then x mod 3 = 0
      else if msk = 3 then (x + y) mod 3 = 0
      else if msk = 4 then (x div 3 + y div 2) mod 2 = 0
      else if msk = 5 then x * y mod 2 + x * y mod 3 = 0
      else if msk = 6 then (x * y mod 2 + x * y mod 3) mod 2 = 0
      else ((x + y) mod 2 + x * y mod 3) mod 2 = 0)"

definition mask_cell :: "int \<Rightarrow> int \<Rightarrow> int \<Rightarrow> (qr_object, unit) action" where
  "mask_cell msk y x =
     await (read_state (\<lambda>q. cell (isFunction q) x y)) (\<lambda>function.
     await (read_state (\<lambda>q. cell (modules q) x y)) (\<lambda>dark.
     if \<not> function \<and> mask_inverts msk x y then set_module x y (\<not> dark) else return_value ()))"

definition applyMask :: "int \<Rightarrow> (qr_object, unit) action" where
  "applyMask msk =
     (if msk < 0 \<or> msk > 7 then throw (RangeError (js ''Mask value out of range''))
      else
        await (read_state qr_size) (\<lambda>size.
        for_each [0..size - 1] (\<lambda>y. for_each [0..size - 1] (mask_cell msk y))))"

section \<open>Drawing stays inside the grid\<close>

definition square :: "int \<Rightarrow> bool list list \<Rightarrow> bool" where
  "square n g \<longleftrightarrow> int (length g) = n \<and> (\<forall>r\<in>set g. int (length r) = n)"

lemma square_row: "square n g \<Longrightarrow> 0 \<le> y \<Longrightarrow> y < n \<Longrightarrow> int (length (g ! nat y)) = n"
  by (auto simp: square_def)

text \<open>The object the constructor starts from: both grids light.\<close>

definition blank_code :: "int \<Rightarrow> Ecc \<Rightarrow> qr_object" where
  "blank_code ver ecl =
     (let n = ver * 4 + 17; grid = replicate (nat n) (replicate (nat n) False)
      in \<lparr>qr_version = ver, errorCorrectionLevel = ecl, qr_size = n, modules = grid,
          isFunction = grid, qr_mask = - 1\<rparr>)"

lemma write_cell_ok:
  assumes "square n g" "0 \<le> x" "x < n" "0 \<le> y" "y < n"
  shows "write_cell g x y v = Inr (g[nat y := (g ! nat y)[nat x := v]])"
    and "square n (g[nat y := (g ! nat y)[nat x := v]])"
proof -
  have y: "nat y < length g" "int (length g) = n" using assms by (auto simp: square_def)
  have r: "int (length (g ! nat y)) = n" by (rule square_row [OF assms(1,4,5)])
  show "write_cell g x y v = Inr (g[nat y := (g ! nat y)[nat x := v]])"
    using assms(2-5) y(2) r by (simp add: write_cell_def)
  have "int (length r') = n" if "r' \<in> set (g[nat y := (g ! nat y)[nat x := v]])" for r'
    using set_update_subset_insert [THEN subsetD, OF that] r assms(1) by (auto simp: square_def)
  then show "square n (g[nat y := (g ! nat y)[nat x := v]])" using y(2) by (simp add: square_def)
qed

lemma cell_update:
  assumes "square n g" "0 \<le> x" "x < n" "0 \<le> y" "y < n" "0 \<le> x'" "x' < n" "0 \<le> y'" "y' < n"
  shows "cell (g[nat y := (g ! nat y)[nat x := v]]) x' y' = (if x' = x \<and> y' = y then v else cell g x' y')"
proof -
  have "nat y < length g" using assms(1,4,5) by (auto simp: square_def)
  moreover have "nat x < length (g ! nat y)"
    using square_row [OF assms(1,4,5)] assms(2,3) by linarith
  moreover have "nat x' = nat x \<longleftrightarrow> x' = x" "nat y' = nat y \<longleftrightarrow> y' = y" using assms by auto
  ultimately show ?thesis by (auto simp: cell_def nth_list_update)
qed

text \<open>A code of a version and a level whose two grids are square.\<close>

definition drawing :: "int \<Rightarrow> Ecc \<Rightarrow> qr_object \<Rightarrow> bool" where
  "drawing ver ecl q \<longleftrightarrow> qr_version q = ver \<and> errorCorrectionLevel q = ecl \<and> qr_size q = ver * 4 + 17 \<and>
     square (ver * 4 + 17) (modules q) \<and> square (ver * 4 + 17) (isFunction q)"

definition inside :: "int \<Rightarrow> int \<Rightarrow> bool" where
  "inside ver p \<longleftrightarrow> 0 \<le> p \<and> p < ver * 4 + 17"

lemma set_module_stays:
  "inside ver x \<Longrightarrow> inside ver y \<Longrightarrow> stays (drawing ver ecl) (set_module x y v)"
  unfolding stays_def set_module_def
  by (auto simp: await_def drawing_def inside_def write_cell_ok)

lemma setFunctionModule_stays:
  "inside ver x \<Longrightarrow> inside ver y \<Longrightarrow> stays (drawing ver ecl) (setFunctionModule x y v)"
  unfolding setFunctionModule_def
proof (rule stays_await [OF set_module_stays])
  show "inside ver x \<Longrightarrow> inside ver y \<Longrightarrow> stays (drawing ver ecl)
    (await (read_state isFunction) (\<lambda>f. await (lift_result (write_cell f x y True))
      (\<lambda>f. write_state (\<lambda>q. q\<lparr>isFunction := f\<rparr>))))"
    unfolding stays_def by (auto simp: await_def drawing_def inside_def write_cell_ok)
qed

lemma blank_drawing: "1 \<le> ver \<Longrightarrow> drawing ver ecl (blank_code ver ecl)"
  by (auto simp: drawing_def blank_code_def square_def Let_def)

lemma drawing_size: "drawing ver ecl q \<Longrightarrow> qr_size q = ver * 4 + 17"
  by (simp add: drawing_def)

lemma drawFinderPattern_stays: "stays (drawing ver ecl) (drawFinderPattern x y)"
  unfolding drawFinderPattern_def Let_def
  by (intro stays_for_each stays_read [where c = "ver * 4 + 17"] drawing_size)
    (auto intro!: setFunctionModule_stays simp: inside_def)

lemma drawAlignmentPattern_stays:
  assumes "6 \<le> x" "x \<le> ver * 4 + 17 - 7" "6 \<le> y" "y \<le> ver * 4 + 17 - 7"
  shows "stays (drawing ver ecl) (drawAlignmentPattern x y)"
  unfolding drawAlignmentPattern_def
  by (intro stays_for_each setFunctionModule_stays) (use assms in \<open>auto simp: inside_def\<close>)

text \<open>One division step of the two BCH remainders keeps them below the degree of their generator.\<close>

lemma xor_top_bits:
  fixes a b :: int
  assumes "2 ^ n \<le> a" "a < 2 ^ Suc n" "2 ^ n \<le> b" "b < 2 ^ Suc n"
  shows "0 \<le> a XOR b \<and> a XOR b < 2 ^ n"
proof -
  have "c div 2 ^ n = 1" if "2 ^ n \<le> c" "c < 2 ^ Suc n" for c :: int
    using that by (intro int_div_pos_eq [where r = "c - 2 ^ n"]) auto
  then have "drop_bit n a = 1" "drop_bit n b = 1" using assms by (auto simp: drop_bit_eq_div)
  then have "drop_bit n (a XOR b) = 0" by (simp add: drop_bit_xor)
  moreover have "0 < a" "0 < b" using assms(1,3) zero_less_power [of "2::int" n] by linarith+
  then have nonneg: "0 \<le> a XOR b" by simp
  ultimately have "a XOR b < 2 ^ n \<or> a XOR b \<le> 0"
    by (simp add: drop_bit_eq_div zdiv_eq_0_iff) linarith
  with nonneg show ?thesis by (auto intro: order_le_less_trans)
qed

lemma bch_step:
  assumes "0 \<le> rem" "rem < 2 ^ Suc n" "n \<le> 28" "2 ^ Suc n \<le> g" "g < 2 ^ Suc (Suc n)"
  shows "0 \<le> bxor (shl rem 1) (shr rem (int n) * g) \<and> bxor (shl rem 1) (shr rem (int n) * g) < 2 ^ Suc n"
proof -
  have big: "(2::int) ^ Suc (Suc n) \<le> 2 ^ 30" using assms(3) by (intro power_increasing) auto
  then have l: "shl rem 1 = 2 * rem" using assms by (simp add: shl_plain)
  have d: "shr rem (int n) = rem div 2 ^ n" using assms big by (simp add: shr_plain drop_bit_eq_div)
  show ?thesis
  proof (cases "rem < 2 ^ n")
    case True
    then show ?thesis using assms big by (simp add: l d bxor_plain)
  next
    case False
    then have "rem div 2 ^ n = 1" using assms(2) by (simp add: int_div_pos_eq [where q = 1 and r = "rem - 2 ^ n"])
    moreover have "0 \<le> (2 * rem) XOR g \<and> (2 * rem) XOR g < 2 ^ Suc n"
      using False assms by (intro xor_top_bits) auto
    moreover have "0 \<le> g" using assms(4) zero_le_power [of "2::int" "Suc n"] by linarith
    ultimately show ?thesis using assms big by (simp add: l d bxor_plain)
  qed
qed

lemma fold_keeps: "P z \<Longrightarrow> (\<And>i z. P z \<Longrightarrow> P (f i z)) \<Longrightarrow> P (fold f xs z)"
  by (induction xs arbitrary: z) auto

lemma pack_bits:
  assumes "0 \<le> data" "data < 2 ^ m" "0 \<le> rem" "rem < 2 ^ n" "m + n \<le> 30"
  shows "0 \<le> bor (shl data (int n)) rem \<and> bor (shl data (int n)) rem < 2 ^ (m + n)"
proof -
  have big: "(2::int) ^ (m + n) \<le> 2 ^ 30" "(2::int) ^ n \<le> 2 ^ 30" using assms(5) by (intro power_increasing; simp)+
  have "data * 2 ^ n < 2 ^ m * 2 ^ n" using assms(2) by (intro mult_strict_right_mono) simp_all
  then have d: "data * 2 ^ n < 2 ^ (m + n)" by (simp add: power_add)
  then have s: "shl data (int n) = data * 2 ^ n" using assms big by (simp add: shl_plain)
  have "(2::int) ^ n \<le> 2 ^ (m + n)" by (intro power_increasing) auto
  with assms(4) have "rem < 2 ^ (m + n)" by linarith
  then show ?thesis
    using assms d big by (simp add: s bor_plain OR_upper)
qed

lemma format_bits_bound:
  assumes "0 \<le> data" "data < 32"
  shows "0 \<le> format_bits data \<and> format_bits data < 2 ^ 15"
proof -
  obtain r where r: "r = fold (\<lambda>_ rem. bxor (shl rem 1) (shr rem 9 * 0x537)) [0..9] data" by simp
  have "0 \<le> r \<and> r < 2 ^ Suc 9"
    unfolding r
  proof (rule fold_keeps [where P = "\<lambda>r. 0 \<le> r \<and> r < 2 ^ Suc 9"])
    show "0 \<le> data \<and> data < 2 ^ Suc 9" using assms by simp
    show "0 \<le> bxor (shl z 1) (shr z 9 * 0x537) \<and> bxor (shl z 1) (shr z 9 * 0x537) < 2 ^ Suc 9"
      if "0 \<le> z \<and> z < 2 ^ Suc 9" for z
      using bch_step [of z 9 "0x537"] that by simp
  qed
  then have "0 \<le> bor (shl data 10) r \<and> bor (shl data 10) r < 2 ^ 15"
    using pack_bits [of data 5 r 10] assms by simp
  then show ?thesis
    unfolding format_bits_def Let_def r [symmetric] by (intro bxor_bound) auto
qed

lemma version_bits_bound:
  assumes "0 \<le> ver" "ver < 64"
  shows "0 \<le> version_bits ver \<and> version_bits ver < 2 ^ 18"
proof -
  obtain r where r: "r = fold (\<lambda>_ rem. bxor (shl rem 1) (shr rem 11 * 0x1f25)) [0..11] ver" by simp
  have "0 \<le> r \<and> r < 2 ^ Suc 11"
    unfolding r
  proof (rule fold_keeps [where P = "\<lambda>r. 0 \<le> r \<and> r < 2 ^ Suc 11"])
    show "0 \<le> ver \<and> ver < 2 ^ Suc 11" using assms by simp
    show "0 \<le> bxor (shl z 1) (shr z 11 * 0x1f25) \<and> bxor (shl z 1) (shr z 11 * 0x1f25) < 2 ^ Suc 11"
      if "0 \<le> z \<and> z < 2 ^ Suc 11" for z
      using bch_step [of z 11 "0x1f25"] that by simp
  qed
  then show ?thesis
    using pack_bits [of ver 6 r 12] assms by (simp add: version_bits_def r [symmetric] del: upto.simps)
qed

lemma shr_zero:
  assumes "0 \<le> x" "x < 2 ^ nat k" "0 \<le> k" "k \<le> 31"
  shows "shr x k = 0"
proof -
  have "(2::int) ^ nat k \<le> 2 ^ 31" using assms by (intro power_increasing) auto
  with assms show ?thesis by (simp add: shr_plain drop_bit_eq_div)
qed

lemma format_word_ok:
  assumes "0 \<le> msk" "msk \<le> 7"
  shows "check (shr (format_bits (bor (shl (formatBits ecl) 3) msk)) 15 = 0) = Inr ()"
proof -
  have "0 \<le> bor (shl (formatBits ecl) 3) msk \<and> bor (shl (formatBits ecl) 3) msk < 32"
    using pack_bits [of "formatBits ecl" 2 msk 3] assms by (cases ecl) simp_all
  then have "shr (format_bits (bor (shl (formatBits ecl) 3) msk)) 15 = 0"
    using format_bits_bound by (intro shr_zero) auto
  then show ?thesis by simp
qed

lemma drawFormatBits_stays:
  assumes "0 \<le> msk" "msk \<le> 7" "1 \<le> ver"
  shows "stays (drawing ver ecl) (drawFormatBits msk)"
  unfolding drawFormatBits_def Let_def format_word_ok [OF assms(1,2)] using assms(3)
  by (intro stays_read [where c = ecl] stays_read [where c = "ver * 4 + 17"] stays_await
      stays_for_each setFunctionModule_stays)
    (auto simp: drawing_def inside_def intro!: stays_lift)

lemma drawVersion_stays:
  assumes "1 \<le> ver" "ver \<le> 40"
  shows "stays (drawing ver ecl) drawVersion"
proof -
  have "shr (version_bits ver) 18 = 0"
    using version_bits_bound [of ver] assms by (intro shr_zero) auto
  moreover have "i mod 3 < 3" "0 \<le> i mod 3" "i \<le> 17 \<Longrightarrow> i div 3 < 6" for i :: int by auto
  ultimately show ?thesis
    unfolding drawVersion_def Let_def using assms(1)
    by (intro stays_read [where c = ver] stays_read [where c = "ver * 4 + 17"])
      (auto simp: drawing_def inside_def pos_imp_zdiv_nonneg_iff
        intro!: stays_lift stays_await stays_read [where c = "ver * 4 + 17"] stays_for_each
          setFunctionModule_stays)
qed


lemma drawFunctionPatterns_stays:
  assumes "1 \<le> ver" "ver \<le> 40"
  shows "stays (drawing ver ecl) drawFunctionPatterns"
proof -
  let ?ps = "getAlignmentPatternPositions ver"
  have pos: "6 \<le> p \<and> p \<le> ver * 4 + 17 - 7" if "p \<in> set ?ps" for p
  proof (cases "ver = 1")
    case True
    then show ?thesis using that by (simp add: getAlignmentPatternPositions_def)
  next
    case False
    then show ?thesis using alignment_range [of ver p] that assms by simp
  qed
  have timing: "stays (drawing ver ecl) (for_each [0..ver * 4 + 17 - 1] (\<lambda>i.
      await (setFunctionModule 6 i (i mod 2 = 0)) (\<lambda>_. setFunctionModule i 6 (i mod 2 = 0))))"
    using assms by (intro stays_for_each stays_await setFunctionModule_stays) (auto simp: inside_def)
  have align: "stays (drawing ver ecl) (for_each [0..int (length ?ps) - 1] (\<lambda>i.
      for_each [0..int (length ?ps) - 1] (\<lambda>j.
        if \<not> (i = 0 \<and> j = 0 \<or> i = 0 \<and> j = int (length ?ps) - 1 \<or> i = int (length ?ps) - 1 \<and> j = 0)
        then drawAlignmentPattern (?ps ! nat i) (?ps ! nat j) else return_value ())))"
    using pos by (intro stays_for_each) (auto intro!: drawAlignmentPattern_stays)
  show ?thesis
    unfolding drawFunctionPatterns_def Let_def
    by (intro stays_read [where c = "ver * 4 + 17"] stays_read [where c = "?ps"] stays_await timing align
        drawFinderPattern_stays drawFormatBits_stays drawVersion_stays assms)
      (auto simp: drawing_def)
qed

text \<open>C32: Drawing the function patterns never leaves the grid: for every version and level, on a
  square grid of \<open>4 * version + 17\<close> modules, \<open>drawFunctionPatterns\<close> returns normally (no write hits a
  missing row or grows one, and neither of its assertions fails), and both grids keep their shape.\<close>

theorem drawFunctionPatterns_stays_inside:
  assumes "1 \<le> ver" "ver \<le> 40" "drawing ver ecl q"
  shows "\<exists>q'. drawFunctionPatterns q = (Inr (), q') \<and> drawing ver ecl q'"
  using staysE [OF drawFunctionPatterns_stays [OF assms(1,2), of ecl] assms(3)] by (metis (full_types) old.unit.exhaust)


theorem drawFunctionPatterns_stays_inside_witness:
  "\<exists>q'. drawFunctionPatterns (blank_code 7 MEDIUM) = (Inr (), q') \<and> drawing 7 MEDIUM q'"
  by (rule drawFunctionPatterns_stays_inside [OF _ _ blank_drawing]) simp_all

section \<open>Masking\<close>

text \<open>What masking the cells of a set \<open>S\<close> does: data modules of \<open>S\<close> that the pattern selects change
  colour, every other module and everything else of the object stays.\<close>

definition flips :: "int \<Rightarrow> qr_object \<Rightarrow> int \<Rightarrow> int \<Rightarrow> bool" where
  "flips msk q x y \<longleftrightarrow> \<not> cell (isFunction q) x y \<and> mask_inverts msk x y"

definition masked :: "int \<Rightarrow> (int \<times> int) set \<Rightarrow> qr_object \<Rightarrow> qr_object \<Rightarrow> bool" where
  "masked msk S q q' \<longleftrightarrow>
     (\<exists>m. q' = q\<lparr>modules := m\<rparr> \<and> square (qr_size q) m \<and>
       (\<forall>x y. 0 \<le> x \<and> x < qr_size q \<and> 0 \<le> y \<and> y < qr_size q \<longrightarrow>
          cell m x y = (cell (modules q) x y \<noteq> ((x, y) \<in> S \<and> flips msk q x y))))"

lemma masked_empty: "square (qr_size q) (modules q) \<Longrightarrow> masked msk {} q q"
  unfolding masked_def by (intro exI [of _ "modules q"]) simp

lemma masked_trans:
  assumes "masked msk S q q1" "masked msk T q1 q2" "S \<inter> T = {}"
  shows "masked msk (S \<union> T) q q2"
proof -
  obtain m1 where 1: "q1 = q\<lparr>modules := m1\<rparr>" "square (qr_size q) m1"
    "\<And>x y. 0 \<le> x \<and> x < qr_size q \<and> 0 \<le> y \<and> y < qr_size q \<Longrightarrow>
       cell m1 x y = (cell (modules q) x y \<noteq> ((x, y) \<in> S \<and> flips msk q x y))"
    using assms(1) unfolding masked_def by auto
  obtain m2 where 2: "q2 = q1\<lparr>modules := m2\<rparr>" "square (qr_size q) m2"
    "\<And>x y. 0 \<le> x \<and> x < qr_size q \<and> 0 \<le> y \<and> y < qr_size q \<Longrightarrow>
       cell m2 x y = (cell m1 x y \<noteq> ((x, y) \<in> T \<and> flips msk q x y))"
    using assms(2) unfolding masked_def 1(1) by (auto simp: flips_def)
  show ?thesis
    unfolding masked_def
  proof (intro exI [of _ m2] conjI allI impI)
    show "q2 = q\<lparr>modules := m2\<rparr>" using 1(1) 2(1) by simp
    show "square (qr_size q) m2" by (rule 2(2))
    fix x y assume xy: "0 \<le> x \<and> x < qr_size q \<and> 0 \<le> y \<and> y < qr_size q"
    show "cell m2 x y = (cell (modules q) x y \<noteq> ((x, y) \<in> S \<union> T \<and> flips msk q x y))"
      using 1(3) [OF xy] 2(3) [OF xy] assms(3) by auto
  qed
qed

lemma masked_square: "masked msk S q q' \<Longrightarrow> square (qr_size q') (modules q') \<and> qr_size q' = qr_size q"
  by (auto simp: masked_def)

lemma mask_cell_masks:
  assumes "square (qr_size q) (modules q)" "0 \<le> x" "x < qr_size q" "0 \<le> y" "y < qr_size q"
  shows "\<exists>q'. mask_cell msk y x q = (Inr (), q') \<and> masked msk {(x, y)} q q'"
proof (cases "flips msk q x y")
  case True
  let ?m = "(modules q)[nat y := ((modules q) ! nat y)[nat x := \<not> cell (modules q) x y]]"
  have "mask_cell msk y x q = (Inr (), q\<lparr>modules := ?m\<rparr>)"
    using True write_cell_ok(1) [OF assms(1-5)]
    by (simp add: mask_cell_def set_module_def await_def flips_def)
  moreover have "masked msk {(x, y)} q (q\<lparr>modules := ?m\<rparr>)"
    unfolding masked_def using True write_cell_ok(2) [OF assms(1-5)] cell_update [OF assms(1-5)]
    by (intro exI [of _ ?m]) auto
  ultimately show ?thesis by blast
next
  case False
  then have "mask_cell msk y x q = (Inr (), q)"
    by (auto simp: mask_cell_def await_def flips_def)
  moreover have "masked msk {(x, y)} q q"
    unfolding masked_def using False assms(1) by (intro exI [of _ "modules q"]) auto
  ultimately show ?thesis by blast
qed

lemma for_each_masks:
  assumes "distinct xs" "square (qr_size q) (modules q)"
    and "\<And>x q'. x \<in> set xs \<Longrightarrow> qr_size q' = qr_size q \<Longrightarrow> square (qr_size q') (modules q') \<Longrightarrow>
          \<exists>q''. f x q' = (Inr (), q'') \<and> masked msk (S x) q' q''"
    and "\<And>x y. x \<noteq> y \<Longrightarrow> S x \<inter> S y = {}"
  shows "\<exists>q'. for_each xs f q = (Inr (), q') \<and> masked msk (\<Union>x\<in>set xs. S x) q q'"
  using assms(1-3)
proof (induction xs arbitrary: q)
  case Nil
  then show ?case by (simp add: masked_empty)
next
  case (Cons x xs)
  obtain q1 where 1: "f x q = (Inr (), q1)" "masked msk (S x) q q1"
    using Cons.prems(3) [of x q] Cons.prems(2) by auto
  have q1: "qr_size q1 = qr_size q" "square (qr_size q1) (modules q1)" using masked_square [OF 1(2)] by auto
  obtain q2 where 2: "for_each xs f q1 = (Inr (), q2)" "masked msk (\<Union>x\<in>set xs. S x) q1 q2"
    using Cons.IH [of q1] Cons.prems q1 by auto
  have "S x \<inter> S y = {}" if "y \<in> set xs" for y
    by (rule assms(4)) (use that Cons.prems(1) in auto)
  then have "S x \<inter> (\<Union>x\<in>set xs. S x) = {}" by blast
  from masked_trans [OF 1(2) 2(2) this] show ?case using 1(1) 2(1) by (auto simp: await_def)
qed

lemma applyMask_masks:
  assumes "0 \<le> msk" "msk \<le> 7" "square (qr_size q) (modules q)"
  shows "\<exists>q'. applyMask msk q = (Inr (), q') \<and>
    masked msk {(x, y). 0 \<le> x \<and> x < qr_size q \<and> 0 \<le> y \<and> y < qr_size q} q q'"
proof -
  let ?n = "qr_size q"
  have row: "\<exists>q''. for_each [0..?n - 1] (mask_cell msk y) q' = (Inr (), q'') \<and>
      masked msk (\<Union>x\<in>set [0..?n - 1]. {(x, y)}) q' q''"
    if "y \<in> set [0..?n - 1]" "qr_size q' = ?n" "square (qr_size q') (modules q')" for y q'
    by (rule for_each_masks) (use that in \<open>auto intro!: mask_cell_masks\<close>)
  have "\<exists>q'. for_each [0..?n - 1] (\<lambda>y. for_each [0..?n - 1] (mask_cell msk y)) q = (Inr (), q') \<and>
      masked msk (\<Union>y\<in>set [0..?n - 1]. \<Union>x\<in>set [0..?n - 1]. {(x, y)}) q q'"
    by (rule for_each_masks) (use assms row in auto)
  moreover have "(\<Union>y\<in>set [0..?n - 1]. \<Union>x\<in>set [0..?n - 1]. {(x, y)}) =
      {(x, y). 0 \<le> x \<and> x < ?n \<and> 0 \<le> y \<and> y < ?n}" by auto
  ultimately show ?thesis using assms by (simp add: applyMask_def await_def)
qed

lemma grid_eqI:
  assumes "square n a" "square n b" "\<And>x y. 0 \<le> x \<and> x < n \<and> 0 \<le> y \<and> y < n \<Longrightarrow> cell a x y = cell b x y"
  shows "a = b"
proof (rule nth_equalityI)
  have len: "int (length a) = n" "int (length b) = n" using assms by (auto simp: square_def)
  then show "length a = length b" by linarith
  fix i assume i: "i < length a"
  have rows: "int (length (a ! i)) = n" "int (length (b ! i)) = n"
    using square_row [OF assms(1), of "int i"] square_row [OF assms(2), of "int i"] i len by auto
  show "a ! i = b ! i"
  proof (rule nth_equalityI)
    show "length (a ! i) = length (b ! i)" using rows by linarith
    fix j assume "j < length (a ! i)"
    then show "a ! i ! j = b ! i ! j"
      using assms(3) [of "int j" "int i"] i len rows by (simp add: cell_def)
  qed
qed

text \<open>Applying a mask twice undoes it: for each of the eight masks, on a square grid, \<open>applyMask\<close>
  returns normally and touches no function module and nothing but the modules, it changes exactly the data
  modules its pattern selects, and a second application restores the object.\<close>

theorem applyMask_undoes_itself:
  assumes "0 \<le> msk" "msk \<le> 7" "square (qr_size q) (modules q)"
  shows "\<exists>q'. applyMask msk q = (Inr (), q') \<and> applyMask msk q' = (Inr (), q) \<and>
    (\<exists>m. q' = q\<lparr>modules := m\<rparr> \<and> square (qr_size q) m \<and>
      (\<forall>x y. 0 \<le> x \<and> x < qr_size q \<and> 0 \<le> y \<and> y < qr_size q \<longrightarrow>
        cell m x y = (cell (modules q) x y \<noteq> (\<not> cell (isFunction q) x y \<and> mask_inverts msk x y))))"
proof -
  let ?all = "{(x, y). 0 \<le> x \<and> x < qr_size q \<and> 0 \<le> y \<and> y < qr_size q}"
  obtain q1 where 1: "applyMask msk q = (Inr (), q1)" "masked msk ?all q q1"
    using applyMask_masks [OF assms] by blast
  obtain m1 where m1: "q1 = q\<lparr>modules := m1\<rparr>" "square (qr_size q) m1"
    "\<And>x y. 0 \<le> x \<and> x < qr_size q \<and> 0 \<le> y \<and> y < qr_size q \<Longrightarrow>
        cell m1 x y = (cell (modules q) x y \<noteq> flips msk q x y)"
    using 1(2) unfolding masked_def by auto
  obtain q2 where 2: "applyMask msk q1 = (Inr (), q2)" "masked msk ?all q1 q2"
    using applyMask_masks [OF assms(1,2), of q1] m1(1,2) by auto
  obtain m2 where m2: "q2 = q\<lparr>modules := m2\<rparr>" "square (qr_size q) m2"
    "\<And>x y. 0 \<le> x \<and> x < qr_size q \<and> 0 \<le> y \<and> y < qr_size q \<Longrightarrow>
        cell m2 x y = (cell m1 x y \<noteq> flips msk q x y)"
    using 2(2) unfolding masked_def m1(1) by (auto simp: flips_def)
  have "m2 = modules q"
    by (rule grid_eqI [OF m2(2) assms(3)]) (use m1(3) m2(3) in blast)
  then have "q2 = q" using m2(1) by simp
  then show ?thesis
    using 1(1) 2(1) m1 by (intro exI [of _ q1] conjI exI [of _ m1]) (auto simp: flips_def)
qed

theorem applyMask_undoes_itself_witness:
  "\<exists>q'. applyMask 3 (blank_code 1 LOW) = (Inr (), q') \<and> applyMask 3 q' = (Inr (), blank_code 1 LOW)"
  using applyMask_undoes_itself [of 3 "blank_code 1 LOW"] blank_drawing [of 1 LOW]
  by (auto simp: drawing_def)

end
