(* ===== verification/Qr_Field.thy ===== *)
theory Qr_Field
  imports Int32
begin

text \<open>
  The Reed-Solomon part of \<open>lib/qr.ts\<close>: the product in the field \<open>GF(2^8/0x11D)\<close>, the generator
  polynomial and the remainder, as the code computes them on arrays of numbers, and the field itself
  as a type of bytes with the ring operations, against which the code is proved.
\<close>

section \<open>The code\<close>

definition byte_out_of_range :: exn where
  "byte_out_of_range = RangeError (js ''Byte out of range'')"

text \<open>One step of the loop of \<open>reedSolomonMultiply\<close>: \<open>z = (z << 1) ^ ((z >>> 7) * 0x11d)\<close>, then
  \<open>z ^= ((y >>> i) & 1) * x\<close>.\<close>

definition multiply_step :: "int \<Rightarrow> int \<Rightarrow> int \<Rightarrow> int \<Rightarrow> int" where
  "multiply_step x y i z =
     (let z = bxor (shl z 1) (shr z 7 * 0x11d) in bxor z (band (shr y i) 1 * x))"

definition reedSolomonMultiply :: "int \<Rightarrow> int \<Rightarrow> exn + int" where
  "reedSolomonMultiply x y =
     (if shr x 8 \<noteq> 0 \<or> shr y 8 \<noteq> 0 then Inl byte_out_of_range
      else let z = fold (multiply_step x y) [7, 6, 5, 4, 3, 2, 1, 0] 0
           in and_then (check (shr z 8 = 0)) (\<lambda>_. Inr z))"

text \<open>The inner loop of \<open>reedSolomonComputeDivisor\<close>, over the entries from \<open>j\<close> on; \<open>result[j + 1]\<close> is
  read before it is updated.\<close>

fun multiply_by_root :: "int \<Rightarrow> int list \<Rightarrow> exn + int list" where
  "multiply_by_root root [] = Inr []"
| "multiply_by_root root (c # cs) =
     and_then (reedSolomonMultiply c root) (\<lambda>p.
     and_then (multiply_by_root root cs) (\<lambda>rest.
     Inr ((case cs of [] \<Rightarrow> p | d # _ \<Rightarrow> bxor p d) # rest)))"

primrec divisor_loop :: "nat \<Rightarrow> int \<Rightarrow> int list \<Rightarrow> exn + int list" where
  "divisor_loop 0 root result = Inr result"
| "divisor_loop (Suc n) root result =
     and_then (multiply_by_root root result) (\<lambda>result.
     and_then (reedSolomonMultiply root 2) (\<lambda>root.
     divisor_loop n root result))"

definition reedSolomonComputeDivisor :: "int \<Rightarrow> exn + int list" where
  "reedSolomonComputeDivisor degree =
     (if degree < 1 \<or> degree > 255 then Inl (RangeError (js ''Degree out of range''))
      else divisor_loop (nat degree) 1 (replicate (nat (degree - 1)) 0 @ [1]))"

text \<open>The body of the loop of \<open>reedSolomonComputeRemainder\<close>: shift, push 0, then \<open>forEach\<close>. An empty
  \<open>result\<close> shifts to \<open>undefined\<close>, which \<open>^\<close> reads as 0, and the array grows by one.\<close>

definition remainder_step :: "int list \<Rightarrow> int \<Rightarrow> int list \<Rightarrow> exn + int list" where
  "remainder_step divisor b result =
     (let factor = bxor b (case result of [] \<Rightarrow> 0 | r # _ \<Rightarrow> r);
          result = tl result @ [0]
      in and_then (collect (\<lambda>(coef, r). and_then (reedSolomonMultiply coef factor)
                     (\<lambda>p. Inr (bxor r p))) (zip divisor result)) (\<lambda>updated.
         Inr (updated @ drop (length divisor) result)))"

primrec remainder_loop :: "int list \<Rightarrow> int list \<Rightarrow> int list \<Rightarrow> exn + int list" where
  "remainder_loop divisor [] result = Inr result"
| "remainder_loop divisor (b # data) result =
     and_then (remainder_step divisor b result) (remainder_loop divisor data)"

definition reedSolomonComputeRemainder :: "int list \<Rightarrow> int list \<Rightarrow> exn + int list" where
  "reedSolomonComputeRemainder data divisor = remainder_loop divisor data (map (\<lambda>_. 0) divisor)"

section \<open>The field\<close>

text \<open>A field element is a byte; its bits are the coefficients of a polynomial over \<open>GF(2)\<close>.\<close>

typedef gf = "UNIV :: 8 word set" by simp

setup_lifting type_definition_gf

text \<open>Multiplication by \<open>x\<close> modulo \<open>x^8 + x^4 + x^3 + x^2 + 1\<close>.\<close>

lift_definition xtime :: "gf \<Rightarrow> gf" is
  "\<lambda>w. push_bit 1 w XOR (if bit w 7 then 0x1d else 0)" .

lift_definition gf_bit :: "gf \<Rightarrow> nat \<Rightarrow> bool" is "bit" .

lift_definition byte :: "gf \<Rightarrow> int" is "uint" .

lift_definition gf_of :: "int \<Rightarrow> gf" is "word_of_int" .

instantiation gf :: ab_group_add
begin

lift_definition zero_gf :: gf is 0 .

lift_definition plus_gf :: "gf \<Rightarrow> gf \<Rightarrow> gf" is "\<lambda>a b. a XOR b" .

lift_definition minus_gf :: "gf \<Rightarrow> gf \<Rightarrow> gf" is "\<lambda>a b. a XOR b" .

lift_definition uminus_gf :: "gf \<Rightarrow> gf" is "\<lambda>a. a" .

instance
  by standard (transfer; simp add: ac_simps)+

end

instantiation gf :: "{one, times}"
begin

lift_definition one_gf :: gf is 1 .

definition times_gf :: "gf \<Rightarrow> gf \<Rightarrow> gf" where
  "times_gf a b = (\<Sum>i<8. if gf_bit b i then (xtime ^^ i) a else 0)"

instance ..

end

section \<open>The field's laws\<close>

lemma gf_bit_add [simp]: "gf_bit (a + b) i = (gf_bit a i \<noteq> gf_bit b i)"
  by transfer (auto simp: bit_simps)

lemma gf_bit_zero [simp]: "\<not> gf_bit 0 i"
  by transfer simp

lemma gf_add_self [simp]: "(a :: gf) + a = 0"
  by transfer simp

lemma xtime_add: "xtime (a + b) = xtime a + xtime b"
  by transfer (rule bit_word_eqI, auto simp: bit_simps)

lemma xtimes_add: "(xtime ^^ n) (a + b) = (xtime ^^ n) a + (xtime ^^ n) b"
  by (induction n) (simp_all add: xtime_add)

lemma xtimes_zero [simp]: "(xtime ^^ n) 0 = 0"
  using xtimes_add [of n 0 0] by simp

text \<open>The powers of the generator, a basis of the field.\<close>

definition alpha_power :: "nat \<Rightarrow> gf" where
  "alpha_power n = (xtime ^^ n) 1"

lemma xtimes_alpha: "(xtime ^^ m) (alpha_power n) = alpha_power (m + n)"
  by (simp add: alpha_power_def funpow_add)

definition additive :: "(gf \<Rightarrow> gf) \<Rightarrow> bool" where
  "additive f \<longleftrightarrow> (\<forall>a b. f (a + b) = f a + f b)"

lemma additive_zero: "additive f \<Longrightarrow> f 0 = 0"
  unfolding additive_def by (metis add_cancel_right_right)

lemma additive_sum: "additive f \<Longrightarrow> f (\<Sum>i\<in>A. g i) = (\<Sum>i\<in>A. f (g i))"
proof (induction A rule: infinite_finite_induct)
  case (insert x F)
  then show ?case by (simp add: additive_def)
qed (simp_all add: additive_zero)

lemma additive_xtimes: "additive (xtime ^^ n)"
  by (simp add: additive_def xtimes_add)

lemma additive_id: "additive (\<lambda>a. a)"
  by (simp add: additive_def)

lemma additive_compose: "additive f \<Longrightarrow> additive g \<Longrightarrow> additive (\<lambda>a. f (g a))"
  by (simp add: additive_def)

lemma gf_bit_two_power: "i < 8 \<Longrightarrow> gf_bit (gf_of (2 ^ i)) j = (i = j)"
  by transfer (auto simp: bit_simps)

lemma xtime_two_power: "i < 7 \<Longrightarrow> xtime (gf_of (2 ^ i)) = gf_of (2 ^ Suc i)"
proof -
  assume "i < 7"
  then have "i \<in> {0, 1, 2, 3, 4, 5, 6}" by auto
  then show ?thesis by (elim insertE; simp; transfer; simp)
qed

lemma alpha_power_small: "i < 8 \<Longrightarrow> alpha_power i = gf_of (2 ^ i)"
proof (induction i)
  case 0
  then show ?case unfolding alpha_power_def by (simp, transfer, simp)
next
  case (Suc i)
  then show ?case using xtime_two_power [of i] by (simp add: alpha_power_def)
qed

lemma alpha_power_bit: "i < 8 \<Longrightarrow> gf_bit (alpha_power i) j = (i = j)"
  by (simp add: alpha_power_small gf_bit_two_power)

lemma gf_bit_high: "8 \<le> i \<Longrightarrow> \<not> gf_bit a i"
  by transfer (auto dest: bit_imp_le_length)

lemma gf_bit_sum: "finite A \<Longrightarrow> gf_bit (\<Sum>i\<in>A. f i) j = odd (card {i \<in> A. gf_bit (f i) j})"
proof (induction A rule: finite_induct)
  case (insert x F)
  have "{i \<in> insert x F. gf_bit (f i) j} =
      (if gf_bit (f x) j then insert x {i \<in> F. gf_bit (f i) j} else {i \<in> F. gf_bit (f i) j})" by auto
  with insert show ?case by simp
qed simp

lemma gf_eqI: "(\<And>i. i < 8 \<Longrightarrow> gf_bit a i = gf_bit b i) \<Longrightarrow> a = b"
  by transfer (auto intro: bit_word_eqI)

text \<open>Every element is the sum of the powers its bits select.\<close>

lemma gf_expand: "a = (\<Sum>i<8. if gf_bit a i then alpha_power i else 0)"
proof (rule gf_eqI)
  fix j :: nat assume j: "j < 8"
  have "{i \<in> {..<8}. gf_bit (if gf_bit a i then alpha_power i else 0) j} = (if gf_bit a j then {j} else {})"
    using j by (auto simp: alpha_power_bit)
  then show "gf_bit a j = gf_bit (\<Sum>i<8. if gf_bit a i then alpha_power i else 0) j"
    by (simp add: gf_bit_sum)
qed

lemma additive_eqI:
  assumes "additive f" "additive g" "\<And>i. f (alpha_power i) = g (alpha_power i)"
  shows "f a = g a"
proof -
  have "h a = (\<Sum>i<8. if gf_bit a i then h (alpha_power i) else 0)" if "additive h" for h
    by (subst gf_expand) (auto simp: additive_sum [OF that] additive_zero [OF that] intro!: sum.cong)
  from this [OF assms(1)] this [OF assms(2)] assms(3) show ?thesis by (simp cong: if_cong)
qed

lemma times_additive_left: "additive (\<lambda>a. a * b)"
  unfolding additive_def times_gf_def
  by (simp add: xtimes_add sum.distrib [symmetric] if_distrib cong: if_cong)

lemma times_additive_right: "additive (\<lambda>b. a * b)"
proof -
  have "(if p \<noteq> q then x else 0) = (if p then x else 0) + (if q then x else (0::gf))" for p q x by auto
  then show ?thesis unfolding additive_def times_gf_def by (simp add: sum.distrib)
qed

lemma times_alpha: "alpha_power m * alpha_power n = alpha_power (m + n)"
proof -
  have "alpha_power m * alpha_power n =
      (\<Sum>i<8. if gf_bit (alpha_power n) i then alpha_power (i + m) else 0)"
    by (simp add: times_gf_def xtimes_alpha cong: if_cong)
  also have "\<dots> = (\<Sum>i<8. (xtime ^^ m) (if gf_bit (alpha_power n) i then alpha_power i else 0))"
    by (intro sum.cong) (simp_all add: xtimes_alpha add.commute)
  also have "\<dots> = (xtime ^^ m) (alpha_power n)"
    unfolding additive_sum [OF additive_xtimes, symmetric] gf_expand [symmetric] ..
  finally show ?thesis by (simp add: xtimes_alpha)
qed

instance gf :: comm_ring_1
proof
  fix a b c :: gf
  note left = times_additive_left and right = times_additive_right
  note comp = additive_compose [where f = "\<lambda>x. x * _"] additive_compose [where f = "\<lambda>x. _ * x"]
  show comm: "a * b = b * a" for a b :: gf
  proof (rule additive_eqI [OF left right])
    fix i show "alpha_power i * b = b * alpha_power i"
      by (rule additive_eqI [OF right left]) (simp add: times_alpha add.commute)
  qed
  show "a * b * c = a * (b * c)"
  proof (rule additive_eqI [where f = "\<lambda>a. a * b * c"])
    fix i show "alpha_power i * b * c = alpha_power i * (b * c)"
    proof (rule additive_eqI [where f = "\<lambda>b. alpha_power i * b * c"])
      fix j show "alpha_power i * alpha_power j * c = alpha_power i * (alpha_power j * c)"
        by (rule additive_eqI [where f = "\<lambda>c. alpha_power i * alpha_power j * c"])
          (auto simp: times_alpha add.assoc intro!: comp left right)
    qed (auto intro!: comp left right)
  qed (auto intro!: comp left right)
  show "1 * a = a"
    using gf_expand [of a, symmetric] by (simp add: times_gf_def alpha_power_def [symmetric] cong: if_cong)
  show "(a + b) * c = a * c + b * c"
    using left by (simp add: additive_def)
  show "(0::gf) \<noteq> 1"
    by transfer simp
qed

lemma alpha_power_eq: "alpha_power n = alpha_power 1 ^ n"
proof (induction n)
  case 0
  show ?case by (simp add: alpha_power_def)
next
  case (Suc n)
  then show ?case using times_alpha [of 1 n] by simp
qed

section \<open>The code computes in the field\<close>

lemma uint_byte: "uint (w :: 8 word) < 256"
  using uint_lt2p [of w] by simp

lemma bit_of_byte: "bit (w :: 8 word) i \<longleftrightarrow> odd (uint w div 2 ^ i)"
proof -
  have "bit w i \<longleftrightarrow> bit (uint w) i" by (auto simp: bit_uint_iff dest: bit_imp_le_length)
  then show ?thesis by (simp add: bit_iff_odd)
qed

lemma byte_bound: "0 \<le> byte a" "byte a < 256"
  by (transfer, simp) (transfer, rule uint_byte)

lemma byte_small [simp]: "byte a < 2147483648"
  using byte_bound(2) [of a] by simp

lemma byte_gf_of: "0 \<le> n \<Longrightarrow> n < 256 \<Longrightarrow> byte (gf_of n) = n"
  by transfer (simp add: unsigned_of_int take_bit_int_eq_self)

lemma gf_of_byte [simp]: "gf_of (byte a) = a"
  by transfer simp

lemma byte_inj: "byte a = byte b \<longleftrightarrow> a = b"
  by transfer (simp add: word_uint_eq_iff)

lemma byte_zero [simp]: "byte 0 = 0"
  by transfer simp

lemma byte_one [simp]: "byte 1 = 1"
  by transfer simp

lemma byte_add: "bxor (byte a) (byte b) = byte (a + b)"
  by (simp add: bxor_plain byte_bound, transfer, simp add: unsigned_xor_eq)

lemma double_reduced:
  "\<forall>z\<in>set [128..255]. (2 * z) XOR 285 = take_bit 8 ((2 * z) XOR (29::int))"
  by code_simp

lemma byte_xtime: "bxor (shl (byte z) 1) (shr (byte z) 7 * 0x11d) = byte (xtime z)"
proof -
  let ?n = "byte z"
  have n: "0 \<le> ?n" "?n < 256" by (rule byte_bound)+
  have top: "bit w 7 \<longleftrightarrow> 128 \<le> uint w" for w :: "8 word"
  proof -
    have "uint w div 128 = (if 128 \<le> uint w then 1 else 0)"
      using uint_byte [of w] by auto
    then show ?thesis by (simp add: bit_of_byte)
  qed
  have dbl: "uint (w * 2) = take_bit 8 (2 * uint w)" for w :: "8 word"
    by (simp add: uint_word_ariths take_bit_eq_mod mult.commute)
  have x: "byte (xtime z) = take_bit 8 ((2 * ?n) XOR (if 128 \<le> ?n then 29 else 0))"
    using n(2)
    by transfer (auto simp: top dbl unsigned_xor_eq)
  have l: "shl ?n 1 = 2 * ?n" using n by (simp add: shl_plain)
  show ?thesis
  proof (cases "128 \<le> ?n")
    case True
    then have "shr ?n 7 = 1" using n by (simp add: shr_plain drop_bit_eq_div)
    moreover have "(2 * ?n) XOR 285 = take_bit 8 ((2 * ?n) XOR 29)"
      by (rule double_reduced [rule_format]) (use True n in \<open>simp only: set_upto atLeastAtMost_iff, simp\<close>)
    ultimately show ?thesis using n True by (simp add: l x bxor_plain)
  next
    case False
    then have "shr ?n 7 = 0" using n by (simp add: shr_plain drop_bit_eq_div)
    then show ?thesis using n False by (simp add: l x bxor_plain take_bit_int_eq_self)
  qed
qed

lemma byte_bit: "0 \<le> i \<Longrightarrow> i < 8 \<Longrightarrow> band (shr (byte y) i) 1 = of_bool (gf_bit y (nat i))"
proof -
  assume i: "0 \<le> i" "i < 8"
  have "drop_bit (nat i) (byte y) < 2 ^ 31"
    using byte_bound [of y] pos_imp_zdiv_nonneg_iff zdiv_mono2 [of "byte y" 1 "2 ^ nat i"]
    by (simp add: drop_bit_eq_div)
  then have "band (shr (byte y) i) 1 = drop_bit (nat i) (byte y) mod 2"
    using i byte_bound [of y] by (simp add: shr_plain low_bit)
  also have "\<dots> = of_bool (gf_bit y (nat i))"
    by transfer (simp add: bit_of_byte drop_bit_eq_div odd_iff_mod_2_eq_one)
  finally show ?thesis .
qed

lemma multiply_step_byte:
  "0 \<le> i \<Longrightarrow> i < 8 \<Longrightarrow> multiply_step (byte x) (byte y) i (byte z) =
     byte (xtime z + (if gf_bit y (nat i) then x else 0))"
  using byte_add [of "xtime z" "if gf_bit y (nat i) then x else 0"]
  by (simp add: multiply_step_def byte_xtime byte_bit del: One_nat_def split: if_splits)

lemma fold_byte:
  "list_all (\<lambda>i. 0 \<le> i \<and> i < 8) is \<Longrightarrow>
     fold (multiply_step (byte x) (byte y)) is (byte z) =
     byte (fold (\<lambda>i z. xtime z + (if gf_bit y (nat i) then x else 0)) is z)"
  by (induction "is" arbitrary: z) (simp_all add: multiply_step_byte)

text \<open>The product of two bytes is the product of the field.\<close>

lemma multiply_bytes: "reedSolomonMultiply (byte x) (byte y) = Inr (byte (x * y))"
proof -
  have zero: "shr (byte a) 8 = 0" for a
    using byte_bound [of a] by (simp add: shr_plain drop_bit_eq_div)
  have "fold (multiply_step (byte x) (byte y)) [7, 6, 5, 4, 3, 2, 1, 0] (byte 0) = byte (x * y)"
    unfolding times_gf_def
    by (subst fold_byte)
      (simp_all add: eval_nat_numeral lessThan_Suc xtime_add ac_simps if_distrib [of xtime]
        additive_zero [OF additive_xtimes [of 1], simplified] cong: if_cong)
  then show ?thesis by (simp add: reedSolomonMultiply_def zero)
qed

section \<open>Polynomials\<close>

text \<open>The value at \<open>x\<close> of the polynomial whose coefficients are stored from the highest power.\<close>

primrec poly_at :: "gf list \<Rightarrow> gf \<Rightarrow> gf" where
  "poly_at [] x = 0"
| "poly_at (c # cs) x = c * x ^ length cs + poly_at cs x"

lemma gf_add_cancel [simp]: "(a :: gf) + (a + b) = b"
  by (simp add: add.assoc [symmetric])

lemma poly_at_append: "poly_at (p @ q) x = poly_at p x * x ^ length q + poly_at q x"
  by (induction p) (simp_all add: algebra_simps power_add)

lemma poly_at_zeros [simp]: "poly_at (replicate n 0 @ p) x = poly_at p x"
  by (induction n) simp_all

fun gf_by_root :: "gf \<Rightarrow> gf list \<Rightarrow> gf list" where
  "gf_by_root r [] = []"
| "gf_by_root r (c # cs) = (c * r + (case cs of [] \<Rightarrow> 0 | d # _ \<Rightarrow> d)) # gf_by_root r cs"

lemma gf_by_root_length [simp]: "length (gf_by_root r cs) = length cs"
  by (induction cs) simp_all

lemma multiply_by_root_bytes:
  "multiply_by_root (byte r) (map byte cs) = Inr (map byte (gf_by_root r cs))"
  by (induction cs) (auto simp: multiply_bytes byte_add split: list.split)

lemma poly_by_root:
  "cs \<noteq> [] \<Longrightarrow> poly_at (gf_by_root r cs) x = (x + r) * poly_at cs x + hd cs * x ^ length cs"
proof (induction cs)
  case (Cons c cs)
  then show ?case by (cases cs) (simp_all add: algebra_simps)
qed simp

lemma gf_by_root_zeros:
  "gf_by_root r (replicate (Suc m) 0 @ 1 # rest) = replicate m 0 @ 1 # gf_by_root r (1 # rest)"
  by (induction m) simp_all

section \<open>The generator polynomial\<close>

lemma divisor_loop_bytes:
  "\<exists>res. divisor_loop (Suc m) (byte (alpha_power k)) (map byte (replicate m 0 @ 1 # rest)) = Inr (map byte res) \<and>
     length res = Suc m + length rest \<and>
     (\<forall>x. poly_at res x + x ^ length res =
        poly_at (1 # rest) x * (\<Prod>i<Suc m. x + alpha_power (k + i)))"
proof (induction m arbitrary: k rest)
  case 0
  let ?res = "gf_by_root (alpha_power k) (1 # rest)"
  have "divisor_loop (Suc 0) (byte (alpha_power k)) (map byte (1 # rest)) = Inr (map byte ?res)"
    using multiply_by_root_bytes [of "alpha_power k" "1 # rest"] multiply_bytes [of "alpha_power k" "gf_of 2"]
    by (simp add: byte_gf_of del: multiply_by_root.simps)
  moreover have "poly_at ?res x + x ^ length ?res = poly_at (1 # rest) x * (x + alpha_power k)" for x
    using poly_by_root [of "1 # rest" "alpha_power k" x] by (simp add: algebra_simps)
  ultimately show ?case by (intro exI [of _ ?res]) simp
next
  case (Suc m)
  let ?rest = "gf_by_root (alpha_power k) (1 # rest)"
  have next_power: "alpha_power k * gf_of 2 = alpha_power (Suc k)"
    using times_alpha [of k 1] alpha_power_small [of 1] by simp
  have step: "divisor_loop (Suc (Suc m)) (byte (alpha_power k)) (map byte (replicate (Suc m) 0 @ 1 # rest)) =
      divisor_loop (Suc m) (byte (alpha_power (Suc k))) (map byte (replicate m 0 @ 1 # ?rest))"
    using multiply_by_root_bytes [of "alpha_power k" "replicate (Suc m) 0 @ 1 # rest"]
      multiply_bytes [of "alpha_power k" "gf_of 2"]
    unfolding gf_by_root_zeros next_power
    by (simp add: byte_gf_of del: multiply_by_root.simps gf_by_root.simps)
  obtain res where res: "divisor_loop (Suc m) (byte (alpha_power (Suc k)))
        (map byte (replicate m 0 @ 1 # ?rest)) = Inr (map byte res)"
      "length res = Suc m + length ?rest"
      "\<And>x. poly_at res x + x ^ length res =
        poly_at (1 # ?rest) x * (\<Prod>i<Suc m. x + alpha_power (Suc k + i))"
    using Suc.IH [of "Suc k" ?rest] by blast
  have "poly_at (1 # ?rest) x = (x + alpha_power k) * poly_at (1 # rest) x" for x
    using poly_by_root [of "replicate (Suc m) 0 @ 1 # rest" "alpha_power k" x]
    unfolding gf_by_root_zeros poly_at_zeros by simp
  then have "poly_at res x + x ^ length res =
      poly_at (1 # rest) x * (\<Prod>i<Suc (Suc m). x + alpha_power (k + i))" for x
    unfolding res(3) prod.lessThan_Suc_shift [of _ "Suc m"]
    by (simp add: ac_simps del: poly_at.simps prod.lessThan_Suc)
  then show ?case unfolding step using res(1,2) by (intro exI [of _ res]) simp
qed

lemma divisor_bytes:
  assumes "1 \<le> degree" "degree \<le> 255"
  shows "\<exists>divisor. reedSolomonComputeDivisor degree = Inr (map byte divisor) \<and>
     length divisor = nat degree \<and>
     (\<forall>x. poly_at divisor x + x ^ nat degree = (\<Prod>i<nat degree. x + alpha_power i))"
proof -
  obtain m where m: "nat degree = Suc m" using assms by (cases "nat degree") auto
  then have d: "degree = int m + 1" by linarith
  have "reedSolomonComputeDivisor degree =
      divisor_loop (Suc m) (byte (alpha_power 0)) (map byte (replicate m 0 @ [1]))"
    using assms m by (simp add: reedSolomonComputeDivisor_def d alpha_power_def del: divisor_loop.simps)
  then show ?thesis
    using divisor_loop_bytes [of m 0 "[]"] m by (auto simp del: divisor_loop.simps prod.lessThan_Suc)
qed

section \<open>The remainder\<close>

definition gf_remainder_step :: "gf list \<Rightarrow> gf \<Rightarrow> gf list \<Rightarrow> gf list" where
  "gf_remainder_step divisor b r =
     map (\<lambda>(c, r'). r' + c * (b + hd r)) (zip divisor (tl r @ [0]))"

lemma collect_products:
  "collect (\<lambda>(coef, r). and_then (reedSolomonMultiply coef (byte f)) (\<lambda>p. Inr (bxor r p)))
     (zip (map byte ds) (map byte rs)) = Inr (map byte (map (\<lambda>(c, r'). r' + c * f) (zip ds rs)))"
proof (induction ds arbitrary: rs)
  case (Cons d ds)
  then show ?case by (cases rs) (simp_all add: multiply_bytes byte_add)
qed simp

lemma remainder_step_bytes:
  assumes "length r = length divisor" "divisor \<noteq> []"
  shows "remainder_step (map byte divisor) (byte b) (map byte r) =
    Inr (map byte (gf_remainder_step divisor b r))"
proof -
  obtain r0 rs where r: "r = r0 # rs" using assms by (cases r) auto
  show ?thesis
    using assms collect_products [of "b + r0" divisor "rs @ [0]"]
    by (simp add: remainder_step_def r byte_add gf_remainder_step_def)
qed

lemma gf_remainder_step_length [simp]:
  "length r = length divisor \<Longrightarrow> divisor \<noteq> [] \<Longrightarrow> length (gf_remainder_step divisor b r) = length divisor"
  by (cases r) (auto simp: gf_remainder_step_def)

lemma poly_add_multiple:
  "length ds = length rs \<Longrightarrow>
     poly_at (map (\<lambda>(c, r'). r' + c * f) (zip ds rs)) x = poly_at rs x + f * poly_at ds x"
  by (induction ds rs rule: list_induct2) (simp_all add: algebra_simps)

lemma remainder_step_value:
  assumes "length r = length divisor" "divisor \<noteq> []" "poly_at divisor x = x ^ length divisor"
  shows "poly_at (gf_remainder_step divisor b r) x = x * poly_at r x + b * x ^ length divisor"
proof -
  obtain r0 rs where r: "r = r0 # rs" using assms by (cases r) auto
  then have "length divisor = Suc (length rs)" using assms by simp
  then show ?thesis
    using poly_add_multiple [of divisor "rs @ [0]" "b + r0" x] assms(3)
    by (simp add: gf_remainder_step_def r poly_at_append algebra_simps)
qed

lemma remainder_loop_bytes:
  assumes "length r = length divisor" "divisor \<noteq> []"
  shows "\<exists>ecc. remainder_loop (map byte divisor) (map byte data) (map byte r) = Inr (map byte ecc) \<and>
    length ecc = length divisor \<and>
    (\<forall>x. poly_at divisor x = x ^ length divisor \<longrightarrow>
       poly_at ecc x = poly_at data x * x ^ length divisor + x ^ length data * poly_at r x)"
  using assms
proof (induction data arbitrary: r)
  case (Cons b data)
  let ?r = "gf_remainder_step divisor b r"
  obtain ecc where "remainder_loop (map byte divisor) (map byte data) (map byte ?r) = Inr (map byte ecc)"
      "length ecc = length divisor"
      "\<And>x. poly_at divisor x = x ^ length divisor \<Longrightarrow>
       poly_at ecc x = poly_at data x * x ^ length divisor + x ^ length data * poly_at ?r x"
    using Cons.IH [of ?r] Cons.prems by auto
  then show ?case
    using Cons.prems
    by (intro exI [of _ ecc]) (auto simp: remainder_step_bytes remainder_step_value algebra_simps)
qed auto

lemma codeword_bytes:
  assumes "1 \<le> degree" "degree \<le> 255"
  shows "\<exists>divisor ecc. reedSolomonComputeDivisor degree = Inr divisor \<and>
    reedSolomonComputeRemainder (map byte data) divisor = Inr (map byte ecc) \<and>
    length ecc = nat degree \<and>
    (\<forall>i<nat degree. poly_at (data @ ecc) (alpha_power i) = 0)"
proof -
  obtain divisor where d: "reedSolomonComputeDivisor degree = Inr (map byte divisor)"
      "length divisor = nat degree"
      "\<And>x. poly_at divisor x + x ^ nat degree = (\<Prod>i<nat degree. x + alpha_power i)"
    using divisor_bytes [OF assms] by blast
  let ?r = "map (\<lambda>_. 0) divisor"
  have ne: "divisor \<noteq> []" using d(2) assms by auto
  have zero: "poly_at (map (\<lambda>_. 0) l) x = 0" for l :: "gf list" and x by (induction l) simp_all
  obtain ecc where e: "remainder_loop (map byte divisor) (map byte data) (map byte ?r) = Inr (map byte ecc)"
      "length ecc = length divisor"
      "\<And>x. poly_at divisor x = x ^ length divisor \<Longrightarrow>
       poly_at ecc x = poly_at data x * x ^ length divisor"
    using remainder_loop_bytes [of ?r divisor data] ne by (auto simp: zero)
  have "poly_at (data @ ecc) (alpha_power i) = 0" if i: "i < nat degree" for i
  proof -
    have "(\<Prod>j<nat degree. alpha_power i + alpha_power j) = 0"
      by (rule prod_zero) (auto intro!: bexI [of _ i] simp: i)
    with d(3) [of "alpha_power i"]
    have "poly_at divisor (alpha_power i) = alpha_power i ^ length divisor"
      unfolding d(2) by (metis gf_add_cancel add.right_neutral)
    from e(3) [OF this] show ?thesis by (simp add: poly_at_append e(2))
  qed
  then show ?thesis
    using d e by (intro exI [of _ "map byte divisor"] exI [of _ ecc]) (simp add: reedSolomonComputeRemainder_def comp_def)
qed

section \<open>What the code promises\<close>

lemma shr_8_zero_iff: "- (2 ^ 31) \<le> x \<Longrightarrow> x < 2 ^ 31 \<Longrightarrow> shr x 8 = 0 \<longleftrightarrow> 0 \<le> x \<and> x < 256"
proof -
  assume x: "- (2 ^ 31) \<le> x" "x < 2 ^ 31"
  show ?thesis
  proof (cases "0 \<le> x")
    case True
    with x show ?thesis by (auto simp: shr_plain drop_bit_eq_div)
  next
    case False
    then have "to_uint32 x = x + 2 ^ 32"
      using x mod_add_self2 [of x "2 ^ 32"] mod_pos_pos_trivial [of "x + 2 ^ 32" "2 ^ 32"]
      by (simp add: to_uint32_def)
    then show ?thesis using False x by (simp add: shr_def drop_bit_eq_div)
  qed
qed

text \<open>\<open>reedSolomonMultiply\<close> is the product of the field: on two bytes it returns the product of
  the polynomials they stand for modulo \<open>x^8 + x^4 + x^3 + x^2 + 1\<close> (the multiplication of the type
  \<open>gf\<close>, a commutative ring), its assertion never fails, and any other pair of 32-bit integers is a
  RangeError.\<close>

theorem reedSolomonMultiply_is_field_product:
  assumes "- (2 ^ 31) \<le> x" "x < 2 ^ 31" "- (2 ^ 31) \<le> y" "y < 2 ^ 31"
  shows "reedSolomonMultiply x y =
    (if 0 \<le> x \<and> x < 256 \<and> 0 \<le> y \<and> y < 256 then Inr (byte (gf_of x * gf_of y))
     else Inl byte_out_of_range)"
proof (cases "0 \<le> x \<and> x < 256 \<and> 0 \<le> y \<and> y < 256")
  case True
  then show ?thesis
    using multiply_bytes [of "gf_of x" "gf_of y"] by (simp add: byte_gf_of)
next
  case False
  then show ?thesis
    using shr_8_zero_iff [of x] shr_8_zero_iff [of y] assms
    by (auto simp: reedSolomonMultiply_def)
qed

theorem reedSolomonMultiply_is_field_product_witness:
  "reedSolomonMultiply 128 2 = Inr 29 \<and> reedSolomonMultiply 128 2 = Inr (byte (gf_of 128 * gf_of 2)) \<and>
   reedSolomonMultiply (- 1) 2 = Inl byte_out_of_range"
proof (intro conjI)
  show "reedSolomonMultiply 128 2 = Inr 29"
    by code_simp
  show "reedSolomonMultiply 128 2 = Inr (byte (gf_of 128 * gf_of 2))"
    using reedSolomonMultiply_is_field_product [of 128 2] by simp
  show "reedSolomonMultiply (- 1) 2 = Inl byte_out_of_range"
    using reedSolomonMultiply_is_field_product [of "- 1" 2] by simp
qed

lemma bytes_of: "list_all (\<lambda>b. 0 \<le> b \<and> b < 256) data \<Longrightarrow> map byte (map gf_of data) = data"
  by (induction data) (simp_all add: byte_gf_of)

lemma codeword_of_block:
  assumes "1 \<le> degree" "degree \<le> 255" "list_all (\<lambda>b. 0 \<le> b \<and> b < 256) data"
  shows "\<exists>divisor ecc. reedSolomonComputeDivisor degree = Inr divisor \<and>
    reedSolomonComputeRemainder data divisor = Inr ecc \<and>
    length ecc = nat degree \<and> list_all (\<lambda>b. 0 \<le> b \<and> b < 256) ecc \<and>
    (\<forall>i<nat degree. poly_at (map gf_of (data @ ecc)) (gf_of 2 ^ i) = 0)"
proof -
  have two: "gf_of 2 ^ i = alpha_power i" for i
    using alpha_power_small [of 1] by (simp add: alpha_power_eq [of i])
  obtain divisor ecc where "reedSolomonComputeDivisor degree = Inr divisor"
    "reedSolomonComputeRemainder (map byte (map gf_of data)) divisor = Inr (map byte ecc)"
    "length ecc = nat degree"
    "\<forall>i<nat degree. poly_at (map gf_of data @ ecc) (alpha_power i) = 0"
    using codeword_bytes [OF assms(1,2), of "map gf_of data"] by blast
  then show ?thesis
    unfolding bytes_of [OF assms(3)] two
    by (intro exI [of _ divisor] exI [of _ "map byte ecc"])
      (simp add: list_all_iff byte_bound comp_def)
qed

text \<open>C27: Every block is a Reed-Solomon codeword: for every degree the tables can ask for and any bytes,
  the divisor and the remainder are computed without error, the remainder has \<open>degree\<close> bytes, and the
  polynomial of the data followed by the remainder vanishes at the first \<open>degree\<close> powers of the
  generator \<open>2\<close> of the field: all syndromes of the block are zero.\<close>

theorem block_is_codeword:
  assumes "1 \<le> degree" "degree \<le> 255" "list_all (\<lambda>b. 0 \<le> b \<and> b < 256) data"
  shows "\<exists>divisor ecc. reedSolomonComputeDivisor degree = Inr divisor \<and>
    reedSolomonComputeRemainder data divisor = Inr ecc \<and>
    length ecc = nat degree \<and> list_all (\<lambda>b. 0 \<le> b \<and> b < 256) ecc \<and>
    (\<forall>i<nat degree. poly_at (map gf_of (data @ ecc)) (gf_of 2 ^ i) = 0)"
  using assms by (rule codeword_of_block)

theorem block_is_codeword_witness:
  "\<exists>divisor ecc. reedSolomonComputeDivisor 10 = Inr divisor \<and>
    reedSolomonComputeRemainder [64, 212, 17] divisor = Inr ecc \<and>
    length ecc = nat 10 \<and> list_all (\<lambda>b. 0 \<le> b \<and> b < 256) ecc \<and>
    (\<forall>i<nat 10. poly_at (map gf_of ([64, 212, 17] @ ecc)) (gf_of 2 ^ i) = 0)"
  by (rule block_is_codeword) simp_all

end
