(* ===== verification/Qr_Ecc.thy ===== *)
theory Qr_Ecc
  imports Qr_Field Qr_Tables
begin

text \<open>
  \<open>addEccAndInterleave\<close> of \<open>lib/qr.ts\<close>: the data is split into blocks, each block gets its
  Reed-Solomon remainder, and the bytes of the blocks are interleaved. Short blocks hold a padding
  byte between data and remainder so that all blocks have one length; the interleaving skips it.
\<close>

definition js_slice :: "'a list \<Rightarrow> int \<Rightarrow> int \<Rightarrow> 'a list" where
  "js_slice xs a b = take (nat b - nat a) (drop (nat a) xs)"

text \<open>The loop over the blocks \<open>i\<close>, with the offset \<open>k\<close> into the data.\<close>

fun ecc_blocks :: "int list \<Rightarrow> int \<Rightarrow> int \<Rightarrow> int list \<Rightarrow> int list \<Rightarrow> int \<Rightarrow> exn + int list list" where
  "ecc_blocks data dataLen numShortBlocks rsDiv [] k = Inr []"
| "ecc_blocks data dataLen numShortBlocks rsDiv (i # is) k =
     (let dat = js_slice data k (k + dataLen + (if i < numShortBlocks then 0 else 1));
          k = k + int (length dat)
      in and_then (reedSolomonComputeRemainder dat rsDiv) (\<lambda>ecc.
         let dat = (if i < numShortBlocks then dat @ [0] else dat)
         in and_then (ecc_blocks data dataLen numShortBlocks rsDiv is k) (\<lambda>blocks.
            Inr ((dat @ ecc) # blocks))))"

definition interleave :: "int \<Rightarrow> int \<Rightarrow> int list list \<Rightarrow> int list" where
  "interleave dataLen numShortBlocks blocks =
     concat (map (\<lambda>i. concat (map (\<lambda>(j, block).
        if int i \<noteq> dataLen \<or> int j \<ge> numShortBlocks then [block ! i] else [])
        (enumerate 0 blocks))) [0..<length (blocks ! 0)])"

definition addEccAndInterleave :: "int \<Rightarrow> Ecc \<Rightarrow> int list \<Rightarrow> exn + int list" where
  "addEccAndInterleave ver ecl data =
     and_then (getNumDataCodewords ver ecl) (\<lambda>capacity.
     if int (length data) \<noteq> capacity then Inl (RangeError (js ''Invalid argument''))
     else
       let numBlocks = table_at NUM_ERROR_CORRECTION_BLOCKS (ordinal ecl) ver;
           blockEccLen = table_at ECC_CODEWORDS_PER_BLOCK (ordinal ecl) ver
       in and_then (getNumRawDataModules ver) (\<lambda>raw.
          let rawCodewords = raw div 8;
              numShortBlocks = numBlocks - rawCodewords mod numBlocks;
              shortBlockLen = rawCodewords div numBlocks
          in and_then (reedSolomonComputeDivisor blockEccLen) (\<lambda>rsDiv.
             and_then (ecc_blocks data (shortBlockLen - blockEccLen) numShortBlocks rsDiv
                         [0..numBlocks - 1] 0) (\<lambda>blocks.
             let result = interleave (shortBlockLen - blockEccLen) numShortBlocks blocks
             in and_then (check (int (length result) = rawCodewords)) (\<lambda>_. Inr result)))))"

section \<open>What the loop makes\<close>

text \<open>The specification: cut the data into pieces of given lengths.\<close>

primrec pieces :: "nat list \<Rightarrow> 'a list \<Rightarrow> 'a list list" where
  "pieces [] xs = []"
| "pieces (n # ns) xs = take n xs # pieces ns (drop n xs)"

lemma concat_pieces: "sum_list ns = length xs \<Longrightarrow> concat (pieces ns xs) = xs"
  by (induction ns arbitrary: xs) simp_all

lemma pieces_lengths: "sum_list ns \<le> length xs \<Longrightarrow> map length (pieces ns xs) = ns"
  by (induction ns arbitrary: xs) simp_all

lemma length_pieces [simp]: "length (pieces ns xs) = length ns"
  by (induction ns arbitrary: xs) simp_all

definition is_byte :: "int \<Rightarrow> bool" where
  "is_byte b \<longleftrightarrow> 0 \<le> b \<and> b < 256"

text \<open>A block of data and remainder whose syndromes at the first \<open>degree\<close> powers of 2 vanish.\<close>

definition codeword :: "nat \<Rightarrow> int list \<Rightarrow> bool" where
  "codeword degree block \<longleftrightarrow> list_all is_byte block \<and>
     (\<forall>i<degree. poly_at (map gf_of block) (gf_of 2 ^ i) = 0)"

definition block_lengths :: "nat \<Rightarrow> nat \<Rightarrow> int list \<Rightarrow> nat list" where
  "block_lengths dataLen short is = map (\<lambda>i. dataLen + (if i < int short then 0 else 1)) is"

lemma remainder_of_block:
  assumes "1 \<le> degree" "degree \<le> 255" "reedSolomonComputeDivisor degree = Inr rsDiv" "list_all is_byte dat"
  shows "\<exists>ecc. reedSolomonComputeRemainder dat rsDiv = Inr ecc \<and> length ecc = nat degree \<and>
    codeword (nat degree) (dat @ ecc)"
  using codeword_of_block [OF assms(1,2)] assms(3,4)
  by (fastforce simp: codeword_def is_byte_def list_all_iff)

text \<open>How the loop joins the data and the remainder of block \<open>i\<close>.\<close>

definition join_block :: "nat \<Rightarrow> int \<Rightarrow> int list \<Rightarrow> int list \<Rightarrow> int list" where
  "join_block short i d e = (if i < int short then d @ [0] else d) @ e"

lemma ecc_blocks_pieces:
  assumes degree: "1 \<le> degree" "degree \<le> 255" "reedSolomonComputeDivisor degree = Inr rsDiv"
    and bytes: "list_all is_byte data"
  shows "sum_list (block_lengths dataLen short is) + k = length data \<Longrightarrow>
    \<exists>es. length es = length is \<and>
      ecc_blocks data (int dataLen) (int short) rsDiv is (int k) =
        Inr (map (\<lambda>(i, d, e). join_block short i d e)
              (zip is (zip (pieces (block_lengths dataLen short is) (drop k data)) es))) \<and>
      list_all (\<lambda>(d, e). length e = nat degree \<and> codeword (nat degree) (d @ e))
        (zip (pieces (block_lengths dataLen short is) (drop k data)) es)"
proof (induction "is" arbitrary: k)
  case Nil
  then show ?case by simp
next
  case (Cons i "is")
  let ?n = "dataLen + (if i < int short then 0 else 1)"
  have n: "nat (int k + int dataLen + (if i < int short then 0 else 1)) = k + ?n" by auto
  have fits: "k + ?n \<le> length data" using Cons.prems by (simp add: block_lengths_def)
  let ?d = "take ?n (drop k data)"
  have d: "js_slice data (int k) (int k + int dataLen + (if i < int short then 0 else 1)) = ?d"
    unfolding js_slice_def n by simp
  have len: "length ?d = ?n" using fits by simp
  have "list_all is_byte ?d"
    using bytes by (auto simp: list_all_iff dest!: in_set_takeD in_set_dropD)
  then obtain e where e: "reedSolomonComputeRemainder ?d rsDiv = Inr e" "length e = nat degree"
      "codeword (nat degree) (?d @ e)"
    using remainder_of_block [OF degree] by blast
  have "sum_list (block_lengths dataLen short is) + (k + ?n) = length data"
    using Cons.prems by (simp add: block_lengths_def)
  from Cons.IH [OF this] obtain es where es: "length es = length is"
      "ecc_blocks data (int dataLen) (int short) rsDiv is (int (k + ?n)) =
        Inr (map (\<lambda>(i, d, e). join_block short i d e)
              (zip is (zip (pieces (block_lengths dataLen short is) (drop (k + ?n) data)) es)))"
      "list_all (\<lambda>(d, e). length e = nat degree \<and> codeword (nat degree) (d @ e))
        (zip (pieces (block_lengths dataLen short is) (drop (k + ?n) data)) es)"
    by blast
  have k: "int k + int (length ?d) = int (k + ?n)" unfolding len by simp
  have p: "pieces (block_lengths dataLen short (i # is)) (drop k data) =
      ?d # pieces (block_lengths dataLen short is) (drop (k + ?n) data)"
    by (simp add: block_lengths_def add.commute)
  have "ecc_blocks data (int dataLen) (int short) rsDiv (i # is) (int k) =
      Inr (join_block short i ?d e # map (\<lambda>(i, d, e). join_block short i d e)
              (zip is (zip (pieces (block_lengths dataLen short is) (drop (k + ?n) data)) es)))"
    unfolding ecc_blocks.simps Let_def d k e(1) and_then_simps es(2) join_block_def by (rule refl)
  then show ?case unfolding p using es(1,3) e(2,3) by (intro exI [of _ "e # es"]) simp
qed

section \<open>Interleaving is transposition\<close>

definition column :: "nat \<Rightarrow> 'a list list \<Rightarrow> 'a list" where
  "column i xss = map (\<lambda>xs. xs ! i) (filter (\<lambda>xs. i < length xs) xss)"

lemma column_by_index:
  "column i xss = concat (map (\<lambda>j. if i < length (xss ! j) then [xss ! j ! i] else []) [0..<length xss])"
proof -
  have pick: "map f (filter P xs) = concat (map (\<lambda>x. if P x then [f x] else []) xs)"
    for f :: "'c \<Rightarrow> 'b" and P xs by (induction xs) auto
  have "column i xss = concat (map (\<lambda>xs. if i < length xs then [xs ! i] else []) (map ((!) xss) [0..<length xss]))"
    unfolding column_def map_nth by (rule pick)
  then show ?thesis by (simp add: comp_def)
qed

lemma concat_transpose:
  assumes "\<And>xs. xs \<in> set xss \<Longrightarrow> length xs \<le> n"
  shows "concat (transpose xss) = concat (map (\<lambda>i. column i xss) [0..<n])"
proof -
  let ?m = "length (transpose xss)"
  have m: "?m \<le> n" using assms unfolding length_transpose by (induction xss) auto
  have bound: "xs \<in> set xss \<Longrightarrow> length xs \<le> ?m" for xs
    unfolding length_transpose by (induction xss) auto
  have "transpose xss = map (\<lambda>i. column i xss) [0..<?m]"
    by (rule nth_equalityI) (simp_all add: nth_transpose column_def)
  then have "concat (transpose xss) = concat (map (\<lambda>i. column i xss) [0..<?m])" by simp
  moreover have "column i xss = []" if "?m \<le> i" for i
    unfolding column_def by (auto simp: filter_empty_conv not_less intro: order_trans [OF bound that])
  then have "concat (map (\<lambda>i. column i xss) [?m..<n]) = []" by auto
  ultimately show ?thesis using upt_add_eq_append [of 0 ?m "n - ?m"] m by simp
qed

lemma interleave_transposes:
  assumes "length blocks = n" "0 < n" "length ds = n" "length es = n"
    and "\<And>j. j < n \<Longrightarrow> blocks ! j = join_block s (int j) (ds ! j) (es ! j)"
    and "\<And>j. j < n \<Longrightarrow> length (ds ! j) = L + (if j < s then 0 else 1)"
    and "\<And>j. j < n \<Longrightarrow> length (es ! j) = E"
  shows "interleave (int L) (int s) blocks = concat (transpose ds) @ concat (transpose es)"
proof -
  let ?col = "\<lambda>i. concat (map (\<lambda>j. if i \<noteq> L \<or> s \<le> j then [blocks ! j ! i] else []) [0..<n])"
  have row: "concat (map (\<lambda>(j, block). if int i \<noteq> int L \<or> int s \<le> int j then [block ! i] else [])
      (enumerate 0 blocks)) = ?col i" for i
    unfolding enumerate_eq_zip assms(1) by (subst (2) map_nth [symmetric])
      (simp add: zip_map_map comp_def assms(1) zip_map2 zip_same_conv_map del: map_nth)
  have width: "length (blocks ! 0) = (L + 1) + E"
    using assms(5-7) [OF assms(2)] by (auto simp: join_block_def)
  have data: "?col i = column i ds" if "i < L + 1" for i
    unfolding column_by_index assms(3)
    by (rule arg_cong [where f = concat], rule map_cong [OF refl])
      (use that assms(5,6) in \<open>auto simp: join_block_def nth_append\<close>)
  have ecc: "?col (L + 1 + t) = column t es" if "t < E" for t
    unfolding column_by_index assms(4)
    by (rule arg_cong [where f = concat], rule map_cong [OF refl])
      (use that assms(5-7) in \<open>auto simp: join_block_def nth_append\<close>)
  have "interleave (int L) (int s) blocks = concat (map ?col [0..<(L + 1) + E])"
    unfolding interleave_def width row by simp
  also have "\<dots> = concat (map ?col [0..<L + 1]) @ concat (map (\<lambda>t. ?col (L + 1 + t)) [0..<E])"
  proof -
    have "[0..<(L + 1) + E] = [0..<L + 1] @ map (\<lambda>t. L + 1 + t) [0..<E]"
      using upt_add_eq_append [of 0 "L + 1" E] map_add_upt [of "L + 1" E] by (simp add: add.commute)
    then show ?thesis by (simp only: map_append concat_append map_map comp_def)
  qed
  also have "map ?col [0..<L + 1] = map (\<lambda>i. column i ds) [0..<L + 1]"
    by (rule map_cong [OF refl], rule data, auto)
  also have "map (\<lambda>t. ?col (L + 1 + t)) [0..<E] = map (\<lambda>t. column t es) [0..<E]"
    by (rule map_cong [OF refl], rule ecc) simp
  also have "concat (map (\<lambda>i. column i ds) [0..<L + 1]) = concat (transpose ds)"
    using assms(3,6) by (intro concat_transpose [symmetric]) (auto simp: in_set_conv_nth)
  also have "concat (map (\<lambda>t. column t es) [0..<E]) = concat (transpose es)"
    using assms(4,7) by (intro concat_transpose [symmetric]) (auto simp: in_set_conv_nth)
  finally show ?thesis .
qed


section \<open>The whole routine\<close>

lemma upto_upt: "[0..int n - 1] = map int [0..<n]"
  by (induction n) (simp_all add: upto_rec2)

lemma sum_block_lengths:
  "sum_list (block_lengths L s [0..int n - 1]) = n * L + (n - s)"
proof -
  have "sum_list (map (\<lambda>i. L + (if i < s then 0 else 1)) [0..<n]) = n * L + (n - s)"
    by (induction n) auto
  then show ?thesis by (simp add: block_lengths_def upto_upt comp_def)
qed

text \<open>The numbers of a version and a level, as naturals.\<close>

lemma block_numbers:
  assumes "1 \<le> ver" "ver \<le> 40"
  obtains n E L s raw where "0 < n" "1 \<le> E" "E \<le> 30" "s \<le> n" "1 \<le> s" "0 < L"
    "table_at NUM_ERROR_CORRECTION_BLOCKS (ordinal ecl) ver = int n"
    "table_at ECC_CODEWORDS_PER_BLOCK (ordinal ecl) ver = int E"
    "getNumRawDataModules ver = Inr raw"
    "int n - raw div 8 mod int n = int s"
    "raw div 8 div int n - int E = int L"
    "getNumDataCodewords ver ecl = Inr (int (n * L + (n - s)))"
    "raw div 8 = int (n * L + (n - s) + n * E)"
proof -
  obtain raw where raw: "getNumRawDataModules ver = Inr raw"
    using table_ok [OF assms, of ecl] by (auto simp: table_ok_def split: sum.splits)
  let ?b = "table_at NUM_ERROR_CORRECTION_BLOCKS (ordinal ecl) ver"
  let ?e = "table_at ECC_CODEWORDS_PER_BLOCK (ordinal ecl) ver"
  have t: "1 \<le> ?b" "7 \<le> ?e" "?e \<le> 30" "?e < raw div 8 div ?b"
      "getNumDataCodewords ver ecl = Inr (raw div 8 - ?e * ?b)"
    using table_ok [OF assms, of ecl] raw by (auto simp: table_ok_def Let_def)
  obtain n where n: "?b = int n" using t(1) by (metis nonneg_int_cases order_trans zero_le_one)
  obtain E where E: "?e = int E" using t(2) by (metis nonneg_int_cases order_trans zero_le_numeral)
  have "0 \<le> raw div 8"
    using t(1,2,4) pos_imp_zdiv_neg_iff [of ?b "raw div 8"] by linarith
  then obtain R where R: "raw div 8 = int R" by (metis nonneg_int_cases)
  define q r where "q = R div n" and "r = R mod n"
  have n1: "1 \<le> n" and E1: "7 \<le> E" "E \<le> 30" using t(1-3) n E by simp_all
  have Eq: "E < q" using t(4) unfolding n E R q_def by (simp add: zdiv_int [symmetric])
  have rn: "r < n" using n1 by (simp add: r_def)
  have split: "R = n * q + r" by (simp add: q_def r_def)
  have q': "raw div 8 div ?b = int q" "raw div 8 mod ?b = int r"
    unfolding n R q_def r_def by (simp_all add: zdiv_int zmod_int)
  have size: "R = n * (q - E) + (n - (n - r)) + n * E"
  proof -
    obtain L where "q = E + L" using Eq by (metis less_imp_add_positive)
    then show ?thesis using rn split by (simp add: algebra_simps)
  qed
  show ?thesis
  proof (rule that [of n E "n - r" "q - E" raw])
    show "getNumDataCodewords ver ecl = Inr (int (n * (q - E) + (n - (n - r))))"
      using t(5) size unfolding n E R by (simp add: mult.commute)
    show "raw div 8 = int (n * (q - E) + (n - (n - r)) + n * E)"
      using size R by simp
  qed (use n E n1 E1 Eq rn raw q' in auto)
qed

lemma concat_heads_tails:
  "length (concat xss) = length (concat (map (\<lambda>xs. case xs of [] \<Rightarrow> [] | h # t \<Rightarrow> [h]) xss))
     + length (concat (concat (map (\<lambda>xs. case xs of [] \<Rightarrow> [] | h # t \<Rightarrow> [t]) xss)))"
  by (induction xss) (auto split: list.splits)

lemma length_concat_transpose: "length (concat (transpose xss)) = length (concat xss)"
proof (induction xss rule: transpose.induct)
  case (3 x xs xss)
  then show ?case using concat_heads_tails [of xss] by simp
qed simp_all

lemma addEcc_layout:
  assumes "1 \<le> ver" "ver \<le> 40" "getNumDataCodewords ver ecl = Inr (int (length data))"
    and "list_all is_byte data"
  shows "\<exists>raw ds es L. getNumRawDataModules ver = Inr raw \<and>
    addEccAndInterleave ver ecl data = Inr (concat (transpose ds) @ concat (transpose es)) \<and>
    int (length (concat (transpose ds) @ concat (transpose es))) = raw div 8 \<and>
    concat ds = data \<and> length es = length ds \<and>
    int (length ds) = table_at NUM_ERROR_CORRECTION_BLOCKS (ordinal ecl) ver \<and>
    (\<forall>d\<in>set ds. length d = L \<or> length d = Suc L) \<and> sorted (map length ds) \<and>
    list_all (\<lambda>(d, e). int (length e) = table_at ECC_CODEWORDS_PER_BLOCK (ordinal ecl) ver \<and>
      codeword (length e) (d @ e)) (zip ds es)"
proof -
  obtain n E L s raw where num: "0 < n" "1 \<le> E" "E \<le> 30" "s \<le> n" "1 \<le> s" "0 < L"
    "table_at NUM_ERROR_CORRECTION_BLOCKS (ordinal ecl) ver = int n"
    "table_at ECC_CODEWORDS_PER_BLOCK (ordinal ecl) ver = int E"
    "getNumRawDataModules ver = Inr raw"
    "int n - raw div 8 mod int n = int s"
    "raw div 8 div int n - int E = int L"
    "getNumDataCodewords ver ecl = Inr (int (n * L + (n - s)))"
    "raw div 8 = int (n * L + (n - s) + n * E)"
    by (rule block_numbers [OF assms(1,2), where ecl = ecl]) (rule that; assumption)
  have total: "length data = n * L + (n - s)" using num(12) assms(3) by (simp only: sum.inject of_nat_eq_iff)
  let ?is = "[0..int n - 1]"
  let ?ns = "block_lengths L s ?is"
  let ?ds = "pieces ?ns data"
  have nslen: "length ?ns = n" by (simp add: block_lengths_def)
  have ns: "sum_list ?ns = length data" unfolding sum_block_lengths total ..
  obtain rsDiv where rs: "reedSolomonComputeDivisor (int E) = Inr rsDiv"
    using codeword_of_block [of "int E" "[]"] num(2,3) by auto
  obtain es where es: "length es = n"
      "ecc_blocks data (int L) (int s) rsDiv ?is 0 =
         Inr (map (\<lambda>(i, d, e). join_block s i d e) (zip ?is (zip ?ds es)))"
      "list_all (\<lambda>(d, e). length e = E \<and> codeword E (d @ e)) (zip ?ds es)"
    using ecc_blocks_pieces [OF _ _ rs assms(4), of L s ?is 0] num(2,3) ns by auto
  have dlen: "length (?ds ! j) = L + (if j < s then 0 else 1)" if "j < n" for j
  proof -
    have "length (?ds ! j) = map length ?ds ! j" using that nslen by simp
    also have "map length ?ds = ?ns" using ns by (intro pieces_lengths) simp
    also have "?ns ! j = L + (if j < s then 0 else 1)"
      using that by (simp add: block_lengths_def upto_upt)
    finally show ?thesis .
  qed
  have elen: "length (es ! j) = E" if "j < n" for j
    using es(1,3) that nslen by (auto simp: list_all_length)
  let ?blocks = "map (\<lambda>(i, d, e). join_block s i d e) (zip ?is (zip ?ds es))"
  have inter: "interleave (int L) (int s) ?blocks = concat (transpose ?ds) @ concat (transpose es)"
  proof (rule interleave_transposes [OF _ num(1) _ es(1) _ dlen elen])
    have lens: "length ?is = n" "length ?ds = n" using nslen by simp_all
    then show "length ?blocks = n" "length ?ds = n" using es(1) by simp_all
    fix j assume j: "j < n"
    have "?is ! j = int j" using j by (simp only: upto_upt nth_map_upt length_upt nth_map diff_zero) simp
    then show "?blocks ! j = join_block s (int j) (?ds ! j) (es ! j)"
      using lens es(1) j by (simp del: nth_upto)
  qed
  have data: "concat ?ds = data" using ns by (rule concat_pieces)
  moreover have "map length es = replicate n E"
    by (rule nth_equalityI) (use es(1) elen in simp_all)
  then have "length (concat es) = n * E" by (simp add: length_concat sum_list_replicate)
  ultimately have size: "int (length (concat (transpose ?ds) @ concat (transpose es))) = raw div 8"
    using num(13) total by (simp add: length_concat_transpose)
  have "sorted (map length ?ds)"
    unfolding pieces_lengths [OF eq_refl [OF ns]] by (auto simp: block_lengths_def upto_upt sorted_iff_nth_mono)
  moreover have "\<forall>d\<in>set ?ds. length d = L \<or> length d = Suc L"
    using dlen nslen by (auto simp: in_set_conv_nth split: if_splits)
  moreover have "addEccAndInterleave ver ecl data = Inr (concat (transpose ?ds) @ concat (transpose es))"
    unfolding addEccAndInterleave_def assms(3) Let_def and_then_simps num(7-11) rs es(2) inter size
    by simp
  moreover have "list_all (\<lambda>(d, e). int (length e) = int E \<and> codeword (length e) (d @ e)) (zip ?ds es)"
    using es(3) by (auto simp: list_all_iff)
  ultimately show ?thesis
    unfolding num(7,8)
    using num(9) size data nslen es(1) by (intro exI [of _ raw] exI [of _ ?ds] exI [of _ es] exI [of _ L]) simp
qed


text \<open>C30: \<open>addEccAndInterleave\<close> is the standard's layout: for every version, level and data of the right
  length it succeeds (its assertion never fails), and the result is the transposition of the data blocks
  followed by the transposition of their remainders, where the data blocks are consecutive pieces of the
  data, as many as the table says, the short ones before those one byte longer, and each block with its
  remainder is a Reed-Solomon codeword of the table's degree.\<close>

theorem addEccAndInterleave_layout:
  assumes "1 \<le> ver" "ver \<le> 40" "getNumDataCodewords ver ecl = Inr (int (length data))"
    and "list_all is_byte data"
  shows "\<exists>raw ds es L. getNumRawDataModules ver = Inr raw \<and>
    addEccAndInterleave ver ecl data = Inr (concat (transpose ds) @ concat (transpose es)) \<and>
    int (length (concat (transpose ds) @ concat (transpose es))) = raw div 8 \<and>
    concat ds = data \<and> length es = length ds \<and>
    int (length ds) = table_at NUM_ERROR_CORRECTION_BLOCKS (ordinal ecl) ver \<and>
    (\<forall>d\<in>set ds. length d = L \<or> length d = Suc L) \<and> sorted (map length ds) \<and>
    list_all (\<lambda>(d, e). int (length e) = table_at ECC_CODEWORDS_PER_BLOCK (ordinal ecl) ver \<and>
      codeword (length e) (d @ e)) (zip ds es)"
  using assms by (rule addEcc_layout)

theorem addEccAndInterleave_layout_witness:
  "\<exists>raw ds es L. getNumRawDataModules 1 = Inr raw \<and>
    addEccAndInterleave 1 MEDIUM (replicate 16 236) = Inr (concat (transpose ds) @ concat (transpose es)) \<and>
    int (length (concat (transpose ds) @ concat (transpose es))) = raw div 8 \<and>
    concat ds = replicate 16 236 \<and> length es = length ds \<and>
    int (length ds) = table_at NUM_ERROR_CORRECTION_BLOCKS (ordinal MEDIUM) 1 \<and>
    (\<forall>d\<in>set ds. length d = L \<or> length d = Suc L) \<and> sorted (map length ds) \<and>
    list_all (\<lambda>(d, e). int (length e) = table_at ECC_CODEWORDS_PER_BLOCK (ordinal MEDIUM) 1 \<and>
      codeword (length e) (d @ e)) (zip ds es)"
proof (rule addEccAndInterleave_layout)
  show "getNumDataCodewords 1 MEDIUM = Inr (int (length (replicate 16 (236::int))))" by code_simp
qed (simp_all add: is_byte_def list_all_iff)

end
