(* ===== verification/Qr_Code.thy ===== *)
theory Qr_Code
  imports Qr_Draw Qr_Ecc
begin

text \<open>
  The penalty score, the constructor, \<open>encodeSegments\<close> and its callers, and \<open>qrSvgPath\<close> of
  \<open>lib/qr.ts\<close>.
\<close>

section \<open>Penalty score\<close>

definition finderPenaltyAddHistory :: "int \<Rightarrow> int \<Rightarrow> int list \<Rightarrow> int list" where
  "finderPenaltyAddHistory n currentRunLength runHistory =
     (let currentRunLength =
        (if runHistory ! 0 = 0 then currentRunLength + n else currentRunLength)
      in currentRunLength # butlast runHistory)"

definition finderPenaltyCountPatterns :: "int \<Rightarrow> int list \<Rightarrow> exn + int" where
  "finderPenaltyCountPatterns sz runHistory =
     (let n = runHistory ! 1 in
      and_then (check (n \<le> sz * 3)) (\<lambda>_.
      let core = n > 0 \<and> runHistory ! 2 = n \<and> runHistory ! 3 = n * 3 \<and> runHistory ! 4 = n \<and>
            runHistory ! 5 = n
      in Inr ((if core \<and> runHistory ! 0 \<ge> n * 4 \<and> runHistory ! 6 \<ge> n then 1 else 0) +
              (if core \<and> runHistory ! 6 \<ge> n * 4 \<and> runHistory ! 0 \<ge> n then 1 else 0))))"

definition finderPenaltyTerminateAndCount :: "int \<Rightarrow> bool \<Rightarrow> int \<Rightarrow> int list \<Rightarrow> exn + int" where
  "finderPenaltyTerminateAndCount sz currentRunColor currentRunLength runHistory =
     (let runHistory' = (if currentRunColor
            then finderPenaltyAddHistory sz currentRunLength runHistory else runHistory);
          currentRunLength = (if currentRunColor then 0 else currentRunLength) + sz
      in finderPenaltyCountPatterns sz
           (finderPenaltyAddHistory sz currentRunLength runHistory'))"

text \<open>The loop over one line (a row or a column) of modules, with \<open>runColor\<close>, the run so far, its history
  and the score so far; at its end the line's last run is counted.\<close>

fun penalty_line :: "int \<Rightarrow> bool list \<Rightarrow> bool \<Rightarrow> int \<Rightarrow> int list \<Rightarrow> int \<Rightarrow> exn + int" where
  "penalty_line sz [] runColor run runHistory result =
     and_then (finderPenaltyTerminateAndCount sz runColor run runHistory) (\<lambda>n.
     Inr (result + n * PENALTY_N3))"
| "penalty_line sz (c # cs) runColor run runHistory result =
     (if c = runColor then
        let run = run + 1
        in penalty_line sz cs runColor run runHistory
             (if run = 5 then result + PENALTY_N1 else if run > 5 then result + 1 else result)
      else
        let runHistory = finderPenaltyAddHistory sz run runHistory
        in and_then (if \<not> runColor then finderPenaltyCountPatterns sz runHistory else Inr 0) (\<lambda>n.
           penalty_line sz cs c 1 runHistory (result + n * PENALTY_N3)))"

primrec penalty_lines :: "int \<Rightarrow> bool list list \<Rightarrow> int \<Rightarrow> exn + int" where
  "penalty_lines sz [] result = Inr result"
| "penalty_lines sz (l # ls) result =
     and_then (penalty_line sz l False 0 [0, 0, 0, 0, 0, 0, 0] result) (penalty_lines sz ls)"

definition grid_columns :: "int \<Rightarrow> bool list list \<Rightarrow> bool list list" where
  "grid_columns sz m = map (\<lambda>x. map (\<lambda>y. cell m x y) [0..sz - 1]) [0..sz - 1]"

definition penalty_blocks :: "int \<Rightarrow> bool list list \<Rightarrow> int" where
  "penalty_blocks sz m =
     sum_list (map (\<lambda>y. sum_list (map (\<lambda>x.
       let color = cell m x y
       in if color = cell m (x + 1) y \<and> color = cell m x (y + 1) \<and> color = cell m (x + 1) (y + 1)
          then PENALTY_N2 else 0) [0..sz - 2])) [0..sz - 2])"

text \<open>\<open>Math.ceil(Math.abs(dark * 20 - total * 10) / total) - 1\<close>; both numbers are below \<open>2^20\<close>, where the
  division of doubles rounds to no wrong integer, so it is the ceiling of the quotient.\<close>

definition balance_steps :: "int \<Rightarrow> int \<Rightarrow> int" where
  "balance_steps dark tot = - ((- \<bar>dark * 20 - tot * 10\<bar>) div tot) - 1"

definition dark_modules :: "bool list list \<Rightarrow> int" where
  "dark_modules m = sum_list (map (\<lambda>row. int (length (filter id row))) m)"

definition getPenaltyScore :: "int \<Rightarrow> bool list list \<Rightarrow> exn + int" where
  "getPenaltyScore sz m =
     and_then (penalty_lines sz m 0) (\<lambda>result.
     and_then (penalty_lines sz (grid_columns sz m) result) (\<lambda>result.
     let result = result + penalty_blocks sz m;
         k = balance_steps (dark_modules m) (sz * sz)
     in and_then (check (0 \<le> k \<and> k \<le> 9)) (\<lambda>_.
        let result = result + k * PENALTY_N4
        in and_then (check (0 \<le> result \<and> result \<le> 2568888)) (\<lambda>_. Inr result))))"

section \<open>The constructor\<close>

text \<open>One round of the choice of a mask, with the best mask so far and its penalty.\<close>

definition try_mask :: "int \<Rightarrow> int \<times> int \<Rightarrow> (qr_object, int \<times> int) action" where
  "try_mask i best =
     await (applyMask i) (\<lambda>_.
     await (drawFormatBits i) (\<lambda>_.
     await (read_state (\<lambda>q. getPenaltyScore (qr_size q) (modules q))) (\<lambda>score.
     await (lift_result score) (\<lambda>penalty.
     await (applyMask i) (\<lambda>_.
     return_value (if penalty < snd best then (i, penalty) else best))))))"

definition draw_data :: "int list \<Rightarrow> (qr_object, unit) action" where
  "draw_data dataCodewords =
     await drawFunctionPatterns (\<lambda>_.
     await (read_state (\<lambda>q. addEccAndInterleave (qr_version q) (errorCorrectionLevel q) dataCodewords)) (\<lambda>ecc.
     await (lift_result ecc) (\<lambda>allCodewords.
     drawCodewords allCodewords)))"

definition choose_mask :: "int \<Rightarrow> (qr_object, int) action" where
  "choose_mask msk =
     (if msk = - 1
      then await (for_each_with [0..7] (- 1, 1000000000) try_mask) (\<lambda>best. return_value (fst best))
      else return_value msk)"

definition finish_mask :: "int \<Rightarrow> (qr_object, unit) action" where
  "finish_mask msk =
     await (lift_result (check (0 \<le> msk \<and> msk \<le> 7))) (\<lambda>_.
     await (write_state (\<lambda>q. q\<lparr>qr_mask := msk\<rparr>)) (\<lambda>_.
     await (applyMask msk) (\<lambda>_.
     await (drawFormatBits msk) (\<lambda>_.
     write_state (\<lambda>q. q\<lparr>isFunction := []\<rparr>)))))"

definition construct :: "int list \<Rightarrow> int \<Rightarrow> (qr_object, unit) action" where
  "construct dataCodewords msk =
     await (draw_data dataCodewords) (\<lambda>_. await (choose_mask msk) finish_mask)"

definition newQrCode :: "int \<Rightarrow> Ecc \<Rightarrow> int list \<Rightarrow> int \<Rightarrow> exn + qr_object" where
  "newQrCode version ecl dataCodewords msk =
     (if version < MIN_VERSION \<or> version > MAX_VERSION
      then Inl (RangeError (js ''Version value out of range''))
      else if msk < - 1 \<or> msk > 7 then Inl (RangeError (js ''Mask value out of range''))
      else (case construct dataCodewords msk (blank_code version ecl) of
              (Inl e, _) \<Rightarrow> Inl e | (Inr _, q) \<Rightarrow> Inr q))"

definition getModule :: "qr_object \<Rightarrow> int \<Rightarrow> int \<Rightarrow> bool" where
  "getModule q x y =
     (0 \<le> x \<and> x < qr_size q \<and> 0 \<le> y \<and> y < qr_size q \<and> cell (modules q) x y)"

section \<open>Encoding segments\<close>

text \<open>The search for the smallest version: the version found and the number of bits used.\<close>

function find_version :: "QrSegment list \<Rightarrow> Ecc \<Rightarrow> int \<Rightarrow> int \<Rightarrow> exn + int \<times> int" where
  "find_version segs ecl maxVersion version =
     and_then (getNumDataCodewords version ecl) (\<lambda>n.
     case getTotalBits segs version of
       Some usedBits \<Rightarrow>
         if usedBits \<le> n * 8 then Inr (version, usedBits)
         else if version \<ge> maxVersion then Inl (RangeError (js ''Data too long''))
         else find_version segs ecl maxVersion (version + 1)
     | None \<Rightarrow>
         if version \<ge> maxVersion then Inl (RangeError (js ''Data too long''))
         else find_version segs ecl maxVersion (version + 1))"
  by pat_completeness auto
termination by (relation "measure (\<lambda>(_, _, maxVersion, version). nat (maxVersion - version))") auto

declare find_version.simps [simp del]

primrec boost_level :: "int \<Rightarrow> bool \<Rightarrow> int \<Rightarrow> Ecc list \<Rightarrow> Ecc \<Rightarrow> exn + Ecc" where
  "boost_level version boostEcl dataUsedBits [] ecl = Inr ecl"
| "boost_level version boostEcl dataUsedBits (newEcl # levels) ecl =
     (if \<not> boostEcl then boost_level version boostEcl dataUsedBits levels ecl
      else and_then (getNumDataCodewords version newEcl) (\<lambda>n.
        boost_level version boostEcl dataUsedBits levels (if dataUsedBits \<le> n * 8 then newEcl else ecl)))"

primrec segment_bits :: "int \<Rightarrow> QrSegment list \<Rightarrow> int list \<Rightarrow> exn + int list" where
  "segment_bits version [] bb = Inr bb"
| "segment_bits version (seg # segs) bb =
     and_then (appendBits (modeBits (seg_mode seg)) 4 bb) (\<lambda>bb.
     and_then (appendBits (numChars seg) (numCharCountBits (seg_mode seg) version) bb) (\<lambda>bb.
     segment_bits version segs (bb @ bitData seg)))"

text \<open>Padding with alternating bytes; \<open>padByte ^= 0xec ^ 0x11\<close>.\<close>

function pad_codewords :: "int \<Rightarrow> int \<Rightarrow> int list \<Rightarrow> exn + int list" where
  "pad_codewords capacity padByte bb =
     (if int (length bb) < capacity
      then and_then (appendBits padByte 8 bb) (\<lambda>bb.
           pad_codewords capacity (bxor padByte (bxor 0xec 0x11)) bb)
      else Inr bb)"
  by pat_completeness auto
termination
  by (relation "measure (\<lambda>(capacity, _, bb). nat (capacity - int (length bb)))")
    (auto dest: appendBits_length)

declare pad_codewords.simps [simp del]

text \<open>The loop \<open>dataCodewords[i >>> 3] |= b << (7 - (i & 7))\<close> over the bits from index \<open>i\<close> on.\<close>

primrec pack_loop :: "int \<Rightarrow> int list \<Rightarrow> int list \<Rightarrow> int list" where
  "pack_loop i [] data = data"
| "pack_loop i (b # bs) data =
     pack_loop (i + 1) bs
       (data[nat (shr i 3) := bor (data ! nat (shr i 3)) (shl b (7 - band i 7))])"

definition pack_bytes :: "int list \<Rightarrow> int list" where
  "pack_bytes bb = pack_loop 0 bb (replicate ((length bb + 7) div 8) 0)"

definition data_codewords :: "QrSegment list \<Rightarrow> int \<Rightarrow> Ecc \<Rightarrow> int \<Rightarrow> exn + int list" where
  "data_codewords segs version ecl dataUsedBits =
     and_then (segment_bits version segs []) (\<lambda>bb.
     and_then (check (int (length bb) = dataUsedBits)) (\<lambda>_.
     and_then (getNumDataCodewords version ecl) (\<lambda>n.
     let dataCapacityBits = n * 8 in
     and_then (check (int (length bb) \<le> dataCapacityBits)) (\<lambda>_.
     and_then (appendBits 0 (min 4 (dataCapacityBits - int (length bb))) bb) (\<lambda>bb.
     and_then (appendBits 0 ((8 - int (length bb) mod 8) mod 8) bb) (\<lambda>bb.
     and_then (check (int (length bb) mod 8 = 0)) (\<lambda>_.
     and_then (pad_codewords dataCapacityBits 0xec bb) (\<lambda>bb.
     Inr (pack_bytes bb)))))))))"

definition encodeSegments :: "QrSegment list \<Rightarrow> Ecc \<Rightarrow> int \<Rightarrow> int \<Rightarrow> int \<Rightarrow> bool \<Rightarrow> exn + qr_object" where
  "encodeSegments segs ecl minVersion maxVersion msk boostEcl =
     (if \<not> (MIN_VERSION \<le> minVersion \<and> minVersion \<le> maxVersion \<and> maxVersion \<le> MAX_VERSION) \<or>
         msk < - 1 \<or> msk > 7
      then Inl (RangeError (js ''Invalid value''))
      else
        and_then (find_version segs ecl maxVersion minVersion) (\<lambda>(version, dataUsedBits).
        and_then (boost_level version boostEcl dataUsedBits [MEDIUM, QUARTILE, HIGH] ecl) (\<lambda>ecl.
        and_then (data_codewords segs version ecl dataUsedBits) (\<lambda>dataCodewords.
        newQrCode version ecl dataCodewords msk))))"

definition encodeText :: "jstring \<Rightarrow> Ecc \<Rightarrow> exn + qr_object" where
  "encodeText s ecl =
     and_then (makeSegments s) (\<lambda>segs. encodeSegments segs ecl 1 40 (- 1) True)"

definition encodeBinary :: "int list \<Rightarrow> Ecc \<Rightarrow> exn + qr_object" where
  "encodeBinary data ecl =
     and_then (makeBytes data) (\<lambda>seg. encodeSegments [seg] ecl 1 40 (- 1) True)"

section \<open>The SVG path\<close>

definition svg_square :: "int \<Rightarrow> int \<Rightarrow> jstring" where
  "svg_square x y = js ''M'' @ bigint_to_string (nat x) @ js '','' @ bigint_to_string (nat y) @ js ''h1v1h-1z''"

definition svg_path :: "qr_object \<Rightarrow> jstring" where
  "svg_path qr =
     concat (map (\<lambda>y. concat (map (\<lambda>x. if getModule qr x y then svg_square x y else [])
       [0..qr_size qr - 1])) [0..qr_size qr - 1])"

definition qrSvgPath :: "jstring \<Rightarrow> exn + jstring \<times> int" where
  "qrSvgPath url = and_then (encodeText url MEDIUM) (\<lambda>qr. Inr (svg_path qr, qr_size qr))"

section \<open>Packing bits into bytes\<close>

lemma bor_low_bit:
  assumes "0 \<le> p" "b = 0 \<or> b = 1" "m \<le> 7" "p * 2 ^ Suc m < 256"
  shows "bor (p * 2 ^ Suc m) (shl b (int m)) = (2 * p + b) * 2 ^ m"
proof -
  have "(2::int) ^ m \<le> 2 ^ 7" using assms(3) by (intro power_increasing) auto
  then have l: "shl b (int m) = b * 2 ^ m" "b * 2 ^ m < 2 ^ 31" "0 \<le> b * 2 ^ m"
    using assms(2,3) by (auto simp: shl_plain)
  have "bor (p * 2 ^ Suc m) (shl b (int m)) = (p * 2 ^ Suc m) OR (b * 2 ^ m)"
    using assms(1,4) l by (simp add: bor_plain)
  also have "\<dots> = push_bit m ((2 * p) OR b)"
  proof -
    have "p * 2 ^ Suc m = push_bit m (2 * p)" "b * 2 ^ m = push_bit m b"
      by (simp_all add: push_bit_eq_mult)
    then show ?thesis by (simp only: push_bit_or)
  qed
  also have "(2 * p) OR b = 2 * p + b" using assms(2) by (auto simp: or_one_eq)
  finally show ?thesis by (simp add: push_bit_eq_mult)
qed

lemma index_of_bit:
  "j < 8 \<Longrightarrow> k < 2 ^ 20 \<Longrightarrow> nat (shr (int (8 * k + j)) 3) = k \<and> band (int (8 * k + j)) 7 = int j"
proof -
  assume "j < 8" and k: "k < 2 ^ 20"
  then have i: "int (8 * k + j) < 2 ^ 31" by simp
  have "band (int (8 * k + j)) 7 = int (8 * k + j) mod 2 ^ 3"
    using i take_bit_eq_mask [of 3 "int (8 * k + j)"]
    by (simp add: band_plain mask_eq_exp_minus_1 take_bit_eq_mod)
  with i \<open>j < 8\<close> show ?thesis by (simp add: shr_plain drop_bit_eq_div nat_eq_iff)
qed


lemma pack_byte:
  assumes "bit_list bs" "length bs = n" "n \<le> 8" "0 \<le> p" "p * 2 ^ n + bits_value bs < 256"
    "length done < 2 ^ 20"
  shows "pack_loop (int (8 * length done + (8 - n))) (bs @ rest) (done @ p * 2 ^ n # zs) =
    pack_loop (int (8 * length done + 8)) rest (done @ (p * 2 ^ n + bits_value bs) # zs)"
  using assms
proof (induction bs arbitrary: n p)
  case Nil
  then show ?case by simp
next
  case (Cons b bs)
  then obtain m where m: "n = Suc m" "length bs = m" "m \<le> 7" by (cases n) auto
  have b: "b = 0 \<or> b = 1" "bit_list bs" using Cons.prems(1) by auto
  have nonneg: "0 \<le> bits_value bs" using bits_value_bound [OF b(2)] by simp
  have v: "p * 2 ^ n + bits_value (b # bs) = (2 * p + b) * 2 ^ m + bits_value bs"
    by (simp add: m bits_value_Cons algebra_simps)
  have small: "p * 2 ^ Suc m < 256"
  proof -
    have "0 \<le> b * 2 ^ length bs" using b(1) by auto
    with Cons.prems(5) nonneg show ?thesis unfolding m(1) bits_value_Cons by linarith
  qed
  have i: "nat (shr (int (8 * length done + (8 - n))) 3) = length done"
      "band (int (8 * length done + (8 - n))) 7 = int (7 - m)"
    using index_of_bit [of "8 - n" "length done"] Cons.prems(6) m by simp_all
  have s: "7 - int (7 - m) = int m" using m(3) by simp
  have next_i: "int (8 * length done + (8 - n)) + 1 = int (8 * length done + (8 - m))" using m by simp
  have "pack_loop (int (8 * length done + (8 - n))) ((b # bs) @ rest) (done @ p * 2 ^ n # zs) =
      pack_loop (int (8 * length done + (8 - m))) (bs @ rest) (done @ (2 * p + b) * 2 ^ m # zs)"
    using bor_low_bit [OF Cons.prems(4) b(1) m(3) small]
    by (simp only: append_Cons pack_loop.simps i [unfolded m(1)] s next_i [unfolded m(1)] nth_append_length
        list_update_length m(1))
  also have "\<dots> = pack_loop (int (8 * length done + 8)) rest (done @ ((2 * p + b) * 2 ^ m + bits_value bs) # zs)"
    using Cons.prems b m v by (intro Cons.IH) auto
  finally show ?case unfolding v .
qed

lemma pack_bytes_pieces:
  assumes "bit_list bb" "length bb = 8 * m" "m + length done < 2 ^ 20"
  shows "pack_loop (int (8 * length done)) bb (done @ replicate m 0) =
    done @ map bits_value (pieces (replicate m 8) bb)"
  using assms
proof (induction m arbitrary: bb "done")
  case 0
  then show ?case by simp
next
  case (Suc m)
  let ?b = "take 8 bb" and ?r = "drop 8 bb"
  have bits: "bit_list ?b" "bit_list ?r"
    using Suc.prems(1) bit_list_simps(3) [of ?b ?r] by simp_all
  have len: "length ?b = 8" "length ?r = 8 * m" using Suc.prems(2) by simp_all
  have "bits_value ?b < 256" using bits_value_bound [OF bits(1)] len(1) by simp
  then have "pack_loop (int (8 * length done + (8 - 8))) (?b @ ?r) (done @ 0 * 2 ^ 8 # replicate m 0) =
      pack_loop (int (8 * length done + 8)) ?r (done @ (0 * 2 ^ 8 + bits_value ?b) # replicate m 0)"
    using bits len Suc.prems(3) by (intro pack_byte) simp_all
  then have "pack_loop (int (8 * length done)) bb (done @ replicate (Suc m) 0) =
      pack_loop (int (8 * length (done @ [bits_value ?b]))) ?r ((done @ [bits_value ?b]) @ replicate m 0)"
    by (simp add: add.commute)
  also have "\<dots> = (done @ [bits_value ?b]) @ map bits_value (pieces (replicate m 8) ?r)"
    using bits(2) len(2) Suc.prems(3) by (intro Suc.IH) simp_all
  finally show ?case by simp
qed

text \<open>The bit \<open>i\<close> of a sequence of codewords, as \<open>drawCodewords\<close> reads it.\<close>

definition codeword_bit :: "int list \<Rightarrow> int \<Rightarrow> bool" where
  "codeword_bit data i = getBit (data ! nat (shr i 3)) (7 - band i 7)"

lemma getBit_of_value:
  assumes "bit_list bs" "length bs = 8" "j < 8"
  shows "getBit (bits_value bs) (7 - int j) = (bs ! j = 1)"
proof -
  let ?p = "take j bs" and ?q = "drop (Suc j) bs"
  have bs: "bs = ?p @ bs ! j # ?q" using assms by (simp add: id_take_nth_drop)
  have bits: "bit_list ?p" "bit_list ?q" "bs ! j = 0 \<or> bs ! j = 1"
    using assms(1) by (subst (asm) bs, simp)+
  have len: "length ?q = 7 - j" using assms by simp
  let ?m = "7 - j"
  have v: "bits_value bs = (bits_value ?p * 2 + bs ! j) * 2 ^ ?m + bits_value ?q"
    by (subst bs) (simp add: bits_value_append bits_value_Cons assms(2) algebra_simps)
  have q: "0 \<le> bits_value ?q" "bits_value ?q < 2 ^ ?m" using bits_value_bound [OF bits(2)] len by simp_all
  have bound: "0 \<le> bits_value bs" "bits_value bs < 2 ^ 31"
    using bits_value_bound [OF assms(1)] assms(2) by simp_all
  have d: "bits_value bs div 2 ^ ?m = bits_value ?p * 2 + bs ! j"
    unfolding v using q by (simp add: div_add1_eq)
  have lb: "band (shr (bits_value bs) (int ?m)) 1 = bits_value bs div 2 ^ ?m mod 2"
    by (rule low_bit_value [OF bound]) simp
  have "bs ! j mod 2 = bs ! j" using bits(3) by (elim disjE) simp_all
  then have "(bits_value ?p * 2 + bs ! j) mod 2 = bs ! j" by presburger
  then have low: "band (shr (bits_value bs) (int ?m)) 1 = bs ! j"
    unfolding lb d .
  have "7 - int j = int ?m" using assms(3) by simp
  then have "getBit (bits_value bs) (7 - int j) = (bs ! j \<noteq> 0)"
    unfolding getBit_def by (simp only: low)
  then show ?thesis using bits(3) by linarith
qed

lemma pieces_nth: "k < m \<Longrightarrow> pieces (replicate m n) xs ! k = take n (drop (n * k) xs)"
proof (induction m arbitrary: k xs)
  case (Suc m)
  then show ?case by (cases k) (simp_all add: add.commute)
qed simp

text \<open>Packing, then reading as the drawing does, gives the bits back.\<close>

lemma pack_bytes_bits:
  assumes "bit_list bb" "length bb = 8 * m" "m < 2 ^ 20"
  shows "length (pack_bytes bb) = m" "list_all is_byte (pack_bytes bb)"
    and "\<And>i. i < length bb \<Longrightarrow> codeword_bit (pack_bytes bb) (int i) = (bb ! i = 1)"
proof -
  have p: "pack_bytes bb = map bits_value (pieces (replicate m 8) bb)"
    using pack_bytes_pieces [OF assms(1,2), of "[]"] assms(2,3) by (simp add: pack_bytes_def)
  have nth: "pieces (replicate m 8) bb ! k = take 8 (drop (8 * k) bb)" if "k < m" for k
    using that by (rule pieces_nth)
  have bits: "bit_list (take 8 (drop (8 * k) bb))" for k
    using assms(1) by (auto simp: bit_list_def list_all_iff dest!: in_set_takeD in_set_dropD)
  show "length (pack_bytes bb) = m" by (simp add: p)
  have "is_byte (pack_bytes bb ! k)" if "k < m" for k
    using bits_value_bound [OF bits [of k]] that assms(2) by (simp add: p nth is_byte_def)
  then show "list_all is_byte (pack_bytes bb)" by (simp add: list_all_length p)
  fix i assume i: "i < length bb"
  have k: "i div 8 < m" "i mod 8 < 8" "8 * (i div 8) + i mod 8 = i" using i assms(2) by (simp_all add: less_mult_imp_div_less)
  have "nat (shr (int i) 3) = i div 8" "band (int i) 7 = int (i mod 8)"
    using index_of_bit [OF k(2), of "i div 8"] k assms(3) by simp_all
  then show "codeword_bit (pack_bytes bb) (int i) = (bb ! i = 1)"
    using getBit_of_value [OF bits, of "i div 8" "i mod 8"] k i assms(2)
    by (simp add: codeword_bit_def p nth)
qed

section \<open>Choosing the version and the level\<close>

definition segment_ok :: "QrSegment \<Rightarrow> bool" where
  "segment_ok seg \<longleftrightarrow> bit_list (bitData seg) \<and> 0 \<le> numChars seg \<and>
     seg_mode seg \<in> {NUMERIC, ALPHANUMERIC, BYTE, KANJI, ECI}"

text \<open>The segments fit a version and a level.\<close>

definition fits :: "QrSegment list \<Rightarrow> int \<Rightarrow> Ecc \<Rightarrow> bool" where
  "fits segs ver ecl \<longleftrightarrow>
     (\<exists>n used. getNumDataCodewords ver ecl = Inr n \<and> getTotalBits segs ver = Some used \<and> used \<le> n * 8)"

lemma capacity_exists: "1 \<le> ver \<Longrightarrow> ver \<le> 40 \<Longrightarrow> \<exists>n. getNumDataCodewords ver ecl = Inr n \<and> 9 \<le> n"
  using table_ok [of ver ecl] by (auto simp: table_ok_def Let_def split: sum.splits)

lemma find_version_smallest:
  "1 \<le> version \<Longrightarrow> version \<le> maxVersion \<Longrightarrow> maxVersion \<le> 40 \<Longrightarrow>
   (case find_version segs ecl maxVersion version of
      Inr (v, used) \<Rightarrow> version \<le> v \<and> v \<le> maxVersion \<and> getTotalBits segs v = Some used \<and> fits segs v ecl \<and>
        (\<forall>v'. version \<le> v' \<and> v' < v \<longrightarrow> \<not> fits segs v' ecl)
    | Inl e \<Rightarrow> e = RangeError (js ''Data too long'') \<and>
        (\<forall>v'. version \<le> v' \<and> v' \<le> maxVersion \<longrightarrow> \<not> fits segs v' ecl))"
proof (induction segs ecl maxVersion version rule: find_version.induct)
  case (1 segs ecl maxVersion version)
  obtain n where n: "getNumDataCodewords version ecl = Inr n"
    using capacity_exists [of version ecl] "1.prems" by auto
  show ?case
  proof (cases "fits segs version ecl")
    case True
    then obtain used where "getTotalBits segs version = Some used" "used \<le> n * 8"
      using n by (auto simp: fits_def)
    then show ?thesis using True n "1.prems" by (subst find_version.simps) auto
  next
    case False
    have late: "find_version segs ecl maxVersion version =
        (if version \<ge> maxVersion then Inl (RangeError (js ''Data too long''))
         else find_version segs ecl maxVersion (version + 1))"
      using False n by (subst find_version.simps) (auto simp: fits_def simp del: js_Cons split: option.splits)
    show ?thesis
    proof (cases "version \<ge> maxVersion")
      case True
      then have "\<forall>v'. version \<le> v' \<and> v' \<le> maxVersion \<longrightarrow> v' = version" using "1.prems" by auto
      with False have "\<forall>v'. version \<le> v' \<and> v' \<le> maxVersion \<longrightarrow> \<not> fits segs v' ecl" by metis
      with True show ?thesis unfolding late by simp
    next
      case less: False
      have ih: "case find_version segs ecl maxVersion (version + 1) of
          Inr (v, used) \<Rightarrow> version + 1 \<le> v \<and> v \<le> maxVersion \<and> getTotalBits segs v = Some used \<and> fits segs v ecl \<and>
            (\<forall>v'. version + 1 \<le> v' \<and> v' < v \<longrightarrow> \<not> fits segs v' ecl)
        | Inl e \<Rightarrow> e = RangeError (js ''Data too long'') \<and>
            (\<forall>v'. version + 1 \<le> v' \<and> v' \<le> maxVersion \<longrightarrow> \<not> fits segs v' ecl)"
      proof (cases "getTotalBits segs version")
        case None
        from "1.IH"(1) [OF n None less] less "1.prems" show ?thesis by simp
      next
        case (Some used)
        then have "\<not> used \<le> n * 8" using False n by (auto simp: fits_def)
        from "1.IH"(2) [OF n Some this less] less "1.prems" show ?thesis by simp
      qed
      have split: "version \<le> v' \<longleftrightarrow> v' = version \<or> version + 1 \<le> v'" for v' :: int by auto
      show ?thesis
        using ih False less unfolding late split by (auto split: sum.splits prod.splits simp del: js_Cons)
    qed
  qed
qed

lemma level_table:
  "\<forall>ver\<in>set [1..40].
     (case (getNumDataCodewords ver LOW, getNumDataCodewords ver MEDIUM,
            getNumDataCodewords ver QUARTILE, getNumDataCodewords ver HIGH) of
        (Inr l, Inr m, Inr q, Inr h) \<Rightarrow> h < q \<and> q < m \<and> m < l | _ \<Rightarrow> False)"
  by code_simp

lemma boost_level_highest:
  assumes "1 \<le> ver" "ver \<le> 40" "fits segs ver ecl" "getTotalBits segs ver = Some used"
  shows "\<exists>ecl'. boost_level ver boostEcl used [MEDIUM, QUARTILE, HIGH] ecl = Inr ecl' \<and>
    fits segs ver ecl' \<and>
    (if boostEcl then \<forall>l. fits segs ver l \<longrightarrow> ordinal l \<le> ordinal ecl' else ecl' = ecl)"
proof -
  obtain l m q h where c: "getNumDataCodewords ver LOW = Inr l" "getNumDataCodewords ver MEDIUM = Inr m"
      "getNumDataCodewords ver QUARTILE = Inr q" "getNumDataCodewords ver HIGH = Inr h"
      "h < q" "q < m" "m < l"
    using level_table [rule_format, OF version_cases [OF assms(1,2)]] by (auto split: sum.splits)
  have f: "fits segs ver LOW \<longleftrightarrow> used \<le> l * 8" "fits segs ver MEDIUM \<longleftrightarrow> used \<le> m * 8"
      "fits segs ver QUARTILE \<longleftrightarrow> used \<le> q * 8" "fits segs ver HIGH \<longleftrightarrow> used \<le> h * 8"
    using c assms(4) by (auto simp: fits_def)
  have all: "(\<forall>x. P x) \<longleftrightarrow> P LOW \<and> P MEDIUM \<and> P QUARTILE \<and> P HIGH" for P
    by (metis Ecc.exhaust)
  show ?thesis
    using assms(3) c(5-7) unfolding all by (cases boostEcl; cases ecl) (simp_all add: c(1-4) f)
qed

section \<open>The data codewords\<close>

lemma char_count_bits:
  assumes "mode \<in> {NUMERIC, ALPHANUMERIC, BYTE, KANJI, ECI}" "1 \<le> ver" "ver \<le> 40"
  shows "0 \<le> numCharCountBits mode ver \<and> numCharCountBits mode ver \<le> 16"
proof -
  have "(ver + 7) div 17 \<in> {0, 1, 2}" using assms(2,3) by auto
  with assms(1) show ?thesis
    by (auto simp: numCharCountBits_def NUMERIC_def ALPHANUMERIC_def BYTE_def KANJI_def ECI_def)
qed

lemma mode_bits: "mode \<in> {NUMERIC, ALPHANUMERIC, BYTE, KANJI, ECI} \<Longrightarrow> 0 \<le> modeBits mode \<and> modeBits mode < 16"
  by (auto simp: NUMERIC_def ALPHANUMERIC_def BYTE_def KANJI_def ECI_def)

lemma append_int:
  assumes "0 \<le> val" "0 \<le> len" "len \<le> 31" "val < 2 ^ nat len"
  shows "\<exists>bits. appendBits val len bb = Inr (bb @ bits) \<and> bit_list bits \<and> int (length bits) = len"
  using appendBits_ok [OF assms] low_bits_small [of val "nat len"] assms
  by (intro exI [of _ "low_bits val (nat len)"]) simp

lemma segment_bits_total:
  assumes "1 \<le> ver" "ver \<le> 40"
  shows "list_all segment_ok segs \<Longrightarrow> total_from segs ver r = Some t \<Longrightarrow>
    \<exists>bits. segment_bits ver segs bb = Inr (bb @ bits) \<and> bit_list bits \<and> r + int (length bits) = t"
proof (induction segs arbitrary: r bb)
  case Nil
  then show ?case by simp
next
  case (Cons seg segs)
  let ?c = "numCharCountBits (seg_mode seg) ver"
  have ok: "bit_list (bitData seg)" "0 \<le> numChars seg" "seg_mode seg \<in> {NUMERIC, ALPHANUMERIC, BYTE, KANJI, ECI}"
    using Cons.prems(1) by (auto simp: segment_ok_def)
  have c: "0 \<le> ?c" "?c \<le> 16" using char_count_bits [OF ok(3) assms] by auto
  have "(2::int) ^ nat ?c \<le> 2 ^ 16" using c by (intro power_increasing) auto
  then have "shl 1 ?c = 2 ^ nat ?c" using c by (simp add: shl_plain)
  then have n: "numChars seg < 2 ^ nat ?c"
    and t: "total_from segs ver (r + (4 + ?c + int (length (bitData seg)))) = Some t"
    using Cons.prems(2) by (auto simp: Let_def split: if_splits)
  obtain b1 where b1: "appendBits (modeBits (seg_mode seg)) 4 bb = Inr (bb @ b1)" "bit_list b1" "int (length b1) = 4"
    using append_int [of "modeBits (seg_mode seg)" 4 bb] mode_bits [OF ok(3)] by auto
  obtain b2 where b2: "appendBits (numChars seg) ?c (bb @ b1) = Inr ((bb @ b1) @ b2)" "bit_list b2" "int (length b2) = ?c"
    using append_int [OF ok(2) c(1) _ n, of "bb @ b1"] c(2) by auto
  obtain rest where rest: "segment_bits ver segs (bb @ b1 @ b2 @ bitData seg) = Inr ((bb @ b1 @ b2 @ bitData seg) @ rest)"
      "bit_list rest" "r + (4 + ?c + int (length (bitData seg))) + int (length rest) = t"
    using Cons.IH [OF _ t, of "bb @ b1 @ b2 @ bitData seg"] Cons.prems(1) by auto
  show ?case
    using b1 b2 rest ok(1) by (intro exI [of _ "b1 @ b2 @ bitData seg @ rest"]) simp
qed

lemma pad_codewords_fill:
  "p = 0xec \<or> p = 0x11 \<Longrightarrow> 8 dvd length bb \<Longrightarrow> length bb \<le> 8 * n \<Longrightarrow>
    \<exists>pad. pad_codewords (int n * 8) p bb = Inr (bb @ pad) \<and> bit_list pad \<and> length (bb @ pad) = 8 * n"
proof (induction "int n * 8" p bb rule: pad_codewords.induct)
  case (1 p bb)
  show ?case
  proof (cases "length bb < 8 * n")
    case False
    then show ?thesis using "1.prems" by (subst pad_codewords.simps) simp
  next
    case True
    then have less: "int (length bb) < int n * 8" by simp
    obtain bits where bits: "appendBits p 8 bb = Inr (bb @ bits)" "bit_list bits" "int (length bits) = 8"
      using append_int [of p 8 bb] "1.prems"(1) by auto
    have "bxor 0xec (bxor 0xec 0x11) = 0x11" "bxor 0x11 (bxor 0xec 0x11) = 0xec" by code_simp+
    then have p: "bxor p (bxor 0xec 0x11) = 0xec \<or> bxor p (bxor 0xec 0x11) = 0x11" using "1.prems"(1) by auto
    have "8 dvd length (bb @ bits)" "length (bb @ bits) \<le> 8 * n"
      using "1.prems"(2) bits(3) True by (auto elim!: dvdE)
    from "1.hyps" [OF less bits(1) p this] obtain pad where
      "pad_codewords (int n * 8) (bxor p (bxor 0xec 0x11)) (bb @ bits) = Inr ((bb @ bits) @ pad)"
      "bit_list pad" "length ((bb @ bits) @ pad) = 8 * n" by blast
    then show ?thesis using less bits(1,2)
      by (subst pad_codewords.simps) (simp add: exI [of _ "bits @ pad"])
  qed
qed


lemma zeros_bits:
  assumes "0 \<le> len" "len \<le> 8"
  shows "\<exists>bits. appendBits 0 len bb = Inr (bb @ bits) \<and> bit_list bits \<and> int (length bits) = len"
  using assms by (intro append_int) auto

text \<open>The padding steps, from the segments' bits to the capacity.\<close>

lemma data_codewords_fill:
  assumes "1 \<le> ver" "ver \<le> 40" "list_all segment_ok segs"
    and "getTotalBits segs ver = Some used" "getNumDataCodewords ver ecl = Inr n" "used \<le> n * 8"
  shows "\<exists>bits cws. segment_bits ver segs [] = Inr bits \<and> data_codewords segs ver ecl used = Inr cws \<and>
    int (length bits) = used \<and> int (length cws) = n \<and> list_all is_byte cws \<and>
    (\<forall>i<length bits. codeword_bit cws (int i) = (bits ! i = 1))"
proof -
  obtain bits where bits: "segment_bits ver segs [] = Inr bits" "bit_list bits" "int (length bits) = used"
    using segment_bits_total [OF assms(1-3), of 0 used "[]"] assms(4) by (auto simp: getTotalBits_def)
  have n: "0 \<le> n" "n < 2 ^ 20"
    using capacity_range [OF assms(1,2), of ecl] assms(5) by auto
  obtain m where m: "n = int m" using n(1) by (metis nonneg_int_cases)
  let ?t = "min 4 (n * 8 - int (length bits))"
  have t: "0 \<le> ?t" "?t \<le> 8" using bits(3) assms(6) by (auto simp: min_def)
  obtain z1 where z1: "appendBits 0 ?t bits = Inr (bits @ z1)" "bit_list z1" "int (length z1) = ?t"
    using zeros_bits [OF t, of bits] by blast
  let ?l = "int (length (bits @ z1))"
  let ?u = "(8 - ?l mod 8) mod 8"
  have u: "0 \<le> ?u" "?u < 8" by simp_all
  obtain z2 where z2: "appendBits 0 ?u (bits @ z1) = Inr ((bits @ z1) @ z2)" "bit_list z2" "int (length z2) = ?u"
    using zeros_bits [OF u(1) less_imp_le [OF u(2)], of "bits @ z1"] by blast
  have l: "?l \<le> n * 8" using z1(3) by simp
  have len: "int (length (bits @ z1 @ z2)) = ?l + ?u" using z2(3) by simp
  have even: "(?l + ?u) mod 8 = 0" by presburger
  have "?l + ?u \<le> n * 8" using l u even by presburger
  then have cap: "length (bits @ z1 @ z2) \<le> 8 * m" "8 dvd length (bits @ z1 @ z2)"
    using len even unfolding m by presburger+
  obtain pad where pad: "pad_codewords (int m * 8) 0xec (bits @ z1 @ z2) = Inr ((bits @ z1 @ z2) @ pad)"
      "bit_list pad" "length ((bits @ z1 @ z2) @ pad) = 8 * m"
    using pad_codewords_fill [where p = "0xec", OF _ cap(2,1)] by auto
  let ?all = "(bits @ z1 @ z2) @ pad"
  have all: "bit_list ?all" using bits(2) z1(2) z2(2) pad(2) by simp
  have m20: "m < 2 ^ 20" using n(2) m by simp
  note packed = pack_bytes_bits [OF all pad(3) m20]
  have "data_codewords segs ver ecl used = Inr (pack_bytes ?all)"
    using bits(1,3) assms(5,6) z1(1) z2(1) even len pad(1)
    by (simp add: data_codewords_def m add.assoc)
  moreover have "codeword_bit (pack_bytes ?all) (int i) = (bits ! i = 1)" if "i < length bits" for i
    using packed(3) [of i] that pad(3) by (simp add: nth_append)
  ultimately show ?thesis
    using bits packed(1,2) m by (intro exI [of _ bits] exI [of _ "pack_bytes ?all"]) simp
qed

lemma codewords_of_segments:
  assumes "1 \<le> minVersion" "minVersion \<le> maxVersion" "maxVersion \<le> 40" "list_all segment_ok segs"
  shows "case find_version segs ecl maxVersion minVersion of
      Inl e \<Rightarrow> e = RangeError (js ''Data too long'') \<and>
        (\<forall>v. minVersion \<le> v \<and> v \<le> maxVersion \<longrightarrow> \<not> fits segs v ecl)
    | Inr (ver, used) \<Rightarrow> minVersion \<le> ver \<and> ver \<le> maxVersion \<and> fits segs ver ecl \<and>
        (\<forall>v. minVersion \<le> v \<and> v < ver \<longrightarrow> \<not> fits segs v ecl) \<and>
        (\<exists>ecl' bits cws. boost_level ver boostEcl used [MEDIUM, QUARTILE, HIGH] ecl = Inr ecl' \<and>
           (if boostEcl then fits segs ver ecl' \<and> (\<forall>l. fits segs ver l \<longrightarrow> ordinal l \<le> ordinal ecl')
            else ecl' = ecl) \<and>
           segment_bits ver segs [] = Inr bits \<and>
           data_codewords segs ver ecl' used = Inr cws \<and>
           getNumDataCodewords ver ecl' = Inr (int (length cws)) \<and> list_all is_byte cws \<and>
           (\<forall>i<length bits. codeword_bit cws (int i) = (bits ! i = 1)))"
proof (cases "find_version segs ecl maxVersion minVersion")
  case (Inl e)
  then show ?thesis using find_version_smallest [OF assms(1-3), of segs ecl] by simp
next
  case (Inr r)
  obtain ver used where r: "r = (ver, used)" by fastforce
  have v: "minVersion \<le> ver" "ver \<le> maxVersion" "getTotalBits segs ver = Some used" "fits segs ver ecl"
      "\<forall>v. minVersion \<le> v \<and> v < ver \<longrightarrow> \<not> fits segs v ecl"
    using find_version_smallest [OF assms(1-3), of segs ecl] Inr r by auto
  have range: "1 \<le> ver" "ver \<le> 40" using v(1,2) assms(1,3) by auto
  obtain ecl' where ecl': "boost_level ver boostEcl used [MEDIUM, QUARTILE, HIGH] ecl = Inr ecl'"
      "fits segs ver ecl'"
      "if boostEcl then \<forall>l. fits segs ver l \<longrightarrow> ordinal l \<le> ordinal ecl' else ecl' = ecl"
    using boost_level_highest [OF range v(4,3)] by blast
  obtain n where n: "getNumDataCodewords ver ecl' = Inr n" "used \<le> n * 8"
    using ecl'(2) v(3) by (auto simp: fits_def)
  obtain bits cws where d: "segment_bits ver segs [] = Inr bits" "data_codewords segs ver ecl' used = Inr cws"
      "int (length cws) = n" "list_all is_byte cws"
      "\<forall>i<length bits. codeword_bit cws (int i) = (bits ! i = 1)"
    using data_codewords_fill [OF range assms(4) v(3) n] by blast
  then have "getNumDataCodewords ver ecl' = Inr (int (length cws))" using n(1) by simp
  then show ?thesis
    unfolding Inr r using v(1,2,4,5) ecl' d by auto
qed

section \<open>The finished code\<close>

text \<open>What no step changes, whether it succeeds or throws: version, level, size, the square shape of the
  modules, and, but for the one assignment, the mask.\<close>

definition shaped :: "int \<Rightarrow> Ecc \<Rightarrow> qr_object \<Rightarrow> bool" where
  "shaped ver ecl q \<longleftrightarrow> qr_version q = ver \<and> errorCorrectionLevel q = ecl \<and> qr_size q = ver * 4 + 17 \<and>
     square (ver * 4 + 17) (modules q)"

definition keeps_shape :: "int \<Rightarrow> Ecc \<Rightarrow> (qr_object, 'a) action \<Rightarrow> bool" where
  "keeps_shape ver ecl m \<longleftrightarrow>
     keeps (\<lambda>q q'. (shaped ver ecl q \<longrightarrow> shaped ver ecl q') \<and> qr_mask q' = qr_mask q) m"

lemma shape_preorder:
  "preorder_rel (\<lambda>q q'. (shaped ver ecl q \<longrightarrow> shaped ver ecl q') \<and> qr_mask q' = qr_mask q)"
  by (auto simp: preorder_rel_def intro!: reflpI transpI)

named_theorems shape_rules \<open>actions that keep the shape\<close>

lemma shape_basic [shape_rules]:
  "keeps_shape ver ecl (return_value x)" "keeps_shape ver ecl (throw e)"
  "keeps_shape ver ecl (read_state f)" "keeps_shape ver ecl (lift_result r)"
  unfolding keeps_shape_def using shape_preorder by blast+

lemma shape_await [shape_rules]:
  "keeps_shape ver ecl m \<Longrightarrow> (\<And>x. keeps_shape ver ecl (k x)) \<Longrightarrow> keeps_shape ver ecl (await m k)"
  unfolding keeps_shape_def by (intro keeps_await shape_preorder)

lemma shape_for_each [shape_rules]:
  "(\<And>x. keeps_shape ver ecl (f x)) \<Longrightarrow> keeps_shape ver ecl (for_each xs f)"
  unfolding keeps_shape_def by (intro keeps_for_each shape_preorder)

lemma shape_for_each_with [shape_rules]:
  "(\<And>x b. keeps_shape ver ecl (f x b)) \<Longrightarrow> keeps_shape ver ecl (for_each_with xs b f)"
  unfolding keeps_shape_def by (intro keeps_for_each_with shape_preorder)

lemma shape_if [shape_rules]:
  "keeps_shape ver ecl m \<Longrightarrow> keeps_shape ver ecl m' \<Longrightarrow> keeps_shape ver ecl (if b then m else m')"
  by simp

lemma set_module_shape [shape_rules]: "keeps_shape ver ecl (set_module x y v)"
proof -
  have "square n m'" if "square n m" "write_cell m x y v = Inr m'" for n m m'
  proof -
    have b: "0 \<le> y" "y < n" "0 \<le> x" "x < n"
      using that square_row [OF that(1), of y] by (auto simp: write_cell_def square_def split: if_splits)
    show ?thesis using write_cell_ok [OF that(1) b(3,4,1,2), of v] that(2) by simp
  qed
  then show ?thesis
    unfolding keeps_shape_def keeps_def set_module_def
    by (auto simp: await_def shaped_def split: sum.splits)
qed

lemma write_function_shape [shape_rules]: "keeps_shape ver ecl (write_state (\<lambda>q. q\<lparr>isFunction := f\<rparr>))"
  unfolding keeps_shape_def keeps_def by (simp add: shaped_def)

lemma drawing_shape [shape_rules]:
  "keeps_shape ver ecl (setFunctionModule x y v)" "keeps_shape ver ecl (drawFinderPattern x y)"
  "keeps_shape ver ecl (drawAlignmentPattern x y)" "keeps_shape ver ecl (mask_cell msk y x)"
  "keeps_shape ver ecl (place_bit data p i)"
  unfolding setFunctionModule_def drawFinderPattern_def drawAlignmentPattern_def mask_cell_def place_bit_def
    Let_def case_prod_beta
  by (intro shape_rules)+

lemma patterns_shape [shape_rules]:
  "keeps_shape ver ecl (drawFormatBits msk)" "keeps_shape ver ecl drawVersion"
  "keeps_shape ver ecl (applyMask msk)" "keeps_shape ver ecl (drawCodewords data)"
  unfolding drawFormatBits_def drawVersion_def applyMask_def drawCodewords_def Let_def
  by (intro shape_rules)+

lemma construct_shape [shape_rules]:
  "keeps_shape ver ecl drawFunctionPatterns" "keeps_shape ver ecl (try_mask i best)"
  unfolding drawFunctionPatterns_def try_mask_def Let_def by (intro shape_rules)+

lemma draw_shape: "keeps_shape ver ecl (draw_data dataCodewords)" "keeps_shape ver ecl (choose_mask msk)"
  unfolding draw_data_def choose_mask_def by (intro shape_rules)+

lemma keeps_shapeD:
  "keeps_shape ver ecl m \<Longrightarrow> m q = (r, q') \<Longrightarrow> (shaped ver ecl q \<longrightarrow> shaped ver ecl q') \<and> qr_mask q' = qr_mask q"
  unfolding keeps_shape_def by (drule (1) keepsD)

lemma choose_mask_given: "choose_mask msk q = (Inr m, q') \<Longrightarrow> msk \<noteq> - 1 \<Longrightarrow> m = msk"
  by (simp add: choose_mask_def)

lemma finish_mask_shape:
  assumes "finish_mask m q = (Inr (), q')" "shaped ver ecl q"
  shows "0 \<le> m \<and> m \<le> 7 \<and> shaped ver ecl q' \<and> qr_mask q' = m \<and> isFunction q' = []"
proof -
  have m: "0 \<le> m" "m \<le> 7"
    using assms(1) by (auto simp: finish_mask_def await_def check_def split: if_splits)
  let ?q = "q\<lparr>qr_mask := m\<rparr>"
  have "finish_mask m q = await (applyMask m) (\<lambda>_. await (drawFormatBits m) (\<lambda>_.
      write_state (\<lambda>q. q\<lparr>isFunction := []\<rparr>))) ?q"
    using m by (simp add: finish_mask_def await_def)
  with assms(1) obtain q1 q2 where "applyMask m ?q = (Inr (), q1)" "drawFormatBits m q1 = (Inr (), q2)"
      "q' = q2\<lparr>isFunction := []\<rparr>"
    by (auto elim!: await_InrE)
  moreover have "shaped ver ecl ?q" "qr_mask ?q = m" using assms(2) by (simp_all add: shaped_def)
  ultimately show ?thesis
    using keeps_shapeD [OF patterns_shape(3), of m ?q _ q1 ver ecl] keeps_shapeD [OF patterns_shape(1), of m q1 _ q2 ver ecl]
      m by (simp add: shaped_def)
qed

lemma newQrCode_shape:
  assumes "newQrCode ver ecl dataCodewords msk = Inr q"
  shows "1 \<le> ver \<and> ver \<le> 40 \<and> - 1 \<le> msk \<and> msk \<le> 7 \<and> qr_version q = ver \<and>
    errorCorrectionLevel q = ecl \<and> qr_size q = ver * 4 + 17 \<and> square (qr_size q) (modules q) \<and>
    isFunction q = [] \<and> 0 \<le> qr_mask q \<and> qr_mask q \<le> 7 \<and> (msk \<noteq> - 1 \<longrightarrow> qr_mask q = msk)"
proof -
  have range: "1 \<le> ver" "ver \<le> 40" "- 1 \<le> msk" "msk \<le> 7"
    using assms by (auto simp: newQrCode_def MIN_VERSION_def MAX_VERSION_def split: if_splits)
  have "construct dataCodewords msk (blank_code ver ecl) = (Inr (), q)"
    using assms by (auto simp: newQrCode_def split: if_splits prod.splits sum.splits)
  then obtain u q1 m q2 where 1: "draw_data dataCodewords (blank_code ver ecl) = (Inr u, q1)"
      and 2: "choose_mask msk q1 = (Inr m, q2)" and 3: "finish_mask m q2 = (Inr (), q)"
    unfolding construct_def by (elim await_InrE)
  have "shaped ver ecl (blank_code ver ecl)"
    using blank_drawing [OF range(1), of ecl] by (simp add: drawing_def shaped_def)
  then have "shaped ver ecl q2"
    using keeps_shapeD [OF draw_shape(1) 1, of ver ecl] keeps_shapeD [OF draw_shape(2) 2, of ver ecl] by blast
  from finish_mask_shape [OF 3 this] choose_mask_given [OF 2] range
  show ?thesis by (auto simp: shaped_def)
qed

section \<open>Drawing the data\<close>

text \<open>Function modules only where \<open>F\<close> allows.\<close>

definition confined :: "(int \<Rightarrow> int \<Rightarrow> bool) \<Rightarrow> int \<Rightarrow> Ecc \<Rightarrow> qr_object \<Rightarrow> bool" where
  "confined F ver ecl q \<longleftrightarrow> drawing ver ecl q \<and>
     (\<forall>x y. inside ver x \<and> inside ver y \<and> cell (isFunction q) x y \<longrightarrow> F x y)"

lemma setFunctionModule_confined:
  assumes "inside ver x" "inside ver y" "F x y"
  shows "stays (confined F ver ecl) (setFunctionModule x y v)"
  unfolding stays_def
proof (intro allI impI)
  fix q assume q: "confined F ver ecl q"
  then have d: "drawing ver ecl q" by (simp add: confined_def)
  let ?n = "ver * 4 + 17"
  have sq: "square ?n (modules q)" "square ?n (isFunction q)" using d by (simp_all add: drawing_def)
  have xy: "0 \<le> x" "x < ?n" "0 \<le> y" "y < ?n" using assms(1,2) by (simp_all add: inside_def)
  let ?f = "(isFunction q)[nat y := (isFunction q ! nat y)[nat x := True]]"
  let ?m = "(modules q)[nat y := (modules q ! nat y)[nat x := v]]"
  let ?q = "q\<lparr>modules := ?m, isFunction := ?f\<rparr>"
  have "setFunctionModule x y v q = (Inr (), ?q)"
    using write_cell_ok(1) [OF sq(1) xy] write_cell_ok(1) [OF sq(2) xy]
    by (simp add: setFunctionModule_def set_module_def await_def)
  moreover have "confined F ver ecl ?q"
    using q assms(3) d write_cell_ok(2) [OF sq(1) xy] write_cell_ok(2) [OF sq(2) xy] cell_update [OF sq(2) xy]
    by (auto simp: confined_def drawing_def inside_def split: if_splits)
  ultimately show "\<exists>u q'. setFunctionModule x y v q = (Inr u, q') \<and> confined F ver ecl q'" by blast
qed

lemma confined_size: "confined F ver ecl q \<Longrightarrow> qr_size q = ver * 4 + 17"
  by (simp add: confined_def drawing_def)

lemma drawFinderPattern_confined:
  assumes "\<And>dx dy. - 4 \<le> dx \<Longrightarrow> dx \<le> 4 \<Longrightarrow> - 4 \<le> dy \<Longrightarrow> dy \<le> 4 \<Longrightarrow>
    inside ver (x + dx) \<Longrightarrow> inside ver (y + dy) \<Longrightarrow> F (x + dx) (y + dy)"
  shows "stays (confined F ver ecl) (drawFinderPattern x y)"
  unfolding drawFinderPattern_def Let_def
  by (intro stays_for_each stays_read [where c = "ver * 4 + 17"] confined_size)
    (auto intro!: setFunctionModule_confined assms simp: inside_def)

lemma drawFormatBits_confined:
  assumes "0 \<le> msk" "msk \<le> 7" "1 \<le> ver"
    and "\<And>i. 0 \<le> i \<Longrightarrow> i \<le> 8 \<Longrightarrow> F 8 i \<and> F i 8"
    and "\<And>i. 1 \<le> i \<Longrightarrow> i \<le> 8 \<Longrightarrow> F (ver * 4 + 17 - i) 8 \<and> F 8 (ver * 4 + 17 - i)"
  shows "stays (confined F ver ecl) (drawFormatBits msk)"
proof -
  have far: "F (ver * 4 + 17 - 1 - i) 8" if "0 \<le> i" "i \<le> 7" for i
    using assms(5) [of "i + 1"] that by (simp add: algebra_simps)
  have low: "F 8 (ver * 4 + 17 - 15 + i)" if "8 \<le> i" "i \<le> 14" for i
    using assms(5) [of "15 - i"] that by (simp add: algebra_simps)
  have eight: "F 8 (ver * 4 + 17 - 8)" using assms(5) [of 8] by simp
  have mid: "F (14 - i) 8" if "9 \<le> i" "i \<le> 14" for i using assms(4) [of "14 - i"] that by simp
  show ?thesis
    unfolding drawFormatBits_def Let_def format_word_ok [OF assms(1,2)] using assms(3)
    by (intro stays_read [where c = ecl] stays_read [where c = "ver * 4 + 17"] stays_await
        stays_for_each setFunctionModule_confined)
      (use far low [of 8] low [of 9] low [of 10] low [of 11] low [of 12] low [of 13] low [of 14]
          eight mid assms(4) in \<open>auto simp: confined_def drawing_def inside_def intro!: stays_lift\<close>)
qed

text \<open>The bit index after the scan: every data module takes a bit while there are bits.\<close>

lemma place_bits_count:
  assumes "list_all (\<lambda>(x, y). inside ver x \<and> inside ver y) ps" "drawing ver ecl q" "i \<le> int (length data) * 8"
  shows "\<exists>q'. for_each_with ps i (place_bit data) q =
    (Inr (min (i + int (length (filter (\<lambda>(x, y). \<not> cell (isFunction q) x y) ps))) (int (length data) * 8)), q') \<and>
    drawing ver ecl q' \<and> isFunction q' = isFunction q"
  using assms
proof (induction ps arbitrary: q i)
  case Nil
  then show ?case by simp
next
  case (Cons p ps)
  obtain x y where p: "p = (x, y)" by fastforce
  have xy: "inside ver x" "inside ver y" using Cons.prems(1) p by auto
  show ?case
  proof (cases "\<not> cell (isFunction q) x y \<and> i < int (length data) * 8")
    case False
    then have step: "place_bit data p i q = (Inr i, q)" by (auto simp: place_bit_def p await_def)
    obtain q' where "for_each_with ps i (place_bit data) q =
        (Inr (min (i + int (length (filter (\<lambda>(x, y). \<not> cell (isFunction q) x y) ps))) (int (length data) * 8)), q')"
        "drawing ver ecl q'" "isFunction q' = isFunction q"
      using Cons.IH [of q i] Cons.prems by auto
    then show ?thesis using step False Cons.prems(3) by (auto simp: await_def p)
  next
    case True
    let ?v = "getBit (data ! nat (shr i 3)) (7 - band i 7)"
    have sq: "square (ver * 4 + 17) (modules q)" using Cons.prems(2) by (simp add: drawing_def)
    have b: "0 \<le> x" "x < ver * 4 + 17" "0 \<le> y" "y < ver * 4 + 17" using xy by (simp_all add: inside_def)
    let ?q = "q\<lparr>modules := (modules q)[nat y := (modules q ! nat y)[nat x := ?v]]\<rparr>"
    have step: "place_bit data p i q = (Inr (i + 1), ?q)"
      using True write_cell_ok(1) [OF sq b] by (simp add: place_bit_def p await_def set_module_def)
    have "drawing ver ecl ?q"
      using Cons.prems(2) write_cell_ok(2) [OF sq b] by (simp add: drawing_def)
    then obtain q' where "for_each_with ps (i + 1) (place_bit data) ?q =
        (Inr (min (i + 1 + int (length (filter (\<lambda>(x, y). \<not> cell (isFunction q) x y) ps))) (int (length data) * 8)), q')"
        "drawing ver ecl q'" "isFunction q' = isFunction q"
      using Cons.IH [of ?q "i + 1"] Cons.prems True by auto
    then show ?thesis using step True by (auto simp: await_def p)
  qed
qed

lemma applyMask_drawing:
  assumes "0 \<le> msk" "msk \<le> 7" "drawing ver ecl q"
  shows "\<exists>q'. applyMask msk q = (Inr (), q') \<and> drawing ver ecl q'"
proof -
  have "square (qr_size q) (modules q)" using assms(3) by (simp add: drawing_def)
  from applyMask_masks [OF assms(1,2) this] obtain q' where "applyMask msk q = (Inr (), q')"
      "masked msk {(x, y). 0 \<le> x \<and> x < qr_size q \<and> 0 \<le> y \<and> y < qr_size q} q q'" by blast
  then show ?thesis using assms(3) by (auto simp: masked_def drawing_def)
qed

lemma finish_mask_returns:
  assumes "0 \<le> msk" "msk \<le> 7" "1 \<le> ver" "drawing ver ecl q"
  shows "\<exists>q'. finish_mask msk q = (Inr (), q')"
proof -
  have "drawing ver ecl (q\<lparr>qr_mask := msk\<rparr>)" using assms(4) by (simp add: drawing_def)
  then obtain q1 where 1: "applyMask msk (q\<lparr>qr_mask := msk\<rparr>) = (Inr (), q1)" "drawing ver ecl q1"
    using applyMask_drawing [OF assms(1,2)] by blast
  obtain u q2 where 2: "drawFormatBits msk q1 = (Inr u, q2)"
    using staysE [OF drawFormatBits_stays [OF assms(1-3), of ecl] 1(2)] by metis
  show ?thesis using 1(1) 2 assms(1,2) by (simp add: finish_mask_def await_def)
qed

end
