(* ===== verification/Qr_Total.thy ===== *)
theory Qr_Total
  imports Qr_Code
begin

text \<open>
  The generator of \<open>lib/qr.ts\<close> always answers: the penalty score stays in the range its assertions
  name, a mask is found, the zigzag scan meets exactly the modules left free by the function patterns,
  and they are as many as \<open>getNumRawDataModules\<close> says. So the constructor returns for every version,
  level and mask, and \<open>encodeText\<close> throws only on a malformed text or one that is too long.
\<close>

section \<open>The penalty score never asserts\<close>

text \<open>A history of seven run lengths, each at most three sides.\<close>

definition run_history :: "int \<Rightarrow> int list \<Rightarrow> bool" where
  "run_history sz h \<longleftrightarrow> (\<exists>a b c d e f g. h = [a, b, c, d, e, f, g]) \<and> list_all (\<lambda>a. 0 \<le> a \<and> a \<le> sz * 3) h"

lemma count_patterns:
  assumes "run_history sz h"
  shows "\<exists>c. finderPenaltyCountPatterns sz h = Inr c \<and> 0 \<le> c \<and> 40 * c \<le> 27 * (h ! 3)"
proof -
  obtain a b c d e f g where h: "h = [a, b, c, d, e, f, g]" and r: "0 \<le> b" "b \<le> sz * 3" "0 \<le> d"
    using assms by (auto simp: run_history_def)
  show ?thesis
  proof (cases "0 < b \<and> d = b * 3")
    case True
    then have "27 * 3 \<le> 27 * d" by simp
    then show ?thesis using r by (auto simp: finderPenaltyCountPatterns_def h Let_def)
  next
    case False
    then show ?thesis using r by (auto simp: finderPenaltyCountPatterns_def h Let_def)
  qed
qed

lemma add_history:
  assumes "run_history sz h" "0 \<le> run" "run \<le> sz * 2"
  shows "run_history sz (finderPenaltyAddHistory sz run h)"
    and "finderPenaltyAddHistory sz run h ! Suc i = (if i < 6 then h ! i else finderPenaltyAddHistory sz run h ! Suc i)"
    and "finderPenaltyAddHistory sz run h ! 0 = (if h ! 0 = 0 then run + sz else run)"
  using assms
  by (auto simp: run_history_def finderPenaltyAddHistory_def Let_def less_Suc_eq numeral_eq_Suc)

text \<open>Dark modules whose run is not yet in the middle of a pattern.\<close>

definition pending_dark :: "bool \<Rightarrow> int \<Rightarrow> int list \<Rightarrow> int" where
  "pending_dark color run h = (if color then run + h ! 1 else h ! 0 + h ! 2)"

lemma penalty_line_bound:
  assumes "run_history sz h" "0 \<le> run" "run + int (length cs) \<le> sz" "0 < sz"
    and "color \<longrightarrow> 0 < h ! 0" "h ! 0 = 0 \<or> 0 < run"
  shows "\<exists>r. penalty_line sz cs color run h result = Inr r \<and> result \<le> r \<and>
    r \<le> result + 30 * int (length cs) + 27 * pending_dark color run h"
  using assms
proof (induction sz cs color run h result rule: penalty_line.induct)
  case (1 sz color run h result)
  let ?h' = "if color then finderPenaltyAddHistory sz run h else h"
  let ?l = "(if color then 0 else run) + sz"
  have r: "run_history sz ?h'" using add_history(1) [OF "1.prems"(1), of run] "1.prems" by auto
  have l: "0 \<le> ?l" "?l \<le> sz * 2" using "1.prems" by auto
  obtain c where c: "finderPenaltyCountPatterns sz (finderPenaltyAddHistory sz ?l ?h') = Inr c" "0 \<le> c"
    "40 * c \<le> 27 * (finderPenaltyAddHistory sz ?l ?h' ! 3)"
    using count_patterns [OF add_history(1) [OF r l]] by blast
  have "finderPenaltyAddHistory sz ?l ?h' ! 3 = pending_dark color run h - (if color then run else h ! 0)"
    using add_history(2) [OF r l, of 2] add_history(2) [OF "1.prems"(1,2), of 1] "1.prems"
    by (auto simp: pending_dark_def numeral_eq_Suc)
  moreover have "0 \<le> (if color then run else h ! 0)"
    using "1.prems" by (auto simp: run_history_def)
  ultimately have "40 * c \<le> 27 * pending_dark color run h" using c(3) by auto
  then show ?case
    using c(1,2) by (simp add: finderPenaltyTerminateAndCount_def Let_def PENALTY_N3_def)
next
  case (2 sz c cs color run h result)
  show ?case
  proof (cases "c = color")
    case True
    let ?res = "if run + 1 = 5 then result + PENALTY_N1 else if run + 1 > 5 then result + 1 else result"
    obtain r where "penalty_line sz cs color (run + 1) h ?res = Inr r" "?res \<le> r"
      "r \<le> ?res + 30 * int (length cs) + 27 * pending_dark color (run + 1) h"
      using "2.IH"(1) [OF True refl] "2.prems" by auto
    then show ?thesis
      using True by (auto simp: PENALTY_N1_def pending_dark_def Let_def split: if_splits)
  next
    case False
    let ?h = "finderPenaltyAddHistory sz run h"
    have rh: "run_history sz ?h" by (rule add_history) (use "2.prems" in auto)
    have pos: "0 < ?h ! 0" using add_history(3) [OF "2.prems"(1,2)] "2.prems" by auto
    have n: "\<exists>k. (if \<not> color then finderPenaltyCountPatterns sz ?h else Inr 0) = Inr k \<and> 0 \<le> k \<and>
        40 * k + 27 * pending_dark c 1 ?h \<le> 27 + 27 * pending_dark color run h"
    proof (cases color)
      case dark: True
      have "?h ! 0 = run" "?h ! 2 = h ! 1"
        using add_history(2) [OF "2.prems"(1,2), of 1] add_history(3) [OF "2.prems"(1,2)] "2.prems" dark
        by (auto simp: numeral_eq_Suc)
      with dark False show ?thesis by (simp add: pending_dark_def)
    next
      case light: False
      obtain k where k: "finderPenaltyCountPatterns sz ?h = Inr k" "0 \<le> k" "40 * k \<le> 27 * (?h ! 3)"
        using count_patterns [OF rh] by blast
      have "?h ! 3 = h ! 2" "?h ! 1 = h ! 0"
        using add_history(2) [OF "2.prems"(1,2), of 2] add_history(2) [OF "2.prems"(1,2), of 0] "2.prems"
        by (auto simp: numeral_eq_Suc)
      with k light False show ?thesis by (simp add: pending_dark_def)
    qed
    then obtain k where k: "(if \<not> color then finderPenaltyCountPatterns sz ?h else Inr 0) = Inr k" "0 \<le> k"
      "40 * k + 27 * pending_dark c 1 ?h \<le> 27 + 27 * pending_dark color run h" by blast
    obtain r where "penalty_line sz cs c 1 ?h (result + k * PENALTY_N3) = Inr r" "result + k * PENALTY_N3 \<le> r"
      "r \<le> result + k * PENALTY_N3 + 30 * int (length cs) + 27 * pending_dark c 1 ?h"
      using "2.IH"(2) [OF False refl k(1)] "2.prems" rh pos by auto
    then show ?thesis
      using False k by (auto simp: PENALTY_N3_def Let_def)
  qed
qed

lemma penalty_lines_bound:
  assumes "0 < sz" "list_all (\<lambda>l. int (length l) = sz) ls"
  shows "\<exists>r. penalty_lines sz ls result = Inr r \<and> result \<le> r \<and> r \<le> result + 30 * sz * int (length ls)"
  using assms(2)
proof (induction ls arbitrary: result)
  case Nil
  then show ?case by simp
next
  case (Cons l ls)
  have h: "run_history sz [0, 0, 0, 0, 0, 0, 0]" using assms(1) by (auto simp: run_history_def)
  have "int (length l) = sz" using Cons.prems by simp
  then obtain r where r: "penalty_line sz l False 0 [0, 0, 0, 0, 0, 0, 0] result = Inr r" "result \<le> r"
    "r \<le> result + 30 * sz"
    using penalty_line_bound [OF h, of 0 l False result] assms(1) by (auto simp: pending_dark_def)
  obtain r' where r': "penalty_lines sz ls r = Inr r'" "r \<le> r'" "r' \<le> r + 30 * sz * int (length ls)"
    using Cons.IH [of r] Cons.prems by auto
  have "r' \<le> result + 30 * sz * int (length (l # ls))" using r(3) r'(3) by (simp add: algebra_simps)
  with r r' show ?case by simp
qed


lemma sum_list_between:
  fixes f :: "'a \<Rightarrow> int"
  shows "(\<And>x. x \<in> set xs \<Longrightarrow> 0 \<le> f x \<and> f x \<le> b) \<Longrightarrow>
    0 \<le> sum_list (map f xs) \<and> sum_list (map f xs) \<le> b * int (length xs)"
  by (induction xs) (force simp: algebra_simps)+

lemma penalty_blocks_bound:
  assumes "1 \<le> sz"
  shows "0 \<le> penalty_blocks sz m \<and> penalty_blocks sz m \<le> 3 * (sz - 1) * (sz - 1)"
proof -
  let ?f = "\<lambda>y x. if cell m x y = cell m (x + 1) y \<and> cell m x y = cell m x (y + 1) \<and>
      cell m x y = cell m (x + 1) (y + 1) then PENALTY_N2 else 0"
  have len: "int (length [0..sz - 2]) = sz - 1" using assms by simp
  have "0 \<le> sum_list (map (?f y) [0..sz - 2]) \<and> sum_list (map (?f y) [0..sz - 2]) \<le> 3 * (sz - 1)" for y
    using sum_list_between [of "[0..sz - 2]" "?f y" 3] unfolding len by (simp add: PENALTY_N2_def)
  then show ?thesis
    using sum_list_between [of "[0..sz - 2]" "\<lambda>y. sum_list (map (?f y) [0..sz - 2])" "3 * (sz - 1)"]
    unfolding len by (simp add: penalty_blocks_def Let_def)
qed

lemma dark_modules_bound:
  assumes "square sz m"
  shows "0 \<le> dark_modules m \<and> dark_modules m \<le> sz * sz"
proof -
  have "int (length (filter id row)) \<le> sz" if "row \<in> set m" for row
  proof -
    have "int (length row) = sz" using assms that by (simp add: square_def)
    with length_filter_le [of id row] show ?thesis by linarith
  qed
  then show ?thesis
    using sum_list_between [of m "\<lambda>row. int (length (filter id row))" sz] assms
    by (simp add: dark_modules_def square_def)
qed

text \<open>A code has an odd number of modules, so dark and light are never in balance.\<close>

lemma balance_steps_range:
  assumes "odd tot" "0 \<le> dark" "dark \<le> tot"
  shows "0 \<le> balance_steps dark tot \<and> balance_steps dark tot \<le> 9"
proof -
  let ?a = "\<bar>dark * 20 - tot * 10\<bar>"
  have t: "0 < tot" using assms by (cases "tot = 0") auto
  have "dark * 2 \<noteq> tot" using assms(1) by auto
  then have a: "0 < ?a" "?a \<le> tot * 10" using assms by auto
  have "- ?a div tot < 0" using pos_imp_zdiv_neg_iff [OF t, of "- ?a"] a(1) by linarith
  moreover have "- 10 \<le> - ?a div tot"
  proof -
    have "- 10 * tot div tot = - 10" using t by (intro nonzero_mult_div_cancel_right) simp
    moreover have "- 10 * tot div tot \<le> - ?a div tot" using a(2) t by (intro zdiv_mono1) auto
    ultimately show ?thesis by linarith
  qed
  ultimately show ?thesis by (simp add: balance_steps_def)
qed

lemma getPenaltyScore_bound:
  assumes "square sz m" "odd sz" "1 \<le> sz" "sz \<le> 177"
  shows "\<exists>p. getPenaltyScore sz m = Inr p \<and> 0 \<le> p \<and> p \<le> 2568888"
proof -
  have l: "list_all (\<lambda>l. int (length l) = sz) m" "list_all (\<lambda>l. int (length l) = sz) (grid_columns sz m)"
    "int (length m) = sz" "int (length (grid_columns sz m)) = sz"
    using assms(1,3) by (auto simp: square_def list_all_iff grid_columns_def)
  have pos: "0 < sz" using assms(3) by simp
  obtain r where r: "penalty_lines sz m 0 = Inr r" "0 \<le> r" "r \<le> 30 * sz * sz"
    using penalty_lines_bound [OF pos l(1), of 0] l(3) by auto
  obtain s where s: "penalty_lines sz (grid_columns sz m) r = Inr s" "r \<le> s" "s \<le> r + 30 * sz * sz"
    using penalty_lines_bound [OF pos l(2), of r] l(4) by auto
  let ?k = "balance_steps (dark_modules m) (sz * sz)"
  have k: "0 \<le> ?k" "?k \<le> 9"
    using balance_steps_range [of "sz * sz" "dark_modules m"] dark_modules_bound [OF assms(1)] assms(2) by auto
  have "sz * sz \<le> 177 * 177" using assms(3,4) by (intro mult_mono) auto
  moreover have "(sz - 1) * (sz - 1) \<le> 176 * 176" using assms(3,4) by (intro mult_mono) auto
  moreover note penalty_blocks_bound [OF assms(3), of m]
  ultimately have "s + penalty_blocks sz m + ?k * PENALTY_N4 \<le> 2568888 \<and> 0 \<le> s + penalty_blocks sz m + ?k * PENALTY_N4"
    using r s k by (simp add: PENALTY_N4_def algebra_simps)
  then show ?thesis
    using r s k by (simp add: getPenaltyScore_def check_def Let_def)
qed

section \<open>A mask is always found\<close>

definition good_mask :: "int \<times> int \<Rightarrow> bool" where
  "good_mask best \<longleftrightarrow> 0 \<le> fst best \<and> fst best \<le> 7 \<and> snd best \<le> 2568888"

lemma try_mask_good:
  assumes "1 \<le> ver" "ver \<le> 40" "drawing ver ecl q" "0 \<le> i" "i \<le> 7" "good_mask best \<or> snd best = 1000000000"
  shows "\<exists>b q'. try_mask i best q = (Inr b, q') \<and> good_mask b \<and> drawing ver ecl q'"
proof -
  obtain q1 where q1: "applyMask i q = (Inr (), q1)" "drawing ver ecl q1"
    using applyMask_drawing [OF assms(4,5,3)] by blast
  obtain u q2 where q2: "drawFormatBits i q1 = (Inr u, q2)" "drawing ver ecl q2"
    using staysE [OF drawFormatBits_stays [OF assms(4,5,1)] q1(2)] by metis
  obtain p where p: "getPenaltyScore (qr_size q2) (modules q2) = Inr p" "0 \<le> p" "p \<le> 2568888"
    using getPenaltyScore_bound [of "ver * 4 + 17" "modules q2"] q2(2) assms(1,2) by (auto simp: drawing_def)
  obtain q3 where q3: "applyMask i q2 = (Inr (), q3)" "drawing ver ecl q3"
    using applyMask_drawing [OF assms(4,5) q2(2)] by blast
  have "try_mask i best q = (Inr (if p < snd best then (i, p) else best), q3)"
    using q1(1) q2(1) p(1) q3(1) by (simp add: try_mask_def await_def)
  moreover have "good_mask (if p < snd best then (i, p) else best)"
    using assms(4-6) p by (auto simp: good_mask_def)
  ultimately show ?thesis using q3(2) by blast
qed

lemma try_masks_good:
  assumes "1 \<le> ver" "ver \<le> 40"
  shows "drawing ver ecl q \<Longrightarrow> good_mask best \<Longrightarrow> \<forall>i\<in>set is. 0 \<le> i \<and> i \<le> 7 \<Longrightarrow>
    \<exists>b q'. for_each_with is best try_mask q = (Inr b, q') \<and> good_mask b \<and> drawing ver ecl q'"
proof (induction "is" arbitrary: best q)
  case Nil
  then show ?case by simp
next
  case (Cons i "is")
  obtain b q' where "try_mask i best q = (Inr b, q')" "good_mask b" "drawing ver ecl q'"
    using try_mask_good [OF assms Cons.prems(1), of i best] Cons.prems(2,3) by auto
  with Cons.IH [of q' b] Cons.prems(3) show ?case by (auto simp: await_def)
qed

lemma choose_mask_found:
  assumes "1 \<le> ver" "ver \<le> 40" "drawing ver ecl q" "- 1 \<le> msk" "msk \<le> 7"
  shows "\<exists>m q'. choose_mask msk q = (Inr m, q') \<and> 0 \<le> m \<and> m \<le> 7 \<and> drawing ver ecl q'"
proof (cases "msk = - 1")
  case True
  obtain b q1 where b: "try_mask 0 (- 1, 1000000000) q = (Inr b, q1)" "good_mask b" "drawing ver ecl q1"
    using try_mask_good [OF assms(1-3), of 0 "(- 1, 1000000000)"] by auto
  obtain b' q2 where b': "for_each_with [1..7] b try_mask q1 = (Inr b', q2)" "good_mask b'" "drawing ver ecl q2"
    using try_masks_good [OF assms(1,2) b(3,2), of "[1..7]"] by auto
  have "[0..7] = (0::int) # [1..7]" by (simp add: upto_rec1)
  then have "choose_mask msk q = (Inr (fst b'), q2)"
    using True b(1) b'(1) by (simp add: choose_mask_def await_def del: upto_rec_numeral)
  with b' show ?thesis by (auto simp: good_mask_def)
next
  case False
  with assms show ?thesis by (auto simp: choose_mask_def)
qed

section \<open>Where function modules lie\<close>

definition inner_centres :: "int \<Rightarrow> int set" where
  "inner_centres ver = set (tl (getAlignmentPatternPositions ver))"

definition edge_centres :: "int \<Rightarrow> int set" where
  "edge_centres ver = set (butlast (tl (getAlignmentPatternPositions ver)))"

definition pattern_centres :: "int \<Rightarrow> (int \<times> int) set" where
  "pattern_centres ver =
     inner_centres ver \<times> inner_centres ver \<union> {6} \<times> edge_centres ver \<union> edge_centres ver \<times> {6}"

definition function_area :: "int \<Rightarrow> int \<Rightarrow> int \<Rightarrow> bool" where
  "function_area ver x y \<longleftrightarrow>
     x \<le> 8 \<and> y \<le> 8 \<or> ver * 4 + 9 \<le> x \<and> y \<le> 8 \<or> x \<le> 8 \<and> ver * 4 + 9 \<le> y \<or> x = 6 \<or> y = 6 \<or>
     (\<exists>(a, b)\<in>pattern_centres ver. \<bar>x - a\<bar> \<le> 2 \<and> \<bar>y - b\<bar> \<le> 2) \<or>
     7 \<le> ver \<and> (x \<le> 5 \<and> ver * 4 + 6 \<le> y \<and> y \<le> ver * 4 + 8 \<or> y \<le> 5 \<and> ver * 4 + 6 \<le> x \<and> x \<le> ver * 4 + 8)"

lemma corner_area:
  "x \<le> 8 \<and> y \<le> 8 \<or> ver * 4 + 9 \<le> x \<and> y \<le> 8 \<or> x \<le> 8 \<and> ver * 4 + 9 \<le> y \<or> x = 6 \<or> y = 6 \<Longrightarrow>
     function_area ver x y"
  unfolding function_area_def by blast

lemma alignment_shape:
  assumes "2 \<le> ver" "ver \<le> 40"
  obtains t where "getAlignmentPatternPositions ver = 6 # t" "int (length t) = ver div 7 + 1" "t \<noteq> []"
    "\<And>p. p \<in> set t \<Longrightarrow> 6 \<le> p \<and> p \<le> ver * 4 + 10"
proof -
  note f = alignment_facts [OF assms] and r = alignment_range [OF assms]
  have pos: "0 \<le> ver div 7" using assms by (simp add: pos_imp_zdiv_nonneg_iff)
  obtain a t where t: "getAlignmentPatternPositions ver = a # t"
    using f(1) pos by (cases "getAlignmentPatternPositions ver") auto
  then have "t \<noteq> []" using f(1) pos by auto
  moreover have "6 \<le> p \<and> p \<le> ver * 4 + 10" if "p \<in> set t" for p
    using r [of p] that t by simp
  moreover have "a = 6" "int (length t) = ver div 7 + 1" using t f(1,2) by auto
  ultimately show ?thesis using that [of t] t by blast
qed

lemma centre_of:
  assumes "ps = 6 # t" "t \<noteq> []" "0 \<le> i" "i < int (length ps)" "0 \<le> j" "j < int (length ps)"
    and "\<not> (i = 0 \<and> j = 0 \<or> i = 0 \<and> j = int (length ps) - 1 \<or> i = int (length ps) - 1 \<and> j = 0)"
    and "ps = getAlignmentPatternPositions ver"
  shows "(ps ! nat i, ps ! nat j) \<in> pattern_centres ver"
proof -
  have c: "inner_centres ver = set t" "edge_centres ver = set (butlast t)"
    using assms(1,8) by (simp_all add: inner_centres_def edge_centres_def)
  have inner: "ps ! nat k \<in> set t" if k: "0 < k" "k < int (length ps)" for k
  proof -
    obtain m where "nat k = Suc m" using k(1) by (cases "nat k") auto
    with k(2) show ?thesis using assms(1) by (auto intro!: nth_mem)
  qed
  have edge: "ps ! nat k \<in> set (butlast t)" if k: "0 < k" "k < int (length ps) - 1" for k
  proof -
    obtain m where m: "nat k = Suc m" using k(1) by (cases "nat k") auto
    with k(2) have "m < length (butlast t)" using assms(1) by simp
    then show ?thesis using m assms(1) nth_mem [of m "butlast t"] by (simp add: nth_butlast)
  qed
  show ?thesis
    using inner [of i] inner [of j] edge [of i] edge [of j] assms
    unfolding pattern_centres_def c by (cases "i = 0"; cases "j = 0") auto
qed

lemma setFunctionModule_area:
  "inside ver x \<Longrightarrow> inside ver y \<Longrightarrow> function_area ver x y \<Longrightarrow>
    stays (confined (function_area ver) ver ecl) (setFunctionModule x y v)"
  by (rule setFunctionModule_confined)

lemma drawAlignmentPattern_confined:
  assumes "(a, b) \<in> pattern_centres ver" "6 \<le> a" "a \<le> ver * 4 + 10" "6 \<le> b" "b \<le> ver * 4 + 10"
  shows "stays (confined (function_area ver) ver ecl) (drawAlignmentPattern a b)"
  unfolding drawAlignmentPattern_def
proof (intro stays_for_each)
  fix dy dx :: int assume d: "dy \<in> set [- 2..2]" "dx \<in> set [- 2..2]"
  then have r: "- 2 \<le> dx" "dx \<le> 2" "- 2 \<le> dy" "dy \<le> 2" by auto
  have "\<bar>a + dx - a\<bar> \<le> 2 \<and> \<bar>b + dy - b\<bar> \<le> 2" using r by auto
  then have "function_area ver (a + dx) (b + dy)" using assms(1) unfolding function_area_def by blast
  then show "stays (confined (function_area ver) ver ecl)
      (setFunctionModule (a + dx) (b + dy) (max \<bar>dx\<bar> \<bar>dy\<bar> \<noteq> 1))"
    using r assms(2-5) by (intro setFunctionModule_area) (auto simp: inside_def)
qed

lemma drawVersion_confined:
  assumes "1 \<le> ver" "ver \<le> 40"
  shows "stays (confined (function_area ver) ver ecl) drawVersion"
proof (cases "ver < 7")
  case True
  then show ?thesis
    unfolding drawVersion_def by (intro stays_read [where c = ver]) (auto simp: confined_def drawing_def)
next
  case False
  have bits: "shr (version_bits ver) 18 = 0" using version_bits_bound [of ver] assms by (intro shr_zero) auto
  have cells: "stays (confined (function_area ver) ver ecl)
      (await (setFunctionModule (ver * 4 + 17 - 11 + i mod 3) (i div 3) color)
         (\<lambda>_. setFunctionModule (i div 3) (ver * 4 + 17 - 11 + i mod 3) color))"
    if "i \<in> set [0..17]" for i color
  proof -
    have i: "0 \<le> i div 3" "i div 3 \<le> 5" "0 \<le> i mod 3" "i mod 3 \<le> 2" using that by auto
    then have "function_area ver (ver * 4 + 17 - 11 + i mod 3) (i div 3)"
      "function_area ver (i div 3) (ver * 4 + 17 - 11 + i mod 3)"
      using False by (auto simp: function_area_def)
    then show ?thesis
      using i assms by (intro stays_await setFunctionModule_area) (auto simp: inside_def)
  qed
  show ?thesis
    unfolding drawVersion_def Let_def using False
    by (intro stays_read [where c = ver])
      (auto simp: confined_def drawing_def bits check_def intro!: stays_await stays_lift
        stays_read [where c = "ver * 4 + 17"] stays_for_each cells)
qed

lemma drawFunctionPatterns_confined:
  assumes "1 \<le> ver" "ver \<le> 40"
  shows "stays (confined (function_area ver) ver ecl) drawFunctionPatterns"
proof -
  let ?ps = "getAlignmentPatternPositions ver" and ?n = "ver * 4 + 17"
  let ?C = "confined (function_area ver) ver ecl"
  have timing: "stays ?C (for_each [0..?n - 1] (\<lambda>i.
      await (setFunctionModule 6 i (i mod 2 = 0)) (\<lambda>_. setFunctionModule i 6 (i mod 2 = 0))))"
    using assms by (intro stays_for_each stays_await setFunctionModule_area corner_area) (auto simp: inside_def)
  have finder: "stays ?C (drawFinderPattern x y)" if "(x, y) \<in> {(3, 3), (?n - 4, 3), (3, ?n - 4)}" for x y
    using that by (intro drawFinderPattern_confined corner_area) (auto simp: inside_def)
  have format: "stays ?C (drawFormatBits 0)"
    using assms by (intro drawFormatBits_confined) (auto intro!: corner_area)
  have align: "stays ?C (for_each [0..int (length ?ps) - 1] (\<lambda>i.
      for_each [0..int (length ?ps) - 1] (\<lambda>j.
        if \<not> (i = 0 \<and> j = 0 \<or> i = 0 \<and> j = int (length ?ps) - 1 \<or> i = int (length ?ps) - 1 \<and> j = 0)
        then drawAlignmentPattern (?ps ! nat i) (?ps ! nat j) else return_value ())))"
  proof (cases "ver = 1")
    case True
    then show ?thesis by (auto simp: getAlignmentPatternPositions_def)
  next
    case False
    obtain t where t: "?ps = 6 # t" "t \<noteq> []" "\<And>p. p \<in> set t \<Longrightarrow> 6 \<le> p \<and> p \<le> ver * 4 + 10"
      using alignment_shape [of ver] assms False by auto
    have range: "6 \<le> ?ps ! nat i \<and> ?ps ! nat i \<le> ver * 4 + 10" if "0 \<le> i" "i < int (length ?ps)" for i
    proof -
      have "?ps ! nat i \<in> set ?ps" using that by (intro nth_mem) auto
      then show ?thesis using t(1,3) assms by auto
    qed
    show ?thesis
    proof (intro stays_for_each)
      fix i j assume ij: "i \<in> set [0..int (length ?ps) - 1]" "j \<in> set [0..int (length ?ps) - 1]"
      then have r: "0 \<le> i" "i < int (length ?ps)" "0 \<le> j" "j < int (length ?ps)" by auto
      show "stays ?C (if \<not> (i = 0 \<and> j = 0 \<or> i = 0 \<and> j = int (length ?ps) - 1 \<or> i = int (length ?ps) - 1 \<and> j = 0)
        then drawAlignmentPattern (?ps ! nat i) (?ps ! nat j) else return_value ())"
        using centre_of [OF t(1,2) r _ refl] range [OF r(1,2)] range [OF r(3,4)]
        by (auto intro!: drawAlignmentPattern_confined)
    qed
  qed
  show ?thesis
    unfolding drawFunctionPatterns_def Let_def
    by (intro stays_read [where c = ?n] stays_read [where c = ?ps] stays_await timing finder format align
        drawVersion_confined assms)
      (auto simp: confined_def drawing_def)
qed

section \<open>The scan visits every module but those of column 6, once\<close>

lemma zigzag_even:
  "length (zigzag_columns (2 * int (m + 3))) = m + 3 \<and>
   (\<Union>r\<in>set (zigzag_columns (2 * int (m + 3))). {r, r - 1}) = {0..2 * int (m + 3)} - {6}"
proof (induction m)
  case 0
  have "zigzag_columns 6 = [5, 3, 1]" by code_simp
  then show ?case by auto
next
  case (Suc m)
  have "zigzag_columns (2 * int (Suc m + 3)) = 2 * int (Suc m + 3) # zigzag_columns (2 * int (m + 3))"
    by (subst zigzag_columns.simps) (simp add: algebra_simps)
  moreover have "{2 * int (Suc m + 3), 2 * int (Suc m + 3) - 1} \<union> ({0..2 * int (m + 3)} - {6})
      = {0..2 * int (Suc m + 3)} - {6}"
    by auto
  ultimately show ?case using Suc by simp
qed

lemma paired_columns: "(\<Union>v\<in>V. {(a, f v), (b, f v)}) = {a, b} \<times> f ` V"
  by auto

lemma scan_positions_all:
  assumes "n = 2 * int (m + 3) + 1"
  shows "set (scan_positions n) = ({0..n - 1} - {6}) \<times> {0..n - 1}"
    and "int (length (scan_positions n)) = n * (n - 1)" and "distinct (scan_positions n)"
proof -
  let ?z = "zigzag_columns (n - 1)"
  have n: "n - 1 = 2 * int (m + 3)" using assms by simp
  let ?y = "\<lambda>right vert. if band (right + 1) 2 = 0 then n - 1 - vert else vert"
  have ys: "(\<lambda>vert. ?y right vert) ` {0..n - 1} = {0..n - 1}" for right
  proof (cases "band (right + 1) 2 = 0")
    case True
    have "v \<in> (\<lambda>vert. n - 1 - vert) ` {0..n - 1}" if "v \<in> {0..n - 1}" for v
      using that by (intro image_eqI [of _ _ "n - 1 - v"]) auto
    then show ?thesis using True by auto
  qed simp
  have "set (scan_positions n) = (\<Union>r\<in>set ?z. \<Union>v\<in>{0..n - 1}. {(r, ?y r v), (r - 1, ?y r v)})"
    by (auto simp: scan_positions_def)
  also have "\<dots> = (\<Union>r\<in>set ?z. {r, r - 1} \<times> (\<lambda>vert. ?y r vert) ` {0..n - 1})"
    by (simp only: paired_columns)
  also have "\<dots> = (\<Union>r\<in>set ?z. {r, r - 1} \<times> {0..n - 1})" by (simp only: ys)
  also have "\<dots> = (\<Union>r\<in>set ?z. {r, r - 1}) \<times> {0..n - 1}" by blast
  also have "\<dots> = ({0..n - 1} - {6}) \<times> {0..n - 1}" unfolding n using zigzag_even [of m] by (simp only:)
  finally show s: "set (scan_positions n) = ({0..n - 1} - {6}) \<times> {0..n - 1}" .
  have "length (concat (map (\<lambda>right. concat (map (\<lambda>vert. map (\<lambda>j. (right - j, ?y right vert)) [0, 1]) [0..n - 1])) rs))
      = length rs * (nat n * 2)" for rs :: "int list"
    by (induction rs) (simp_all add: length_concat comp_def sum_list_triv)
  then have "length (scan_positions n) = length ?z * (nat n * 2)" by (simp add: scan_positions_def)
  moreover have "length ?z = m + 3" unfolding n using zigzag_even [of m] by simp
  ultimately show len: "int (length (scan_positions n)) = n * (n - 1)" using assms by (simp add: algebra_simps)
  have "6 \<in> {0..n - 1}" using assms by auto
  then have c: "card (({0..n - 1} - {6}) \<times> {0..n - 1}) = (nat n - 1) * nat n"
    by (simp add: card_cartesian_product card_Diff_singleton)
  have "int ((nat n - 1) * nat n) = int (length (scan_positions n))" using len assms by (simp add: of_nat_diff)
  then have "card (set (scan_positions n)) = length (scan_positions n)"
    unfolding s c by (simp only: of_nat_eq_iff)
  then show "distinct (scan_positions n)" by (rule card_distinct)
qed

section \<open>Room for every codeword\<close>

lemma card_UN_le_times:
  assumes "finite I" "\<And>i. i \<in> I \<Longrightarrow> card (A i) \<le> k"
  shows "card (\<Union>i\<in>I. A i) \<le> card I * k"
proof -
  have "card (\<Union>i\<in>I. A i) \<le> (\<Sum>i\<in>I. card (A i))" using assms(1) by (rule card_UN_le)
  also have "\<dots> \<le> card I * k" using sum_bounded_above [of I "\<lambda>i. card (A i)" k] assms(2) by simp
  finally show ?thesis .
qed

lemma card_centres:
  assumes "2 \<le> ver" "ver \<le> 40"
  shows "card (inner_centres ver) \<le> nat (ver div 7 + 1)" "card (edge_centres ver) \<le> nat (ver div 7)"
    "finite (inner_centres ver)" "finite (edge_centres ver)"
proof -
  obtain t where t: "getAlignmentPatternPositions ver = 6 # t" "int (length t) = ver div 7 + 1"
    using alignment_shape [OF assms] by blast
  show "card (inner_centres ver) \<le> nat (ver div 7 + 1)"
    using card_length [of t] t by (simp add: inner_centres_def)
  show "card (edge_centres ver) \<le> nat (ver div 7)"
    using card_length [of "butlast t"] t by (simp add: edge_centres_def)
qed (simp_all add: inner_centres_def edge_centres_def)

definition patterned :: "int \<Rightarrow> (int \<times> int) set" where
  "patterned ver =
     (\<Union>(a, b)\<in>inner_centres ver \<times> inner_centres ver. {a - 2..a + 2} \<times> {b - 2..b + 2}) \<union>
     (\<Union>b\<in>edge_centres ver. {4, 5, 7, 8} \<times> {b - 2..b + 2}) \<union>
     (\<Union>a\<in>edge_centres ver. {a - 2..a + 2} \<times> {4, 5, 7, 8})"

lemma card_patterned:
  assumes "2 \<le> ver" "ver \<le> 40"
  shows "int (card (patterned ver)) \<le> 25 * ((ver div 7 + 1) * (ver div 7 + 1)) + 40 * (ver div 7)"
proof -
  let ?k = "nat (ver div 7)"
  note c = card_centres [OF assms]
  have k: "0 \<le> ver div 7" using assms by (simp add: pos_imp_zdiv_nonneg_iff)
  have "card (\<Union>(a, b)\<in>inner_centres ver \<times> inner_centres ver. {a - 2..a + 2} \<times> {b - 2..b + 2})
      \<le> card (inner_centres ver \<times> inner_centres ver) * 25"
    using c(3) by (intro card_UN_le_times) (auto simp: card_cartesian_product)
  also have "\<dots> \<le> (?k + 1) * (?k + 1) * 25"
  proof -
    have i: "card (inner_centres ver) \<le> ?k + 1" using c(1) k by (simp add: nat_add_distrib)
    have "card (inner_centres ver) * card (inner_centres ver) \<le> (?k + 1) * (?k + 1)" by (rule mult_le_mono [OF i i])
    then show ?thesis unfolding card_cartesian_product by (rule mult_le_mono1)
  qed
  finally have 1: "card (\<Union>(a, b)\<in>inner_centres ver \<times> inner_centres ver. {a - 2..a + 2} \<times> {b - 2..b + 2})
      \<le> (?k + 1) * (?k + 1) * 25" .
  have "card (\<Union>b\<in>edge_centres ver. {4, 5, 7, 8::int} \<times> {b - 2..b + 2}) \<le> card (edge_centres ver) * 20"
    using c(4) by (intro card_UN_le_times) (auto simp: card_cartesian_product)
  then have 2: "card (\<Union>b\<in>edge_centres ver. {4, 5, 7, 8::int} \<times> {b - 2..b + 2}) \<le> ?k * 20" using c(2) by simp
  have "card (\<Union>a\<in>edge_centres ver. {a - 2..a + 2} \<times> {4, 5, 7, 8::int}) \<le> card (edge_centres ver) * 20"
    using c(4) by (intro card_UN_le_times) (auto simp: card_cartesian_product)
  then have 3: "card (\<Union>a\<in>edge_centres ver. {a - 2..a + 2} \<times> {4, 5, 7, 8::int}) \<le> ?k * 20" using c(2) by simp
  have "card (patterned ver) \<le> (?k + 1) * (?k + 1) * 25 + ?k * 20 + ?k * 20"
    unfolding patterned_def
    using card_Un_le [of "(\<Union>(a, b)\<in>inner_centres ver \<times> inner_centres ver. {a - 2..a + 2} \<times> {b - 2..b + 2}) \<union>
        (\<Union>b\<in>edge_centres ver. {4, 5, 7, 8} \<times> {b - 2..b + 2})" "\<Union>a\<in>edge_centres ver. {a - 2..a + 2} \<times> {4, 5, 7, 8::int}"]
      card_Un_le [of "\<Union>(a, b)\<in>inner_centres ver \<times> inner_centres ver. {a - 2..a + 2} \<times> {b - 2..b + 2}"
        "\<Union>b\<in>edge_centres ver. {4, 5, 7, 8} \<times> {b - 2..b + 2}"] 1 2 3
    by linarith
  then have "int (card (patterned ver)) \<le> int ((?k + 1) * (?k + 1) * 25 + ?k * 20 + ?k * 20)" by (rule zle_int [THEN iffD2])
  then show ?thesis using k by (simp add: algebra_simps)
qed

text \<open>The function modules the scan meets: three corners, a timing row, the patterns and, from version 7,
  the version information.\<close>

definition fixed_area :: "int \<Rightarrow> (int \<times> int) set" where
  "fixed_area ver =
     ({0..5} \<union> {7, 8}) \<times> {0..8} \<union> {ver * 4 + 9..ver * 4 + 16} \<times> {0..8} \<union>
     ({0..5} \<union> {7, 8}) \<times> {ver * 4 + 9..ver * 4 + 16} \<union> {9..ver * 4 + 8} \<times> {6}"

definition version_area :: "int \<Rightarrow> (int \<times> int) set" where
  "version_area ver =
     (if 7 \<le> ver then {0..5} \<times> {ver * 4 + 6..ver * 4 + 8} \<union> {ver * 4 + 6..ver * 4 + 8} \<times> {0..5} else {})"

lemma card_fixed: "1 \<le> ver \<Longrightarrow> int (card (fixed_area ver)) \<le> 208 + 4 * ver"
proof -
  assume v: "1 \<le> ver"
  have c: "card ({0..5} \<union> {7, 8::int}) = 8" by (subst card_Un_disjoint) auto
  have "card (fixed_area ver) \<le> 72 + 72 + 64 + nat (4 * ver)"
    unfolding fixed_area_def
    by (rule order_trans [OF card_Un_le], rule add_mono, rule order_trans [OF card_Un_le], rule add_mono,
        rule order_trans [OF card_Un_le], rule add_mono) (simp_all add: card_cartesian_product c)
  then show ?thesis using v by simp
qed

lemma card_version: "int (card (version_area ver)) \<le> (if 7 \<le> ver then 36 else 0)"
proof (cases "7 \<le> ver")
  case True
  have "card (version_area ver) \<le> 18 + 18"
    using True unfolding version_area_def
    by (simp only: if_True, intro order_trans [OF card_Un_le] add_mono) (simp_all add: card_cartesian_product)
  with True show ?thesis by simp
next
  case False
  then show ?thesis by (simp add: version_area_def)
qed

lemma area_covered:
  assumes "1 \<le> ver" "inside ver x" "inside ver y" "x \<noteq> 6" "function_area ver x y"
  shows "(x, y) \<in> fixed_area ver \<union> patterned ver \<union> version_area ver"
proof -
  have r: "0 \<le> x" "x \<le> ver * 4 + 16" "0 \<le> y" "y \<le> ver * 4 + 16" using assms by (auto simp: inside_def)
  consider "x \<le> 8 \<and> y \<le> 8 \<or> ver * 4 + 9 \<le> x \<and> y \<le> 8 \<or> x \<le> 8 \<and> ver * 4 + 9 \<le> y \<or> y = 6"
    | a b where "(a, b) \<in> pattern_centres ver" "\<bar>x - a\<bar> \<le> 2" "\<bar>y - b\<bar> \<le> 2" "y \<noteq> 6"
    | "7 \<le> ver" "x \<le> 5 \<and> ver * 4 + 6 \<le> y \<and> y \<le> ver * 4 + 8 \<or> y \<le> 5 \<and> ver * 4 + 6 \<le> x \<and> x \<le> ver * 4 + 8"
    using assms(4,5) unfolding function_area_def by blast
  then show ?thesis
  proof cases
    case 1
    then have "(x, y) \<in> fixed_area ver" using r assms(4) unfolding fixed_area_def by auto
    then show ?thesis by blast
  next
    case 2
    have near: "p \<in> {q - 2..q + 2}" if "\<bar>p - q\<bar> \<le> 2" for p q :: int using that by auto
    have six: "p \<in> {4, 5, 7, 8}" if "\<bar>p - 6\<bar> \<le> 2" "p \<noteq> 6" for p :: int using that by auto
    have "(x, y) \<in> patterned ver"
      using 2(1) near [OF 2(2)] near [OF 2(3)] six [of x] six [of y] 2(2-4) assms(4)
      unfolding patterned_def pattern_centres_def by fast
    then show ?thesis by blast
  next
    case 3
    then have "(x, y) \<in> version_area ver" using r unfolding version_area_def by auto
    then show ?thesis by blast
  qed
qed

lemma room_for_codewords:
  assumes "1 \<le> ver" "ver \<le> 40" "confined (function_area ver) ver ecl q" "getNumRawDataModules ver = Inr raw"
  shows "raw \<le> int (length (filter (\<lambda>(x, y). \<not> cell (isFunction q) x y) (scan_positions (ver * 4 + 17))))"
proof -
  let ?n = "ver * 4 + 17" let ?s = "scan_positions ?n" and ?f = "\<lambda>(x, y). cell (isFunction q) x y"
  have n: "?n = 2 * int (nat (ver * 2 + 5) + 3) + 1" using assms(1) by simp
  note s = scan_positions_all [OF n]
  have fin: "finite (fixed_area ver \<union> patterned ver \<union> version_area ver)"
    by (simp add: fixed_area_def patterned_def version_area_def inner_centres_def edge_centres_def)
  have sub: "set (filter ?f ?s) \<subseteq> fixed_area ver \<union> patterned ver \<union> version_area ver"
  proof (rule subsetI)
    fix p assume "p \<in> set (filter ?f ?s)"
    then obtain x y where p: "p = (x, y)" and "(x, y) \<in> set ?s" "cell (isFunction q) x y" by auto
    moreover from this(2) have "inside ver x" "inside ver y" "x \<noteq> 6" unfolding s(1) by (auto simp: inside_def)
    ultimately show "p \<in> fixed_area ver \<union> patterned ver \<union> version_area ver"
      using area_covered [OF assms(1)] assms(3) by (simp add: confined_def)
  qed
  have "length (filter ?f ?s) = card (set (filter ?f ?s))" by (rule distinct_card [symmetric]) (use s(3) in simp)
  also have "\<dots> \<le> card (fixed_area ver \<union> patterned ver \<union> version_area ver)" by (rule card_mono [OF fin sub])
  also have "\<dots> \<le> card (fixed_area ver) + card (patterned ver) + card (version_area ver)"
    using card_Un_le [of "fixed_area ver \<union> patterned ver" "version_area ver"]
      card_Un_le [of "fixed_area ver" "patterned ver"] by linarith
  finally have f: "int (length (filter ?f ?s)) \<le>
      208 + 4 * ver + int (card (patterned ver)) + (if 7 \<le> ver then 36 else 0)"
    using card_fixed [OF assms(1)] card_version [of ver] by linarith
  have "length ?s = length (filter ?f ?s) + length (filter (\<lambda>p. \<not> ?f p) ?s)"
    by (simp add: sum_length_filter_compl)
  moreover have "(\<lambda>p. \<not> ?f p) = (\<lambda>(x, y). \<not> cell (isFunction q) x y)" by auto
  ultimately have free: "int (length (filter (\<lambda>(x, y). \<not> cell (isFunction q) x y) ?s)) =
      ?n * (?n - 1) - int (length (filter ?f ?s))" using s(2) by simp
  show ?thesis
  proof (cases "ver = 1")
    case True
    have "patterned ver = {}"
      by (simp add: True patterned_def inner_centres_def edge_centres_def getAlignmentPatternPositions_def)
    moreover have "raw = 208" using assms(4) True by (simp add: getNumRawDataModules_def check_def MIN_VERSION_def MAX_VERSION_def)
    ultimately show ?thesis using f free True by simp
  next
    case False
    let ?k = "ver div 7"
    have "raw = (16 * ver + 128) * ver + 64 - ((25 * (?k + 2) - 10) * (?k + 2) - 55) - (if 7 \<le> ver then 36 else 0)"
      using assms False
      by (auto simp: getNumRawDataModules_def check_def MIN_VERSION_def MAX_VERSION_def Let_def split: if_splits)
    moreover have "int (card (patterned ver)) \<le> 25 * ((?k + 1) * (?k + 1)) + 40 * ?k"
      using card_patterned [of ver] assms False by simp
    ultimately show ?thesis using f free by (simp add: algebra_simps split: if_splits)
  qed
qed

section \<open>The constructor and its callers return\<close>

lemma drawCodewords_returns:
  assumes "1 \<le> ver" "ver \<le> 40" "confined (function_area ver) ver ecl q" "getNumRawDataModules ver = Inr raw"
    and "int (length data) = raw div 8"
  shows "\<exists>q'. drawCodewords data q = (Inr (), q') \<and> drawing ver ecl q'"
proof -
  let ?n = "ver * 4 + 17"
  have d: "drawing ver ecl q" using assms(3) by (simp add: confined_def)
  have n: "?n = 2 * int (nat (ver * 2 + 5) + 3) + 1" using assms(1) by simp
  have "list_all (\<lambda>(x, y). inside ver x \<and> inside ver y) (scan_positions ?n)"
    using scan_positions_all(1) [OF n] by (auto simp: list_all_iff inside_def)
  from place_bits_count [OF this d, of 0 data] obtain q' where q':
      "for_each_with (scan_positions ?n) 0 (place_bit data) q =
        (Inr (min (0 + int (length (filter (\<lambda>(x, y). \<not> cell (isFunction q) x y) (scan_positions ?n))))
                (int (length data) * 8)), q')" "drawing ver ecl q'" by auto
  have "int (length data) * 8 \<le> raw" using assms(5) by simp
  with room_for_codewords [OF assms(1-4)] q'(1)
  have "for_each_with (scan_positions ?n) 0 (place_bit data) q = (Inr (int (length data) * 8), q')" by simp
  then have "drawCodewords data q = (Inr (), q')"
    using d assms(4,5) by (simp add: drawCodewords_def await_def drawing_def check_def)
  with q'(2) show ?thesis by blast
qed

lemma newQrCode_returns:
  assumes "1 \<le> ver" "ver \<le> 40" "- 1 \<le> msk" "msk \<le> 7"
    and "getNumDataCodewords ver ecl = Inr (int (length data))" "list_all is_byte data"
  shows "\<exists>q. newQrCode ver ecl data msk = Inr q"
proof -
  have start: "confined (function_area ver) ver ecl (blank_code ver ecl)"
    unfolding confined_def using blank_drawing [OF assms(1)]
    by (auto simp: inside_def blank_code_def cell_def Let_def)
  obtain u q1 where 1: "drawFunctionPatterns (blank_code ver ecl) = (Inr u, q1)"
      "confined (function_area ver) ver ecl q1"
    using staysE [OF drawFunctionPatterns_confined [OF assms(1,2)] start] by metis
  obtain raw cws where c: "getNumRawDataModules ver = Inr raw" "addEccAndInterleave ver ecl data = Inr cws"
      "int (length cws) = raw div 8"
    using addEcc_layout [OF assms(1,2,5,6)] by auto
  obtain q2 where 2: "drawCodewords cws q1 = (Inr (), q2)" "drawing ver ecl q2"
    using drawCodewords_returns [OF assms(1,2) 1(2) c(1,3)] by blast
  have q1: "qr_version q1 = ver" "errorCorrectionLevel q1 = ecl"
    using 1(2) by (simp_all add: confined_def drawing_def)
  have "draw_data data (blank_code ver ecl) = (Inr (), q2)"
    using 1(1) 2(1) c(2) q1 by (simp add: draw_data_def await_def)
  moreover obtain m q3 where 3: "choose_mask msk q2 = (Inr m, q3)" "0 \<le> m" "m \<le> 7" "drawing ver ecl q3"
    using choose_mask_found [OF assms(1,2) 2(2) assms(3,4)] by blast
  moreover obtain q4 where "finish_mask m q3 = (Inr (), q4)"
    using finish_mask_returns [OF 3(2,3) assms(1) 3(4)] by blast
  ultimately show ?thesis
    using assms(1-4) by (simp add: newQrCode_def construct_def await_def MIN_VERSION_def MAX_VERSION_def)
qed

text \<open>The code that comes out of \<open>encodeSegments\<close>, and the codewords it was made of.\<close>

lemma encodeSegments_made:
  assumes "1 \<le> minVersion" "minVersion \<le> maxVersion" "maxVersion \<le> 40" "- 1 \<le> msk" "msk \<le> 7"
    and "list_all segment_ok segs"
  shows "case encodeSegments segs ecl minVersion maxVersion msk boostEcl of
      Inl e \<Rightarrow> e = RangeError (js ''Data too long'') \<and>
        (\<forall>v. minVersion \<le> v \<and> v \<le> maxVersion \<longrightarrow> \<not> fits segs v ecl)
    | Inr q \<Rightarrow>
        minVersion \<le> qr_version q \<and> qr_version q \<le> maxVersion \<and> fits segs (qr_version q) ecl \<and>
        (\<forall>v. minVersion \<le> v \<and> v < qr_version q \<longrightarrow> \<not> fits segs v ecl) \<and>
        (if boostEcl
         then fits segs (qr_version q) (errorCorrectionLevel q) \<and>
           (\<forall>l. fits segs (qr_version q) l \<longrightarrow> ordinal l \<le> ordinal (errorCorrectionLevel q))
         else errorCorrectionLevel q = ecl) \<and>
        (if msk = - 1 then 0 \<le> qr_mask q \<and> qr_mask q \<le> 7 else qr_mask q = msk) \<and>
        (\<exists>bits cws. newQrCode (qr_version q) (errorCorrectionLevel q) cws msk = Inr q \<and>
           segment_bits (qr_version q) segs [] = Inr bits \<and>
           data_codewords segs (qr_version q) (errorCorrectionLevel q) (int (length bits)) = Inr cws \<and>
           getNumDataCodewords (qr_version q) (errorCorrectionLevel q) = Inr (int (length cws)) \<and>
           list_all is_byte cws \<and> (\<forall>i<length bits. codeword_bit cws (int i) = (bits ! i = 1)))"
proof -
  have start: "encodeSegments segs ecl minVersion maxVersion msk boostEcl =
      and_then (find_version segs ecl maxVersion minVersion) (\<lambda>(version, dataUsedBits).
        and_then (boost_level version boostEcl dataUsedBits [MEDIUM, QUARTILE, HIGH] ecl) (\<lambda>ecl.
        and_then (data_codewords segs version ecl dataUsedBits) (\<lambda>dataCodewords.
        newQrCode version ecl dataCodewords msk)))"
    using assms(1-5) by (simp add: encodeSegments_def MIN_VERSION_def MAX_VERSION_def)
  note made = codewords_of_segments [OF assms(1-3,6), of ecl boostEcl]
  show ?thesis
  proof (cases "find_version segs ecl maxVersion minVersion")
    case (Inl e)
    then show ?thesis using made unfolding start by simp
  next
    case (Inr r)
    obtain ver used where r: "r = (ver, used)" by fastforce
    obtain ecl' bits cws where m: "minVersion \<le> ver" "ver \<le> maxVersion" "fits segs ver ecl"
        "boost_level ver boostEcl used [MEDIUM, QUARTILE, HIGH] ecl = Inr ecl'"
        "data_codewords segs ver ecl' used = Inr cws" "getNumDataCodewords ver ecl' = Inr (int (length cws))"
        "list_all is_byte cws"
      and n: "\<forall>v. minVersion \<le> v \<and> v < ver \<longrightarrow> \<not> fits segs v ecl"
        "if boostEcl then fits segs ver ecl' \<and> (\<forall>l. fits segs ver l \<longrightarrow> ordinal l \<le> ordinal ecl') else ecl' = ecl"
        "segment_bits ver segs [] = Inr bits" "\<forall>i<length bits. codeword_bit cws (int i) = (bits ! i = 1)"
      using made unfolding Inr r by auto
    have range: "1 \<le> ver" "ver \<le> 40" using m(1,2) assms(1,3) by auto
    have used: "int (length bits) = used"
      using m(5) n(3) by (auto simp: data_codewords_def check_def split: if_splits)
    obtain q where q: "newQrCode ver ecl' cws msk = Inr q"
      using newQrCode_returns [OF range assms(4,5) m(6,7)] by blast
    then have shape: "qr_version q = ver" "errorCorrectionLevel q = ecl'"
      "if msk = - 1 then 0 \<le> qr_mask q \<and> qr_mask q \<le> 7 else qr_mask q = msk"
      using newQrCode_shape [OF q] by simp_all
    have "encodeSegments segs ecl minVersion maxVersion msk boostEcl = Inr q"
      unfolding start Inr r using m(4,5) q by simp
    then show ?thesis
      unfolding shape(1,2) sum.case using m n q shape(3) used by (simp only: shape(1,2) sum.case simp_thms) blast
  qed
qed

lemma encodeSegments_returns:
  assumes "1 \<le> minVersion" "minVersion \<le> maxVersion" "maxVersion \<le> 40" "- 1 \<le> msk" "msk \<le> 7"
    and "list_all segment_ok segs"
  shows "case encodeSegments segs ecl minVersion maxVersion msk boostEcl of
      Inl e \<Rightarrow> e = RangeError (js ''Data too long'') \<and>
        (\<forall>v. minVersion \<le> v \<and> v \<le> maxVersion \<longrightarrow> \<not> fits segs v ecl)
    | Inr q \<Rightarrow> \<exists>v. minVersion \<le> v \<and> v \<le> maxVersion \<and> fits segs v ecl"
  using encodeSegments_made [OF assms, of ecl boostEcl]
  by (cases "encodeSegments segs ecl minVersion maxVersion msk boostEcl") auto

text \<open>C29: What \<open>encodeSegments\<close> makes of segments, for a range of versions, any level and mask: it throws
  "Data too long" exactly when no version of the range fits at the level asked for. Otherwise it
  returns a code of the smallest version that fits; of the highest level that still fits there if
  boosting, else of the level asked for; and with the mask asked for, or one from 0 to 7. That code is
  the one the constructor makes of exactly as many data codewords as this version and level hold, all
  of them bytes, whose leading bits, read the way \<open>drawCodewords\<close> reads them, are the segments'
  headers and data. None of its assertions fails.\<close>

theorem encodeSegments_data:
  assumes "1 \<le> minVersion" "minVersion \<le> maxVersion" "maxVersion \<le> 40" "- 1 \<le> msk" "msk \<le> 7"
    and "list_all segment_ok segs"
  shows "case encodeSegments segs ecl minVersion maxVersion msk boostEcl of
      Inl e \<Rightarrow> e = RangeError (js ''Data too long'') \<and>
        (\<forall>v. minVersion \<le> v \<and> v \<le> maxVersion \<longrightarrow> \<not> fits segs v ecl)
    | Inr q \<Rightarrow>
        minVersion \<le> qr_version q \<and> qr_version q \<le> maxVersion \<and> fits segs (qr_version q) ecl \<and>
        (\<forall>v. minVersion \<le> v \<and> v < qr_version q \<longrightarrow> \<not> fits segs v ecl) \<and>
        (if boostEcl
         then fits segs (qr_version q) (errorCorrectionLevel q) \<and>
           (\<forall>l. fits segs (qr_version q) l \<longrightarrow> ordinal l \<le> ordinal (errorCorrectionLevel q))
         else errorCorrectionLevel q = ecl) \<and>
        (if msk = - 1 then 0 \<le> qr_mask q \<and> qr_mask q \<le> 7 else qr_mask q = msk) \<and>
        (\<exists>bits cws. newQrCode (qr_version q) (errorCorrectionLevel q) cws msk = Inr q \<and>
           segment_bits (qr_version q) segs [] = Inr bits \<and>
           data_codewords segs (qr_version q) (errorCorrectionLevel q) (int (length bits)) = Inr cws \<and>
           getNumDataCodewords (qr_version q) (errorCorrectionLevel q) = Inr (int (length cws)) \<and>
           list_all is_byte cws \<and> (\<forall>i<length bits. codeword_bit cws (int i) = (bits ! i = 1)))"
  using assms by (rule encodeSegments_made)

text \<open>A segment of the digits "42": version 1, at the highest level, with mask 3.\<close>

definition test_segment :: QrSegment where
  "test_segment = \<lparr>seg_mode = NUMERIC, numChars = 2, bitData = [0, 1, 0, 1, 0, 1, 0]\<rparr>"

theorem encodeSegments_data_witness:
  "\<exists>q. encodeSegments [test_segment] MEDIUM 1 40 3 True = Inr q \<and> qr_version q = 1 \<and>
     errorCorrectionLevel q = HIGH \<and> qr_mask q = 3"
proof -
  have ok: "list_all segment_ok [test_segment]" by (simp add: segment_ok_def test_segment_def)
  have used: "getTotalBits [test_segment] 1 = Some 21" by code_simp
  have "getNumDataCodewords 1 MEDIUM = Inr 16" "getNumDataCodewords 1 HIGH = Inr 9" by code_simp+
  then have f: "fits [test_segment] 1 MEDIUM" "fits [test_segment] 1 HIGH" using used by (auto simp: fits_def)
  note made = encodeSegments_data [of 1 40 3 "[test_segment]" MEDIUM True, OF _ _ _ _ _ ok, simplified]
  show ?thesis
  proof (cases "encodeSegments [test_segment] MEDIUM 1 40 3 True")
    case (Inl e)
    then show ?thesis using made f(1) by auto
  next
    case (Inr q)
    then have q: "1 \<le> qr_version q" "\<forall>v. 1 \<le> v \<and> v < qr_version q \<longrightarrow> \<not> fits [test_segment] v MEDIUM" "qr_mask q = 3"
      "\<forall>l. fits [test_segment] (qr_version q) l \<longrightarrow> ordinal l \<le> ordinal (errorCorrectionLevel q)"
      using made by simp_all
    have v: "qr_version q = 1" using q(1,2) f(1) by (metis order_le_less order_refl)
    have "ordinal HIGH \<le> ordinal (errorCorrectionLevel q)" using q(4) f(2) unfolding v by blast
    then have "errorCorrectionLevel q = HIGH" by (cases "errorCorrectionLevel q") simp_all
    then show ?thesis using Inr v q(3) by blast
  qed
qed

lemma makeSegments_well_formed:
  assumes "list_all is_unit s"
  shows "case makeSegments s of
      Inl e \<Rightarrow> \<not> well_formed s \<and> e = PlainError (js ''URI malformed'')
    | Inr segs \<Rightarrow> well_formed s \<and> list_all segment_ok segs"
proof (cases "well_formed s")
  case True
  obtain segs where segs: "makeSegments s = Inr segs"
    "\<And>seg. seg \<in> set segs \<Longrightarrow> bit_list (bitData seg) \<and> seg_mode seg \<in> {NUMERIC, ALPHANUMERIC, BYTE}"
    using segments_read_back [OF True] by auto
  have "0 \<le> numChars seg" if "seg \<in> set segs" for seg
    using segs(1) that
    by (auto simp: makeSegments_def makeNumeric_def makeAlphanumeric_def makeBytes_def newSegment_def and_then_def
        split: if_splits sum.splits)
  with segs True show ?thesis by (auto simp: segment_ok_def list_all_iff)
next
  case False
  have "list_all (\<lambda>u. u < 55296) s" if "isNumeric s \<or> isAlphanumeric s \<or> s = []"
    using that
    by (auto simp: isNumeric_def isAlphanumeric_def list_all_iff is_digit_def alphanumeric_char_def is_upper_def)
  then have "\<not> isNumeric s" "\<not> isAlphanumeric s" "s \<noteq> []" using False well_formed_plain by blast+
  moreover have "toUtf8ByteArray s = Inl (PlainError (js ''URI malformed''))"
    using toUtf8ByteArray_is_utf8 [OF assms] False by simp
  ultimately show ?thesis using False by (simp add: makeSegments_def)
qed

lemma encodeText_answers:
  assumes "list_all is_unit s"
  shows "case encodeText s ecl of
      Inr q \<Rightarrow> well_formed s \<and> (\<exists>segs v. makeSegments s = Inr segs \<and> 1 \<le> v \<and> v \<le> 40 \<and> fits segs v ecl)
    | Inl e \<Rightarrow> \<not> well_formed s \<and> e = PlainError (js ''URI malformed'') \<or>
        well_formed s \<and> e = RangeError (js ''Data too long'') \<and>
        (\<exists>segs. makeSegments s = Inr segs \<and> (\<forall>v. 1 \<le> v \<and> v \<le> 40 \<longrightarrow> \<not> fits segs v ecl))"
proof (cases "makeSegments s")
  case (Inl e)
  then show ?thesis using makeSegments_well_formed [OF assms] by (simp add: encodeText_def)
next
  case (Inr segs)
  then have segs: "well_formed s" "list_all segment_ok segs" using makeSegments_well_formed [OF assms] by auto
  have "encodeText s ecl = encodeSegments segs ecl 1 40 (- 1) True" using Inr by (simp add: encodeText_def)
  then show ?thesis
    using encodeSegments_returns [of 1 40 "- 1" segs ecl True] segs Inr
    by (cases "encodeSegments segs ecl 1 40 (- 1) True") auto
qed

text \<open>C17: A text becomes a QR code unless it is malformed or too long. For every string of UTF-16 units and
  every level, \<open>encodeText\<close> returns a code; or throws \<open>URIError\<close>, exactly when the string has a lone
  surrogate; or throws "Data too long", exactly when the segments fit no version from 1 to 40. No
  assertion of the generator fails and no write leaves the grid, whatever the mask chosen.\<close>

theorem encodeText_returns:
  assumes "list_all is_unit s"
  shows "case encodeText s ecl of
      Inr q \<Rightarrow> well_formed s \<and> (\<exists>segs v. makeSegments s = Inr segs \<and> 1 \<le> v \<and> v \<le> 40 \<and> fits segs v ecl)
    | Inl e \<Rightarrow> \<not> well_formed s \<and> e = PlainError (js ''URI malformed'') \<or>
        well_formed s \<and> e = RangeError (js ''Data too long'') \<and>
        (\<exists>segs. makeSegments s = Inr segs \<and> (\<forall>v. 1 \<le> v \<and> v \<le> 40 \<longrightarrow> \<not> fits segs v ecl))"
  using assms by (rule encodeText_answers)

section \<open>Short texts\<close>

lemma byte_bits_length: "byte_bits data bb = Inr r \<Longrightarrow> length r = length bb + 8 * length data"
  by (induction data arbitrary: bb) (auto simp: and_then_def dest: appendBits_length split: sum.splits)

lemma numeric_bits_length: "numeric_bits ds bb = Inr r \<Longrightarrow> length r \<le> length bb + 8 * length ds"
proof (induction ds bb arbitrary: r rule: numeric_bits.induct)
  case (1 ds bb)
  show ?case
  proof (cases "ds = []")
    case True
    then show ?thesis using "1.prems" by (subst (asm) numeric_bits.simps) simp
  next
    case False
    let ?n = "min (length ds) 3"
    have n: "1 \<le> ?n" using False by (cases ds) auto
    obtain b where b: "appendBits (int (bigint_of_digits (take ?n ds))) (int ?n * 3 + 1) bb = Inr b"
      "numeric_bits (drop ?n ds) b = Inr r"
      using "1.prems" False by (subst (asm) numeric_bits.simps) (auto simp: Let_def and_then_def split: sum.splits)
    have "length r \<le> length b + 8 * length (drop ?n ds)" using "1.IH" [OF False refl b(1) b(2)] .
    moreover have "length b = length bb + nat (int ?n * 3 + 1)" using b(1) by (rule appendBits_length)
    ultimately show ?thesis using n by (auto simp: nat_add_distrib min_def split: if_splits)
  qed
qed

lemma alphanumeric_bits_length: "alphanumeric_bits s bb = Inr r \<Longrightarrow> length r \<le> length bb + 8 * length s"
  by (induction s bb arbitrary: r rule: alphanumeric_bits.induct)
    (auto simp: and_then_def dest!: appendBits_length split: sum.splits, force)

lemma ascii_well_formed:
  assumes "list_all (\<lambda>u. u < 128) s"
  shows "list_all is_unit s" "well_formed s"
proof -
  have "list_all (\<lambda>u. u < 55296) s" using assms by (rule list.pred_mono_strong) simp
  then show "well_formed s" by (rule well_formed_plain)
  then show "list_all is_unit s" by (simp add: well_formed_def)
qed

lemma short_text_fits:
  assumes "list_all (\<lambda>u. u < 128) s" "length s \<le> 100"
  shows "\<exists>segs. makeSegments s = Inr segs \<and> fits segs 10 MEDIUM"
proof -
  note u = ascii_well_formed [OF assms(1)]
  obtain segs where segs: "makeSegments s = Inr segs" using segments_read_back [OF u(2)] by auto
  have utf: "length (utf8_encode s) = length s"
  proof -
    have "list_all (\<lambda>u. \<not> surrogate u) s"
      using assms(1) by (rule list.pred_mono_strong) (simp add: surrogate_def)
    then have "code_points s = s" by (rule code_points_plain)
    moreover have "utf8_bytes p = [p]" if "p \<in> set s" for p
      using assms(1) that by (auto simp: list_all_iff utf8_bytes_def)
    then have "concat (map utf8_bytes s) = s" by (induction s) simp_all
    ultimately show ?thesis using u(2) by (simp add: utf8_encode_well_formed)
  qed
  have "segs = [] \<or> (\<exists>m b. segs = [\<lparr>seg_mode = m, numChars = int (length s), bitData = b\<rparr>] \<and>
      m \<in> {NUMERIC, ALPHANUMERIC, BYTE} \<and> length b \<le> 8 * length s)"
    using segs toUtf8ByteArray_is_utf8 [OF u(1)] u(2) utf
    by (auto simp: makeSegments_def makeNumeric_def makeAlphanumeric_def makeBytes_def newSegment_def and_then_def
        dest!: byte_bits_length numeric_bits_length alphanumeric_bits_length split: if_splits sum.splits)
  then have "\<exists>used. getTotalBits segs 10 = Some used \<and> used \<le> 820"
    using assms(2)
    by (auto simp: getTotalBits_def numCharCountBits_def NUMERIC_def ALPHANUMERIC_def BYTE_def shl_plain)
  moreover have "getNumDataCodewords 10 MEDIUM = Inr 216" by code_simp
  ultimately show ?thesis using segs by (auto simp: fits_def)
qed

lemma short_text_encodes:
  assumes "list_all (\<lambda>u. u < 128) s" "length s \<le> 100"
  shows "\<exists>q. encodeText s MEDIUM = Inr q"
proof -
  note u = ascii_well_formed [OF assms(1)]
  obtain segs where "makeSegments s = Inr segs" "fits segs 10 MEDIUM" using short_text_fits [OF assms] by blast
  then show ?thesis using encodeText_answers [OF u(1), of MEDIUM] u(2) by (cases "encodeText s MEDIUM") auto
qed

theorem encodeText_returns_witness:
  "well_formed (js ''https://astrea.example/es/events/1'') \<and>
   (\<exists>q. encodeText (js ''https://astrea.example/es/events/1'') MEDIUM = Inr q)"
proof -
  let ?s = "js ''https://astrea.example/es/events/1''"
  obtain q where q: "encodeText ?s MEDIUM = Inr q" using short_text_encodes [of ?s] by auto
  have "list_all is_unit ?s" by (simp add: is_unit_def)
  from encodeText_returns [OF this, of MEDIUM] q show ?thesis by (simp del: js_Cons)
qed


text \<open>C31: Every QR code that is made is well formed: if the constructor returns, the version and the mask
  were in range; the object has that version and level, size \<open>4 * version + 17\<close>, a square grid of
  modules of that size, no function grid left, and a mask from 0 to 7, the one asked for unless -1 asked
  for the best.\<close>

theorem newQrCode_well_formed:
  assumes "newQrCode ver ecl dataCodewords msk = Inr q"
  shows "1 \<le> ver \<and> ver \<le> 40 \<and> - 1 \<le> msk \<and> msk \<le> 7 \<and> qr_version q = ver \<and>
    errorCorrectionLevel q = ecl \<and> qr_size q = ver * 4 + 17 \<and> square (qr_size q) (modules q) \<and>
    isFunction q = [] \<and> 0 \<le> qr_mask q \<and> qr_mask q \<le> 7 \<and> (msk \<noteq> - 1 \<longrightarrow> qr_mask q = msk)"
  using assms by (rule newQrCode_shape)

theorem newQrCode_well_formed_witness:
  "\<exists>q. newQrCode 1 LOW (replicate 19 17) 5 = Inr q \<and> qr_size q = 21 \<and> square (qr_size q) (modules q) \<and>
    qr_mask q = 5"
proof -
  have "getNumDataCodewords 1 LOW = Inr (int (length (replicate 19 (17::int))))" by code_simp
  then obtain q where q: "newQrCode 1 LOW (replicate 19 17) 5 = Inr q"
    using newQrCode_returns [of 1 5 LOW "replicate 19 17"] by (auto simp: is_byte_def list_all_iff)
  with newQrCode_well_formed [OF q] show ?thesis by auto
qed

end
