(* ===== verification/Registration.thy ===== *)
theory Registration
  imports GitHub Trustline
begin

text \<open>
  The event page's server actions, \<open>events/[id]/actions.ts\<close>: a participant registers a team of one,
  and the organizer starts the judging. The record \<open>registration_env\<close> holds Horizon, the USDC asset,
  the two readings of a URL (\<open>sub_URL\<close> gives the \<open>protocol\<close> and the text of \<open>new URL(s)\<close>,
  \<open>repo_URL\<close> its host and path) and \<open>toLowerCase\<close>. The nested create of a team and its member is one
  statement for the database: the unique keys, the foreign key of the event, the trigger that
  freezes the shares and the deferred check that they sum to 10000 either all pass or nothing is
  written (\<open>prisma/migrations\<close>).
\<close>

section \<open>Results and inputs\<close>

datatype refusal_code =
    notConnected | eventNotFound | notLive | missingTrustline | alreadyRegistered | invalidTeamName
  | invalidSubmissionUrl | notOrganizer | transition | githubRequired | invalidGithubUrl | notRepoOwner

datatype ActionResult =
    Done
  | Refused refusal_code "jstring option"

record RegisterTeamInput =
  rt_teamName :: jstring
  rt_submissionUrl :: jstring

record registration_env =
  reg_horizon :: "world horizon"
  reg_usdc :: usdc_env
  sub_URL :: "jstring \<Rightarrow> (jstring \<times> jstring) option"
  repo_URL :: url_parts
  to_lower :: "jstring \<Rightarrow> jstring"

definition TEAM_NAME_MAX :: nat where
  "TEAM_NAME_MAX = 80"

definition parseSubmissionUrl :: "registration_env \<Rightarrow> jstring \<Rightarrow> jstring option" where
  "parseSubmissionUrl re raw =
     (case sub_URL re (trim raw) of
        None \<Rightarrow> None
      | Some (protocol, href) \<Rightarrow>
          if protocol \<noteq> js ''https:'' \<and> protocol \<noteq> js ''http:'' then None else Some href)"

section \<open>The nested create\<close>

definition frozen_shares :: exn where
  "frozen_shares = PlainError (js ''team shares are locked once judging begins'')"

definition bad_shares :: exn where
  "bad_shares = PlainError (js ''member shares must sum to exactly 10000'')"

definition missing_parent :: exn where
  "missing_parent = PrismaKnownError (js ''P2003'') (js ''Foreign key constraint failed'')"

definition member_clash :: "member_row \<Rightarrow> member_row \<Rightarrow> bool" where
  "member_clash r s =
     (m_id r = m_id s \<or> m_eventId r = m_eventId s \<and> m_walletId r = m_walletId s \<or>
      m_teamId r = m_teamId s \<and> m_ordinal r = m_ordinal s)"

definition team_shares :: "jstring \<Rightarrow> member_row list \<Rightarrow> int" where
  "team_shares teamId ms = sum_list (map m_shareBasisPoints (filter (\<lambda>m. m_teamId m = teamId) ms))"

definition insert_team :: "team_row \<Rightarrow> member_row \<Rightarrow> world \<Rightarrow> exn + world" where
  "insert_team t m w =
     (if list_ex (\<lambda>s. t_id s = t_id t) (teams w) then Inl P2002
      else (case find_unique (\<lambda>e. e_id e = t_eventId t) (events w) of
              None \<Rightarrow> Inl missing_parent
            | Some e \<Rightarrow>
                if e_status e \<notin> {DRAFT, CREATED, LIVE} then Inl frozen_shares
                else if list_ex (member_clash m) (members w) then Inl P2002
                else if \<not> list_ex (\<lambda>r. w_id r = m_walletId m) (wallets w) then Inl missing_parent
                else if team_shares (t_id t) (members w @ [m]) \<noteq> 10000 then Inl bad_shares
                else Inr (w\<lparr>teams := teams w @ [t], members := members w @ [m]\<rparr>)))"

definition team_create :: "team_row \<Rightarrow> member_row \<Rightarrow> (world, unit) action" where
  "team_create t m =
     await random_uuid (\<lambda>teamId.
     await random_uuid (\<lambda>memberId.
     db_call (\<lambda>w.
       case insert_team (t\<lparr>t_id := teamId\<rparr>) (m\<lparr>m_id := memberId, m_teamId := teamId\<rparr>) w of
         Inl e \<Rightarrow> (Inl e, w)
       | Inr w' \<Rightarrow> (Inr (), w'))))"

section \<open>registerTeam\<close>

definition refuse :: "refusal_code \<Rightarrow> (world, ActionResult) action" where
  "refuse code = return_value (Refused code None)"

definition github_account :: "session_wallet \<Rightarrow> world \<Rightarrow> linked_row option" where
  "github_account session w =
     find_unique (\<lambda>r. l_walletId r = w_id (sw_wallet session) \<and> l_provider r = GITHUB) (linked w)"

definition repo_claim :: "linked_row \<Rightarrow> jstring \<Rightarrow> RepoOwnershipInput" where
  "repo_claim account owner =
     \<lparr>ro_userLogin = Some (l_username account), ro_repoOwner = Some owner, ro_admin = False,
      ro_push = False, ro_isCollaborator = False\<rparr>"

text \<open>\<open>Inl\<close> is the early return, \<open>Inr\<close> the value of \<open>submissionVerifiedAt\<close>.\<close>

definition check_submission ::
    "registration_env \<Rightarrow> session_wallet \<Rightarrow> event_row \<Rightarrow> jstring \<Rightarrow> (world, ActionResult + int option) action" where
  "check_submission re session e submissionUrl =
     (if \<not> e_requireGithub e then return_value (Inr None)
      else
        await (select (github_account session)) (\<lambda>linkedAccount.
        case linkedAccount of
          None \<Rightarrow> return_value (Inl (Refused githubRequired None))
        | Some account \<Rightarrow>
            (case parseGitHubRepoUrl (repo_URL re) submissionUrl of
               None \<Rightarrow> return_value (Inl (Refused invalidGithubUrl None))
             | Some (owner, repo) \<Rightarrow>
                 (case checkRepoOwnership (to_lower re) (repo_claim account owner) of
                    Inl why \<Rightarrow> return_value (Inl (Refused notRepoOwner (Some why)))
                  | Inr _ \<Rightarrow> await date_now (\<lambda>now. return_value (Inr (Some now)))))))"

definition membership :: "jstring \<Rightarrow> session_wallet \<Rightarrow> world \<Rightarrow> member_row option" where
  "membership eventId session w =
     find_unique (\<lambda>m. m_eventId m = uuid_key eventId \<and> m_walletId m = w_id (sw_wallet session)) (members w)"

definition new_team :: "jstring \<Rightarrow> jstring \<Rightarrow> jstring \<Rightarrow> int option \<Rightarrow> team_row" where
  "new_team eventId teamName submissionUrl verifiedAt =
     \<lparr>t_id = [], t_eventId = uuid_key eventId, t_name = teamName, t_submissionUrl = submissionUrl,
      t_submissionVerifiedAt = verifiedAt\<rparr>"

definition sole_member :: "jstring \<Rightarrow> session_wallet \<Rightarrow> member_row" where
  "sole_member eventId session =
     \<lparr>m_id = [], m_teamId = [], m_eventId = uuid_key eventId, m_walletId = w_id (sw_wallet session),
      m_shareBasisPoints = 10000, m_ordinal = 0\<rparr>"

definition enroll ::
    "registration_env \<Rightarrow> session_wallet \<Rightarrow> jstring \<Rightarrow> jstring \<Rightarrow> jstring \<Rightarrow> int option \<Rightarrow>
     (world, ActionResult) action" where
  "enroll re session eventId teamName submissionUrl verifiedAt =
     await (verifyAndRecordTrustline (reg_horizon re) (reg_usdc re) (w_id (sw_wallet session))
              (session_address session)) (\<lambda>hasTrustline.
     if \<not> hasTrustline then
       return_value (Refused missingTrustline
         (Some (USDC_SYMBOL (reg_usdc re) @ [58] @ USDC_ISSUER (reg_usdc re))))
     else
       await (select (membership eventId session)) (\<lambda>existing.
       if existing \<noteq> None then refuse alreadyRegistered
       else
         await (team_create (new_team eventId teamName submissionUrl verifiedAt)
                  (sole_member eventId session)) (\<lambda>_.
         await (revalidate_path (event_page eventId)) (\<lambda>_.
         return_value Done))))"

definition registerTeam ::
    "registration_env \<Rightarrow> jstring \<Rightarrow> RegisterTeamInput \<Rightarrow> (world, ActionResult) action" where
  "registerTeam re eventId input =
     await getSessionWallet (\<lambda>s.
     case s of
       None \<Rightarrow> refuse notConnected
     | Some session \<Rightarrow>
         let teamName = trim (rt_teamName input) in
         if length teamName = 0 \<or> TEAM_NAME_MAX < length teamName then refuse invalidTeamName
         else
           let submissionUrl = parseSubmissionUrl re (rt_submissionUrl input) in
           if \<not> present submissionUrl then refuse invalidSubmissionUrl
           else if \<not> isUuid eventId then refuse eventNotFound
           else
             await (select_by_uuid eventId (find_event eventId)) (\<lambda>event.
             case event of
               None \<Rightarrow> refuse eventNotFound
             | Some e \<Rightarrow>
                 if e_status e \<noteq> LIVE then refuse notLive
                 else
                   await (check_submission re session e (the submissionUrl)) (\<lambda>checked.
                   case checked of
                     Inl refused \<Rightarrow> return_value refused
                   | Inr verifiedAt \<Rightarrow>
                       enroll re session eventId teamName (the submissionUrl) verifiedAt)))"

section \<open>startJudging and the form adapters\<close>

text \<open>\<open>transitionEvent\<close> compares ids as texts, so it is given the spelling the column has.\<close>

definition startJudging :: "jstring \<Rightarrow> (world, ActionResult) action" where
  "startJudging eventId =
     await getSessionWallet (\<lambda>s.
     case s of
       None \<Rightarrow> refuse notConnected
     | Some session \<Rightarrow>
         if \<not> isUuid eventId then refuse eventNotFound
         else
           await (select_by_uuid eventId (find_event eventId)) (\<lambda>event.
           case event of
             None \<Rightarrow> refuse eventNotFound
           | Some e \<Rightarrow>
               if e_organizerWalletId e \<noteq> w_id (sw_wallet session) then refuse notOrganizer
               else if e_status e \<noteq> LIVE then refuse notLive
               else
                 await (try_catch
                   (await (transitionEvent (uuid_key eventId) LIVE JUDGING) (\<lambda>_. return_value None))
                   (\<lambda>err. return_value (Some (Refused transition (Some (error_text err)))))) (\<lambda>failed.
                 case failed of
                   Some refused \<Rightarrow> return_value refused
                 | None \<Rightarrow>
                     await (revalidate_path (event_page eventId)) (\<lambda>_. return_value Done))))"

text \<open>\<open>String(formData.get(k) ?? "")\<close>, where \<open>fd\<close> gives the text fields of the form.\<close>

definition form_text :: "(jstring \<Rightarrow> jstring option) \<Rightarrow> jstring \<Rightarrow> jstring" where
  "form_text fd k = (case fd k of None \<Rightarrow> [] | Some v \<Rightarrow> v)"

definition registerTeamAction ::
    "registration_env \<Rightarrow> (jstring \<Rightarrow> jstring option) \<Rightarrow> (world, ActionResult) action" where
  "registerTeamAction re fd =
     registerTeam re (form_text fd (js ''eventId''))
       \<lparr>rt_teamName = form_text fd (js ''teamName''),
        rt_submissionUrl = form_text fd (js ''submissionUrl'')\<rparr>"

definition startJudgingAction :: "(jstring \<Rightarrow> jstring option) \<Rightarrow> (world, ActionResult) action" where
  "startJudgingAction fd = startJudging (form_text fd (js ''eventId''))"


section \<open>What a registration writes\<close>

lemma insert_team_Inr:
  assumes "insert_team t m w = Inr w'"
  shows "w' = w\<lparr>teams := teams w @ [t], members := members w @ [m]\<rparr>"
    and "\<forall>s\<in>set (teams w). t_id s \<noteq> t_id t" and "\<forall>s\<in>set (members w). \<not> member_clash m s"
    and "\<exists>e\<in>set (events w). e_id e = t_eventId t \<and> e_status e \<in> {DRAFT, CREATED, LIVE}"
    and "team_shares (t_id t) (members w @ [m]) = 10000"
proof -
  obtain e where "find_unique (\<lambda>e. e_id e = t_eventId t) (events w) = Some e"
    using assms by (fastforce simp: insert_team_def split: if_splits option.splits)
  moreover from this have "e \<in> set (events w)" "e_id e = t_eventId t"
    by (auto dest: find_unique_Some)
  ultimately show "w' = w\<lparr>teams := teams w @ [t], members := members w @ [m]\<rparr>"
    "\<forall>s\<in>set (teams w). t_id s \<noteq> t_id t" "\<forall>s\<in>set (members w). \<not> member_clash m s"
    "\<exists>e\<in>set (events w). e_id e = t_eventId t \<and> e_status e \<in> {DRAFT, CREATED, LIVE}"
    "team_shares (t_id t) (members w @ [m]) = 10000"
    using assms by (auto simp: insert_team_def list_ex_iff split: if_splits)
qed

text \<open>The tables of a registration, before and after: one team and its member were added.\<close>

definition one_team_added :: "team_row \<Rightarrow> member_row \<Rightarrow> world \<Rightarrow> world \<Rightarrow> bool" where
  "one_team_added t m w w' \<longleftrightarrow>
     (\<exists>i j. let t' = t\<lparr>t_id := i\<rparr>; m' = m\<lparr>m_id := j, m_teamId := i\<rparr> in
        teams w' = teams w @ [t'] \<and> members w' = members w @ [m'] \<and>
        (\<forall>s\<in>set (teams w). t_id s \<noteq> i) \<and> (\<forall>s\<in>set (members w). \<not> member_clash m' s) \<and>
        (\<exists>e\<in>set (events w). e_id e = t_eventId t \<and> e_status e \<in> {DRAFT, CREATED, LIVE}) \<and>
        team_shares i (members w @ [m']) = 10000)"

definition same_rosters :: "world \<Rightarrow> world \<Rightarrow> bool" where
  "same_rosters w w' \<longleftrightarrow> teams w' = teams w \<and> members w' = members w"

lemma insert_team_added:
  assumes "insert_team (t\<lparr>t_id := i\<rparr>) (m\<lparr>m_id := j, m_teamId := i\<rparr>) (w\<lparr>uuid_next := n, faults := fs\<rparr>) = Inr v"
  shows "one_team_added t m w v"
  using insert_team_Inr [OF assms]
  unfolding one_team_added_def Let_def
  by (intro exI [of _ i] exI [of _ j]) simp

lemma team_create_cases:
  assumes "team_create t m w = (r, w')"
  shows "same_rosters w w' \<and> isl r \<or> one_team_added t m w w'"
proof -
  let ?i = "uuid_of w (uuid_next w)" and ?j = "uuid_of w (Suc (uuid_next w))"
  let ?n = "Suc (Suc (uuid_next w))"
  let ?ins = "insert_team (t\<lparr>t_id := ?i\<rparr>) (m\<lparr>m_id := ?j, m_teamId := ?i\<rparr>)"
  have ins: "same_rosters w u \<and> isl q \<or> one_team_added t m w u"
    if "(case ?ins (w\<lparr>uuid_next := ?n, faults := fs\<rparr>) of
          Inl e \<Rightarrow> (Inl e, w\<lparr>uuid_next := ?n, faults := fs\<rparr>) | Inr w' \<Rightarrow> (Inr (), w')) = (q, u)" for fs q u
    using that
    by (cases "?ins (w\<lparr>uuid_next := ?n, faults := fs\<rparr>)")
      (auto simp: same_rosters_def dest: insert_team_added)
  have "db_call (\<lambda>w. case ?ins w of Inl e \<Rightarrow> (Inl e, w) | Inr w' \<Rightarrow> (Inr (), w')) (w\<lparr>uuid_next := ?n\<rparr>) = (r, w')"
    using assms by (simp add: team_create_def)
  then show ?thesis
  proof (cases rule: db_callE)
    case (before fs)
    then show ?thesis by (simp add: same_rosters_def)
  next
    case (ran fs)
    then show ?thesis by (rule ins)
  next
    case (lost fs r')
    from lost(1) ins [OF lost(2)] show ?thesis by auto
  qed
qed

text \<open>What stays as it is on the way to the create.\<close>

definition enrolment :: "world \<Rightarrow> team_row list \<times> member_row list \<times> event_row list \<times> linked_row list" where
  "enrolment w = (teams w, members w, events w, linked w)"

lemma enrolment_views [simp]:
  "enrolment (w\<lparr>faults := fs\<rparr>) = enrolment w" "enrolment (put_wallets ws w) = enrolment w"
  "enrolment (w\<lparr>revalidated := ps\<rparr>) = enrolment w"
  by (simp_all add: enrolment_def put_wallets_def)

lemma enrolment_same: "enrolment w' = enrolment w \<Longrightarrow> same_rosters w w'"
  by (simp add: enrolment_def same_rosters_def)

lemma keeps_trustline:
  assumes "\<And>a. keeps (\<lambda>w w'. enrolment w' = enrolment w) (loadAccount hz a)"
  shows "keeps (\<lambda>w w'. enrolment w' = enrolment w) (verifyAndRecordTrustline hz env i a)"
  unfolding verifyAndRecordTrustline_def hasUsdcTrustline_def wallet_update_def using assms
  by (auto intro!: keeps_await keeps_try_catch keeps_return keeps_throw keeps_lift keeps_date_now keeps_on_table)

lemma enroll_cases:
  assumes hz: "\<And>a. keeps (\<lambda>w w'. enrolment w' = enrolment w) (loadAccount (reg_horizon re) a)"
    and run: "enroll re session eventId teamName url verifiedAt w = (r, w')"
  shows "same_rosters w w' \<and> r \<noteq> Inr Done \<or>
    one_team_added (new_team eventId teamName url verifiedAt) (sole_member eventId session) w w' \<and>
    (\<exists>v. verifyAndRecordTrustline (reg_horizon re) (reg_usdc re) (w_id (sw_wallet session))
              (session_address session) w = (Inr True, v))"
proof -
  let ?check = "verifyAndRecordTrustline (reg_horizon re) (reg_usdc re) (w_id (sw_wallet session))
              (session_address session)"
  let ?t = "new_team eventId teamName url verifiedAt" and ?m = "sole_member eventId session"
  obtain q v where q: "?check w = (q, v)" by fastforce
  have v: "enrolment v = enrolment w" using keepsD [OF keeps_trustline [OF hz] q] .
  show ?thesis
  proof (cases "q = Inr True")
    case False
    then have "w' = v" "r \<noteq> Inr Done"
      using run q by (cases q; auto simp: enroll_def)+
    with v show ?thesis by (auto dest: enrolment_same)
  next
    case True
    obtain p u where p: "select (membership eventId session) v = (p, u)" by fastforce
    then have u: "enrolment u = enrolment w" using v by (cases rule: selectE) auto
    show ?thesis
    proof (cases "p = Inr None")
      case False
      then have "w' = u" "r \<noteq> Inr Done"
        using run q p True by (cases p; auto simp: enroll_def refuse_def)+
      with u show ?thesis by (auto dest: enrolment_same)
    next
      case none: True
      obtain o' z where z: "team_create ?t ?m u = (o', z)" by fastforce
      have "teams w' = teams z" "members w' = members z" and "r = Inr Done \<Longrightarrow> o' = Inr ()"
        using run q p True none z by (cases o'; auto simp: enroll_def)+
      with team_create_cases [OF z] u q True show ?thesis
        by (auto simp: same_rosters_def one_team_added_def enrolment_def)
    qed
  qed
qed

text \<open>What a submission must be when the event asks for GitHub.\<close>

definition submission_accepted ::
    "registration_env \<Rightarrow> session_wallet \<Rightarrow> event_row \<Rightarrow> jstring \<Rightarrow> int option \<Rightarrow> world \<Rightarrow> bool" where
  "submission_accepted re session e url verifiedAt w \<longleftrightarrow>
     (if e_requireGithub e then
        \<exists>account owner repo. account \<in> set (linked w) \<and> l_walletId account = w_id (sw_wallet session) \<and>
          l_provider account = GITHUB \<and> parseGitHubRepoUrl (repo_URL re) url = Some (owner, repo) \<and>
          checkRepoOwnership (to_lower re) (repo_claim account owner) = Inr () \<and> verifiedAt = Some (clock w)
      else verifiedAt = None)"

lemma check_submission_cases:
  assumes "check_submission re session e url w = (r, w')"
  shows "enrolment w' = enrolment w \<and>
    (\<forall>stamp. r = Inr (Inr stamp) \<longrightarrow> submission_accepted re session e url stamp w)"
proof (cases "e_requireGithub e")
  case False
  with assms show ?thesis by (auto simp: check_submission_def submission_accepted_def)
next
  case True
  obtain q v where q: "select (github_account session) w = (q, v)" by fastforce
  then have v: "enrolment v = enrolment w" "clock v = clock w" "\<exists>fs. v = w\<lparr>faults := fs\<rparr>"
    by (cases rule: selectE; auto)+
  have found: "account \<in> set (linked w) \<and> l_walletId account = w_id (sw_wallet session) \<and>
      l_provider account = GITHUB" if "q = Inr (Some account)" for account
    using q that by (cases rule: selectE) (auto simp: github_account_def dest!: find_unique_Some [OF sym])
  show ?thesis
  proof (cases "\<exists>account owner repo. q = Inr (Some account) \<and>
      parseGitHubRepoUrl (repo_URL re) url = Some (owner, repo) \<and>
      checkRepoOwnership (to_lower re) (repo_claim account owner) = Inr ()")
    case False
    then have "w' = v \<and> (\<forall>stamp. r \<noteq> Inr (Inr stamp))"
      using assms True q
      by (cases q) (auto simp: check_submission_def split: option.splits prod.splits sum.splits)
    with v show ?thesis by simp
  next
    case ok: True
    then have "w' = v \<and> r = Inr (Inr (Some (clock v)))"
      using assms True q by (auto simp: check_submission_def)
    with ok found v True show ?thesis by (auto simp: submission_accepted_def)
  qed
qed

lemma find_event_eq: "enrolment w' = enrolment w \<Longrightarrow> find_event i w' = find_event i w"
  by (simp add: find_event_def enrolment_def)

lemma submission_accepted_eq:
  "enrolment v = enrolment w \<Longrightarrow> clock v = clock w \<Longrightarrow>
     submission_accepted re s e url stamp v \<longleftrightarrow> submission_accepted re s e url stamp w"
  by (simp add: submission_accepted_def enrolment_def)

lemma one_team_added_eq:
  "enrolment v = enrolment w \<Longrightarrow> one_team_added t m v w' \<longleftrightarrow> one_team_added t m w w'"
  by (simp add: one_team_added_def enrolment_def)

lemma same_rosters_eq: "enrolment v = enrolment w \<Longrightarrow> same_rosters v w' \<longleftrightarrow> same_rosters w w'"
  by (simp add: same_rosters_def enrolment_def)

lemma registerTeam_cases:
  assumes hz: "\<And>a. keeps (\<lambda>w w'. enrolment w' = enrolment w) (loadAccount (reg_horizon re) a)"
    and run: "registerTeam re eventId input w = (r, w')"
  shows "same_rosters w w' \<and> r \<noteq> Inr Done \<or>
    (\<exists>session e url stamp u v. signed_in_as w session \<and> isUuid eventId \<and> find_event eventId w = Some e \<and>
       e_status e = LIVE \<and> parseSubmissionUrl re (rt_submissionUrl input) = Some url \<and>
       0 < length (trim (rt_teamName input)) \<and> length (trim (rt_teamName input)) \<le> TEAM_NAME_MAX \<and>
       submission_accepted re session e url stamp w \<and>
       verifyAndRecordTrustline (reg_horizon re) (reg_usdc re) (w_id (sw_wallet session))
         (session_address session) u = (Inr True, v) \<and>
       one_team_added (new_team eventId (trim (rt_teamName input)) url stamp) (sole_member eventId session) w w')"
proof -
  let ?name = "trim (rt_teamName input)" and ?url = "parseSubmissionUrl re (rt_submissionUrl input)"
  obtain s v where s: "getSessionWallet w = (s, v)" by fastforce
  obtain fs where v: "v = w\<lparr>faults := fs\<rparr>" and si: "\<And>x. s = Inr (Some x) \<Longrightarrow> signed_in_as w x"
    using getSessionWallet_cases [OF s] by blast
  show ?thesis
  proof (cases "(\<exists>session. s = Inr (Some session)) \<and> 0 < length ?name \<and> length ?name \<le> TEAM_NAME_MAX \<and>
      present ?url \<and> isUuid eventId")
    case False
    then have "w' = v" "r \<noteq> Inr Done"
      using run s
      by (cases s; auto simp: registerTeam_def refuse_def Let_def split: option.splits if_splits)+
    with v show ?thesis by (simp add: same_rosters_def)
  next
    case True
    then obtain session url where session: "s = Inr (Some session)" and url: "?url = Some url"
      by (cases ?url) (auto simp: present_def)
    obtain q u where q: "select_by_uuid eventId (find_event eventId) v = (q, u)" by fastforce
    have u: "\<exists>fs. u = w\<lparr>faults := fs\<rparr>" "\<And>x. q = Inr (Some x) \<Longrightarrow> find_event eventId w = Some x"
      using q v by (auto simp: find_event_def elim!: select_by_uuidE)
    then have eu: "enrolment u = enrolment w" "clock u = clock w" by auto
    show ?thesis
    proof (cases "\<exists>e. q = Inr (Some e) \<and> e_status e = LIVE")
      case False
      then have "w' = u" "r \<noteq> Inr Done"
        using run s session q True url
        by (cases q; auto simp: registerTeam_def refuse_def Let_def split: option.splits if_splits)+
      with eu show ?thesis by (auto dest: enrolment_same)
    next
      case live: True
      then obtain e where e: "q = Inr (Some e)" "e_status e = LIVE" by blast
      obtain p z where p: "check_submission re session e url u = (p, z)" by fastforce
      from check_submission_cases [OF p] eu have ez: "enrolment z = enrolment w"
        and ok: "\<And>stamp. p = Inr (Inr stamp) \<Longrightarrow> submission_accepted re session e url stamp w"
        using submission_accepted_eq [OF eu] by auto
      show ?thesis
      proof (cases "\<exists>stamp. p = Inr (Inr stamp)")
        case False
        have "w' = z" "r \<noteq> Inr Done \<or> (\<exists>x. p = Inr (Inl x) \<and> r = Inr x)"
          using run s session q True url e p False
          by (cases p; auto simp: registerTeam_def Let_def split: sum.splits)+
        moreover have "p \<noteq> Inr (Inl Done)"
          using p by (auto simp: check_submission_def await_def split: if_splits prod.splits sum.splits option.splits)
        ultimately show ?thesis using ez by (auto dest: enrolment_same)
      next
        case acc: True
        then obtain stamp where stamp: "p = Inr (Inr stamp)" by blast
        have "enroll re session eventId ?name url stamp z = (r, w')"
          using run s session q True url e p stamp by (simp add: registerTeam_def Let_def)
        from enroll_cases [OF hz this] show ?thesis
          using same_rosters_eq [OF ez] one_team_added_eq [OF ez] si [OF session] u(2) [OF e(1)] e(2)
            True url ok [OF stamp] by metis
      qed
    qed
  qed
qed

section \<open>Properties\<close>

definition test_registration :: registration_env where
  "test_registration = \<lparr>reg_horizon = test_horizon, reg_usdc = test_usdc,
     sub_URL = (\<lambda>s. Some (js ''https:'', s)), repo_URL = (\<lambda>_. None), to_lower = (\<lambda>s. s)\<rparr>"

definition registration_world :: world where
  "registration_world = signed_in_world\<lparr>events := [test_event]\<rparr>"

definition test_entry :: RegisterTeamInput where
  "test_entry = \<lparr>rt_teamName = js ''T'', rt_submissionUrl = js ''u''\<rparr>"

lemma test_registration_keeps:
  "keeps (\<lambda>w w'. enrolment w' = enrolment w) (loadAccount (reg_horizon test_registration) a)"
  by (simp add: test_registration_def test_horizon_def keeps_def)

lemma test_registration_run:
  "fst (registerTeam test_registration test_event_id test_entry registration_world) = Inr Done"
proof -
  have trims: "trim [84] = [84]" "trim [117] = [117]"
    by (simp_all add: trim_all_nonspace js_space_def)
  have s: "getSessionWallet registration_world = (Inr (Some test_session), registration_world)"
    by (simp add: getSessionWallet_def await_def select_by_uuid_def find_unique_def signed_in_world_def
        registration_world_def empty_world_def test_session_def session_of_def test_wallet_def test_wallet_id)
  have e: "select_by_uuid test_event_id (find_event test_event_id) registration_world
      = (Inr (Some test_event), registration_world)"
    by (simp add: select_by_uuid_def find_event_def find_unique_def test_ids test_event_def
        registration_world_def signed_in_world_def empty_world_def)
  have t: "hasUsdcTrustline (reg_horizon test_registration) (reg_usdc test_registration) a w = (Inr True, w)" for a w
    by (simp add: test_registration_def test_open_line)
  have "e_requireGithub test_event = False" "e_status test_event = LIVE"
    by (simp_all add: test_event_def)
  then show ?thesis
    using s e
    by (simp add: registerTeam_def test_entry_def trims parseSubmissionUrl_def test_registration_def
        present_def TEAM_NAME_MAX_def test_ids check_submission_def enroll_def
        verifyAndRecordTrustline_def t [unfolded test_registration_def registration_env.simps]
        wallet_update_def update_unique_def await_def registration_world_def signed_in_world_def
        empty_world_def put_wallets_def test_session_def test_wallet_def membership_def find_unique_def
        team_create_def insert_team_def new_team_def sole_member_def test_event_def team_shares_def
        session_address_def Let_def)
qed

text \<open>C33: Nobody is registered who may not be. Under any database failure, and whatever Horizon
  answers: either no team and no member was written, and the action did not report success, or a
  wallet is signed in, the event is stored and LIVE, the team's name has 1 to 80 characters, the
  submission is an http(s) URL, its GitHub owner is the linked account when the event asks for it,
  the trustline check answered yes, and exactly one team was added with that wallet as its only
  member, with the full share of 10000 basis points and no other entry in the event.\<close>

theorem registerTeam_guarded:
  assumes "\<And>a. keeps (\<lambda>w w'. enrolment w' = enrolment w) (loadAccount (reg_horizon re) a)"
    and "registerTeam re eventId input w = (r, w')"
  shows "same_rosters w w' \<and> r \<noteq> Inr Done \<or>
    (\<exists>session e url stamp u v. signed_in_as w session \<and> isUuid eventId \<and> find_event eventId w = Some e \<and>
       e_status e = LIVE \<and> parseSubmissionUrl re (rt_submissionUrl input) = Some url \<and>
       0 < length (trim (rt_teamName input)) \<and> length (trim (rt_teamName input)) \<le> 80 \<and>
       submission_accepted re session e url stamp w \<and>
       verifyAndRecordTrustline (reg_horizon re) (reg_usdc re) (w_id (sw_wallet session))
         (session_address session) u = (Inr True, v) \<and>
       one_team_added (new_team eventId (trim (rt_teamName input)) url stamp) (sole_member eventId session) w w')"
  using registerTeam_cases [OF assms] unfolding TEAM_NAME_MAX_def .

theorem registerTeam_guarded_witness:
  "let w' = snd (registerTeam test_registration test_event_id test_entry registration_world) in
   fst (registerTeam test_registration test_event_id test_entry registration_world) = Inr Done \<and>
   (\<exists>session url stamp. signed_in_as registration_world session \<and>
      one_team_added (new_team test_event_id (trim (rt_teamName test_entry)) url stamp)
        (sole_member test_event_id session) registration_world w')"
  using registerTeam_guarded [OF test_registration_keeps surjective_pairing,
      where eventId = test_event_id and input = test_entry and w = registration_world] test_registration_run
  unfolding Let_def by blast

definition rosters_ok :: "world \<Rightarrow> bool" where
  "rosters_ok w \<longleftrightarrow>
     distinct (map t_id (teams w)) \<and> distinct (map m_id (members w)) \<and>
     distinct (map (\<lambda>m. (m_eventId m, m_walletId m)) (members w)) \<and>
     (\<forall>t\<in>set (teams w). team_shares (t_id t) (members w) = 10000) \<and>
     (\<forall>m\<in>set (members w). \<exists>t\<in>set (teams w). t_id t = m_teamId m \<and> t_eventId t = m_eventId m)"

lemma team_shares_snoc:
  "team_shares i (ms @ [m]) = team_shares i ms + (if m_teamId m = i then m_shareBasisPoints m else 0)"
  by (simp add: team_shares_def)

lemma one_team_added_rosters:
  assumes "rosters_ok w" "one_team_added t m w w'" "t_eventId t = m_eventId m"
  shows "rosters_ok w'"
proof -
  obtain i j where t: "teams w' = teams w @ [t\<lparr>t_id := i\<rparr>]"
    and m: "members w' = members w @ [m\<lparr>m_id := j, m_teamId := i\<rparr>]"
    and ids: "\<forall>s\<in>set (teams w). t_id s \<noteq> i"
    and clash: "\<forall>s\<in>set (members w). \<not> member_clash (m\<lparr>m_id := j, m_teamId := i\<rparr>) s"
    and shares: "team_shares i (members w @ [m\<lparr>m_id := j, m_teamId := i\<rparr>]) = 10000"
    using assms(2) by (auto simp: one_team_added_def Let_def)
  have "distinct (map t_id (teams w'))"
    using assms(1) ids unfolding t rosters_ok_def by auto
  moreover have "distinct (map m_id (members w'))"
    "distinct (map (\<lambda>m. (m_eventId m, m_walletId m)) (members w'))"
    using assms(1) clash unfolding m rosters_ok_def by (auto simp: member_clash_def)
  moreover have "\<forall>t\<in>set (teams w'). team_shares (t_id t) (members w') = 10000"
    using assms(1) ids shares unfolding m t rosters_ok_def by (auto simp: team_shares_snoc)
  moreover have "\<forall>m\<in>set (members w'). \<exists>t\<in>set (teams w'). t_id t = m_teamId m \<and> t_eventId t = m_eventId m"
    using assms(1,3) unfolding m t rosters_ok_def by auto
  ultimately show ?thesis unfolding rosters_ok_def by simp
qed

lemma same_rosters_ok: "rosters_ok w \<Longrightarrow> same_rosters w w' \<Longrightarrow> rosters_ok w'"
  by (simp add: rosters_ok_def same_rosters_def)

text \<open>C34: The rosters stay sound. Unique team and member ids, at most one entry per wallet and event,
  10000 basis points in every team, and no member without a team of the same event: any run of
  \<open>registerTeam\<close>, successful or not and under any database failure, keeps all of it.\<close>

theorem registerTeam_keeps_rosters:
  assumes "\<And>a. keeps (\<lambda>w w'. enrolment w' = enrolment w) (loadAccount (reg_horizon re) a)"
    and "rosters_ok w"
  shows "rosters_ok (snd (registerTeam re eventId input w))"
proof -
  have "t_eventId (new_team i n url stamp) = m_eventId (sole_member i session)" for i n url stamp session
    by (simp add: new_team_def sole_member_def)
  with registerTeam_cases [OF assms(1) surjective_pairing] show ?thesis
    using same_rosters_ok [OF assms(2)] one_team_added_rosters [OF assms(2)] by metis
qed

theorem registerTeam_keeps_rosters_witness:
  "rosters_ok registration_world \<and>
   rosters_ok (snd (registerTeam test_registration test_event_id test_entry registration_world))"
proof -
  have "rosters_ok registration_world"
    by (simp add: rosters_ok_def registration_world_def signed_in_world_def empty_world_def)
  with registerTeam_keeps_rosters [OF test_registration_keeps this] show ?thesis by blast
qed

text \<open>C35: Judging is started by the organizer, from LIVE. Under any database failure: either no
  event's status changed and the action did not report success, or a wallet is signed in that is
  the organizer wallet of the named event, the event was LIVE, and that one event is now JUDGING.\<close>

theorem startJudging_guarded:
  assumes "event_ids_unique w" and "startJudging eventId w = (r, w')"
  shows "event_status_of w' = event_status_of w \<and> r \<noteq> Inr Done \<or>
    (\<exists>session e. signed_in_as w session \<and> find_event eventId w = Some e \<and>
       e_organizerWalletId e = w_id (sw_wallet session) \<and> e_status e = LIVE \<and>
       event_status_of w' = (event_status_of w)(e_id e \<mapsto> JUDGING))"
proof -
  obtain s v where s: "getSessionWallet w = (s, v)" by fastforce
  obtain fs where v: "v = w\<lparr>faults := fs\<rparr>" and si: "\<And>x. s = Inr (Some x) \<Longrightarrow> signed_in_as w x"
    using getSessionWallet_cases [OF s] by blast
  show ?thesis
  proof (cases "(\<exists>session. s = Inr (Some session)) \<and> isUuid eventId")
    case False
    then have "w' = v" "r \<noteq> Inr Done"
      using assms(2) s by (cases s; auto simp: startJudging_def refuse_def split: option.splits)+
    with v show ?thesis by (simp add: event_status_of_def)
  next
    case True
    then obtain session where session: "s = Inr (Some session)" by blast
    obtain q u where q: "select_by_uuid eventId (find_event eventId) v = (q, u)" by fastforce
    have u: "\<exists>fs. u = w\<lparr>faults := fs\<rparr>" "\<And>x. q = Inr (Some x) \<Longrightarrow> find_event eventId w = Some x"
      using q v by (auto simp: find_event_def elim!: select_by_uuidE)
    then have su: "event_status_of u = event_status_of w" "event_ids_unique u"
      using assms(1) by (auto simp: event_status_of_def event_ids_unique_def)
    show ?thesis
    proof (cases "\<exists>e. q = Inr (Some e) \<and> e_organizerWalletId e = w_id (sw_wallet session) \<and> e_status e = LIVE")
      case False
      then have "w' = u" "r \<noteq> Inr Done"
        using assms(2) s session q True
        by (cases q; auto simp: startJudging_def refuse_def split: option.splits if_splits)+
      with su show ?thesis by simp
    next
      case ok: True
      then obtain e where e: "q = Inr (Some e)" "e_organizerWalletId e = w_id (sw_wallet session)"
        "e_status e = LIVE" by blast
      have key: "e_id e = uuid_key eventId"
        using u(2) [OF e(1)] by (auto simp: find_event_def dest: find_unique_Some)
      obtain p z where p: "transitionEvent (uuid_key eventId) LIVE JUDGING u = (p, z)" by fastforce
      have "event_status_of w' = event_status_of z" "isl p \<Longrightarrow> r \<noteq> Inr Done"
        using assms(2) s session q True e p
        by (cases p; auto simp: startJudging_def event_status_of_def)+
      with transitionEvent_cases [OF su(2) p] show ?thesis
        using si [OF session] u(2) [OF e(1)] e su(1) key by auto
    qed
  qed
qed

theorem startJudging_guarded_witness:
  "fst (startJudging test_event_id registration_world) = Inr Done \<and>
   event_status_of (snd (startJudging test_event_id registration_world)) test_event_id = Some JUDGING"
proof -
  have u: "event_ids_unique registration_world"
    by (simp add: event_ids_unique_def registration_world_def)
  have ok: "assertEventTransition LIVE JUDGING = Inr ()" by code_simp
  have "getSessionWallet registration_world = (Inr (Some test_session), registration_world)"
    by (simp add: getSessionWallet_def await_def select_by_uuid_def find_unique_def signed_in_world_def
        registration_world_def empty_world_def test_session_def session_of_def test_wallet_def test_wallet_id)
  moreover have "select_by_uuid test_event_id (find_event test_event_id) registration_world
      = (Inr (Some test_event), registration_world)"
    by (simp add: select_by_uuid_def find_event_def find_unique_def test_ids test_event_def
        registration_world_def signed_in_world_def empty_world_def)
  moreover have "\<exists>v. transitionEvent test_event_id LIVE JUDGING registration_world = (Inr (), v)"
    unfolding transitionEvent_def await_def lift_result_def ok
    by (simp add: event_updateMany_def update_many_def registration_world_def signed_in_world_def
        empty_world_def test_event_def)
  ultimately have d: "fst (startJudging test_event_id registration_world) = Inr Done"
    by (auto simp: startJudging_def test_ids test_session_def test_wallet_def test_event_def)
  then obtain e where "find_event test_event_id registration_world = Some e"
    "event_status_of (snd (startJudging test_event_id registration_world))
       = (event_status_of registration_world)(e_id e \<mapsto> JUDGING)"
    using startJudging_guarded [OF u surjective_pairing, where eventId = test_event_id] by metis
  moreover from this have "e_id e = test_event_id"
    by (auto simp: find_event_def test_ids dest: find_unique_Some)
  ultimately show ?thesis using d by simp
qed

end
