(* ===== verification/Drafts.thy ===== *)
theory Drafts
  imports Registration
begin

text \<open>
  \<open>organizer/new/actions.ts\<close>: an organizer writes an event as a DRAFT, with its prizes and its judge,
  in one nested create. The record \<open>draft_env\<close> holds the Stellar SDK, \<open>parse_date\<close> (\<open>Date.parse\<close>,
  \<open>None\<close> for NaN), \<open>known_zone\<close> (whether \<open>new Intl.DateTimeFormat\<close> takes the time zone) and the locale
  of the request. The create is one statement for the database, with its unique keys, foreign keys
  and the precision of the amount's column.
\<close>

section \<open>Results and inputs\<close>

datatype draft_code =
    no_session | invalidName | noPrizes | invalidPrize | invalidJudgeAddress | judgeIsOrganizer
  | invalidJudgeName | invalidDeadline | deadlinePast | writeFailed

datatype CreateDraftResult =
    Created jstring
  | DraftRefused draft_code "jstring option"

record CreateDraftEventInput =
  di_name :: jstring
  di_description :: jstring
  di_prizes :: "jstring list"
  di_judgeAddress :: jstring
  di_judgeName :: jstring
  di_judgingDeadlineAt :: jstring
  di_timezone :: jstring

record draft_env =
  de_sdk :: stellar_sdk
  parse_date :: "jstring \<Rightarrow> int option"
  known_zone :: "jstring \<Rightarrow> bool"
  request_locale :: jstring

definition NAME_MAX :: nat where
  "NAME_MAX = 120"

definition DESCRIPTION_MAX :: nat where
  "DESCRIPTION_MAX = 2000"

definition JUDGE_NAME_MAX :: nat where
  "JUDGE_NAME_MAX = 80"

definition isValidTimezone :: "draft_env \<Rightarrow> jstring \<Rightarrow> bool" where
  "isValidTimezone de tz = known_zone de tz"

text \<open>The prizes in order, \<open>Inl\<close> the 0-based position of the first that is no amount; \<open>i\<close> counts them.\<close>

fun read_prizes :: "nat \<Rightarrow> jstring list \<Rightarrow> nat + (nat \<times> nat) list" where
  "read_prizes i [] = Inr []"
| "read_prizes i (raw # raws) =
     (case parseUsdcAmount (trim raw) of
        None \<Rightarrow> Inl i
      | Some amount \<Rightarrow>
          (case read_prizes (Suc i) raws of
             Inl k \<Rightarrow> Inl k
           | Inr ps \<Rightarrow> Inr ((i + 1, amount) # ps)))"

section \<open>The nested create\<close>

definition numeric_overflow :: exn where
  "numeric_overflow = PlainError (js ''numeric field overflow'')"

definition prize_clash :: "prize_row \<Rightarrow> prize_row \<Rightarrow> bool" where
  "prize_clash r s = (p_id r = p_id s \<or> p_eventId r = p_eventId s \<and> p_rank r = p_rank s)"

definition judge_clash :: "judge_row \<Rightarrow> judge_row \<Rightarrow> bool" where
  "judge_clash r s =
     (j_id r = j_id s \<or> j_eventId r = j_eventId s \<and> j_walletAddress r = j_walletAddress s)"

text \<open>A \<open>Decimal(18,7)\<close> holds less than \<open>10 ^ 18\<close> ten-millionths.\<close>

fun insert_prizes :: "prize_row list \<Rightarrow> prize_row list \<Rightarrow> exn + prize_row list" where
  "insert_prizes [] t = Inr t"
| "insert_prizes (p # ps) t =
     (if 10 ^ 18 \<le> p_amount p then Inl numeric_overflow
      else (case insert_row prize_clash p t of
              Inl e \<Rightarrow> Inl e
            | Inr t' \<Rightarrow> insert_prizes ps t'))"

definition insert_draft :: "event_row \<Rightarrow> prize_row list \<Rightarrow> judge_row \<Rightarrow> world \<Rightarrow> exn + world" where
  "insert_draft e ps j w =
     (if list_ex (\<lambda>s. e_id s = e_id e) (events w) then Inl P2002
      else if \<not> list_ex (\<lambda>u. u_id u = e_organizerId e) (users w) \<or>
              \<not> list_ex (\<lambda>r. w_id r = e_organizerWalletId e) (wallets w) then Inl missing_parent
      else (case insert_prizes ps (prizes w) of
              Inl x \<Rightarrow> Inl x
            | Inr pt \<Rightarrow>
                (case insert_row judge_clash j (judges w) of
                   Inl x \<Rightarrow> Inl x
                 | Inr jt \<Rightarrow> Inr (w\<lparr>events := events w @ [e], prizes := pt, judges := jt\<rparr>))))"

definition prize_of :: "jstring \<Rightarrow> jstring \<Rightarrow> nat \<times> nat \<Rightarrow> prize_row" where
  "prize_of eventId prizeId p =
     \<lparr>p_id = prizeId, p_eventId = eventId, p_rank = fst p, p_amount = snd p, p_status = PENDING,
      p_winnerTeamId = None, p_releaseTxHash = None, p_releasedAt = None\<rparr>"

fun random_uuids :: "nat \<Rightarrow> (world, jstring list) action" where
  "random_uuids 0 = return_value []"
| "random_uuids (Suc n) = await random_uuid (\<lambda>i. await (random_uuids n) (\<lambda>is. return_value (i # is)))"

definition draft_create ::
    "event_row \<Rightarrow> (nat \<times> nat) list \<Rightarrow> judge_row \<Rightarrow> (world, jstring) action" where
  "draft_create e ranked j =
     await random_uuid (\<lambda>eventId.
     await (random_uuids (length ranked)) (\<lambda>prizeIds.
     await random_uuid (\<lambda>judgeId.
     await (db_call (\<lambda>w.
       case insert_draft (e\<lparr>e_id := eventId\<rparr>) (map2 (prize_of eventId) prizeIds ranked)
              (j\<lparr>j_id := judgeId, j_eventId := eventId\<rparr>) w of
         Inl x \<Rightarrow> (Inl x, w)
       | Inr w' \<Rightarrow> (Inr (), w'))) (\<lambda>_.
     return_value eventId))))"

section \<open>createDraftEvent\<close>

definition draft_refuse :: "draft_code \<Rightarrow> (world, CreateDraftResult) action" where
  "draft_refuse code = return_value (DraftRefused code None)"

text \<open>The event and the judge as the create is given them; their ids are drawn by \<open>draft_create\<close>.\<close>

definition draft_event ::
    "draft_env \<Rightarrow> session_wallet \<Rightarrow> CreateDraftEventInput \<Rightarrow> int \<Rightarrow> event_row" where
  "draft_event de session input deadlineMs =
     (let description = take DESCRIPTION_MAX (trim (di_description input)) in
      \<lparr>e_id = [], e_organizerId = w_userId (sw_wallet session),
       e_organizerWalletId = w_id (sw_wallet session), e_name = trim (di_name input),
       e_description = (if description = [] then None else Some description),
       e_timezone = (if isValidTimezone de (di_timezone input) then di_timezone input else js ''UTC''),
       e_judgingDeadlineAt = Some deadlineMs, e_status = DRAFT, e_requireGithub = False,
       e_network = TESTNET, e_escrowEventId = None\<rparr>)"

definition draft_judge :: "CreateDraftEventInput \<Rightarrow> judge_row" where
  "draft_judge input =
     \<lparr>j_id = [], j_eventId = [], j_walletAddress = trim (di_judgeAddress input),
      j_displayName = trim (di_judgeName input), j_status = ACTIVE\<rparr>"

text \<open>The write, inside its \<open>try\<close>.\<close>

definition write_draft ::
    "event_row \<Rightarrow> (nat \<times> nat) list \<Rightarrow> judge_row \<Rightarrow> (world, CreateDraftResult) action" where
  "write_draft e ranked j =
     try_catch (await (draft_create e ranked j) (\<lambda>i. return_value (Created i)))
       (\<lambda>err. return_value (DraftRefused writeFailed (Some (error_text err))))"

definition createDraftEvent ::
    "draft_env \<Rightarrow> CreateDraftEventInput \<Rightarrow> (world, CreateDraftResult) action" where
  "createDraftEvent de input =
     await getSessionWallet (\<lambda>s.
     case s of
       None \<Rightarrow> draft_refuse no_session
     | Some session \<Rightarrow>
         let name = trim (di_name input) in
         if length name = 0 \<or> NAME_MAX < length name then draft_refuse invalidName
         else if di_prizes input = [] then draft_refuse noPrizes
         else (case read_prizes 0 (di_prizes input) of
             Inl i \<Rightarrow> return_value (DraftRefused invalidPrize (Some (35 # bigint_to_string (i + 1))))
           | Inr ranked \<Rightarrow>
               let judgeAddress = trim (di_judgeAddress input); judgeName = trim (di_judgeName input) in
               if \<not> STELLAR_ACCOUNT_ID judgeAddress \<or> \<not> valid_public_key (de_sdk de) judgeAddress
               then draft_refuse invalidJudgeAddress
               else if judgeAddress = session_address session then draft_refuse judgeIsOrganizer
               else if length judgeName = 0 \<or> JUDGE_NAME_MAX < length judgeName
               then draft_refuse invalidJudgeName
               else (case parse_date de (di_judgingDeadlineAt input) of
                   None \<Rightarrow> draft_refuse invalidDeadline
                 | Some deadlineMs \<Rightarrow>
                     await date_now (\<lambda>now.
                     if deadlineMs \<le> now then draft_refuse deadlinePast
                     else write_draft (draft_event de session input deadlineMs) ranked (draft_judge input)))))"

text \<open>The form adapter: \<open>fd\<close> gives the first text of a field, \<open>fd_all\<close> all of them. A redirect throws in
  the framework, so nothing follows it.\<close>

datatype draft_response =
    Stay CreateDraftResult
  | GoTo jstring jstring

definition createDraftEventAction ::
    "draft_env \<Rightarrow> (jstring \<Rightarrow> jstring option) \<Rightarrow> (jstring \<Rightarrow> jstring list) \<Rightarrow> (world, draft_response) action" where
  "createDraftEventAction de fd fd_all =
     await (createDraftEvent de
       \<lparr>di_name = form_text fd (js ''name''), di_description = form_text fd (js ''description''),
        di_prizes = fd_all (js ''prize''), di_judgeAddress = form_text fd (js ''judgeAddress''),
        di_judgeName = form_text fd (js ''judgeName''),
        di_judgingDeadlineAt = form_text fd (js ''judgingDeadlineAt''),
        di_timezone = form_text fd (js ''timezone'')\<rparr>) (\<lambda>result.
     case result of
       Created i \<Rightarrow> return_value (GoTo (js ''/organizer/events/'' @ i @ js ''/fund'') (request_locale de))
     | DraftRefused _ _ \<Rightarrow> return_value (Stay result))"


section \<open>What a draft writes\<close>

lemma read_prizes_Inr:
  "read_prizes i raws = Inr ps \<Longrightarrow> length ps = length raws \<and>
     (\<forall>k<length raws. fst (ps ! k) = i + k + 1 \<and> parseUsdcAmount (trim (raws ! k)) = Some (snd (ps ! k)))"
proof (induction raws arbitrary: i ps)
  case Nil
  then show ?case by simp
next
  case (Cons raw raws)
  then obtain amount qs where a: "parseUsdcAmount (trim raw) = Some amount"
    and q: "read_prizes (Suc i) raws = Inr qs" and ps: "ps = (i + 1, amount) # qs"
    by (auto split: option.splits sum.splits)
  from Cons.IH [OF q] show ?case
    by (auto simp: ps a less_Suc_eq_0_disj)
qed

lemma insert_prizes_Inr: "insert_prizes ps t = Inr t' \<Longrightarrow> t' = t @ ps \<and> (\<forall>p\<in>set ps. p_amount p < 10 ^ 18)"
proof (induction ps arbitrary: t)
  case Nil
  then show ?case by simp
next
  case (Cons p ps)
  then obtain u where u: "insert_row prize_clash p t = Inr u" and r: "insert_prizes ps u = Inr t'"
    and p: "p_amount p < 10 ^ 18"
    by (auto split: if_splits sum.splits)
  from Cons.IH [OF r] insert_row_Inr [OF u] p show ?case by simp
qed

lemma random_uuids_run:
  "\<exists>is. random_uuids n w = (Inr is, w\<lparr>uuid_next := uuid_next w + n\<rparr>) \<and> length is = n"
proof (induction n arbitrary: w)
  case 0
  then show ?case by simp
next
  case (Suc n)
  let ?w = "w\<lparr>uuid_next := Suc (uuid_next w)\<rparr>"
  obtain "is" where i: "random_uuids n ?w = (Inr is, w\<lparr>uuid_next := uuid_next w + Suc n\<rparr>)" "length is = n"
    using Suc.IH [of ?w] by auto
  have "random_uuids (Suc n) w = (Inr (uuid_of w (uuid_next w) # is), w\<lparr>uuid_next := uuid_next w + Suc n\<rparr>)"
    by (simp add: i(1))
  then show ?case using i(2) by (metis length_Cons)
qed

text \<open>The rows of one draft, all of them, behind what was there.\<close>

definition draft_written ::
    "event_row \<Rightarrow> (nat \<times> nat) list \<Rightarrow> judge_row \<Rightarrow> jstring \<Rightarrow> world \<Rightarrow> world \<Rightarrow> bool" where
  "draft_written e ranked j i w w' \<longleftrightarrow>
     (\<exists>ids k. events w' = events w @ [e\<lparr>e_id := i\<rparr>] \<and> length ids = length ranked \<and>
        prizes w' = prizes w @ map2 (prize_of i) ids ranked \<and>
        judges w' = judges w @ [j\<lparr>j_id := k, j_eventId := i\<rparr>] \<and>
        (\<forall>s\<in>set (events w). e_id s \<noteq> i) \<and> (\<forall>a\<in>set ranked. snd a < 10 ^ 18))"

definition same_drafts :: "world \<Rightarrow> world \<Rightarrow> bool" where
  "same_drafts w w' \<longleftrightarrow> events w' = events w \<and> prizes w' = prizes w \<and> judges w' = judges w"

lemma amounts_of_map2:
  "length ids = length ranked \<Longrightarrow> (\<forall>p\<in>set (map2 (prize_of i) ids ranked). P (p_amount p)) \<longleftrightarrow>
     (\<forall>a\<in>set ranked. P (snd a))"
  by (induction ids ranked rule: list_induct2) (auto simp: prize_of_def)

lemma insert_draft_written:
  assumes "insert_draft (e\<lparr>e_id := i\<rparr>) (map2 (prize_of i) ids ranked) (j\<lparr>j_id := k, j_eventId := i\<rparr>) u = Inr v"
    and "length ids = length ranked" and "u = w\<lparr>uuid_next := n, faults := fs\<rparr>"
  shows "draft_written e ranked j i w v"
proof -
  obtain pt jt where p: "insert_prizes (map2 (prize_of i) ids ranked) (prizes u) = Inr pt"
    and t: "insert_row judge_clash (j\<lparr>j_id := k, j_eventId := i\<rparr>) (judges u) = Inr jt"
    and v: "v = u\<lparr>events := events u @ [e\<lparr>e_id := i\<rparr>], prizes := pt, judges := jt\<rparr>"
    and fresh: "\<forall>s\<in>set (events u). e_id s \<noteq> i"
    using assms(1) by (auto simp: insert_draft_def list_ex_iff split: if_splits sum.splits)
  have "(\<forall>a\<in>set ranked. snd a < 10 ^ 18)"
    using insert_prizes_Inr [OF p] amounts_of_map2 [OF assms(2), of i "\<lambda>a. a < 10 ^ 18"] by simp
  then show ?thesis
    using insert_prizes_Inr [OF p] insert_row_Inr [OF t] v fresh assms(2,3)
    unfolding draft_written_def by (intro exI [of _ ids] exI [of _ k]) simp
qed

lemma draft_create_cases:
  assumes "draft_create e ranked j w = (r, w')"
  shows "same_drafts w w' \<and> isl r \<or> (\<exists>i. draft_written e ranked j i w w' \<and> (isl r \<or> r = Inr i))"
proof -
  let ?i = "uuid_of w (uuid_next w)" and ?w = "w\<lparr>uuid_next := Suc (uuid_next w)\<rparr>"
  let ?n = "Suc (Suc (uuid_next w + length ranked))"
  obtain ids where ids: "random_uuids (length ranked) ?w = (Inr ids, w\<lparr>uuid_next := Suc (uuid_next w + length ranked)\<rparr>)"
    "length ids = length ranked"
    using random_uuids_run [of "length ranked" ?w] by auto
  let ?k = "uuid_of w (Suc (uuid_next w + length ranked))"
  let ?ins = "insert_draft (e\<lparr>e_id := ?i\<rparr>) (map2 (prize_of ?i) ids ranked) (j\<lparr>j_id := ?k, j_eventId := ?i\<rparr>)"
  let ?q = "\<lambda>w. case ?ins w of Inl x \<Rightarrow> (Inl x, w) | Inr w' \<Rightarrow> (Inr (), w')"
  obtain p z where p: "db_call ?q (w\<lparr>uuid_next := ?n\<rparr>) = (p, z)" by fastforce
  have r: "w' = z" "isl r \<longleftrightarrow> isl p" "\<not> isl p \<Longrightarrow> r = Inr ?i"
    using assms ids(1) p by (cases p; auto simp: draft_create_def)+
  have ins: "same_drafts w u \<and> isl q \<or> draft_written e ranked j ?i w u"
    if "?q (w\<lparr>uuid_next := ?n, faults := fs\<rparr>) = (q, u)" for fs q u
    using that insert_draft_written [OF _ ids(2) refl]
    by (cases "?ins (w\<lparr>uuid_next := ?n, faults := fs\<rparr>)") (auto simp: same_drafts_def)
  have "same_drafts w z \<and> isl p \<or> draft_written e ranked j ?i w z"
    using p
  proof (cases rule: db_callE)
    case (before fs)
    then show ?thesis by (simp add: same_drafts_def)
  next
    case (ran fs)
    then show ?thesis by (rule ins)
  next
    case (lost fs r')
    from lost(1) ins [OF lost(2)] show ?thesis by auto
  qed
  with r show ?thesis by blast
qed

lemma write_draft_cases:
  assumes "write_draft e ranked j w = (r, w')"
  shows "same_drafts w w' \<and> (\<forall>i. r \<noteq> Inr (Created i)) \<or>
    (\<exists>i. draft_written e ranked j i w w' \<and> (r = Inr (Created i) \<or> (\<forall>i. r \<noteq> Inr (Created i))))"
proof -
  obtain p z where p: "draft_create e ranked j w = (p, z)" by fastforce
  have "w' = z" "isl p \<Longrightarrow> \<forall>i. r \<noteq> Inr (Created i)" "\<And>i. p = Inr i \<Longrightarrow> r = Inr (Created i)"
    using assms p by (cases p; auto simp: write_draft_def)+
  with draft_create_cases [OF p] show ?thesis by auto
qed

section \<open>Properties\<close>

lemma createDraftEvent_cases:
  assumes run: "createDraftEvent de input w = (r, w')"
  shows "same_drafts w w' \<and> (\<forall>i. r \<noteq> Inr (Created i)) \<or>
    (\<exists>session ranked deadline i. signed_in_as w session \<and>
       0 < length (trim (di_name input)) \<and> length (trim (di_name input)) \<le> NAME_MAX \<and>
       di_prizes input \<noteq> [] \<and> read_prizes 0 (di_prizes input) = Inr ranked \<and>
       valid_address (de_sdk de) (trim (di_judgeAddress input)) \<and>
       trim (di_judgeAddress input) \<noteq> w_address (sw_wallet session) \<and>
       0 < length (trim (di_judgeName input)) \<and> length (trim (di_judgeName input)) \<le> JUDGE_NAME_MAX \<and>
       parse_date de (di_judgingDeadlineAt input) = Some deadline \<and> clock w < deadline \<and>
       draft_written (draft_event de session input deadline) ranked (draft_judge input) i w w' \<and>
       (r = Inr (Created i) \<or> (\<forall>i. r \<noteq> Inr (Created i))))"
proof -
  obtain s v where s: "getSessionWallet w = (s, v)" by fastforce
  obtain fs where v: "v = w\<lparr>faults := fs\<rparr>" and si: "\<And>x. s = Inr (Some x) \<Longrightarrow> signed_in_as w x"
    using getSessionWallet_cases [OF s] by blast
  let ?ok = "\<lambda>session ranked deadline. s = Inr (Some session) \<and>
       0 < length (trim (di_name input)) \<and> length (trim (di_name input)) \<le> NAME_MAX \<and>
       di_prizes input \<noteq> [] \<and> read_prizes 0 (di_prizes input) = Inr ranked \<and>
       valid_address (de_sdk de) (trim (di_judgeAddress input)) \<and>
       trim (di_judgeAddress input) \<noteq> w_address (sw_wallet session) \<and>
       0 < length (trim (di_judgeName input)) \<and> length (trim (di_judgeName input)) \<le> JUDGE_NAME_MAX \<and>
       parse_date de (di_judgingDeadlineAt input) = Some deadline \<and> clock w < deadline"
  show ?thesis
  proof (cases "\<exists>session ranked deadline. ?ok session ranked deadline")
    case False
    then have "w' = v \<and> (\<forall>i. r \<noteq> Inr (Created i))"
      using run s v
      by (cases s) (auto simp: createDraftEvent_def draft_refuse_def Let_def valid_address_def
        session_address_def split: option.splits if_splits sum.splits)
    with v show ?thesis by (simp add: same_drafts_def)
  next
    case True
    then obtain session ranked deadline where ok: "?ok session ranked deadline" by blast
    have w: "write_draft (draft_event de session input deadline) ranked (draft_judge input) v = (r, w')"
      using run s v ok by (simp add: createDraftEvent_def Let_def valid_address_def session_address_def)
    have "same_drafts v w' = same_drafts w w'"
      "draft_written e ps j i v w' = draft_written e ps j i w w'" for e ps j i
      using v by (simp_all add: same_drafts_def draft_written_def)
    with write_draft_cases [OF w] ok si show ?thesis by metis
  qed
qed

text \<open>C36: A draft is written whole or not at all. Under any database failure: either no event, prize or
  judge was written and no id was answered, or a wallet is signed in and exactly these rows were
  added: a DRAFT event of that wallet with a judging deadline in the future, one PENDING prize per
  submitted amount, ranked 1, 2, .. in the order given and worth what \<open>parseUsdcAmount\<close> reads, and
  one ACTIVE judge with a valid address that is not the organizer's. An answered id is that event's.\<close>

theorem draft_all_or_nothing:
  assumes "createDraftEvent de input w = (r, w')"
  shows "same_drafts w w' \<and> (\<forall>i. r \<noteq> Inr (Created i)) \<or>
    (\<exists>session e ps j d. signed_in_as w session \<and>
       events w' = events w @ [e] \<and> prizes w' = prizes w @ ps \<and> judges w' = judges w @ [j] \<and>
       e_status e = DRAFT \<and> e_organizerWalletId e = w_id (sw_wallet session) \<and>
       e_judgingDeadlineAt e = Some d \<and> clock w < d \<and>
       ps \<noteq> [] \<and> length ps = length (di_prizes input) \<and>
       (\<forall>k<length ps. p_eventId (ps ! k) = e_id e \<and> p_rank (ps ! k) = k + 1 \<and> p_status (ps ! k) = PENDING \<and>
          parseUsdcAmount (trim (di_prizes input ! k)) = Some (p_amount (ps ! k))) \<and>
       j_eventId j = e_id e \<and> j_status j = ACTIVE \<and> valid_address (de_sdk de) (j_walletAddress j) \<and>
       j_walletAddress j \<noteq> w_address (sw_wallet session) \<and>
       (\<forall>i. r = Inr (Created i) \<longrightarrow> i = e_id e))"
proof (cases "same_drafts w w' \<and> (\<forall>i. r \<noteq> Inr (Created i))")
  case True
  then show ?thesis by blast
next
  case False
  then obtain session ranked d i where si: "signed_in_as w session" and ne: "di_prizes input \<noteq> []"
    and ranked: "read_prizes 0 (di_prizes input) = Inr ranked"
    and a: "valid_address (de_sdk de) (trim (di_judgeAddress input))"
      "trim (di_judgeAddress input) \<noteq> w_address (sw_wallet session)" and d: "clock w < d"
    and wr: "draft_written (draft_event de session input d) ranked (draft_judge input) i w w'"
    and r: "r = Inr (Created i) \<or> (\<forall>i. r \<noteq> Inr (Created i))"
    using createDraftEvent_cases [OF assms] by blast
  obtain ids k where ids: "length ids = length ranked"
    and rows: "events w' = events w @ [(draft_event de session input d)\<lparr>e_id := i\<rparr>]"
      "prizes w' = prizes w @ map2 (prize_of i) ids ranked"
      "judges w' = judges w @ [(draft_judge input)\<lparr>j_id := k, j_eventId := i\<rparr>]"
    using wr by (auto simp: draft_written_def)
  have "\<forall>k<length ranked. fst (ranked ! k) = k + 1 \<and>
      parseUsdcAmount (trim (di_prizes input ! k)) = Some (snd (ranked ! k))"
    and "length ranked = length (di_prizes input)"
    using read_prizes_Inr [OF ranked] by auto
  with rows ids si ne a d r show ?thesis
    by (intro disjI2 exI [of _ session] exI [of _ "(draft_event de session input d)\<lparr>e_id := i\<rparr>"]
        exI [of _ "map2 (prize_of i) ids ranked"]
        exI [of _ "(draft_judge input)\<lparr>j_id := k, j_eventId := i\<rparr>"] exI [of _ d])
      (auto simp: draft_event_def draft_judge_def prize_of_def Let_def)
qed

definition test_draft_env :: draft_env where
  "test_draft_env = \<lparr>de_sdk = test_sdk, parse_date = (\<lambda>_. Some 5000), known_zone = (\<lambda>_. False),
     request_locale = js ''en''\<rparr>"

definition test_draft :: CreateDraftEventInput where
  "test_draft = \<lparr>di_name = js ''C'', di_description = [], di_prizes = [js ''5'', js ''2''],
     di_judgeAddress = test_address, di_judgeName = js ''J'', di_judgingDeadlineAt = [], di_timezone = []\<rparr>"

definition organizer_world :: world where
  "organizer_world = signed_in_world\<lparr>users := [\<lparr>u_id = js ''u''\<rparr>]\<rparr>"

lemma test_draft_created:
  assumes de: "de_sdk de = test_sdk" "parse_date de (di_judgingDeadlineAt input) = Some 5000"
    and input: "di_name input = js ''C''" "di_prizes input = [js ''5'', js ''2'']"
      "di_judgeAddress input = test_address" "di_judgeName input = js ''J''"
  shows "\<exists>i. fst (createDraftEvent de input organizer_world) = Inr (Created i)"
proof -
  have s: "getSessionWallet organizer_world = (Inr (Some test_session), organizer_world)"
    by (simp add: getSessionWallet_def await_def select_by_uuid_def find_unique_def signed_in_world_def
        organizer_world_def empty_world_def test_session_def session_of_def test_wallet_def test_wallet_id)
  have trims: "trim [67] = [67]" "trim [74] = [74]" "trim test_address = test_address"
    by (simp_all add: trim_all_nonspace js_space_def test_address_def)
  have "is_decimal (js ''5'') [] (js ''5'')" "is_decimal (js ''2'') [] (js ''2'')"
    by (simp_all add: is_decimal_def is_digit_def)
  then have p: "parseUsdcAmount [53] = Some 50000000" "parseUsdcAmount [50] = Some 20000000"
    using parseUsdcAmount_spelled [of "js ''5''" "[]" "js ''5''"] parseUsdcAmount_spelled [of "js ''2''" "[]" "js ''2''"]
    by (simp_all add: decimal_value_def bigint_of_digits_def trim_all_nonspace js_space_def)
  have ranked: "read_prizes 0 (di_prizes input) = Inr [(1, 50000000), (2, 20000000)]"
    by (simp add: input p trim_all_nonspace js_space_def)
  have w: "\<exists>i. fst (write_draft (draft_event de test_session input 5000)
      [(1, 50000000), (2, 20000000)] (draft_judge input) organizer_world) = Inr (Created i)"
    by (simp add: write_draft_def draft_create_def await_def insert_draft_def insert_row_def prize_of_def
        prize_clash_def draft_event_def test_session_def test_wallet_def organizer_world_def
        signed_in_world_def empty_world_def Let_def try_catch_def)
  have "valid_address (de_sdk de) (trim (di_judgeAddress input))"
    using test_address_ok trims(3) by (simp add: de input)
  moreover have "trim (di_judgeAddress input) \<noteq> session_address test_session"
    using trims(3)
    by (auto simp: input session_address_def test_session_def test_wallet_def test_address_def
        dest!: arg_cong [of _ _ length])
  moreover have "clock organizer_world = 1000"
    by (simp add: organizer_world_def signed_in_world_def empty_world_def)
  moreover have "trim (di_name input) = [67]" "trim (di_judgeName input) = [74]" "di_prizes input \<noteq> []"
    by (simp_all add: input trims)
  ultimately show ?thesis
    using s ranked w de(2)
    by (simp add: createDraftEvent_def valid_address_def NAME_MAX_def JUDGE_NAME_MAX_def Let_def)
qed

lemma test_draft_run: "\<exists>i. fst (createDraftEvent test_draft_env test_draft organizer_world) = Inr (Created i)"
  by (rule test_draft_created) (simp_all add: test_draft_env_def test_draft_def)

theorem draft_all_or_nothing_witness:
  "\<exists>i e ps j. createDraftEvent test_draft_env test_draft organizer_world
       = (Inr (Created i), snd (createDraftEvent test_draft_env test_draft organizer_world)) \<and>
     events (snd (createDraftEvent test_draft_env test_draft organizer_world)) = [e] \<and>
     prizes (snd (createDraftEvent test_draft_env test_draft organizer_world)) = ps \<and> length ps = 2 \<and>
     judges (snd (createDraftEvent test_draft_env test_draft organizer_world)) = [j] \<and> i = e_id e"
proof -
  obtain i where i: "fst (createDraftEvent test_draft_env test_draft organizer_world) = Inr (Created i)"
    using test_draft_run by blast
  have e: "events organizer_world = []" "prizes organizer_world = []" "judges organizer_world = []"
    "length (di_prizes test_draft) = 2"
    by (simp_all add: organizer_world_def signed_in_world_def empty_world_def test_draft_def)
  from draft_all_or_nothing [OF surjective_pairing,
      where de = test_draft_env and input = test_draft and w = organizer_world] i e
  show ?thesis by (metis append_Nil prod.collapse)
qed

end
