(* ===== verification/Big_Int.thy ===== *)
theory Big_Int
  imports Numbers
begin

text \<open>
  \<open>BigInt(s)\<close> of a text, as the language defines it, and that it reads back what \<open>String(n)\<close> prints of
  an integer. Amounts in stroops travel between the service, the pages and the screens as such texts.
\<close>

text \<open>\<open>StringToBigInt\<close>: white space around it is dropped, the empty text is 0, and a literal with a
  radix prefix takes no sign; \<open>None\<close> is the SyntaxError.\<close>

definition radix_digit :: "nat \<Rightarrow> nat option" where
  "radix_digit c =
     (if is_digit c then Some (c - 48)
      else if is_lower c then Some (c - 87)
      else if is_upper c then Some (c - 55) else None)"

definition radix_value :: "nat \<Rightarrow> jstring \<Rightarrow> int option" where
  "radix_value r ds =
     (if ds \<noteq> [] \<and> list_all (\<lambda>c. case radix_digit c of None \<Rightarrow> False | Some d \<Rightarrow> d < r) ds
      then Some (int (foldl (\<lambda>n c. n * r + the (radix_digit c)) 0 ds)) else None)"

definition decimal_literal :: "jstring \<Rightarrow> int option" where
  "decimal_literal ds =
     (if ds \<noteq> [] \<and> list_all is_digit ds then Some (int (bigint_of_digits ds)) else None)"

definition StringToBigInt :: "jstring \<Rightarrow> int option" where
  "StringToBigInt s =
     (case trim s of
        [] \<Rightarrow> Some 0
      | c # t \<Rightarrow>
          if c = 45 then map_option uminus (decimal_literal t)
          else if c = 43 then decimal_literal t
          else if c = 48 \<and> t \<noteq> [] \<and> hd t \<in> {120, 88} then radix_value 16 (tl t)
          else if c = 48 \<and> t \<noteq> [] \<and> hd t \<in> {111, 79} then radix_value 8 (tl t)
          else if c = 48 \<and> t \<noteq> [] \<and> hd t \<in> {98, 66} then radix_value 2 (tl t)
          else decimal_literal (c # t))"

lemma decimal_literal_to_string [simp]: "decimal_literal (bigint_to_string n) = Some (int n)"
  by (simp add: decimal_literal_def bigint_to_string_digits)

lemma digits_no_space: "list_all is_digit s \<Longrightarrow> trim s = s"
  by (rule trim_all_nonspace) (auto simp: list_all_iff digit_not_space)

lemma StringToBigInt_digits: "StringToBigInt (bigint_to_string n) = Some (int n)"
proof -
  have d: "list_all is_digit (bigint_to_string n)" by (rule bigint_to_string_digits)
  obtain c t where ct: "bigint_to_string n = c # t"
    using bigint_to_string_ne by (cases "bigint_to_string n") auto
  with d have c: "is_digit c" and t: "t \<noteq> [] \<Longrightarrow> is_digit (hd t)" by (auto simp: list_all_iff)
  have "c \<noteq> 45" "c \<noteq> 43" "t \<noteq> [] \<Longrightarrow> hd t \<notin> {120, 88, 111, 79, 98, 66}"
    using c t by (auto simp: is_digit_def)
  then show ?thesis
    using digits_no_space [OF d] decimal_literal_to_string [of n] by (auto simp: StringToBigInt_def ct)
qed

lemma StringToBigInt_int_text: "StringToBigInt (int_text n) = Some n"
proof (cases "n < 0")
  case False
  then show ?thesis by (simp add: int_text_def StringToBigInt_digits)
next
  case True
  have "trim (45 # bigint_to_string (nat (- n))) = 45 # bigint_to_string (nat (- n))"
    using bigint_to_string_digits [of "nat (- n)"]
    by (intro trim_all_nonspace) (auto simp: list_all_iff digit_not_space js_space_def [of 45])
  with True show ?thesis by (simp add: int_text_def StringToBigInt_def)
qed

end
