(* ===== verification/Event_Form.thy ===== *)
theory Event_Form
  imports Drafts Registration Big_Int
begin

text \<open>
  The forms in front of the server actions: \<open>organizer/new/event-form.tsx\<close> with the page that shows it,
  \<open>events/[id]/registration-form.tsx\<close>, \<open>judging-toggle.tsx\<close> and \<open>components/events/action-error.tsx\<close>.
  A form's state is what its inputs hold; \<open>form_valid\<close> is the browser's constraint validation, without
  which nothing is submitted. The record \<open>browser\<close> holds what the browser decides: the instant a local
  date and time is (\<open>None\<close> is NaN), \<open>toISOString\<close>, its time zone (\<open>None\<close> for a throw) and which texts
  are URLs. What it does to the uncontrolled inputs after an answer is among the edits.
\<close>

section \<open>EventForm\<close>

record browser =
  local_time :: "jstring \<Rightarrow> int option"
  to_iso :: "int \<Rightarrow> jstring"
  resolved_zone :: "jstring option"
  url_input :: "jstring \<Rightarrow> bool"

definition toIso :: "browser \<Rightarrow> jstring \<Rightarrow> jstring" where
  "toIso b local =
     (if local = [] then []
      else (case local_time b local of None \<Rightarrow> [] | Some ms \<Rightarrow> to_iso b ms))"

definition browserTimezone :: "browser \<Rightarrow> jstring" where
  "browserTimezone b =
     (case resolved_zone b of
        None \<Rightarrow> js ''UTC''
      | Some z \<Rightarrow> if z = [] then js ''UTC'' else z)"

record event_form =
  ff_name :: jstring
  ff_description :: jstring
  ff_prizes :: "jstring list"
  ff_judgeAddress :: jstring
  ff_judgeName :: jstring
  ff_deadlineLocal :: jstring
  ff_result :: "CreateDraftResult option"
  ff_pending :: bool

definition form_opens :: event_form where
  "form_opens =
     \<lparr>ff_name = [], ff_description = [], ff_prizes = [[]], ff_judgeAddress = [], ff_judgeName = [],
      ff_deadlineLocal = [], ff_result = None, ff_pending = False\<rparr>"

definition setPrize :: "nat \<Rightarrow> jstring \<Rightarrow> jstring list \<Rightarrow> jstring list" where
  "setPrize i value prev = map (\<lambda>(p, j). if j = i then value else p) (zip prev [0..<length prev])"

definition removePrize :: "nat \<Rightarrow> jstring list \<Rightarrow> jstring list" where
  "removePrize i prev = map fst (filter (\<lambda>(p, j). j \<noteq> i) (zip prev [0..<length prev]))"

datatype form_edit =
    TypeName jstring
  | TypeDescription jstring
  | TypePrize nat jstring
  | RemovePrize nat
  | AddPrize
  | TypeJudgeAddress jstring
  | TypeJudgeName jstring
  | PickDeadline jstring

text \<open>The button that removes the only prize is disabled; a row that is not shown has no input.\<close>

fun form_edited :: "event_form \<Rightarrow> form_edit \<Rightarrow> event_form" where
  "form_edited f (TypeName v) = f\<lparr>ff_name := v\<rparr>"
| "form_edited f (TypeDescription v) = f\<lparr>ff_description := v\<rparr>"
| "form_edited f (TypePrize i v) = f\<lparr>ff_prizes := setPrize i v (ff_prizes f)\<rparr>"
| "form_edited f (RemovePrize i) =
     (if length (ff_prizes f) = 1 \<or> length (ff_prizes f) \<le> i then f
      else f\<lparr>ff_prizes := removePrize i (ff_prizes f)\<rparr>)"
| "form_edited f AddPrize = f\<lparr>ff_prizes := ff_prizes f @ [[]]\<rparr>"
| "form_edited f (TypeJudgeAddress v) = f\<lparr>ff_judgeAddress := v\<rparr>"
| "form_edited f (TypeJudgeName v) = f\<lparr>ff_judgeName := v\<rparr>"
| "form_edited f (PickDeadline v) = f\<lparr>ff_deadlineLocal := v\<rparr>"

text \<open>\<open>pattern="\d+(\.\d{1,7})?"\<close>, which must match the whole value.\<close>

definition prize_pattern :: "jstring \<Rightarrow> bool" where
  "prize_pattern s \<longleftrightarrow>
     takeWhile is_digit s \<noteq> [] \<and>
     (case dropWhile is_digit s of
        [] \<Rightarrow> True
      | c # r \<Rightarrow> c = 46 \<and> 1 \<le> length r \<and> length r \<le> 7 \<and> list_all is_digit r)"

definition form_valid :: "event_form \<Rightarrow> bool" where
  "form_valid f \<longleftrightarrow>
     ff_name f \<noteq> [] \<and> length (ff_name f) \<le> 120 \<and> length (ff_description f) \<le> 2000 \<and>
     list_all (\<lambda>p. p \<noteq> [] \<and> prize_pattern p) (ff_prizes f) \<and>
     ff_judgeAddress f \<noteq> [] \<and> STELLAR_ACCOUNT_ID (ff_judgeAddress f) \<and>
     ff_judgeName f \<noteq> [] \<and> length (ff_judgeName f) \<le> 80 \<and> ff_deadlineLocal f \<noteq> []"

text \<open>A multipart body writes the line breaks of a text area as CR LF.\<close>

definition crlf :: "jstring \<Rightarrow> jstring" where
  "crlf s = concat (map (\<lambda>c. if c = 10 then [13, 10] else [c]) s)"

definition form_field :: "browser \<Rightarrow> event_form \<Rightarrow> jstring \<Rightarrow> jstring option" where
  "form_field b f =
     map_of [(js ''timezone'', browserTimezone b), (js ''name'', ff_name f),
       (js ''description'', crlf (ff_description f)), (js ''judgeAddress'', ff_judgeAddress f),
       (js ''judgeName'', ff_judgeName f), (js ''judgingDeadlineAt'', toIso b (ff_deadlineLocal f))]"

definition form_fields :: "event_form \<Rightarrow> jstring \<Rightarrow> jstring list" where
  "form_fields f k = (if k = js ''prize'' then ff_prizes f else [])"

text \<open>A submission of the form; \<open>None\<close> where the browser or the disabled button lets none through.\<close>

definition form_submit :: "draft_env \<Rightarrow> browser \<Rightarrow> event_form \<Rightarrow> (world, draft_response option) action" where
  "form_submit de b f =
     (if ff_pending f \<or> \<not> form_valid f then return_value None
      else await (createDraftEventAction de (form_field b f) (form_fields f)) (\<lambda>r. return_value (Some r)))"

definition form_answered :: "event_form \<Rightarrow> draft_response \<Rightarrow> event_form" where
  "form_answered f r =
     (case r of Stay result \<Rightarrow> f\<lparr>ff_result := Some result, ff_pending := False\<rparr> | GoTo _ _ \<Rightarrow> f)"

text \<open>The code and the detail of a refusal; an empty detail is not shown.\<close>

definition FormError :: "CreateDraftResult option \<Rightarrow> (draft_code \<times> jstring option) option" where
  "FormError result =
     (case result of
        Some (DraftRefused code detail) \<Rightarrow> Some (code, if present detail then detail else None)
      | _ \<Rightarrow> None)"

datatype new_event_page = NewEventConnect | NewEventForm jstring jstring

definition NewEventPage :: "exn + jstring \<Rightarrow> (world, new_event_page) action" where
  "NewEventPage symbol =
     await getSessionWallet (\<lambda>s.
     case s of
       None \<Rightarrow> return_value NewEventConnect
     | Some session \<Rightarrow>
         await (lift_result symbol) (\<lambda>usdc. return_value (NewEventForm (session_address session) usdc)))"

section \<open>RegistrationForm, JudgingToggle\<close>

definition ActionError :: "ActionResult option \<Rightarrow> (refusal_code \<times> jstring option) option" where
  "ActionError result =
     (case result of
        Some (Refused code detail) \<Rightarrow> Some (code, if present detail then detail else None)
      | _ \<Rightarrow> None)"

record registration_form =
  gf_teamName :: jstring
  gf_submissionUrl :: jstring
  gf_result :: "ActionResult option"
  gf_pending :: bool

definition registration_valid :: "browser \<Rightarrow> registration_form \<Rightarrow> bool" where
  "registration_valid b f \<longleftrightarrow>
     gf_teamName f \<noteq> [] \<and> length (gf_teamName f) \<le> 80 \<and>
     gf_submissionUrl f \<noteq> [] \<and> url_input b (gf_submissionUrl f)"

definition registration_submit ::
    "registration_env \<Rightarrow> browser \<Rightarrow> jstring \<Rightarrow> registration_form \<Rightarrow> (world, registration_form) action" where
  "registration_submit re b eventId f =
     (if gf_pending f \<or> \<not> registration_valid b f then return_value f
      else
        await (registerTeamAction re (map_of [(js ''eventId'', eventId), (js ''teamName'', gf_teamName f),
                 (js ''submissionUrl'', gf_submissionUrl f)])) (\<lambda>r.
        return_value (f\<lparr>gf_result := Some r\<rparr>)))"

definition toggle_submit :: "jstring \<Rightarrow> bool \<Rightarrow> (world, ActionResult option) action" where
  "toggle_submit eventId pending =
     (if pending then return_value None
      else await (startJudgingAction (map_of [(js ''eventId'', eventId)])) (\<lambda>r. return_value (Some r)))"

section \<open>What the form lets through\<close>

lemma setPrize_update: "setPrize i v ps = ps[i := v]"
  by (rule nth_equalityI) (simp_all add: setPrize_def nth_list_update)

lemma removePrize_length: "i < length ps \<Longrightarrow> length (removePrize i ps) = length ps - 1"
proof -
  assume i: "i < length ps"
  have "length (removePrize i ps) = card {j. j < length ps \<and> j \<noteq> i}"
    by (auto simp: removePrize_def length_filter_conv_card case_prod_beta intro!: arg_cong [where f = card])
  also have "{j. j < length ps \<and> j \<noteq> i} = {..<length ps} - {i}" by auto
  finally show ?thesis using i by simp
qed

text \<open>Whatever is typed, added and removed, the form keeps a row for a prize.\<close>

theorem form_keeps_a_prize: "ff_prizes (foldl form_edited form_opens edits) \<noteq> []"
proof -
  have "ff_prizes (form_edited f e) \<noteq> []" if "ff_prizes f \<noteq> []" for f e
  proof (cases e)
    case (RemovePrize i)
    show ?thesis
    proof (cases "length (ff_prizes f) = 1 \<or> length (ff_prizes f) \<le> i")
      case True
      then show ?thesis using that by (simp add: RemovePrize)
    next
      case False
      then have "0 < length (removePrize i (ff_prizes f))" using that by (simp add: removePrize_length)
      then show ?thesis using False by (simp add: RemovePrize)
    qed
  qed (use that in \<open>simp_all add: setPrize_update\<close>)
  then have "ff_prizes f \<noteq> [] \<Longrightarrow> ff_prizes (foldl form_edited f edits) \<noteq> []" for f
    by (induction edits arbitrary: f) auto
  then show ?thesis by (simp add: form_opens_def)
qed

lemma prize_pattern_decimal: "prize_pattern s \<longleftrightarrow> (\<exists>w f. is_decimal w f s)"
proof
  assume p: "prize_pattern s"
  then obtain g where "DECIMAL s = Some (takeWhile is_digit s, g)"
    by (auto simp: prize_pattern_def DECIMAL_def Let_def split: list.splits)
  then show "\<exists>w f. is_decimal w f s" using DECIMAL_Some by blast
next
  assume "\<exists>w f. is_decimal w f s"
  then obtain w f where d: "is_decimal w f s" by blast
  then have tw: "takeWhile is_digit s = w" "dropWhile is_digit s = (if f = [] then [] else 46 # f)"
    by (auto simp: is_decimal_def takeWhile_digits dropWhile_digits)
  show "prize_pattern s" unfolding prize_pattern_def tw using d by (cases f) (simp_all add: is_decimal_def)
qed

lemma decimal_trim: "is_decimal w f s \<Longrightarrow> trim s = s"
  by (rule trim_all_nonspace) (auto simp: is_decimal_def list_all_iff js_space_def is_digit_def split: if_splits)

text \<open>A prize the form lets through is an amount to the server, unless it is zero.\<close>

theorem form_prize_reads:
  assumes "prize_pattern s"
  shows "\<exists>w f. is_decimal w f s \<and> parseUsdcAmount (trim s) = (if 0 < decimal_value w f then Some (decimal_value w f) else None)"
proof -
  obtain w f where d: "is_decimal w f s" using assms prize_pattern_decimal by blast
  then have "is_decimal w f (trim (trim s))" by (simp add: decimal_trim)
  with d show ?thesis using parseUsdcAmount_spelled by blast
qed

text \<open>What the server reads from a submitted form.\<close>

lemma form_texts:
  "form_text (form_field b f) (js ''name'') = ff_name f"
  "form_text (form_field b f) (js ''description'') = crlf (ff_description f)"
  "form_text (form_field b f) (js ''judgeAddress'') = ff_judgeAddress f"
  "form_text (form_field b f) (js ''judgeName'') = ff_judgeName f"
  "form_text (form_field b f) (js ''judgingDeadlineAt'') = toIso b (ff_deadlineLocal f)"
  "form_text (form_field b f) (js ''timezone'') = browserTimezone b"
  "form_fields f (js ''prize'') = ff_prizes f"
  by (simp_all add: form_text_def form_field_def form_fields_def)

definition form_input :: "browser \<Rightarrow> event_form \<Rightarrow> CreateDraftEventInput" where
  "form_input b f =
     \<lparr>di_name = ff_name f, di_description = crlf (ff_description f), di_prizes = ff_prizes f,
      di_judgeAddress = ff_judgeAddress f, di_judgeName = ff_judgeName f,
      di_judgingDeadlineAt = toIso b (ff_deadlineLocal f), di_timezone = browserTimezone b\<rparr>"

lemma form_submit_Some:
  assumes "form_submit de b f w = (Inr (Some r), w')"
  shows "form_valid f" "\<not> ff_pending f"
    "case r of
       GoTo u l \<Rightarrow> \<exists>i. createDraftEvent de (form_input b f) w = (Inr (Created i), w') \<and>
         u = js ''/organizer/events/'' @ i @ js ''/fund'' \<and> l = request_locale de
     | Stay result \<Rightarrow> createDraftEvent de (form_input b f) w = (Inr result, w') \<and>
         (\<forall>i. result \<noteq> Created i)"
proof -
  show v: "form_valid f" "\<not> ff_pending f"
    using assms by (auto simp: form_submit_def split: if_splits)
  have "createDraftEventAction de (form_field b f) (form_fields f) w = (Inr r, w')"
    using assms v by (auto simp: form_submit_def elim!: await_InrE)
  then obtain result where c: "createDraftEvent de (form_input b f) w = (Inr result, w')"
    and r: "(case result of Created i \<Rightarrow> GoTo (js ''/organizer/events/'' @ i @ js ''/fund'') (request_locale de)
        | DraftRefused _ _ \<Rightarrow> Stay result) = r"
    unfolding createDraftEventAction_def form_texts form_input_def [symmetric]
    by (auto elim!: await_InrE split: CreateDraftResult.splits simp del: js_Cons)
  then show "case r of
       GoTo u l \<Rightarrow> \<exists>i. createDraftEvent de (form_input b f) w = (Inr (Created i), w') \<and>
         u = js ''/organizer/events/'' @ i @ js ''/fund'' \<and> l = request_locale de
     | Stay result \<Rightarrow> createDraftEvent de (form_input b f) w = (Inr result, w') \<and>
         (\<forall>i. result \<noteq> Created i)"
    by (cases result) (auto simp del: js_Cons)
qed

text \<open>C16: What the form shows is what is stored. If \<open>Date.parse\<close> reads back what \<open>toISOString\<close> prints and a
  submission of the form leads on, then the form was valid, an event was added, the next page is its
  funding page, its deadline is the instant the entered local time is, in the future, and its prizes are
  exactly the rows of the form: as many, in their order, ranked 1, 2, .. and each worth what its text
  spells.\<close>

theorem form_draft_is_stored:
  assumes "form_submit de b f w = (Inr (Some (GoTo u l)), w')"
    and "\<And>t. parse_date de (to_iso b t) = Some t" and "parse_date de [] = None"
  shows "\<exists>e ps d. events w' = events w @ [e] \<and> prizes w' = prizes w @ ps \<and>
    u = js ''/organizer/events/'' @ e_id e @ js ''/fund'' \<and> e_status e = DRAFT \<and>
    local_time b (ff_deadlineLocal f) = Some d \<and> e_judgingDeadlineAt e = Some d \<and> clock w < d \<and>
    length ps = length (ff_prizes f) \<and>
    (\<forall>k<length ps. p_eventId (ps ! k) = e_id e \<and> p_rank (ps ! k) = k + 1 \<and>
       (\<exists>whole frac. is_decimal whole frac (ff_prizes f ! k) \<and> p_amount (ps ! k) = decimal_value whole frac))"
proof -
  obtain i where run: "createDraftEvent de (form_input b f) w = (Inr (Created i), w')"
    and u: "u = js ''/organizer/events/'' @ i @ js ''/fund''"
    using form_submit_Some(3) [OF assms(1)] by (auto simp del: js_Cons)
  have valid: "form_valid f" by (rule form_submit_Some(1) [OF assms(1)])
  have in': "di_prizes (form_input b f) = ff_prizes f"
    "di_judgingDeadlineAt (form_input b f) = toIso b (ff_deadlineLocal f)" by (simp_all add: form_input_def)
  obtain session ranked d where ranked: "read_prizes 0 (ff_prizes f) = Inr ranked"
    and d: "parse_date de (toIso b (ff_deadlineLocal f)) = Some d" "clock w < d"
    and wr: "draft_written (draft_event de session (form_input b f) d) ranked (draft_judge (form_input b f)) i w w'"
    using createDraftEvent_cases [OF run] unfolding in' by (auto simp: same_drafts_def)
  have local_d: "local_time b (ff_deadlineLocal f) = Some d"
    using d(1) assms(2,3) by (auto simp: toIso_def split: if_splits option.splits)
  obtain ids where ids: "length ids = length ranked"
    and rows: "events w' = events w @ [(draft_event de session (form_input b f) d)\<lparr>e_id := i\<rparr>]"
      "prizes w' = prizes w @ map2 (prize_of i) ids ranked"
    using wr by (auto simp: draft_written_def)
  have r: "\<forall>k<length (ff_prizes f). fst (ranked ! k) = k + 1 \<and>
      parseUsdcAmount (trim (ff_prizes f ! k)) = Some (snd (ranked ! k))" "length ranked = length (ff_prizes f)"
    using read_prizes_Inr [OF ranked] by auto
  have amount: "\<exists>whole frac. is_decimal whole frac (ff_prizes f ! k) \<and> snd (ranked ! k) = decimal_value whole frac"
    if k: "k < length (ff_prizes f)" for k
  proof -
    have "prize_pattern (ff_prizes f ! k)" using valid k by (simp add: form_valid_def list_all_length)
    from form_prize_reads [OF this] r(1) k show ?thesis by (auto split: if_splits)
  qed
  show ?thesis
    using rows ids u d(2) local_d r amount
    by (intro exI [of _ "(draft_event de session (form_input b f) d)\<lparr>e_id := i\<rparr>"]
        exI [of _ "map2 (prize_of i) ids ranked"] exI [of _ d])
      (simp add: draft_event_def prize_of_def Let_def del: js_Cons)
qed

definition test_browser :: browser where
  "test_browser = \<lparr>local_time = (\<lambda>_. Some 5000), to_iso = int_text, resolved_zone = None, url_input = (\<lambda>_. True)\<rparr>"

definition form_env :: draft_env where
  "form_env = test_draft_env\<lparr>parse_date := (\<lambda>s. if s = [] then None else StringToBigInt s)\<rparr>"

definition test_form :: event_form where
  "test_form = form_opens\<lparr>ff_name := js ''C'', ff_prizes := [js ''5'', js ''2''], ff_judgeAddress := test_address,
     ff_judgeName := js ''J'', ff_deadlineLocal := js ''2030-01-01T10:00''\<rparr>"

lemma int_text_nonempty: "int_text n \<noteq> []"
  by (simp add: int_text_def)

lemma form_env_reads: "parse_date form_env (int_text t) = Some t" "parse_date form_env [] = None"
  by (simp_all add: form_env_def int_text_nonempty StringToBigInt_int_text)

lemma test_form_runs: "\<exists>u l. fst (form_submit form_env test_browser test_form organizer_world) = Inr (Some (GoTo u l))"
proof -
  have v: "form_valid test_form" "\<not> ff_pending test_form"
    using test_address_ok
    by (simp_all add: form_valid_def test_form_def form_opens_def prize_pattern_def is_digit_def valid_address_def
        test_address_def)
  have "toIso test_browser (ff_deadlineLocal test_form) = int_text 5000"
    by (simp add: toIso_def test_browser_def test_form_def)
  then have "\<exists>i. fst (createDraftEvent form_env (form_input test_browser test_form) organizer_world) = Inr (Created i)"
    by (intro test_draft_created)
      (simp_all add: form_input_def form_env_reads, simp_all add: form_env_def test_draft_env_def test_form_def)
  then obtain i u where "createDraftEvent form_env (form_input test_browser test_form) organizer_world = (Inr (Created i), u)"
    by (metis prod.collapse)
  then show ?thesis
    using v by (simp add: form_submit_def createDraftEventAction_def form_texts form_input_def await_def del: js_Cons)
qed

theorem form_draft_is_stored_witness:
  "\<exists>u l w' e ps. form_submit form_env test_browser test_form organizer_world = (Inr (Some (GoTo u l)), w') \<and>
     events w' = [e] \<and> e_judgingDeadlineAt e = Some 5000 \<and> prizes w' = ps \<and> map p_rank ps = [1, 2]"
proof -
  obtain u l w' where r: "form_submit form_env test_browser test_form organizer_world = (Inr (Some (GoTo u l)), w')"
    using test_form_runs by (metis prod.collapse)
  have old: "events organizer_world = []" "prizes organizer_world = []"
    by (simp_all add: organizer_world_def signed_in_world_def empty_world_def)
  have "\<And>t. parse_date form_env (to_iso test_browser t) = Some t" "parse_date form_env [] = None"
    by (simp_all add: form_env_reads test_browser_def)
  from form_draft_is_stored [OF r this]
  obtain e ps d where e: "events w' = [e]" "prizes w' = ps" "local_time test_browser (ff_deadlineLocal test_form) = Some d"
    "e_judgingDeadlineAt e = Some d" "length ps = 2" "\<forall>k<length ps. p_rank (ps ! k) = k + 1"
    unfolding old by (auto simp: test_form_def)
  then have "map p_rank ps = [1, 2]" by (auto simp: length_Suc_conv numeral_2_eq_2 less_Suc_eq)
  with r e show ?thesis by (auto simp: test_browser_def)
qed

lemma read_prizes_Inl: "read_prizes i raws = Inl k \<Longrightarrow> \<exists>p\<in>set raws. parseUsdcAmount (trim p) = None"
  by (induction i raws rule: read_prizes.induct) (auto split: option.splits sum.splits)

lemma write_draft_refused: "write_draft e ranked j w = (Inr (DraftRefused code detail), w') \<Longrightarrow> code = writeFailed"
  by (auto simp: write_draft_def try_catch_def split: prod.splits sum.splits elim!: await_InrE)

text \<open>Why a draft is refused.\<close>

lemma draft_refused:
  assumes "createDraftEvent de input w = (Inr (DraftRefused code detail), w')"
  shows "code \<in> {no_session, judgeIsOrganizer, invalidDeadline, deadlinePast, writeFailed} \<or>
    code = invalidName \<and> (trim (di_name input) = [] \<or> NAME_MAX < length (trim (di_name input))) \<or>
    code = noPrizes \<and> di_prizes input = [] \<or>
    code = invalidPrize \<and> (\<exists>k. read_prizes 0 (di_prizes input) = Inl k) \<or>
    code = invalidJudgeAddress \<and> (\<not> STELLAR_ACCOUNT_ID (trim (di_judgeAddress input)) \<or>
      \<not> valid_public_key (de_sdk de) (trim (di_judgeAddress input))) \<or>
    code = invalidJudgeName \<and> (trim (di_judgeName input) = [] \<or> JUDGE_NAME_MAX < length (trim (di_judgeName input)))"
proof -
  obtain s v where s: "getSessionWallet w = (s, v)" by fastforce
  show ?thesis
    using assms s
    by (cases s) (auto simp: createDraftEvent_def draft_refuse_def Let_def dest: write_draft_refused
      split: option.splits if_splits sum.splits)
qed

text \<open>A valid form is only refused for what a pattern cannot see.\<close>

theorem form_refusals:
  assumes "form_submit de b f w = (Inr (Some (Stay (DraftRefused code detail))), w')" and "ff_prizes f \<noteq> []"
  shows "code \<noteq> noPrizes"
    and "code = invalidPrize \<Longrightarrow> \<exists>p\<in>set (ff_prizes f). \<exists>whole frac. is_decimal whole frac p \<and> decimal_value whole frac = 0"
    and "code = invalidName \<Longrightarrow> trim (ff_name f) = []"
    and "code = invalidJudgeName \<Longrightarrow> trim (ff_judgeName f) = []"
    and "code = invalidJudgeAddress \<Longrightarrow> \<not> valid_public_key (de_sdk de) (ff_judgeAddress f)"
proof -
  have run: "createDraftEvent de (form_input b f) w = (Inr (DraftRefused code detail), w')"
    using form_submit_Some(3) [OF assms(1)] by simp
  have valid: "form_valid f" by (rule form_submit_Some(1) [OF assms(1)])
  note why = draft_refused [OF run]
  show "code \<noteq> noPrizes" using why assms(2) by (auto simp: form_input_def)
  show "trim (ff_name f) = []" if "code = invalidName"
    using why that valid length_trim [of "ff_name f"] by (auto simp: form_input_def form_valid_def NAME_MAX_def)
  show "trim (ff_judgeName f) = []" if "code = invalidJudgeName"
    using why that valid length_trim [of "ff_judgeName f"]
    by (auto simp: form_input_def form_valid_def JUDGE_NAME_MAX_def)
  show "\<not> valid_public_key (de_sdk de) (ff_judgeAddress f)" if "code = invalidJudgeAddress"
  proof -
    have "trim (ff_judgeAddress f) = ff_judgeAddress f"
      using valid
      by (intro trim_all_nonspace, cases "ff_judgeAddress f")
        (auto simp: form_valid_def STELLAR_ACCOUNT_ID_def list_all_iff js_space_def is_upper_def)
    with why that valid show ?thesis by (auto simp: form_input_def form_valid_def)
  qed
  show "\<exists>p\<in>set (ff_prizes f). \<exists>whole frac. is_decimal whole frac p \<and> decimal_value whole frac = 0"
    if c: "code = invalidPrize"
  proof -
    obtain k where "read_prizes 0 (ff_prizes f) = Inl k" using why unfolding c by (auto simp: form_input_def)
    then obtain p where p: "p \<in> set (ff_prizes f)" "parseUsdcAmount (trim p) = None" using read_prizes_Inl by blast
    then have "prize_pattern p" using valid by (auto simp: form_valid_def list_all_iff)
    from form_prize_reads [OF this] p show ?thesis by (auto split: if_splits)
  qed
qed

end
