(* ===== verification/Public_View.thy ===== *)
theory Public_View
  imports Organizer_Actions Int32
begin

text \<open>
  What an unauthenticated visitor sees of an event: \<open>lib/events/public-view.ts\<close>. The query's answer is
  a JavaScript value (\<open>js_value\<close>, with \<open>undefined\<close>, dates and decimals, which JSON has not), and
  \<open>sanitizePublicEventView\<close> rebuilds it member by member. The record \<open>view_host\<close> holds how the host
  prints and converts what \<open>String\<close> and \<open>Number\<close> are not spelled out for here, and \<open>details\<close>, the
  columns of an event that no other component reads.
\<close>

section \<open>Values\<close>

datatype js_value =
    VUndefined
  | VNull
  | VBool bool
  | VNum js_number
  | VStr jstring
  | VDate int
  | VDecimal nat
  | VArr "js_value list"
  | VObj "(jstring \<times> js_value) list"

record event_details =
  d_logoUrl :: "jstring option"
  d_tagline :: "jstring option"
  d_location :: "jstring option"
  d_registrationOpensAt :: "int option"
  d_registrationClosesAt :: "int option"
  d_startsAt :: "int option"
  d_endsAt :: "int option"

record view_host =
  other_text :: "js_value \<Rightarrow> jstring"
  other_number :: "js_value \<Rightarrow> js_number"
  details :: "jstring \<Rightarrow> event_details"

definition to_String :: "view_host \<Rightarrow> js_value \<Rightarrow> jstring" where
  "to_String h v =
     (case v of
        VStr s \<Rightarrow> s
      | VUndefined \<Rightarrow> js ''undefined''
      | VNull \<Rightarrow> js ''null''
      | VBool b \<Rightarrow> (if b then js ''true'' else js ''false'')
      | _ \<Rightarrow> other_text h v)"

definition to_Number :: "view_host \<Rightarrow> js_value \<Rightarrow> js_number" where
  "to_Number h v =
     (case v of
        VNum x \<Rightarrow> x
      | VUndefined \<Rightarrow> NaN
      | VNull \<Rightarrow> js_int 0
      | VBool b \<Rightarrow> js_int (if b then 1 else 0)
      | _ \<Rightarrow> other_number h v)"

definition to_Boolean :: "js_value \<Rightarrow> bool" where
  "to_Boolean v =
     (case v of
        VUndefined \<Rightarrow> False
      | VNull \<Rightarrow> False
      | VBool b \<Rightarrow> b
      | VNum x \<Rightarrow> x \<noteq> Finite 0 \<and> x \<noteq> NaN
      | VStr s \<Rightarrow> s \<noteq> []
      | _ \<Rightarrow> True)"

definition coalesce :: "js_value \<Rightarrow> js_value \<Rightarrow> js_value" where
  "coalesce v d = (if v = VUndefined \<or> v = VNull then d else v)"

definition string_or :: "js_value \<Rightarrow> 'a \<Rightarrow> (jstring \<Rightarrow> 'a) \<Rightarrow> 'a" where
  "string_or v d f = (case v of VStr s \<Rightarrow> f s | _ \<Rightarrow> d)"

definition array_or_empty :: "js_value \<Rightarrow> js_value list" where
  "array_or_empty v = (case v of VArr xs \<Rightarrow> xs | _ \<Rightarrow> [])"

section \<open>The view\<close>

record PublicPrizeView =
  pp_id :: jstring
  pp_rank :: js_number
  pp_amount :: js_value
  pp_status :: jstring
  pp_winnerTeamId :: "jstring option"
  pp_releaseTxHash :: "jstring option"
  pp_releasedAt :: js_value

record PublicJudgeView =
  pj_id :: jstring
  pj_walletAddress :: jstring
  pj_displayName :: jstring
  pj_status :: jstring

record PublicTeamMemberView =
  pm_walletId :: jstring
  pm_ordinal :: js_number
  pm_shareBasisPoints :: "js_number option"
  pm_wallet_id :: jstring
  pm_wallet_address :: jstring

record PublicTeamView =
  pt_id :: jstring
  pt_name :: jstring
  pt_submissionUrl :: "jstring option"
  pt_submissionVerifiedAt :: js_value
  pt_members :: "PublicTeamMemberView list"

record PublicEventView =
  pe_id :: jstring
  pe_name :: jstring
  pe_description :: "jstring option"
  pe_logoUrl :: "jstring option"
  pe_tagline :: "jstring option"
  pe_location :: "jstring option"
  pe_timezone :: jstring
  pe_registrationOpensAt :: js_value
  pe_registrationClosesAt :: js_value
  pe_startsAt :: js_value
  pe_endsAt :: js_value
  pe_judgingDeadlineAt :: js_value
  pe_status :: js_value
  pe_requireGithub :: bool
  pe_network :: StellarNetwork
  pe_escrowEventId :: "jstring option"
  pe_organizerWalletId :: jstring
  pe_organizer_id :: jstring
  pe_organizer_address :: jstring
  pe_prizes :: "PublicPrizeView list"
  pe_judges :: "PublicJudgeView list"
  pe_teams :: "PublicTeamView list"

section \<open>sanitizePublicEventView\<close>

text \<open>The members of an object; \<open>obj_get\<close> is a read that cannot throw.\<close>

definition obj_get :: "(jstring \<times> js_value) list \<Rightarrow> jstring \<Rightarrow> js_value" where
  "obj_get ms k = (case map_of ms k of None \<Rightarrow> VUndefined | Some x \<Rightarrow> x)"

text \<open>A callback reads its first member and so throws on \<open>null\<close> and \<open>undefined\<close>; the reads after it
  cannot throw.\<close>

definition members_of :: "js_value \<Rightarrow> exn + (jstring \<times> js_value) list" where
  "members_of v =
     (case v of
        VUndefined \<Rightarrow> Inl null_access
      | VNull \<Rightarrow> Inl null_access
      | VObj ms \<Rightarrow> Inr ms
      | _ \<Rightarrow> Inr [])"

definition sanitize_prize :: "view_host \<Rightarrow> js_value \<Rightarrow> exn + PublicPrizeView" where
  "sanitize_prize h v =
     and_then (members_of v) (\<lambda>p. Inr
       \<lparr>pp_id = to_String h (obj_get p (js ''id'')), pp_rank = to_Number h (obj_get p (js ''rank'')),
        pp_amount = obj_get p (js ''amount''),
        pp_status = string_or (obj_get p (js ''status'')) (js ''PENDING'') id,
        pp_winnerTeamId = string_or (obj_get p (js ''winnerTeamId'')) None Some,
        pp_releaseTxHash = string_or (obj_get p (js ''releaseTxHash'')) None Some,
        pp_releasedAt = coalesce (obj_get p (js ''releasedAt'')) VNull\<rparr>)"

definition sanitize_judge :: "view_host \<Rightarrow> js_value \<Rightarrow> exn + PublicJudgeView" where
  "sanitize_judge h v =
     and_then (members_of v) (\<lambda>j. Inr
       \<lparr>pj_id = to_String h (obj_get j (js ''id'')),
        pj_walletAddress = to_String h (obj_get j (js ''walletAddress'')),
        pj_displayName = to_String h (obj_get j (js ''displayName'')),
        pj_status = string_or (obj_get j (js ''status'')) (js ''ACTIVE'') id\<rparr>)"

definition sanitize_member :: "view_host \<Rightarrow> js_value \<Rightarrow> exn + PublicTeamMemberView" where
  "sanitize_member h v =
     and_then (members_of v) (\<lambda>m.
     and_then (members_of (coalesce (obj_get m (js ''wallet'')) (VObj []))) (\<lambda>wallet. Inr
       \<lparr>pm_walletId = to_String h (obj_get m (js ''walletId'')),
        pm_ordinal = to_Number h (coalesce (obj_get m (js ''ordinal'')) (VNum (js_int 1))),
        pm_shareBasisPoints =
          (case obj_get m (js ''shareBasisPoints'') of VNum x \<Rightarrow> Some x | _ \<Rightarrow> None),
        pm_wallet_id = to_String h (coalesce (obj_get wallet (js ''id'')) (obj_get m (js ''walletId''))),
        pm_wallet_address = to_String h (coalesce (obj_get wallet (js ''address'')) (VStr []))\<rparr>))"

definition sanitize_team :: "view_host \<Rightarrow> js_value \<Rightarrow> exn + PublicTeamView" where
  "sanitize_team h v =
     and_then (members_of v) (\<lambda>t.
     and_then (collect (sanitize_member h) (array_or_empty (obj_get t (js ''members'')))) (\<lambda>ms. Inr
       \<lparr>pt_id = to_String h (obj_get t (js ''id'')), pt_name = to_String h (obj_get t (js ''name'')),
        pt_submissionUrl = string_or (obj_get t (js ''submissionUrl'')) None Some,
        pt_submissionVerifiedAt = coalesce (obj_get t (js ''submissionVerifiedAt'')) VNull,
        pt_members = ms\<rparr>))"

definition sanitizePublicEventView ::
    "view_host \<Rightarrow> (jstring \<times> js_value) list \<Rightarrow> exn + PublicEventView" where
  "sanitizePublicEventView h raw =
     and_then (members_of (obj_get raw (js ''organizerWallet''))) (\<lambda>organizer.
     and_then (collect (sanitize_prize h) (array_or_empty (obj_get raw (js ''prizes'')))) (\<lambda>ps.
     and_then (collect (sanitize_judge h) (array_or_empty (obj_get raw (js ''judges'')))) (\<lambda>jus.
     and_then (collect (sanitize_team h) (array_or_empty (obj_get raw (js ''teams'')))) (\<lambda>ts. Inr
       \<lparr>pe_id = to_String h (obj_get raw (js ''id'')),
        pe_name = to_String h (obj_get raw (js ''name'')),
        pe_description = string_or (obj_get raw (js ''description'')) None Some,
        pe_logoUrl = string_or (obj_get raw (js ''logoUrl'')) None Some,
        pe_tagline = string_or (obj_get raw (js ''tagline'')) None Some,
        pe_location = string_or (obj_get raw (js ''location'')) None Some,
        pe_timezone = string_or (obj_get raw (js ''timezone'')) (js ''UTC'') id,
        pe_registrationOpensAt = coalesce (obj_get raw (js ''registrationOpensAt'')) VNull,
        pe_registrationClosesAt = coalesce (obj_get raw (js ''registrationClosesAt'')) VNull,
        pe_startsAt = coalesce (obj_get raw (js ''startsAt'')) VNull,
        pe_endsAt = coalesce (obj_get raw (js ''endsAt'')) VNull,
        pe_judgingDeadlineAt = coalesce (obj_get raw (js ''judgingDeadlineAt'')) VNull,
        pe_status = obj_get raw (js ''status''),
        pe_requireGithub = to_Boolean (obj_get raw (js ''requireGithub'')),
        pe_network = (if obj_get raw (js ''network'') = VStr (js ''MAINNET'') then MAINNET else TESTNET),
        pe_escrowEventId = string_or (obj_get raw (js ''escrowEventId'')) None Some,
        pe_organizerWalletId = to_String h (obj_get raw (js ''organizerWalletId'')),
        pe_organizer_id = to_String h (obj_get organizer (js ''id'')),
        pe_organizer_address = to_String h (obj_get organizer (js ''address'')),
        pe_prizes = ps, pe_judges = jus, pe_teams = ts\<rparr>))))"

section \<open>resolveDisputeResolver\<close>

record dispute_resolver =
  dr_isDefault :: bool
  dr_label :: jstring
  dr_address :: "jstring option"

definition resolveDisputeResolver :: "jstring option \<Rightarrow> jstring \<Rightarrow> dispute_resolver" where
  "resolveDisputeResolver customResolverAddress defaultLabel =
     (if present customResolverAddress \<and> 0 < length (trim (the customResolverAddress))
      then \<lparr>dr_isDefault = False, dr_label = trim (the customResolverAddress),
             dr_address = Some (trim (the customResolverAddress))\<rparr>
      else \<lparr>dr_isDefault = True, dr_label = defaultLabel, dr_address = None\<rparr>)"

section \<open>The query\<close>

definition opt_str :: "jstring option \<Rightarrow> js_value" where
  "opt_str v = (case v of None \<Rightarrow> VNull | Some s \<Rightarrow> VStr s)"

definition opt_date :: "int option \<Rightarrow> js_value" where
  "opt_date v = (case v of None \<Rightarrow> VNull | Some t \<Rightarrow> VDate t)"

definition select_wallet :: "jstring \<Rightarrow> world \<Rightarrow> js_value" where
  "select_wallet i w =
     (case find_unique (\<lambda>r. w_id r = i) (wallets w) of
        None \<Rightarrow> VNull
      | Some r \<Rightarrow> VObj [(js ''id'', VStr (w_id r)), (js ''address'', VStr (w_address r))])"

definition select_prize :: "prize_row \<Rightarrow> js_value" where
  "select_prize p = VObj
     [(js ''id'', VStr (p_id p)), (js ''rank'', VNum (js_int (int (p_rank p)))),
      (js ''amount'', VDecimal (p_amount p)), (js ''status'', VStr (prize_status_text (p_status p))),
      (js ''winnerTeamId'', opt_str (p_winnerTeamId p)), (js ''releaseTxHash'', opt_str (p_releaseTxHash p)),
      (js ''releasedAt'', opt_date (p_releasedAt p))]"

definition select_judge :: "judge_row \<Rightarrow> js_value" where
  "select_judge j = VObj
     [(js ''id'', VStr (j_id j)), (js ''walletAddress'', VStr (j_walletAddress j)),
      (js ''displayName'', VStr (j_displayName j)), (js ''status'', VStr (js ''ACTIVE''))]"

definition select_member :: "world \<Rightarrow> member_row \<Rightarrow> js_value" where
  "select_member w m = VObj
     [(js ''walletId'', VStr (m_walletId m)), (js ''ordinal'', VNum (js_int (m_ordinal m))),
      (js ''shareBasisPoints'', VNum (js_int (m_shareBasisPoints m))),
      (js ''wallet'', select_wallet (m_walletId m) w)]"

definition select_team :: "world \<Rightarrow> team_row \<Rightarrow> js_value" where
  "select_team w t = VObj
     [(js ''id'', VStr (t_id t)), (js ''name'', VStr (t_name t)),
      (js ''submissionUrl'', VStr (t_submissionUrl t)),
      (js ''submissionVerifiedAt'', opt_date (t_submissionVerifiedAt t)),
      (js ''members'', VArr (map (select_member w)
         (sort_key m_ordinal (filter (\<lambda>m. m_teamId m = t_id t) (members w)))))]"

text \<open>Teams are stored in the order they were created.\<close>

definition PUBLIC_EVENT_SELECT :: "view_host \<Rightarrow> event_row \<Rightarrow> world \<Rightarrow> (jstring \<times> js_value) list" where
  "PUBLIC_EVENT_SELECT h e w =
     (let d = details h (e_id e) in
      [(js ''id'', VStr (e_id e)), (js ''name'', VStr (e_name e)),
       (js ''description'', opt_str (e_description e)), (js ''logoUrl'', opt_str (d_logoUrl d)),
       (js ''tagline'', opt_str (d_tagline d)), (js ''location'', opt_str (d_location d)),
       (js ''timezone'', VStr (e_timezone e)),
       (js ''registrationOpensAt'', opt_date (d_registrationOpensAt d)),
       (js ''registrationClosesAt'', opt_date (d_registrationClosesAt d)),
       (js ''startsAt'', opt_date (d_startsAt d)), (js ''endsAt'', opt_date (d_endsAt d)),
       (js ''judgingDeadlineAt'', opt_date (e_judgingDeadlineAt e)),
       (js ''status'', VStr (event_status_text (e_status e))),
       (js ''requireGithub'', VBool (e_requireGithub e)),
       (js ''network'', VStr (case e_network e of MAINNET \<Rightarrow> js ''MAINNET'' | TESTNET \<Rightarrow> js ''TESTNET'')),
       (js ''escrowEventId'', opt_str (e_escrowEventId e)),
       (js ''organizerWalletId'', VStr (e_organizerWalletId e)),
       (js ''organizerWallet'', select_wallet (e_organizerWalletId e) w),
       (js ''prizes'', VArr (map select_prize
          (sort_key p_rank (filter (\<lambda>p. p_eventId p = e_id e) (prizes w))))),
       (js ''judges'', VArr (map select_judge
          (filter (\<lambda>j. j_eventId j = e_id e \<and> j_status j = ACTIVE) (judges w)))),
       (js ''teams'', VArr (map (select_team w)
          (filter (\<lambda>t. t_eventId t = e_id e) (teams w))))])"

definition loadPublicEventView ::
    "view_host \<Rightarrow> jstring \<Rightarrow> (world, PublicEventView option) action" where
  "loadPublicEventView h i =
     await (select_by_uuid i (\<lambda>w. map_option (\<lambda>e. PUBLIC_EVENT_SELECT h e w) (find_event i w))) (\<lambda>raw.
     case raw of
       None \<Rightarrow> return_value None
     | Some r \<Rightarrow> await (lift_result (sanitizePublicEventView h r)) (\<lambda>v. return_value (Some v)))"


section \<open>The view is built from the rows\<close>

text \<open>What the page shows of each row, said without the detour through values.\<close>

definition shown_prize :: "prize_row \<Rightarrow> PublicPrizeView" where
  "shown_prize p =
     \<lparr>pp_id = p_id p, pp_rank = js_int (int (p_rank p)), pp_amount = VDecimal (p_amount p),
      pp_status = prize_status_text (p_status p), pp_winnerTeamId = p_winnerTeamId p,
      pp_releaseTxHash = p_releaseTxHash p, pp_releasedAt = opt_date (p_releasedAt p)\<rparr>"

definition shown_judge :: "judge_row \<Rightarrow> PublicJudgeView" where
  "shown_judge j =
     \<lparr>pj_id = j_id j, pj_walletAddress = j_walletAddress j, pj_displayName = j_displayName j,
      pj_status = js ''ACTIVE''\<rparr>"

definition shown_member :: "world \<Rightarrow> member_row \<Rightarrow> PublicTeamMemberView" where
  "shown_member w m =
     \<lparr>pm_walletId = m_walletId m, pm_ordinal = js_int (m_ordinal m),
      pm_shareBasisPoints = Some (js_int (m_shareBasisPoints m)), pm_wallet_id = m_walletId m,
      pm_wallet_address =
        (case find_unique (\<lambda>r. w_id r = m_walletId m) (wallets w) of None \<Rightarrow> [] | Some r \<Rightarrow> w_address r)\<rparr>"

definition shown_team :: "world \<Rightarrow> team_row \<Rightarrow> PublicTeamView" where
  "shown_team w t =
     \<lparr>pt_id = t_id t, pt_name = t_name t, pt_submissionUrl = Some (t_submissionUrl t),
      pt_submissionVerifiedAt = opt_date (t_submissionVerifiedAt t),
      pt_members = map (shown_member w)
        (sort_key m_ordinal (filter (\<lambda>m. m_teamId m = t_id t) (members w)))\<rparr>"

definition shown_event :: "view_host \<Rightarrow> event_row \<Rightarrow> wallet_row \<Rightarrow> world \<Rightarrow> PublicEventView" where
  "shown_event h e organizer w =
     (let d = details h (e_id e) in
      \<lparr>pe_id = e_id e, pe_name = e_name e, pe_description = e_description e,
       pe_logoUrl = d_logoUrl d, pe_tagline = d_tagline d, pe_location = d_location d,
       pe_timezone = e_timezone e,
       pe_registrationOpensAt = opt_date (d_registrationOpensAt d),
       pe_registrationClosesAt = opt_date (d_registrationClosesAt d),
       pe_startsAt = opt_date (d_startsAt d), pe_endsAt = opt_date (d_endsAt d),
       pe_judgingDeadlineAt = opt_date (e_judgingDeadlineAt e),
       pe_status = VStr (event_status_text (e_status e)), pe_requireGithub = e_requireGithub e,
       pe_network = e_network e, pe_escrowEventId = e_escrowEventId e,
       pe_organizerWalletId = e_organizerWalletId e,
       pe_organizer_id = w_id organizer, pe_organizer_address = w_address organizer,
       pe_prizes = map shown_prize (sort_key p_rank (filter (\<lambda>p. p_eventId p = e_id e) (prizes w))),
       pe_judges = map shown_judge (filter (\<lambda>j. j_eventId j = e_id e \<and> j_status j = ACTIVE) (judges w)),
       pe_teams = map (shown_team w) (filter (\<lambda>t. t_eventId t = e_id e) (teams w))\<rparr>)"

lemma opt_columns [simp]:
  "string_or (opt_str v) None Some = v" "coalesce (opt_date t) VNull = opt_date t"
  "string_or (VStr s) z f = f s" "to_String h (VStr s) = s" "to_Number h (VNum x) = x"
  "coalesce (VStr s) d = VStr s" "coalesce (VNum x) d = VNum x" "coalesce VUndefined d = d"
  "coalesce VNull d = d" "coalesce (VObj ms) d = VObj ms" "members_of (VObj ms) = Inr ms"
  "array_or_empty (VArr xs) = xs" "to_Boolean (VBool b) = b"
  by (auto simp: string_or_def opt_str_def coalesce_def opt_date_def to_String_def to_Number_def
      members_of_def array_or_empty_def to_Boolean_def split: option.splits)

lemma collect_map: "collect f (map g xs) = collect (\<lambda>x. f (g x)) xs"
  by (induction xs) auto

lemma collect_shown: "(\<And>x. f (g x) = Inr (s x)) \<Longrightarrow> collect f (map g xs) = Inr (map s xs)"
  by (simp add: collect_map collect_Inr)

lemma sanitize_rows:
  "sanitize_prize h (select_prize p) = Inr (shown_prize p)"
  "sanitize_judge h (select_judge j) = Inr (shown_judge j)"
  by (simp_all add: sanitize_prize_def select_prize_def shown_prize_def sanitize_judge_def
      select_judge_def shown_judge_def obj_get_def)

lemma collect_rows [simp]:
  "collect (sanitize_prize h) (map select_prize ps) = Inr (map shown_prize ps)"
  "collect (sanitize_judge h) (map select_judge ks) = Inr (map shown_judge ks)"
  by (rule collect_shown, rule sanitize_rows)+

lemma select_wallet_cases:
  "select_wallet i w = VNull \<and> find_unique (\<lambda>r. w_id r = i) (wallets w) = None \<or>
   (\<exists>r. find_unique (\<lambda>r. w_id r = i) (wallets w) = Some r \<and> w_id r = i \<and>
      select_wallet i w = VObj [(js ''id'', VStr i), (js ''address'', VStr (w_address r))])"
  using find_unique_Some [of "\<lambda>r. w_id r = i" "wallets w"]
  by (cases "find_unique (\<lambda>r. w_id r = i) (wallets w)") (auto simp: select_wallet_def)

lemma sanitize_member_row: "sanitize_member h (select_member w m) = Inr (shown_member w m)"
  using select_wallet_cases [of "m_walletId m" w]
  by (auto simp: sanitize_member_def select_member_def shown_member_def obj_get_def)

lemma collect_members [simp]:
  "collect (sanitize_member h) (map (select_member w) ms) = Inr (map (shown_member w) ms)"
  by (rule collect_shown, rule sanitize_member_row)

lemma sanitize_team_row: "sanitize_team h (select_team w t) = Inr (shown_team w t)"
  by (simp add: sanitize_team_def select_team_def shown_team_def obj_get_def)

lemma collect_teams [simp]:
  "collect (sanitize_team h) (map (select_team w) ts) = Inr (map (shown_team w) ts)"
  by (rule collect_shown, rule sanitize_team_row)

lemma network_text: "(VStr (case n of MAINNET \<Rightarrow> js ''MAINNET'' | TESTNET \<Rightarrow> js ''TESTNET'') = VStr (js ''MAINNET'')) \<longleftrightarrow> n = MAINNET"
  by (cases n) simp_all

lemma sanitize_event_row:
  assumes "find_unique (\<lambda>r. w_id r = e_organizerWalletId e) (wallets w) = Some organizer"
  shows "sanitizePublicEventView h (PUBLIC_EVENT_SELECT h e w) = Inr (shown_event h e organizer w)"
proof -
  have "(if n = MAINNET then MAINNET else TESTNET) = n" for n
    by (cases n) simp_all
  then show ?thesis
    using assms network_text [of "e_network e"]
    by (simp add: sanitizePublicEventView_def PUBLIC_EVENT_SELECT_def shown_event_def Let_def obj_get_def select_wallet_def)
qed

section \<open>Properties\<close>

lemma load_no_fault:
  assumes "faults w = []" "isUuid i"
  shows "loadPublicEventView h i w =
    (case find_event i w of
       None \<Rightarrow> (Inr None, w)
     | Some e \<Rightarrow> (map_sum id Some (sanitizePublicEventView h (PUBLIC_EVENT_SELECT h e w)), w))"
proof (cases "find_event i w")
  case None
  with assms show ?thesis by (simp add: loadPublicEventView_def select_by_uuid_def await_def)
next
  case (Some e)
  with assms show ?thesis
    by (cases "sanitizePublicEventView h (PUBLIC_EVENT_SELECT h e w)")
      (simp_all add: loadPublicEventView_def select_by_uuid_def await_def)
qed

text \<open>C38: The public view shows the stored rows, and nothing throws on the way. For a database that
  works and an id of the right form: without an event the view is null; with one (and the organizer
  wallet its foreign key points to) it is that event with its prizes by rank, its ACTIVE judges only,
  and its teams with their members by ordinal, member by member as stored.\<close>

theorem loadPublicEventView_exact:
  assumes "faults w = []" and "isUuid i"
    and "\<And>e. find_event i w = Some e \<Longrightarrow>
      find_unique (\<lambda>r. w_id r = e_organizerWalletId e) (wallets w) = Some (organizer e)"
  shows "loadPublicEventView h i w =
    (Inr (map_option (\<lambda>e. shown_event h e (organizer e) w) (find_event i w)), w)"
  using assms(3)
  by (simp add: load_no_fault [OF assms(1,2)] sanitize_event_row split: option.split)

definition test_host :: view_host where
  "test_host = \<lparr>other_text = (\<lambda>_. []), other_number = (\<lambda>_. NaN),
     details = (\<lambda>_. \<lparr>d_logoUrl = None, d_tagline = None, d_location = None, d_registrationOpensAt = None,
       d_registrationClosesAt = None, d_startsAt = None, d_endsAt = None\<rparr>)\<rparr>"

definition test_prize :: "nat \<Rightarrow> prize_row" where
  "test_prize k = \<lparr>p_id = [k], p_eventId = test_event_id, p_rank = k, p_amount = 10, p_status = PENDING,
     p_winnerTeamId = None, p_releaseTxHash = None, p_releasedAt = None\<rparr>"

definition view_world :: world where
  "view_world = signed_in_world\<lparr>events := [test_event], prizes := [test_prize 2, test_prize 1]\<rparr>"

lemma shown_event_prizes:
  "pe_prizes (shown_event h e organizer w)
     = map shown_prize (sort_key p_rank (filter (\<lambda>p. p_eventId p = e_id e) (prizes w)))"
  unfolding shown_event_def Let_def by (rule PublicEventView.select_convs)

lemma shown_prize_id: "pp_id (shown_prize (test_prize k)) = [k]"
  unfolding shown_prize_def test_prize_def by simp

theorem loadPublicEventView_exact_witness:
  "\<exists>v. loadPublicEventView test_host test_event_id view_world = (Inr (Some v), view_world) \<and>
     map pp_id (pe_prizes v) = [[1], [2]]"
proof -
  have f: "find_event test_event_id view_world = Some test_event"
    by (simp add: find_event_def find_unique_def view_world_def test_ids test_event_def)
  have o: "find_unique (\<lambda>r. w_id r = e_organizerWalletId e) (wallets view_world) = Some test_wallet"
    if "find_event test_event_id view_world = Some e" for e
    using that f by (simp add: find_unique_def view_world_def signed_in_world_def test_event_def test_wallet_def)
  have "faults view_world = []" by (simp add: view_world_def signed_in_world_def empty_world_def)
  from loadPublicEventView_exact [OF this test_ids(1) o, of test_host] f
  have run: "loadPublicEventView test_host test_event_id view_world =
      (Inr (Some (shown_event test_host test_event test_wallet view_world)), view_world)"
    by simp
  have "filter (\<lambda>p. p_eventId p = e_id test_event) (prizes view_world) = [test_prize 2, test_prize 1]"
    by (simp add: view_world_def test_prize_def test_event_def)
  then have "pe_prizes (shown_event test_host test_event test_wallet view_world)
      = map shown_prize (sort_key p_rank [test_prize 2, test_prize 1])"
    by (simp only: shown_event_prizes)
  moreover have "sort_key p_rank [test_prize 2, test_prize 1] = [test_prize 1, test_prize 2]"
    by (simp add: test_prize_def)
  ultimately have "map pp_id (pe_prizes (shown_event test_host test_event test_wallet view_world)) = [[1], [2]]"
    by (simp only: list.map shown_prize_id)
  with run show ?thesis by (intro exI conjI)
qed

text \<open>
  What a visitor may see: the named event but its \<open>organizerId\<close>, its prizes, ACTIVE judges and teams,
  who is in a team, and each wallet's id and address. Emails, users, visibility settings, trustline
  times, nonces, linked accounts and REMOVED judges are not in it.
\<close>

definition visible :: "jstring \<Rightarrow> world \<Rightarrow>
    (event_row \<times> prize_row list \<times> judge_row list \<times> team_row list \<times> member_row list \<times>
     (jstring \<times> jstring) list) option" where
  "visible i w =
     map_option (\<lambda>e. (e\<lparr>e_organizerId := []\<rparr>,
        filter (\<lambda>p. p_eventId p = e_id e) (prizes w),
        filter (\<lambda>j. j_eventId j = e_id e \<and> j_status j = ACTIVE) (judges w),
        filter (\<lambda>t. t_eventId t = e_id e) (teams w), members w,
        map (\<lambda>r. (w_id r, w_address r)) (wallets w)))
      (find_event i w)"

lemma select_wallet_visible:
  assumes "map (\<lambda>r. (w_id r, w_address r)) t = map (\<lambda>r. (w_id r, w_address r)) t'"
  shows "(case find_unique (\<lambda>r. w_id r = i) t of None \<Rightarrow> VNull
      | Some r \<Rightarrow> VObj [(js ''id'', VStr (w_id r)), (js ''address'', VStr (w_address r))]) =
    (case find_unique (\<lambda>r. w_id r = i) t' of None \<Rightarrow> VNull
      | Some r \<Rightarrow> VObj [(js ''id'', VStr (w_id r)), (js ''address'', VStr (w_address r))])"
  using assms
proof (induction t arbitrary: t')
  case Nil
  then show ?case by (simp add: find_unique_def del: js_Cons)
next
  case (Cons r t)
  then obtain r' u where t': "t' = r' # u" by (cases t') auto
  with Cons.prems have "w_id r' = w_id r" "w_address r' = w_address r"
    "map (\<lambda>r. (w_id r, w_address r)) t = map (\<lambda>r. (w_id r, w_address r)) u" by simp_all
  with Cons.IH [of u] show ?case by (simp add: t' find_unique_def del: js_Cons)
qed

lemma PUBLIC_EVENT_SELECT_visible:
  assumes "e\<lparr>e_organizerId := []\<rparr> = e'\<lparr>e_organizerId := []\<rparr>"
    and "filter (\<lambda>p. p_eventId p = e_id e) (prizes w) = filter (\<lambda>p. p_eventId p = e_id e') (prizes w')"
    and "filter (\<lambda>j. j_eventId j = e_id e \<and> j_status j = ACTIVE) (judges w)
       = filter (\<lambda>j. j_eventId j = e_id e' \<and> j_status j = ACTIVE) (judges w')"
    and "filter (\<lambda>t. t_eventId t = e_id e) (teams w) = filter (\<lambda>t. t_eventId t = e_id e') (teams w')"
    and "members w = members w'"
    and "map (\<lambda>r. (w_id r, w_address r)) (wallets w) = map (\<lambda>r. (w_id r, w_address r)) (wallets w')"
  shows "PUBLIC_EVENT_SELECT h e w = PUBLIC_EVENT_SELECT h e' w'"
proof -
  have sw: "select_wallet j w = select_wallet j w'" for j
    unfolding select_wallet_def by (rule select_wallet_visible [OF assms(6)])
  then have "select_member w = select_member w'"
    by (simp add: select_member_def fun_eq_iff del: js_Cons)
  then have st: "select_team w = select_team w'"
    by (simp add: select_team_def fun_eq_iff assms(5) del: js_Cons)
  have "e_id e = e_id e'" "e_name e = e_name e'" "e_description e = e_description e'"
    "e_timezone e = e_timezone e'" "e_judgingDeadlineAt e = e_judgingDeadlineAt e'"
    "e_status e = e_status e'" "e_requireGithub e = e_requireGithub e'" "e_network e = e_network e'"
    "e_escrowEventId e = e_escrowEventId e'" "e_organizerWalletId e = e_organizerWalletId e'"
    using assms(1) by (cases e; cases e'; simp)+
  then show ?thesis
    using assms(2-4) by (simp add: PUBLIC_EVENT_SELECT_def Let_def sw st del: js_Cons)
qed

text \<open>C37: The public view leaks nothing private. Two worlds that agree on what a visitor may see of an
  event (\<open>visible\<close>), and on the fate of the database calls, give the same answer, error or view, to
  \<open>loadPublicEventView\<close>, whatever else differs: emails, users, profile settings, trustline times,
  links, nonces, other events, removed judges.\<close>

theorem public_view_hides_private:
  assumes "visible i w = visible i w'" and "faults w = faults w'"
  shows "fst (loadPublicEventView h i w) = fst (loadPublicEventView h i w')"
proof -
  have "map_option (\<lambda>e. PUBLIC_EVENT_SELECT h e w) (find_event i w)
      = map_option (\<lambda>e. PUBLIC_EVENT_SELECT h e w') (find_event i w')"
    using assms(1) PUBLIC_EVENT_SELECT_visible [where h = h and w = w and w' = w']
    by (cases "find_event i w"; cases "find_event i w'") (auto simp: visible_def)
  moreover have "PUBLIC_EVENT_SELECT h e (v\<lparr>faults := fs\<rparr>) = PUBLIC_EVENT_SELECT h e v" for e v fs
    by (rule PUBLIC_EVENT_SELECT_visible) simp_all
  moreover have "find_event i (v\<lparr>faults := fs\<rparr>) = find_event i v" for v fs
    by (simp add: find_event_def)
  ultimately show ?thesis
    using assms(2)
    by (simp add: loadPublicEventView_def select_by_uuid_def await_def db_call_def
        split: list.split fault.split option.split prod.split sum.split del: js_Cons)
qed

theorem public_view_hides_private_witness:
  "let w' = view_world\<lparr>wallets := [test_wallet\<lparr>w_email := Some (js ''me@x.io'')\<rparr>]\<rparr> in
   w' \<noteq> view_world \<and>
   fst (loadPublicEventView test_host test_event_id view_world) =
     fst (loadPublicEventView test_host test_event_id w')"
proof -
  let ?w' = "view_world\<lparr>wallets := [test_wallet\<lparr>w_email := Some (js ''me@x.io'')\<rparr>]\<rparr>"
  have "wallets ?w' \<noteq> wallets view_world"
    by (simp add: view_world_def signed_in_world_def test_wallet_def)
  then have "?w' \<noteq> view_world" by metis
  moreover have "visible test_event_id view_world = visible test_event_id ?w'"
    by (simp add: visible_def find_event_def view_world_def signed_in_world_def test_wallet_def)
  ultimately show ?thesis
    using public_view_hides_private [of test_event_id view_world ?w' test_host] by (simp add: Let_def)
qed

end
