(* ===== verification/Escrow_Read.thy ===== *)
theory Escrow_Read
  imports Auth Numbers
begin

text \<open>
  \<open>lib/escrow/read-event.ts\<close>, the read of an event from the chain. The Soroban RPC is the record
  \<open>soroban\<close>: \<open>simulate\<close> runs the contract's \<open>get_event\<close> on an id (its 32 hex characters) at an RPC
  address, where plain http is allowed or not; a success carries the members of the native value
  \<open>scValToNative\<close> gives, or no result. \<open>number_out\<close> is how JavaScript prints a number and
  \<open>big_number\<close> the double nearest to a bigint beyond \<open>2 ^ 53\<close>.
\<close>

section \<open>Native values and the RPC\<close>

text \<open>A bigint, a number, a string, or anything else by its \<open>typeof\<close>.\<close>

datatype native =
    NBig int
  | NNum js_number
  | NStr jstring
  | NOther jstring

datatype simulation =
    SimError jstring
  | SimSuccess "(jstring \<times> native) list option"
  | SimRestore

record soroban =
  rpc_url :: "jstring option"
  contract_id :: jstring
  network_passphrase :: jstring
  simulate :: "jstring \<Rightarrow> bool \<Rightarrow> jstring \<Rightarrow> jstring \<Rightarrow> jstring \<Rightarrow> (world, simulation) action"
  number_out :: "js_number \<Rightarrow> jstring"
  big_number :: "int \<Rightarrow> js_number"

definition native_typeof :: "native \<Rightarrow> jstring" where
  "native_typeof v =
     (case v of NBig _ \<Rightarrow> js ''bigint'' | NNum _ \<Rightarrow> js ''number'' | NStr _ \<Rightarrow> js ''string'' | NOther t \<Rightarrow> t)"

definition native_member :: "(jstring \<times> native) list \<Rightarrow> jstring \<Rightarrow> native" where
  "native_member ms k = (case map_of ms k of None \<Rightarrow> NOther (js ''undefined'') | Some v \<Rightarrow> v)"

section \<open>read-event.ts\<close>

definition ESCROW_EVENT_STATES :: "js_number \<Rightarrow> jstring option" where
  "ESCROW_EVENT_STATES n =
     (if n = js_int 0 then Some (js ''Created'')
      else if n = js_int 1 then Some (js ''WaitingForStart'')
      else if n = js_int 2 then Some (js ''InProgress'')
      else if n = js_int 3 then Some (js ''Ended'')
      else if n = js_int 4 then Some (js ''Compensated'')
      else if n = js_int 99 then Some (js ''Cancelled'')
      else None)"

record EscrowEvent =
  ee_reward :: jstring
  ee_state :: jstring
  ee_token :: jstring
  ee_admin :: jstring
  ee_judge :: jstring
  ee_resolver :: "jstring option"

definition EVENT_ID_HEX :: "jstring \<Rightarrow> bool" where
  "EVENT_ID_HEX s = (length s = 32 \<and> list_all (\<lambda>c. is_digit c \<or> 97 \<le> c \<and> c \<le> 102) s)"

definition print_number :: "soroban \<Rightarrow> js_number \<Rightarrow> jstring" where
  "print_number sb x = (case number_text x of Some t \<Rightarrow> t | None \<Rightarrow> number_out sb x)"

definition toReward :: "soroban \<Rightarrow> native \<Rightarrow> exn + jstring" where
  "toReward sb v =
     (case v of
        NBig n \<Rightarrow> Inr (int_text n)
      | NNum x \<Rightarrow> Inr (print_number sb x)
      | _ \<Rightarrow> Inl (EscrowReadError (js ''get_event returned a non-numeric reward: '' @ native_typeof v)))"

definition toState :: "soroban \<Rightarrow> native \<Rightarrow> exn + jstring" where
  "toState sb v =
     (let named = (\<lambda>n. case ESCROW_EVENT_STATES n of
                         Some s \<Rightarrow> s
                       | None \<Rightarrow> js ''Unknown('' @ print_number sb n @ js '')'')
      in case v of
           NBig n \<Rightarrow> Inr (named (if \<bar>n\<bar> \<le> 2 ^ 53 then js_int n else big_number sb n))
         | NNum x \<Rightarrow> Inr (named x)
         | _ \<Rightarrow> Inl (EscrowReadError (js ''get_event returned a non-numeric state: '' @ native_typeof v)))"

definition toAddress :: "native \<Rightarrow> jstring \<Rightarrow> exn + jstring" where
  "toAddress v field =
     (case v of
        NStr (c # s) \<Rightarrow> Inr (c # s)
      | _ \<Rightarrow> Inl (EscrowReadError (js ''get_event returned a non-address '' @ field)))"

text \<open>The members in the order the object literal reads them: the first that is not as it should be throws.\<close>

definition escrow_of :: "soroban \<Rightarrow> (jstring \<times> native) list \<Rightarrow> exn + EscrowEvent" where
  "escrow_of sb ms =
     (case toReward sb (native_member ms (js ''reward'')) of Inl e \<Rightarrow> Inl e | Inr reward \<Rightarrow>
     (case toState sb (native_member ms (js ''state'')) of Inl e \<Rightarrow> Inl e | Inr state \<Rightarrow>
     (case toAddress (native_member ms (js ''token'')) (js ''token'') of Inl e \<Rightarrow> Inl e | Inr token \<Rightarrow>
     (case toAddress (native_member ms (js ''admin'')) (js ''admin'') of Inl e \<Rightarrow> Inl e | Inr admin \<Rightarrow>
     (case toAddress (native_member ms (js ''judge'')) (js ''judge'') of Inl e \<Rightarrow> Inl e | Inr judge \<Rightarrow>
       Inr \<lparr>ee_reward = reward, ee_state = state, ee_token = token, ee_admin = admin, ee_judge = judge,
            ee_resolver = (case native_member ms (js ''resolver'') of
                             NStr s \<Rightarrow> if s = [] then None else Some s
                           | _ \<Rightarrow> None)\<rparr>)))))"

definition readEscrowEvent :: "soroban \<Rightarrow> jstring \<Rightarrow> (world, EscrowEvent) action" where
  "readEscrowEvent sb escrowEventId =
     (if \<not> EVENT_ID_HEX escrowEventId
      then throw (EscrowReadError (js ''escrowEventId must be 32 lowercase hex characters (the contract's BytesN<16>)''))
      else (case rpc_url sb of
              None \<Rightarrow> throw (EscrowReadError (js ''SOROBAN_RPC_URL is not configured''))
            | Some url \<Rightarrow>
                if url = [] then throw (EscrowReadError (js ''SOROBAN_RPC_URL is not configured''))
                else
                  await (simulate sb url (starts_with url (js ''http://'')) (contract_id sb)
                           (network_passphrase sb) escrowEventId) (\<lambda>sim.
                  case sim of
                    SimError err \<Rightarrow> throw (EscrowReadError (js ''get_event simulation failed: '' @ err))
                  | SimSuccess (Some ms) \<Rightarrow> lift_result (escrow_of sb ms)
                  | _ \<Rightarrow> throw (EscrowReadError (js ''get_event simulation returned no result'')))))"

end
