(* ===== verification/Card_Model.thy ===== *)
theory Card_Model
  imports Amounts Escrow_Read Status Big_Int
begin

text \<open>
  What an event's share card says: \<open>lib/events/card-model.ts\<close> and \<open>lib/explorer.ts\<close>. The record
  \<open>card_host\<close> holds the host's dates and letters: \<open>date_parse\<close> reads a text (\<open>None\<close> is NaN),
  \<open>iso_text\<close> is \<open>toISOString\<close> of a time in milliseconds, \<open>intl_date\<close> formats one for a language tag
  (\<open>None\<close> when it throws) and \<open>card_lower\<close> is \<open>toLowerCase\<close>. A member that is any value with a
  \<open>toString\<close> is given as the text that \<open>toString\<close> answers.
\<close>

section \<open>explorer.ts\<close>

datatype explorer_network = testnet | mainnet | public_network

definition explorerNetwork :: "explorer_network \<Rightarrow> jstring" where
  "explorerNetwork network =
     (if network = mainnet \<or> network = public_network then js ''public'' else js ''testnet'')"

definition getExplorerTxUrl :: "jstring \<Rightarrow> explorer_network \<Rightarrow> jstring" where
  "getExplorerTxUrl hash network =
     (let explorerNetwork = (if network = mainnet \<or> network = public_network then js ''public''
                             else js ''testnet'')
      in js ''https://stellar.expert/explorer/'' @ explorerNetwork @ js ''/tx/'' @ hash)"

definition getExplorerContractUrl :: "jstring \<Rightarrow> explorer_network \<Rightarrow> jstring" where
  "getExplorerContractUrl contractId network =
     js ''https://stellar.expert/explorer/'' @ explorerNetwork network @ js ''/contract/'' @ contractId"

definition getExplorerAccountUrl :: "jstring \<Rightarrow> explorer_network \<Rightarrow> jstring" where
  "getExplorerAccountUrl address network =
     js ''https://stellar.expert/explorer/'' @ explorerNetwork network @ js ''/account/'' @ address"

text \<open>\<open>s.slice(-n)\<close>; \<open>slice(-0)\<close> is the whole text.\<close>

definition slice_last :: "nat \<Rightarrow> jstring \<Rightarrow> jstring" where
  "slice_last n s = (if n = 0 then s else drop (length s - n) s)"

definition ellipsis :: nat where
  "ellipsis = 8230"

definition truncateHash :: "jstring \<Rightarrow> nat \<Rightarrow> nat \<Rightarrow> jstring" where
  "truncateHash hash leading trailing =
     (if hash = [] then []
      else if length hash \<le> leading + trailing then hash
      else take leading hash @ [ellipsis] @ slice_last trailing hash)"

section \<open>Texts of the card\<close>

record card_host =
  date_parse :: "jstring \<Rightarrow> int option"
  iso_text :: "int \<Rightarrow> jstring"
  intl_date :: "jstring \<Rightarrow> int \<Rightarrow> jstring option"
  card_lower :: "jstring \<Rightarrow> jstring"

definition formatCardDate :: "card_host \<Rightarrow> jstring option \<Rightarrow> jstring \<Rightarrow> jstring option" where
  "formatCardDate h isoString locale =
     (case isoString of
        None \<Rightarrow> None
      | Some s \<Rightarrow>
          if s = [] then None
          else (case date_parse h s of
                  None \<Rightarrow> None
                | Some t \<Rightarrow> intl_date h (if locale = js ''es'' then js ''es-ES'' else js ''en-US'') t))"

definition truncateText :: "jstring \<Rightarrow> nat \<Rightarrow> jstring" where
  "truncateText txt maxLength =
     (if txt = [] then []
      else if length txt \<le> maxLength then txt
      else trimEnd (take (maxLength - 1) txt) @ [ellipsis])"

definition truncateWallet :: "jstring \<Rightarrow> jstring" where
  "truncateWallet address = truncateHash address 6 6"

record CardMemberWallet =
  cw_address :: jstring
  cw_linkedAccounts :: "(jstring \<times> jstring) list option"

text \<open>\<open>replace(/^@/, "")\<close>.\<close>

definition drop_at :: "jstring \<Rightarrow> jstring" where
  "drop_at s = (if s \<noteq> [] \<and> hd s = 64 then tl s else s)"

definition formatMemberHandle :: "card_host \<Rightarrow> CardMemberWallet \<Rightarrow> jstring" where
  "formatMemberHandle h wallet =
     (let github = (case cw_linkedAccounts wallet of
                      None \<Rightarrow> None
                    | Some accs \<Rightarrow> List.find (\<lambda>acc. card_lower h (fst acc) = js ''github'') accs);
          clean = (case github of None \<Rightarrow> [] | Some acc \<Rightarrow> trim (drop_at (snd acc)))
      in if clean \<noteq> [] then 64 # clean else truncateWallet (cw_address wallet))"

section \<open>buildEventCardModel\<close>

datatype CardTemplateType = open_card | winners_card | generic_card

record CardWinner =
  cx_rank :: int
  cx_teamName :: jstring
  cx_members :: "jstring list"
  cx_amount :: jstring
  cx_asset :: jstring
  cx_txHash :: "jstring option"

record EventCardModel =
  cm_id :: jstring
  cm_name :: jstring
  cm_locale :: jstring
  cm_status :: EventStatus
  cm_organizer :: jstring
  cm_judges :: "jstring list"
  cm_prizeAmount :: jstring
  cm_prizeAsset :: jstring
  cm_judgingDeadlineAt :: "jstring option"
  cm_formattedDeadline :: "jstring option"
  cm_registrationClosesAt :: "jstring option"
  cm_isRegistrationClosed :: bool
  cm_teamsRegistered :: nat
  cm_winners :: "CardWinner list"
  cm_hasVerifiableMoney :: bool
  cm_templateType :: CardTemplateType

datatype date_input = DateObject "int option" | DateText jstring

record card_judge =
  ck_displayName :: jstring
  ck_walletAddress :: jstring

record card_team =
  ct_id :: jstring
  ct_name :: jstring
  ct_members :: "CardMemberWallet list"

record card_prize =
  cp_rank :: int
  cp_amount :: jstring
  cp_winnerTeamId :: "jstring option"
  cp_releaseTxHash :: "jstring option"

record card_event =
  ce_id :: jstring
  ce_name :: jstring
  ce_status :: EventStatus
  ce_organizer :: jstring
  ce_judges :: "card_judge list"
  ce_teams :: "card_team list"
  ce_prizes :: "card_prize list"
  ce_judgingDeadlineAt :: "date_input option"
  ce_registrationClosesAt :: "date_input option"

record BuildCardModelInput =
  ci_event :: card_event
  ci_reward :: "jstring option option"
  ci_locale :: "jstring option"
  ci_assetSymbol :: "jstring option"
  ci_now :: int

text \<open>
  \<open>ci_reward\<close> is \<open>None\<close> without an escrow, \<open>Some None\<close> when its reward is nullish, and else the
  reward's text; \<open>ci_now\<close> is \<open>input.now ?? new Date()\<close>. A date is \<open>None\<close> when nullish.
\<close>

definition invalid_time :: exn where
  "invalid_time = RangeError (js ''Invalid time value'')"

definition iso_or_null :: "card_host \<Rightarrow> date_input option \<Rightarrow> exn + jstring option" where
  "iso_or_null h d =
     (case d of
        None \<Rightarrow> Inr None
      | Some (DateText s) \<Rightarrow>
          if s = [] then Inr None
          else (case date_parse h s of None \<Rightarrow> Inl invalid_time | Some t \<Rightarrow> Inr (Some (iso_text h t)))
      | Some (DateObject None) \<Rightarrow> Inl invalid_time
      | Some (DateObject (Some t)) \<Rightarrow> Inr (Some (iso_text h t)))"

definition reward_of :: "jstring option option \<Rightarrow> int" where
  "reward_of escrow =
     (case escrow of
        Some (Some s) \<Rightarrow> (case StringToBigInt s of None \<Rightarrow> 0 | Some n \<Rightarrow> n)
      | _ \<Rightarrow> 0)"

definition template_of :: "bool \<Rightarrow> EventStatus \<Rightarrow> CardTemplateType" where
  "template_of hasVerifiableMoney status =
     (if hasVerifiableMoney then
        (if status = LIVE \<or> status = JUDGING then open_card
         else if status = COMPLETED then winners_card else generic_card)
      else generic_card)"

definition judge_label :: "card_judge \<Rightarrow> jstring" where
  "judge_label j =
     (if trim (ck_displayName j) \<noteq> [] then trim (ck_displayName j)
      else truncateWallet (ck_walletAddress j))"

definition winner_team :: "card_event \<Rightarrow> card_prize \<Rightarrow> card_team option" where
  "winner_team event prize =
     (case cp_winnerTeamId prize of
        None \<Rightarrow> None
      | Some i \<Rightarrow> if i = [] then None else List.find (\<lambda>t. ct_id t = i) (ce_teams event))"

definition winner_of :: "card_host \<Rightarrow> jstring \<Rightarrow> card_prize \<Rightarrow> card_team \<Rightarrow> CardWinner" where
  "winner_of h asset prize team =
     \<lparr>cx_rank = cp_rank prize, cx_teamName = truncateText (ct_name team) 28,
      cx_members = map (formatMemberHandle h) (ct_members team), cx_amount = cp_amount prize,
      cx_asset = asset, cx_txHash = cp_releaseTxHash prize\<rparr>"

fun push_winners :: "card_host \<Rightarrow> jstring \<Rightarrow> card_event \<Rightarrow> card_prize list \<Rightarrow> CardWinner list" where
  "push_winners h asset event [] = []"
| "push_winners h asset event (p # ps) =
     (case winner_team event p of
        None \<Rightarrow> push_winners h asset event ps
      | Some team \<Rightarrow> winner_of h asset p team # push_winners h asset event ps)"

definition registration_closed :: "card_host \<Rightarrow> int \<Rightarrow> jstring option \<Rightarrow> bool" where
  "registration_closed h now registrationClosesAt =
     (case registrationClosesAt of
        None \<Rightarrow> False
      | Some s \<Rightarrow> s \<noteq> [] \<and> (case date_parse h s of None \<Rightarrow> False | Some t \<Rightarrow> t < now))"

definition buildEventCardModel :: "card_host \<Rightarrow> BuildCardModelInput \<Rightarrow> exn + EventCardModel" where
  "buildEventCardModel h input =
     (let event = ci_event input;
          locale = (case ci_locale input of None \<Rightarrow> js ''en'' | Some l \<Rightarrow> l);
          assetSymbol = (case ci_assetSymbol input of None \<Rightarrow> js ''USDC'' | Some a \<Rightarrow> a);
          reward = reward_of (ci_reward input);
          hasVerifiableMoney = (ci_reward input \<noteq> None \<and> 0 < reward)
      in case iso_or_null h (ce_judgingDeadlineAt event) of
           Inl e \<Rightarrow> Inl e
         | Inr judgingDeadlineAt \<Rightarrow>
             (case iso_or_null h (ce_registrationClosesAt event) of
                Inl e \<Rightarrow> Inl e
              | Inr registrationClosesAt \<Rightarrow> Inr
                  \<lparr>cm_id = ce_id event, cm_name = truncateText (ce_name event) 64, cm_locale = locale,
                   cm_status = ce_status event, cm_organizer = truncateWallet (ce_organizer event),
                   cm_judges = map judge_label (ce_judges event),
                   cm_prizeAmount = (if hasVerifiableMoney then formatSmallestUnits (int_text reward) 7
                                     else js ''0''),
                   cm_prizeAsset = assetSymbol, cm_judgingDeadlineAt = judgingDeadlineAt,
                   cm_formattedDeadline = formatCardDate h judgingDeadlineAt locale,
                   cm_registrationClosesAt = registrationClosesAt,
                   cm_isRegistrationClosed = registration_closed h (ci_now input) registrationClosesAt,
                   cm_teamsRegistered = length (ce_teams event),
                   cm_winners = push_winners h assetSymbol event (sort_key cp_rank (ce_prizes event)),
                   cm_hasVerifiableMoney = hasVerifiableMoney,
                   cm_templateType = template_of hasVerifiableMoney (ce_status event)\<rparr>))"


section \<open>Reading back what is shown\<close>

lemma reward_of_int_text: "reward_of (Some (Some (int_text n))) = n"
  by (simp add: reward_of_def StringToBigInt_int_text)

text \<open>What a built card has, field by field.\<close>

lemma build_Inr:
  assumes "buildEventCardModel h input = Inr m"
  shows "cm_hasVerifiableMoney m \<longleftrightarrow> ci_reward input \<noteq> None \<and> 0 < reward_of (ci_reward input)"
    and "cm_prizeAmount m = (if cm_hasVerifiableMoney m
           then formatSmallestUnits (int_text (reward_of (ci_reward input))) 7 else js ''0'')"
    and "cm_templateType m = template_of (cm_hasVerifiableMoney m) (ce_status (ci_event input))"
    and "cm_winners m = push_winners h (cm_prizeAsset m) (ci_event input)
           (sort_key cp_rank (ce_prizes (ci_event input)))"
  using assms by (auto simp: buildEventCardModel_def Let_def simp del: js_Cons split: sum.splits)

lemma format_pos: "0 < n \<Longrightarrow> parseUsdcAmount (formatSmallestUnits (int_text n) 7) = Some (nat n)"
  using parse_format [of "nat n"] by (simp add: int_text_def)

section \<open>Properties\<close>

lemma card_money_is_on_chain_facts:
  assumes "escrow_of sb ms = Inr ev" and "native_member ms (js ''reward'') = NBig n"
    and "ci_reward input = Some (Some (ee_reward ev))"
    and "buildEventCardModel h input = Inr m"
    and "buildEventCardModel h (input\<lparr>ci_reward := None\<rparr>) = Inr m0"
  shows "cm_hasVerifiableMoney m \<longleftrightarrow> 0 < n"
    and "0 < n \<Longrightarrow> parseUsdcAmount (cm_prizeAmount m) = Some (nat n)"
    and "cm_templateType m = open_card \<longleftrightarrow> 0 < n \<and> ce_status (ci_event input) \<in> {LIVE, JUDGING}"
    and "cm_templateType m = winners_card \<longleftrightarrow> 0 < n \<and> ce_status (ci_event input) = COMPLETED"
    and "\<not> cm_hasVerifiableMoney m0 \<and> cm_prizeAmount m0 = js ''0'' \<and> cm_templateType m0 = generic_card"
proof -
  have "ee_reward ev = int_text n"
    using assms(1,2) by (auto simp: escrow_of_def toReward_def simp del: js_Cons split: sum.splits)
  then have r: "reward_of (ci_reward input) = n" "ci_reward input \<noteq> None"
    using assms(3) reward_of_int_text by simp_all
  show money: "cm_hasVerifiableMoney m \<longleftrightarrow> 0 < n"
    using build_Inr(1) [OF assms(4)] r by simp
  show "0 < n \<Longrightarrow> parseUsdcAmount (cm_prizeAmount m) = Some (nat n)"
    using build_Inr(2) [OF assms(4)] r money format_pos by simp
  show "cm_templateType m = open_card \<longleftrightarrow> 0 < n \<and> ce_status (ci_event input) \<in> {LIVE, JUDGING}"
    "cm_templateType m = winners_card \<longleftrightarrow> 0 < n \<and> ce_status (ci_event input) = COMPLETED"
    using build_Inr(3) [OF assms(4)] money by (auto simp: template_of_def)
  show "\<not> cm_hasVerifiableMoney m0 \<and> cm_prizeAmount m0 = js ''0'' \<and> cm_templateType m0 = generic_card"
    using build_Inr(1-3) [OF assms(5)] by (simp add: template_of_def)
qed

lemma push_winners_filter:
  "push_winners h asset event ps =
     map (\<lambda>p. winner_of h asset p (the (winner_team event p)))
       (filter (\<lambda>p. winner_team event p \<noteq> None) ps)"
  by (induction ps) (auto split: option.split)

lemma length_trimEnd: "length (trimEnd s) \<le> length s"
  unfolding trimEnd_def by (metis length_dropWhile_le length_rev)

lemma truncateText_length: "length (truncateText s n) \<le> max 1 n"
proof (cases "s = [] \<or> length s \<le> n")
  case True
  then show ?thesis by (auto simp: truncateText_def)
next
  case False
  then show ?thesis
    using length_trimEnd [of "take (n - 1) s"] by (auto simp: truncateText_def)
qed

lemma card_winners_exact_facts:
  assumes "buildEventCardModel h input = Inr m"
  shows "cm_winners m =
      map (\<lambda>p. winner_of h (cm_prizeAsset m) p (the (winner_team (ci_event input) p)))
        (filter (\<lambda>p. winner_team (ci_event input) p \<noteq> None)
          (sort_key cp_rank (ce_prizes (ci_event input))))"
    and "sorted (map cx_rank (cm_winners m))"
    and "x \<in> set (cm_winners m) \<Longrightarrow> length (cx_teamName x) \<le> 28"
proof -
  show w: "cm_winners m =
      map (\<lambda>p. winner_of h (cm_prizeAsset m) p (the (winner_team (ci_event input) p)))
        (filter (\<lambda>p. winner_team (ci_event input) p \<noteq> None)
          (sort_key cp_rank (ce_prizes (ci_event input))))"
    using build_Inr(4) [OF assms] by (simp add: push_winners_filter)
  have "map cx_rank (cm_winners m)
      = map cp_rank (filter (\<lambda>p. winner_team (ci_event input) p \<noteq> None)
          (sort_key cp_rank (ce_prizes (ci_event input))))"
    by (simp add: w winner_of_def)
  then show "sorted (map cx_rank (cm_winners m))"
    using sorted_filter [of cp_rank "sort_key cp_rank (ce_prizes (ci_event input))"] by simp
  show "x \<in> set (cm_winners m) \<Longrightarrow> length (cx_teamName x) \<le> 28"
    using truncateText_length [of _ 28] by (auto simp: w winner_of_def)
qed

lemma truncation_bounds_facts:
  shows "length (truncateText s n) \<le> max 1 n"
    and "length s \<le> n \<Longrightarrow> truncateText s n = s"
    and "n < length s \<Longrightarrow> \<exists>t. truncateText s n = t @ [ellipsis] \<and> prefix t s"
    and "length s \<le> a + b \<Longrightarrow> truncateHash s a b = s"
    and "a + b < length s \<Longrightarrow> 0 < b \<Longrightarrow>
      \<exists>p q. truncateHash s a b = p @ [ellipsis] @ q \<and> prefix p s \<and> suffix q s \<and> length p = a \<and> length q = b"
proof -
  show "length (truncateText s n) \<le> max 1 n" by (rule truncateText_length)
  show "length s \<le> n \<Longrightarrow> truncateText s n = s" by (simp add: truncateText_def)
  have "prefix (trimEnd (take (n - 1) s)) s"
    unfolding trimEnd_def by (metis dropWhile_rev_snoc_prefix prefix_order.trans take_is_prefix)
  then show "n < length s \<Longrightarrow> \<exists>t. truncateText s n = t @ [ellipsis] \<and> prefix t s"
    by (auto simp: truncateText_def)
  show "length s \<le> a + b \<Longrightarrow> truncateHash s a b = s" by (simp add: truncateHash_def)
  assume "a + b < length s" "0 < b"
  then have "truncateHash s a b = take a s @ [ellipsis] @ drop (length s - b) s"
    by (auto simp: truncateHash_def slice_last_def)
  moreover have "length (take a s) = a" "length (drop (length s - b) s) = b"
    using \<open>a + b < length s\<close> by auto
  ultimately show "\<exists>p q. truncateHash s a b = p @ [ellipsis] @ q \<and> prefix p s \<and> suffix q s \<and> length p = a \<and> length q = b"
    using take_is_prefix suffix_drop by blast
qed

text \<open>The money on a card is the contract's. If the value \<open>get_event\<close> gave has the reward \<open>n\<close> as a
  bigint and a card is built from what \<open>readEscrowEvent\<close> makes of it, then the card claims verifiable
  money exactly when \<open>n\<close> is positive, the amount it prints is one \<open>parseUsdcAmount\<close> reads back as
  exactly \<open>n\<close>, and it is an open-call or a winners card only then and only in LIVE or JUDGING, or
  COMPLETED. Built without an escrow, the same card claims nothing, prints 0 and is generic.\<close>

theorem card_money_is_on_chain:
  assumes "escrow_of sb ms = Inr ev" and "native_member ms (js ''reward'') = NBig n"
    and "ci_reward input = Some (Some (ee_reward ev))"
    and "buildEventCardModel h input = Inr m"
    and "buildEventCardModel h (input\<lparr>ci_reward := None\<rparr>) = Inr m0"
  shows "(cm_hasVerifiableMoney m \<longleftrightarrow> 0 < n) \<and>
    (0 < n \<longrightarrow> parseUsdcAmount (cm_prizeAmount m) = Some (nat n)) \<and>
    (cm_templateType m = open_card \<longleftrightarrow> 0 < n \<and> ce_status (ci_event input) \<in> {LIVE, JUDGING}) \<and>
    (cm_templateType m = winners_card \<longleftrightarrow> 0 < n \<and> ce_status (ci_event input) = COMPLETED) \<and>
    \<not> cm_hasVerifiableMoney m0 \<and> cm_prizeAmount m0 = js ''0'' \<and> cm_templateType m0 = generic_card"
  by (intro conjI impI card_money_is_on_chain_facts [OF assms]
      card_money_is_on_chain_facts(5) [OF assms, THEN conjunct1]
      card_money_is_on_chain_facts(5) [OF assms, THEN conjunct2, THEN conjunct1]
      card_money_is_on_chain_facts(5) [OF assms, THEN conjunct2, THEN conjunct2])

definition test_card_host :: card_host where
  "test_card_host = \<lparr>date_parse = (\<lambda>_. None), iso_text = (\<lambda>_. []), intl_date = (\<lambda>_ _. None), card_lower = id\<rparr>"

definition test_card_event :: card_event where
  "test_card_event = \<lparr>ce_id = [], ce_name = [], ce_status = COMPLETED, ce_organizer = [], ce_judges = [],
     ce_teams = [\<lparr>ct_id = js ''t'', ct_name = js ''T'', ct_members = []\<rparr>],
     ce_prizes = [\<lparr>cp_rank = 2, cp_amount = js ''1'', cp_winnerTeamId = Some (js ''t''), cp_releaseTxHash = None\<rparr>,
       \<lparr>cp_rank = 1, cp_amount = js ''5'', cp_winnerTeamId = Some (js ''t''), cp_releaseTxHash = None\<rparr>],
     ce_judgingDeadlineAt = None, ce_registrationClosesAt = None\<rparr>"

definition test_card_input :: "jstring option option \<Rightarrow> BuildCardModelInput" where
  "test_card_input r = \<lparr>ci_event = test_card_event, ci_reward = r, ci_locale = None, ci_assetSymbol = None,
     ci_now = 0\<rparr>"

definition test_native :: "(jstring \<times> native) list" where
  "test_native = [(js ''reward'', NBig 60000000), (js ''state'', NBig 3), (js ''token'', NStr (js ''CA'')),
     (js ''admin'', NStr (js ''GA'')), (js ''judge'', NStr (js ''GB''))]"

definition test_soroban :: soroban where
  "test_soroban = \<lparr>rpc_url = None, contract_id = [], network_passphrase = [],
     simulate = (\<lambda>_ _ _ _ _. return_value SimRestore), number_out = (\<lambda>_. []), big_number = (\<lambda>_. NaN)\<rparr>"

lemma test_card_builds: "\<exists>m. buildEventCardModel test_card_host (test_card_input r) = Inr m"
  by (simp add: buildEventCardModel_def test_card_input_def test_card_event_def iso_or_null_def Let_def)

lemma test_escrow_of:
  "\<exists>ev. escrow_of test_soroban test_native = Inr ev"
  "native_member test_native (js ''reward'') = NBig 60000000"
  by (simp_all add: escrow_of_def test_native_def native_member_def toReward_def toState_def toAddress_def
      Let_def)

theorem card_money_is_on_chain_witness:
  "\<exists>r m. buildEventCardModel test_card_host (test_card_input (Some (Some r))) = Inr m \<and>
     parseUsdcAmount (cm_prizeAmount m) = Some 60000000 \<and> cm_templateType m = winners_card"
proof -
  obtain ev where ev: "escrow_of test_soroban test_native = Inr ev" using test_escrow_of(1) by blast
  let ?in = "test_card_input (Some (Some (ee_reward ev)))"
  obtain m where m: "buildEventCardModel test_card_host ?in = Inr m"
    using test_card_builds by blast
  obtain m0 where m0: "buildEventCardModel test_card_host (?in\<lparr>ci_reward := None\<rparr>) = Inr m0"
    using test_card_builds [of None] by (auto simp: test_card_input_def)
  have "ci_reward ?in = Some (Some (ee_reward ev))" "ce_status (ci_event ?in) = COMPLETED"
    by (simp_all add: test_card_input_def test_card_event_def)
  with card_money_is_on_chain [OF ev test_escrow_of(2) _ m m0] m show ?thesis by auto
qed

text \<open>The winners on a card are the prizes' winners: every prize whose winner is one of the event's
  teams appears once, in the order of the ranks, with the team's members, the prize's amount and the
  hash of its release, and no other entry appears; a team's name takes at most 28 characters.\<close>

theorem card_winners_exact:
  assumes "buildEventCardModel h input = Inr m"
  shows "cm_winners m =
      map (\<lambda>p. winner_of h (cm_prizeAsset m) p (the (winner_team (ci_event input) p)))
        (filter (\<lambda>p. winner_team (ci_event input) p \<noteq> None)
          (sort_key cp_rank (ce_prizes (ci_event input)))) \<and>
    sorted (map cx_rank (cm_winners m)) \<and>
    (\<forall>x\<in>set (cm_winners m). length (cx_teamName x) \<le> 28)"
  using card_winners_exact_facts [OF assms] by (intro conjI ballI)

theorem card_winners_exact_witness:
  "\<exists>m. buildEventCardModel test_card_host (test_card_input None) = Inr m \<and>
     map cx_amount (cm_winners m) = [js ''5'', js ''1'']"
proof -
  obtain m where m: "buildEventCardModel test_card_host (test_card_input None) = Inr m"
    using test_card_builds by blast
  have "map cx_amount (cm_winners m) = [js ''5'', js ''1'']"
    unfolding card_winners_exact [OF m, THEN conjunct1]
    by (simp add: test_card_input_def test_card_event_def winner_team_def winner_of_def)
  with m show ?thesis by (intro exI conjI)
qed

text \<open>A cut text fits, and is not cut when it already does. \<open>truncateText\<close> answers a text that fits
  unchanged and else a prefix of it and an ellipsis, in at most the given length (the ellipsis alone
  when that is 0); \<open>truncateHash\<close> with a tail answers a text that fits unchanged and else its first
  and last characters around an ellipsis, one more than they are together.\<close>

theorem truncation_bounds:
  "length (truncateText s n) \<le> max 1 n \<and>
   (length s \<le> n \<longrightarrow> truncateText s n = s) \<and>
   (n < length s \<longrightarrow> (\<exists>t. truncateText s n = t @ [ellipsis] \<and> prefix t s)) \<and>
   (length s \<le> a + b \<longrightarrow> truncateHash s a b = s) \<and>
   (a + b < length s \<and> 0 < b \<longrightarrow>
      (\<exists>p q. truncateHash s a b = p @ [ellipsis] @ q \<and> prefix p s \<and> suffix q s \<and> length p = a \<and> length q = b))"
proof (intro conjI impI)
  show "length (truncateText s n) \<le> max 1 n" by (rule truncation_bounds_facts)
  show "truncateText s n = s" if "length s \<le> n" using that by (rule truncation_bounds_facts)
  show "\<exists>t. truncateText s n = t @ [ellipsis] \<and> prefix t s" if "n < length s"
    using that by (rule truncation_bounds_facts)
  show "truncateHash s a b = s" if "length s \<le> a + b" using that by (rule truncation_bounds_facts)
  show "\<exists>p q. truncateHash s a b = p @ [ellipsis] @ q \<and> prefix p s \<and> suffix q s \<and> length p = a \<and> length q = b"
    if "a + b < length s \<and> 0 < b"
    using that [THEN conjunct1] that [THEN conjunct2] by (rule truncation_bounds_facts)
qed

theorem truncation_bounds_witness:
  "truncateText (js ''abc'') 2 = [97, ellipsis] \<and> length (truncateText (js ''abc'') 2) \<le> 2 \<and>
   truncateHash (js ''abc'') 2 1 = js ''abc''"
  using truncation_bounds [of "js ''abc''" 2 2 1]
  by (simp add: truncateText_def trimEnd_def js_space_def)

end
