(* ===== verification/Earnings.thy ===== *)
theory Earnings
  imports Auth Core_Go "HOL-Library.Multiset"
begin

text \<open>
  A participant's confirmed payouts: \<open>lib/earnings/query.ts\<close>, \<open>summary.ts\<close> and \<open>types.ts\<close>. The
  payouts table extends the world. Amounts are doubles: \<open>double\<close> rounds a rational to the nearest
  one, and sums and quotients are rounded as JavaScript rounds them. The record \<open>earn_host\<close> also
  holds how the host prints whole amounts (\<open>whole_text\<close>), dates (\<open>date_iso\<close>, and \<open>None\<close> of
  \<open>short_date\<close>'s argument for an invalid one), reads them (\<open>read_date\<close>) and lowers letters.
\<close>

section \<open>The table\<close>

record payout_row =
  po_id :: jstring
  po_prizeId :: jstring
  po_teamMemberId :: jstring
  po_txHash :: jstring
  po_amount :: nat
  po_confirmedAt :: int

record pay_world = world +
  payouts :: "payout_row list"

record earn_host =
  DATABASE_URL :: "jstring option"
  double :: "rat \<Rightarrow> rat"
  whole_text :: "rat \<Rightarrow> jstring"
  date_iso :: "int \<Rightarrow> jstring"
  read_date :: "jstring \<Rightarrow> int option"
  short_date :: "int \<Rightarrow> jstring"
  lower_text :: "jstring \<Rightarrow> jstring"

section \<open>types.ts\<close>

record EarningsItem =
  ei_id :: jstring
  ei_eventId :: jstring
  ei_eventName :: jstring
  ei_prizeRank :: nat
  ei_amountUsdc :: jstring
  ei_amountUsdcNum :: rat
  ei_txHash :: jstring
  ei_confirmedAt :: jstring
  ei_network :: jstring

record EarningsSummary =
  es_totalUsdc :: jstring
  es_totalUsdcNum :: rat
  es_totalPrizesCount :: nat
  es_totalEventsCount :: nat
  es_averageUsdc :: jstring
  es_latestPayoutDate :: "jstring option"

datatype EarningsSortOption = date_desc | date_asc | amount_desc | amount_asc

record EarningsFilter =
  ef_searchQuery :: jstring
  ef_sortBy :: EarningsSortOption

section \<open>query.ts\<close>

definition MAX_WALLET_REF_LENGTH :: nat where
  "MAX_WALLET_REF_LENGTH = 128"

definition isValidWalletRef :: "jstring option \<Rightarrow> bool" where
  "isValidWalletRef v =
     (case v of
        None \<Rightarrow> False
      | Some s \<Rightarrow> 0 < length (trim s) \<and> length s \<le> MAX_WALLET_REF_LENGTH)"

text \<open>A payout's member, with the wallet the member is.\<close>

definition paid_member :: "('a world_scheme) \<Rightarrow> payout_row \<Rightarrow> (member_row \<times> wallet_row option) option" where
  "paid_member w p =
     map_option (\<lambda>m. (m, find_unique (\<lambda>r. w_id r = m_walletId m) (wallets w)))
       (find_unique (\<lambda>m. m_id m = po_teamMemberId p) (members w))"

definition is_payout_of :: "jstring \<Rightarrow> ('a world_scheme) \<Rightarrow> payout_row \<Rightarrow> bool" where
  "is_payout_of ref w p =
     (case paid_member w p of
        None \<Rightarrow> False
      | Some (m, r) \<Rightarrow> m_walletId m = uuid_key ref \<or> map_option w_address r = Some ref)"

text \<open>The payouts with their prizes and events, newest first; the comparison of \<open>walletId\<close> with a text
  that is no UUID throws.\<close>

definition found_payouts ::
    "jstring \<Rightarrow> pay_world \<Rightarrow> (payout_row \<times> prize_row option \<times> event_row option) list" where
  "found_payouts ref w =
     map (\<lambda>p. let prize = find_unique (\<lambda>r. p_id r = po_prizeId p) (prizes w)
              in (p, prize, Option.bind prize (\<lambda>r. find_unique (\<lambda>e. e_id e = p_eventId r) (events w))))
       (sort_key (\<lambda>p. - po_confirmedAt p) (filter (is_payout_of ref w) (payouts w)))"

definition payout_findMany ::
    "jstring \<Rightarrow> (pay_world, (payout_row \<times> prize_row option \<times> event_row option) list) action" where
  "payout_findMany ref = select_by_uuid ref (found_payouts ref)"

definition decimal_number :: "earn_host \<Rightarrow> nat \<Rightarrow> rat" where
  "decimal_number eh n = double eh (of_nat n / 10 ^ 7)"

definition null_prize :: exn where
  "null_prize = PlainError (js ''Cannot read properties of null'')"

definition earnings_item ::
    "earn_host \<Rightarrow> payout_row \<times> prize_row option \<times> event_row option \<Rightarrow> exn + EarningsItem" where
  "earnings_item eh x =
     (case x of (p, prize, event) \<Rightarrow>
        (case prize of
           None \<Rightarrow> Inl null_prize
         | Some r \<Rightarrow>
             let amount = decimal_number eh (po_amount p) in
             Inr \<lparr>ei_id = po_id p, ei_eventId = p_eventId r,
                  ei_eventName = (case event of None \<Rightarrow> js ''Astrea Competition'' | Some e \<Rightarrow> e_name e),
                  ei_prizeRank = p_rank r, ei_amountUsdc = whole_text eh amount, ei_amountUsdcNum = amount,
                  ei_txHash = po_txHash p, ei_confirmedAt = date_iso eh (po_confirmedAt p),
                  ei_network = js ''testnet''\<rparr>))"

fun map_items :: "('x \<Rightarrow> exn + 'y) \<Rightarrow> 'x list \<Rightarrow> exn + 'y list" where
  "map_items f [] = Inr []"
| "map_items f (x # xs) =
     (case f x of
        Inl e \<Rightarrow> Inl e
      | Inr y \<Rightarrow> (case map_items f xs of Inl e \<Rightarrow> Inl e | Inr ys \<Rightarrow> Inr (y # ys)))"

definition getParticipantEarnings ::
    "earn_host \<Rightarrow> jstring option \<Rightarrow> (pay_world, EarningsItem list) action" where
  "getParticipantEarnings eh walletIdOrAddress =
     (if \<not> isValidWalletRef walletIdOrAddress \<or> \<not> present (DATABASE_URL eh) then return_value []
      else
        try_catch
          (await (payout_findMany (the walletIdOrAddress)) (\<lambda>ps.
           if ps = [] then return_value []
           else lift_result (map_items (earnings_item eh) ps)))
          (\<lambda>err. return_value []))"

definition sample_item :: "string \<Rightarrow> string \<Rightarrow> string \<Rightarrow> nat \<Rightarrow> string \<Rightarrow> nat \<Rightarrow> string \<Rightarrow> string \<Rightarrow> EarningsItem" where
  "sample_item i eventId name rank amount num hash at_time =
     \<lparr>ei_id = js i, ei_eventId = js eventId, ei_eventName = js name, ei_prizeRank = rank,
      ei_amountUsdc = js amount, ei_amountUsdcNum = of_nat num, ei_txHash = js hash,
      ei_confirmedAt = js at_time, ei_network = js ''testnet''\<rparr>"

definition getSampleEarnings :: "jstring \<Rightarrow> EarningsItem list" where
  "getSampleEarnings walletAddress =
     [sample_item ''pay_soroban_defi_1st_place'' ''evt-soroban-hackathon-2026''
        ''Soroban DeFi & Smart Contracts Hackathon'' 1 ''5,000'' 5000
        ''a1b2c3d4e5f67890123456789abcdef0123456789abcdef0123456789abcdef0'' ''2026-08-28T14:32:00Z'',
      sample_item ''pay_scf_infrastructure_bounty'' ''evt-stellar-community-fund-sprint''
        ''SCF Community Infrastructure Sprint #45'' 1 ''3,000'' 3000
        ''8f7e6d5c4b3a2109876543210fedcba9876543210fedcba9876543210fedcba9'' ''2026-08-15T18:45:00Z'',
      sample_item ''pay_meridian_fast_payments_2nd'' ''evt-meridian-micropayments-bounty''
        ''Meridian Fast Micropayments Track'' 2 ''2,500'' 2500
        ''4c5d6e7f8a9b0123456789abcdef0123456789abcdef0123456789abcdef0123'' ''2026-07-20T10:15:00Z'',
      sample_item ''pay_latam_anchor_track_winner'' ''evt-latam-cross-border-challenge''
        ''LATAM Anchor Cross-Border Settlement Challenge'' 3 ''1,500'' 1500
        ''3b2a109876543210fedcba9876543210fedcba9876543210fedcba9876543210'' ''2026-06-30T16:20:00Z'']"

section \<open>summary.ts\<close>

text \<open>The loop's state: the total, the events seen, the latest time and its text.\<close>

fun summary_loop ::
    "earn_host \<Rightarrow> EarningsItem list \<Rightarrow> rat \<Rightarrow> jstring list \<Rightarrow> int \<Rightarrow> jstring option \<Rightarrow>
     rat \<times> jstring list \<times> jstring option" where
  "summary_loop eh [] totalNum seen latestTime latest = (totalNum, seen, latest)"
| "summary_loop eh (i # items) totalNum seen latestTime latest =
     (let totalNum' = double eh (totalNum + ei_amountUsdcNum i);
          seen' = List.insert (ei_eventId i) seen
      in case read_date eh (ei_confirmedAt i) of
           Some t \<Rightarrow>
             if t > latestTime then summary_loop eh items totalNum' seen' t (Some (ei_confirmedAt i))
             else summary_loop eh items totalNum' seen' latestTime latest
         | None \<Rightarrow> summary_loop eh items totalNum' seen' latestTime latest)"

definition calculateEarningsSummary :: "earn_host \<Rightarrow> EarningsItem list \<Rightarrow> EarningsSummary" where
  "calculateEarningsSummary eh items =
     (if items = [] then
        \<lparr>es_totalUsdc = js ''0'', es_totalUsdcNum = 0, es_totalPrizesCount = 0, es_totalEventsCount = 0,
         es_averageUsdc = js ''0'', es_latestPayoutDate = None\<rparr>
      else
        (case summary_loop eh items 0 [] 0 None of (totalNum, seen, latest) \<Rightarrow>
           \<lparr>es_totalUsdc = whole_text eh totalNum, es_totalUsdcNum = totalNum,
            es_totalPrizesCount = length items, es_totalEventsCount = length seen,
            es_averageUsdc = whole_text eh (double eh (totalNum / of_nat (length items))),
            es_latestPayoutDate = latest\<rparr>))"

fun text_includes :: "jstring \<Rightarrow> jstring \<Rightarrow> bool" where
  "text_includes [] q = (q = [])"
| "text_includes (c # s) q = (take (length q) (c # s) = q \<or> text_includes s q)"

definition matches_query :: "earn_host \<Rightarrow> jstring \<Rightarrow> EarningsItem \<Rightarrow> bool" where
  "matches_query eh q item =
     (text_includes (lower_text eh (ei_eventName item)) q \<or> text_includes (lower_text eh (ei_txHash item)) q \<or>
      text_includes (lower_text eh (ei_amountUsdc item)) q)"

text \<open>\<open>Array.prototype.sort\<close> is stable. With a date that is no time the comparator answers NaN and the
  order is unspecified: that is \<open>None\<close>.\<close>

definition by_date :: "earn_host \<Rightarrow> int \<Rightarrow> EarningsItem list \<Rightarrow> EarningsItem list option" where
  "by_date eh sign items =
     (if list_all (\<lambda>i. read_date eh (ei_confirmedAt i) \<noteq> None) items
      then Some (sort_key (\<lambda>i. sign * the (read_date eh (ei_confirmedAt i))) items) else None)"

definition filterAndSortEarnings ::
    "earn_host \<Rightarrow> EarningsItem list \<Rightarrow> EarningsFilter \<Rightarrow> EarningsItem list option" where
  "filterAndSortEarnings eh items flt =
     (let result = (if trim (ef_searchQuery flt) \<noteq> []
                    then filter (matches_query eh (trim (lower_text eh (ef_searchQuery flt)))) items
                    else items)
      in case ef_sortBy flt of
           date_asc \<Rightarrow> by_date eh 1 result
         | amount_desc \<Rightarrow> Some (sort_key (\<lambda>i. - ei_amountUsdcNum i) result)
         | amount_asc \<Rightarrow> Some (sort_key ei_amountUsdcNum result)
         | date_desc \<Rightarrow> by_date eh (- 1) result)"

definition formatPayoutDate :: "earn_host \<Rightarrow> jstring \<Rightarrow> jstring" where
  "formatPayoutDate eh isoDate =
     (case read_date eh isoDate of None \<Rightarrow> js ''TBD'' | Some t \<Rightarrow> short_date eh t)"


section \<open>Properties\<close>

lemma map_items_Inr: "map_items f xs = Inr ys \<Longrightarrow> list_all2 (\<lambda>x y. f x = Inr y) xs ys"
  by (induction f xs arbitrary: ys rule: map_items.induct) (auto split: sum.splits)

text \<open>The row of a payout's prize, and what an item says of its payout.\<close>

definition prize_of_payout :: "pay_world \<Rightarrow> payout_row \<Rightarrow> prize_row option" where
  "prize_of_payout w p = find_unique (\<lambda>r. p_id r = po_prizeId p) (prizes w)"

definition item_of_payout :: "earn_host \<Rightarrow> pay_world \<Rightarrow> payout_row \<Rightarrow> EarningsItem \<Rightarrow> bool" where
  "item_of_payout eh w p i \<longleftrightarrow>
     ei_id i = po_id p \<and> ei_txHash i = po_txHash p \<and>
     ei_amountUsdcNum i = double eh (of_nat (po_amount p) / 10 ^ 7) \<and>
     ei_amountUsdc i = whole_text eh (double eh (of_nat (po_amount p) / 10 ^ 7)) \<and>
     ei_confirmedAt i = date_iso eh (po_confirmedAt p) \<and>
     (\<exists>r. prize_of_payout w p = Some r \<and> ei_eventId i = p_eventId r \<and> ei_prizeRank i = p_rank r)"

lemma map_items_fails: "map_items f xs = Inl e \<Longrightarrow> \<exists>x\<in>set xs. \<exists>e. f x = Inl e"
  by (induction f xs rule: map_items.induct) (auto split: sum.splits)

lemma found_payouts_own: "(p, x) \<in> set (found_payouts ref w) \<Longrightarrow> p \<in> set (payouts w) \<and> is_payout_of ref w p"
  by (auto simp: found_payouts_def Let_def)

lemma found_payouts_faults: "found_payouts s (w\<lparr>faults := fs\<rparr>) = found_payouts s w"
proof -
  have "is_payout_of s (w\<lparr>faults := fs\<rparr>) = is_payout_of s w"
    by (simp add: is_payout_of_def paid_member_def fun_eq_iff)
  then show ?thesis by (simp add: found_payouts_def)
qed

lemma found_items:
  assumes "map_items (earnings_item eh) (found_payouts ref w) = Inr items"
  shows "list_all2 (item_of_payout eh w) (map fst (found_payouts ref w)) items"
  unfolding list_all2_map1
proof (rule list.rel_mono_strong [OF map_items_Inr [OF assms]])
  fix x i assume "x \<in> set (found_payouts ref w)" "earnings_item eh x = Inr i"
  then show "item_of_payout eh w (fst x) i"
    by (auto simp: found_payouts_def item_of_payout_def prize_of_payout_def earnings_item_def decimal_number_def Let_def
        split: option.splits)
qed

lemma found_fails:
  assumes "map_items (earnings_item eh) (found_payouts ref w) = Inl e"
  shows "\<exists>p\<in>set (payouts w). is_payout_of ref w p \<and> prize_of_payout w p = None"
  using map_items_fails [OF assms]
  by (auto simp: found_payouts_def prize_of_payout_def earnings_item_def Let_def split: option.splits)

lemma select_by_uuid_fails:
  "select_by_uuid i f w = (Inl e, w') \<Longrightarrow> isUuid i \<Longrightarrow> faults w \<noteq> []"
  by (cases "faults w") (auto simp: select_by_uuid_def)

text \<open>When nothing is listed although payouts may be there.\<close>

lemma getParticipantEarnings_runs:
  assumes "getParticipantEarnings eh ref w = (r, w')"
  shows "\<exists>items fs. r = Inr items \<and> w' = w\<lparr>faults := fs\<rparr> \<and>
    (case ref of
       None \<Rightarrow> items = []
     | Some s \<Rightarrow>
         if trim s = [] \<or> 128 < length s \<or> \<not> isUuid s \<or> \<not> present (DATABASE_URL eh) then items = []
         else items = [] \<and> (faults w \<noteq> [] \<or> (\<exists>p\<in>set (payouts w). is_payout_of s w p \<and> prize_of_payout w p = None)) \<or>
           map_items (earnings_item eh) (found_payouts s w) = Inr items)"
proof (cases "isValidWalletRef ref \<and> present (DATABASE_URL eh)")
  case False
  then have "r = Inr []" "w' = w\<lparr>faults := faults w\<rparr>"
    using assms by (auto simp: getParticipantEarnings_def)
  moreover have "trim s = [] \<or> 128 < length s \<or> \<not> present (DATABASE_URL eh)" if "ref = Some s" for s
    using False that by (auto simp: isValidWalletRef_def MAX_WALLET_REF_LENGTH_def)
  ultimately show ?thesis
    by (intro exI [of _ "[]"] exI [of _ "faults w"]) (auto split: option.split)
next
  case True
  then obtain s where s: "ref = Some s" "trim s \<noteq> []" "length s \<le> 128"
    by (auto simp: isValidWalletRef_def MAX_WALLET_REF_LENGTH_def split: option.splits)
  obtain q v where q: "select_by_uuid s (found_payouts s) w = (q, v)" by fastforce
  obtain fs where fs: "v = w\<lparr>faults := fs\<rparr>" and found: "\<forall>x. q = Inr x \<longrightarrow> isUuid s \<and> x = found_payouts s v"
    using q by (cases rule: select_by_uuidE) blast
  have v: "isUuid s" "x = found_payouts s w" if "q = Inr x" for x
    using found that unfolding fs found_payouts_faults by blast+
  have run: "getParticipantEarnings eh ref w =
      (case q of Inl _ \<Rightarrow> Inr []
       | Inr ps \<Rightarrow> if ps = [] then Inr [] else (case map_items (earnings_item eh) ps of Inl _ \<Rightarrow> Inr [] | Inr is \<Rightarrow> Inr is), v)"
    using True s(1) q
    by (auto simp: getParticipantEarnings_def payout_findMany_def await_def try_catch_def split: sum.split)
  show ?thesis
  proof (cases q)
    case (Inl e)
    then have "r = Inr []" "w' = v" using run assms by simp_all
    moreover have "\<not> isUuid s \<or> faults w \<noteq> []" using select_by_uuid_fails q Inl by blast
    ultimately show ?thesis using s fs by (intro exI [of _ "[]"] exI [of _ fs]) auto
  next
    case (Inr x)
    note x = v [OF Inr]
    show ?thesis
    proof (cases "map_items (earnings_item eh) (found_payouts s w)")
      case (Inr items)
      then have "r = Inr items" "w' = v"
        using run assms \<open>q = Inr x\<close> x(2) by (cases "found_payouts s w = []"; simp)+
      then show ?thesis using Inr s fs x(1) True by (intro exI [of _ items] exI [of _ fs]) simp
    next
      case (Inl e)
      then have "r = Inr []" "w' = v"
        using run assms \<open>q = Inr x\<close> x(2) by (cases "found_payouts s w = []"; simp)+
      then show ?thesis
        using found_fails [OF Inl] s fs x(1) True by (intro exI [of _ "[]"] exI [of _ fs]) simp
    qed
  qed
qed

lemma map_fst_found:
  "map fst (found_payouts ref w) = sort_key (\<lambda>p. - po_confirmedAt p) (filter (is_payout_of ref w) (payouts w))"
  by (simp add: found_payouts_def Let_def comp_def)

text \<open>C39: A wallet sees its own payouts, all of them and nothing else. Under any database failure the query
  answers and throws nothing, and changes no row. For a reference that is missing, blank, longer than 128,
  or no UUID (an account address among them), or without a database, it lists nothing. Otherwise it
  lists exactly the payouts of team members with that wallet id (or, were a wallet's address such an id,
  that address), each once and newest first, every item with its payout's own id, transaction hash,
  amount, as a number and as text, and time, and with the event and the rank of its prize. Then too
  the list is empty instead only if the database failed, or one of those payouts has no prize row.\<close>

theorem earnings_are_own:
  assumes "getParticipantEarnings eh ref w = (r, w')"
  shows "\<exists>items fs. r = Inr items \<and> w' = w\<lparr>faults := fs\<rparr> \<and>
    (case ref of
       None \<Rightarrow> items = []
     | Some s \<Rightarrow>
         if trim s = [] \<or> 128 < length s \<or> \<not> isUuid s \<or> \<not> present (DATABASE_URL eh) then items = []
         else
           items = [] \<and> (faults w \<noteq> [] \<or> (\<exists>p\<in>set (payouts w). is_payout_of s w p \<and> prize_of_payout w p = None)) \<or>
           (\<exists>ps. mset ps = mset (filter (is_payout_of s w) (payouts w)) \<and>
              sorted_wrt (\<lambda>p q. po_confirmedAt q \<le> po_confirmedAt p) ps \<and>
              list_all2 (\<lambda>p i. ei_id i = po_id p \<and> ei_txHash i = po_txHash p \<and>
                ei_amountUsdcNum i = double eh (of_nat (po_amount p) / 10 ^ 7) \<and>
                ei_amountUsdc i = whole_text eh (double eh (of_nat (po_amount p) / 10 ^ 7)) \<and>
                ei_confirmedAt i = date_iso eh (po_confirmedAt p) \<and>
                (\<exists>r. prize_of_payout w p = Some r \<and> ei_eventId i = p_eventId r \<and> ei_prizeRank i = p_rank r)) ps items))"
proof -
  have "\<exists>ps. mset ps = mset (filter (is_payout_of s w) (payouts w)) \<and>
       sorted_wrt (\<lambda>p q. po_confirmedAt q \<le> po_confirmedAt p) ps \<and> list_all2 (item_of_payout eh w) ps items"
    if m: "map_items (earnings_item eh) (found_payouts s w) = Inr items" for s items
  proof -
    let ?ps = "map fst (found_payouts s w)"
    have "sorted (map (\<lambda>p. - po_confirmedAt p) ?ps)"
      unfolding map_fst_found by (rule sorted_sort_key)
    then have "sorted_wrt (\<lambda>p q. po_confirmedAt q \<le> po_confirmedAt p) ?ps"
      by (simp add: sorted_wrt_map)
    moreover have "mset ?ps = mset (filter (is_payout_of s w) (payouts w))"
      unfolding map_fst_found by (rule mset_sort)
    ultimately show ?thesis using found_items [OF m] by blast
  qed
  note listed = this [unfolded item_of_payout_def]
  obtain items fs where r: "r = Inr items" "w' = w\<lparr>faults := fs\<rparr>"
    and told: "case ref of
       None \<Rightarrow> items = []
     | Some s \<Rightarrow>
         if trim s = [] \<or> 128 < length s \<or> \<not> isUuid s \<or> \<not> present (DATABASE_URL eh) then items = []
         else items = [] \<and> (faults w \<noteq> [] \<or> (\<exists>p\<in>set (payouts w). is_payout_of s w p \<and> prize_of_payout w p = None)) \<or>
           map_items (earnings_item eh) (found_payouts s w) = Inr items"
    using getParticipantEarnings_runs [OF assms] by blast
  show ?thesis
    by (rule exI [of _ items], rule exI [of _ fs], intro conjI r)
      (use told listed in \<open>auto split: option.splits if_splits\<close>)
qed

definition test_earn_host :: earn_host where
  "test_earn_host = \<lparr>DATABASE_URL = Some (js ''db''), double = id, whole_text = (\<lambda>_. []), date_iso = (\<lambda>_. []),
     read_date = (\<lambda>_. None), short_date = (\<lambda>_. []), lower_text = id\<rparr>"

definition payee :: jstring where
  "payee = js ''00000000-0000-4000-8000-000000000001''"

lemma payee: "isUuid payee" "uuid_key payee = payee" "isValidWalletRef (Some payee)"
proof -
  show "isUuid payee" "uuid_key payee = payee" by code_simp+
  have "trim payee = payee"
    by (rule trim_all_nonspace) (simp add: payee_def js_space_def)
  then show "isValidWalletRef (Some payee)"
    by (simp add: isValidWalletRef_def MAX_WALLET_REF_LENGTH_def) (simp add: payee_def)
qed

definition payout_world :: pay_world where
  "payout_world = world.extend
     (empty_world\<lparr>prizes := [\<lparr>p_id = [1], p_eventId = [2], p_rank = 1, p_amount = 5, p_status = PAID_OUT,
        p_winnerTeamId = None, p_releaseTxHash = None, p_releasedAt = None\<rparr>],
      members := [\<lparr>m_id = [3], m_teamId = [4], m_eventId = [2],
        m_walletId = payee, m_shareBasisPoints = 10000, m_ordinal = 0\<rparr>]\<rparr>)
     (pay_world.fields [\<lparr>po_id = [9], po_prizeId = [1], po_teamMemberId = [3], po_txHash = [7], po_amount = 5,
        po_confirmedAt = 0\<rparr>])"

lemma payout_world_simps: "payouts payout_world = [\<lparr>po_id = [9], po_prizeId = [1], po_teamMemberId = [3],
      po_txHash = [7], po_amount = 5, po_confirmedAt = 0\<rparr>]"
  "faults payout_world = []" "wallets payout_world = []" "events payout_world = []"
  "prizes payout_world = [\<lparr>p_id = [1], p_eventId = [2], p_rank = 1, p_amount = 5, p_status = PAID_OUT,
        p_winnerTeamId = None, p_releaseTxHash = None, p_releasedAt = None\<rparr>]"
  "members payout_world = [\<lparr>m_id = [3], m_teamId = [4], m_eventId = [2], m_walletId = payee,
        m_shareBasisPoints = 10000, m_ordinal = 0\<rparr>]"
  by (simp_all add: payout_world_def pay_world.defs world.defs empty_world_def)

lemma payout_world_run: "\<exists>i. fst (getParticipantEarnings test_earn_host (Some payee) payout_world) = Inr [i]"
proof -
  have "\<exists>x. found_payouts payee payout_world = [x] \<and> (\<exists>i. earnings_item test_earn_host x = Inr i)"
    by (simp add: found_payouts_def payout_world_simps is_payout_of_def paid_member_def find_unique_def
        payee earnings_item_def Let_def)
  moreover have "present (DATABASE_URL test_earn_host)"
    by (simp add: present_def test_earn_host_def)
  ultimately show ?thesis
    using payee(1,3)
    by (auto simp: getParticipantEarnings_def payout_findMany_def select_by_uuid_def payout_world_simps
        await_def try_catch_def)
qed

theorem earnings_are_own_witness:
  "\<exists>i. fst (getParticipantEarnings test_earn_host (Some payee) payout_world) = Inr [i] \<and> ei_txHash i = [7] \<and>
     ei_amountUsdcNum i = 5 / 10 ^ 7"
proof -
  let ?w = payout_world and ?p = "hd (payouts payout_world)"
  obtain i where i: "fst (getParticipantEarnings test_earn_host (Some payee) ?w) = Inr [i]"
    using payout_world_run by blast
  obtain w' where run: "getParticipantEarnings test_earn_host (Some payee) ?w = (Inr [i], w')"
    using i by (metis prod.collapse)
  have "trim payee \<noteq> []" "length payee \<le> 128"
    using payee(3) by (auto simp: isValidWalletRef_def MAX_WALLET_REF_LENGTH_def)
  moreover have "present (DATABASE_URL test_earn_host)" by (simp add: present_def test_earn_host_def)
  ultimately obtain ps where ps: "mset ps = mset (filter (is_payout_of payee ?w) (payouts ?w))"
    and l: "list_all2 (\<lambda>p i. ei_txHash i = po_txHash p \<and>
      ei_amountUsdcNum i = double test_earn_host (of_nat (po_amount p) / 10 ^ 7)) ps [i]"
    using earnings_are_own [OF run] payee(1) by (auto simp: list_all2_Cons2)
  have "filter (is_payout_of payee ?w) (payouts ?w) = [?p]"
    by (simp add: payout_world_simps is_payout_of_def paid_member_def find_unique_def payee)
  then have "ps = [?p]" using ps by simp
  then show ?thesis using i l by (simp add: payout_world_simps test_earn_host_def)
qed

end
