(* ===== verification/Environment.thy ===== *)
theory Environment
  imports Escrow_Read Core_Go
begin

text \<open>
  What the deployment configures: \<open>lib/stellar-network.ts\<close>, \<open>lib/env.ts\<close> and \<open>lib/site-url.ts\<close>.
  \<open>process.env\<close> is a function from names to texts. The record \<open>env_host\<close> holds what the libraries
  decide: \<open>zod_url\<close> (\<open>z.url()\<close>: the value it gives, if it accepts), \<open>zod_message\<close> (the text of an issue zod words itself, for a path and
  its input) and the SDK's two network passphrases.
\<close>

type_synonym process_env = "jstring \<Rightarrow> jstring option"

record env_host =
  zod_url :: "jstring \<Rightarrow> jstring option"
  zod_message :: "jstring \<Rightarrow> jstring option \<Rightarrow> jstring"
  Networks_TESTNET :: jstring
  Networks_PUBLIC :: jstring

section \<open>stellar-network.ts\<close>

datatype StellarNetworkName = Testnet | Mainnet

definition STELLAR_CONTRACT_ID :: "jstring \<Rightarrow> bool" where
  "STELLAR_CONTRACT_ID s =
     (length s = 56 \<and> hd s = 67 \<and> list_all (\<lambda>c. is_upper c \<or> 50 \<le> c \<and> c \<le> 55) (tl s))"

definition STELLAR_NETWORK :: "process_env \<Rightarrow> StellarNetworkName" where
  "STELLAR_NETWORK pe =
     (if pe (js ''NEXT_PUBLIC_STELLAR_NETWORK'') = Some (js ''mainnet'') then Mainnet else Testnet)"

record network_config =
  nc_passphrase :: jstring
  nc_horizonUrl :: jstring
  nc_sorobanRpcUrl :: "jstring option"

definition NETWORK_CONFIG :: "env_host \<Rightarrow> StellarNetworkName \<Rightarrow> network_config" where
  "NETWORK_CONFIG h n =
     (case n of
        Testnet \<Rightarrow> \<lparr>nc_passphrase = Networks_TESTNET h,
                    nc_horizonUrl = js ''https://horizon-testnet.stellar.org'',
                    nc_sorobanRpcUrl = Some (js ''https://soroban-testnet.stellar.org'')\<rparr>
      | Mainnet \<Rightarrow> \<lparr>nc_passphrase = Networks_PUBLIC h, nc_horizonUrl = js ''https://horizon.stellar.org'',
                    nc_sorobanRpcUrl = None\<rparr>)"

section \<open>env.ts: the schema\<close>

record server_env =
  en_network :: StellarNetworkName
  en_allowMainnet :: bool
  en_escrowContractId :: jstring
  en_sorobanRpcUrlVar :: "jstring option"
  en_usdcIssuer :: jstring
  en_usdcSymbol :: jstring
  en_coreGoUrl :: "jstring option"
  en_coreGoToken :: "jstring option"
  en_githubClientId :: "jstring option"
  en_githubClientSecret :: "jstring option"
  en_networkPassphrase :: jstring
  en_horizonUrl :: jstring
  en_sorobanRpcUrl :: "jstring option"

text \<open>A field of the schema reads its variable; \<open>Inl\<close> is the issue's message.\<close>

definition enum_field :: "env_host \<Rightarrow> jstring \<Rightarrow> jstring list \<Rightarrow> jstring \<Rightarrow> jstring option \<Rightarrow> jstring + jstring" where
  "enum_field h path values fallback v =
     (case v of
        None \<Rightarrow> Inr fallback
      | Some s \<Rightarrow> if s \<in> set values then Inr s else Inl (zod_message h path v))"

definition regex_field ::
    "env_host \<Rightarrow> jstring \<Rightarrow> (jstring \<Rightarrow> bool) \<Rightarrow> jstring \<Rightarrow> jstring option \<Rightarrow> jstring + jstring" where
  "regex_field h path pattern message v =
     (case v of
        None \<Rightarrow> Inl (zod_message h path v)
      | Some s \<Rightarrow> if pattern s then Inr s else Inl message)"

text \<open>\<open>preprocess\<close>: a blank variable counts as unset.\<close>

definition blank_unset :: "jstring option \<Rightarrow> jstring option" where
  "blank_unset v = (if v = Some [] then None else v)"

definition optional_field ::
    "env_host \<Rightarrow> jstring \<Rightarrow> (jstring \<Rightarrow> jstring option) \<Rightarrow> jstring option \<Rightarrow> jstring + jstring option" where
  "optional_field h path inner v =
     (case blank_unset v of
        None \<Rightarrow> Inr None
      | Some s \<Rightarrow> (case inner s of Some w \<Rightarrow> Inr (Some w) | None \<Rightarrow> Inl (zod_message h path (Some s))))"

text \<open>\<open>z.string().min(n)\<close>.\<close>

definition string_min :: "nat \<Rightarrow> jstring \<Rightarrow> jstring option" where
  "string_min n s = (if n \<le> length s then Some s else None)"

definition symbol_field :: "env_host \<Rightarrow> jstring option \<Rightarrow> jstring + jstring" where
  "symbol_field h v =
     (case v of
        None \<Rightarrow> Inr (js ''USDC'')
      | Some s \<Rightarrow> if 1 \<le> length s then Inr s else Inl (zod_message h (js ''USDC_SYMBOL'') v))"

definition issue_line :: "jstring \<Rightarrow> jstring + 'v \<Rightarrow> jstring list" where
  "issue_line path r = (case r of Inl m \<Rightarrow> [js ''  - '' @ path @ js '': '' @ m] | Inr _ \<Rightarrow> [])"

definition right :: "jstring + 'v \<Rightarrow> 'v" where
  "right r = (case r of Inr v \<Rightarrow> v | Inl _ \<Rightarrow> undefined)"

fun join_lines :: "jstring list \<Rightarrow> jstring" where
  "join_lines [] = []"
| "join_lines [l] = l"
| "join_lines (l # ls) = l @ [10] @ join_lines ls"

definition contract_message :: jstring where
  "contract_message = js ''NEXT_PUBLIC_ESCROW_CONTRACT_ID must be a Soroban contract ID: starts with C, 56 characters total, base32 (A-Z, 2-7) after that''"

definition issuer_message :: jstring where
  "issuer_message = js ''USDC_ISSUER must be a Stellar account ID (starts with G, 56 chars)''"

definition var_network :: jstring where "var_network = js ''NEXT_PUBLIC_STELLAR_NETWORK''"
definition var_allow :: jstring where "var_allow = js ''ALLOW_MAINNET''"
definition var_contract :: jstring where "var_contract = js ''NEXT_PUBLIC_ESCROW_CONTRACT_ID''"
definition var_rpc :: jstring where "var_rpc = js ''SOROBAN_RPC_URL''"
definition var_issuer :: jstring where "var_issuer = js ''USDC_ISSUER''"
definition var_symbol :: jstring where "var_symbol = js ''USDC_SYMBOL''"
definition var_go_url :: jstring where "var_go_url = js ''CORE_GO_URL''"
definition var_go_token :: jstring where "var_go_token = js ''CORE_GO_SERVICE_TOKEN''"
definition var_gh_id :: jstring where "var_gh_id = js ''GITHUB_CLIENT_ID''"
definition var_gh_secret :: jstring where "var_gh_secret = js ''GITHUB_CLIENT_SECRET''"

text \<open>\<open>serverSchema.safeParse\<close>: the issues of all fields, in their order, or the data.\<close>

definition serverSchema :: "env_host \<Rightarrow> process_env \<Rightarrow> jstring list + server_env" where
  "serverSchema h pe =
     (let network = enum_field h var_network [js ''testnet'', js ''mainnet''] (js ''testnet'') (pe var_network);
          allow = enum_field h var_allow [js ''true'', js ''false''] (js ''false'') (pe var_allow);
          contract = regex_field h var_contract STELLAR_CONTRACT_ID contract_message (pe var_contract);
          rpc = optional_field h var_rpc (zod_url h) (pe var_rpc);
          issuer = regex_field h var_issuer STELLAR_ACCOUNT_ID issuer_message (pe var_issuer);
          symbol = symbol_field h (pe var_symbol);
          go_url = optional_field h var_go_url (zod_url h) (pe var_go_url);
          go_token = optional_field h var_go_token (string_min 32) (pe var_go_token);
          gh_id = optional_field h var_gh_id (string_min 1) (pe var_gh_id);
          gh_secret = optional_field h var_gh_secret (string_min 1) (pe var_gh_secret);
          issues = issue_line var_network network @ issue_line var_allow allow
            @ issue_line var_contract contract @ issue_line var_rpc rpc @ issue_line var_issuer issuer
            @ issue_line var_symbol symbol @ issue_line var_go_url go_url
            @ issue_line var_go_token go_token @ issue_line var_gh_id gh_id
            @ issue_line var_gh_secret gh_secret
      in if issues \<noteq> [] then Inl issues
         else Inr \<lparr>en_network = (if right network = js ''mainnet'' then Mainnet else Testnet),
                   en_allowMainnet = (right allow = js ''true''),
                   en_escrowContractId = right contract, en_sorobanRpcUrlVar = right rpc,
                   en_usdcIssuer = right issuer, en_usdcSymbol = right symbol,
                   en_coreGoUrl = right go_url, en_coreGoToken = right go_token,
                   en_githubClientId = right gh_id, en_githubClientSecret = right gh_secret,
                   en_networkPassphrase = [], en_horizonUrl = [], en_sorobanRpcUrl = None\<rparr>)"

definition mainnet_gate :: exn where
  "mainnet_gate = PlainError (js ''NEXT_PUBLIC_STELLAR_NETWORK=mainnet requires ALLOW_MAINNET=true to be set explicitly. This is a deliberate gate (docs/architecture.md), not a bug ''
     @ [8212] @ js '' remove ALLOW_MAINNET or set it to true only when you mean it.'')"

definition rpc_required :: exn where
  "rpc_required = PlainError (js ''SOROBAN_RPC_URL is required when NEXT_PUBLIC_STELLAR_NETWORK=mainnet ''
     @ [8212] @ js '' there is no free public mainnet Soroban RPC to default to. Set SOROBAN_RPC_URL to your provider's mainnet endpoint.'')"

text \<open>\<open>parseEnv\<close>. The network's constants come from \<open>stellar-network.ts\<close>, which read the same variable.\<close>

definition parseEnv :: "env_host \<Rightarrow> process_env \<Rightarrow> exn + server_env" where
  "parseEnv h pe =
     (case serverSchema h pe of
        Inl issues \<Rightarrow> Inl (PlainError (js ''Invalid environment configuration:'' @ [10] @ join_lines issues))
      | Inr data \<Rightarrow>
          if en_network data = Mainnet \<and> \<not> en_allowMainnet data then Inl mainnet_gate
          else if en_network data = Mainnet \<and> \<not> present (en_sorobanRpcUrlVar data) then Inl rpc_required
          else
            let config = NETWORK_CONFIG h (STELLAR_NETWORK pe)
            in Inr (data\<lparr>en_networkPassphrase := nc_passphrase config, en_horizonUrl := nc_horizonUrl config,
                 en_sorobanRpcUrl := (case en_sorobanRpcUrlVar data of
                                        Some u \<Rightarrow> Some u | None \<Rightarrow> nc_sorobanRpcUrl config)\<rparr>))"

text \<open>A property read of \<open>env\<close>: \<open>parsed ??= parseEnv()\<close>, where a throw leaves nothing cached.\<close>

definition env_get :: "env_host \<Rightarrow> process_env \<Rightarrow> (server_env \<Rightarrow> 'v) \<Rightarrow> (server_env option, 'v) action" where
  "env_get h pe field =
     await (read_state id) (\<lambda>parsed.
     case parsed of
       Some data \<Rightarrow> return_value (field data)
     | None \<Rightarrow>
         await (lift_result (parseEnv h pe)) (\<lambda>data.
         await (write_state (\<lambda>_. Some data)) (\<lambda>_. return_value (field data))))"

section \<open>site-url.ts\<close>

definition FALLBACK_SITE_URL :: jstring where
  "FALLBACK_SITE_URL = js ''https://astrea-payouts.vercel.app''"

text \<open>\<open>url.replace(/\/+$/, "")\<close>.\<close>

definition strip_slashes :: "jstring \<Rightarrow> jstring" where
  "strip_slashes s = rev (dropWhile (\<lambda>c. c = 47) (rev s))"

definition getSiteUrl :: "jstring option \<Rightarrow> jstring option \<Rightarrow> jstring" where
  "getSiteUrl appUrl vercelUrl =
     (let explicit = map_option trim appUrl; vercelHost = map_option trim vercelUrl
      in strip_slashes
           (if present explicit then the explicit
            else if present vercelHost then js ''https://'' @ the vercelHost
            else FALLBACK_SITE_URL))"

section \<open>Properties\<close>

lemma issue_line_Nil [simp]: "issue_line p r = [] \<longleftrightarrow> (\<exists>v. r = Inr v)"
  by (cases r) (auto simp: issue_line_def)

lemma right_Inr [simp]: "right (Inr v) = v"
  by (simp add: right_def)

lemma enum_field_Inr:
  "enum_field h p vs d v = Inr w \<longleftrightarrow> (v = None \<and> w = d \<or> v = Some w \<and> w \<in> set vs)"
  by (auto simp: enum_field_def split: option.splits)

lemma regex_field_Inr: "regex_field h p ok m v = Inr w \<longleftrightarrow> v = Some w \<and> ok w"
  by (auto simp: regex_field_def split: option.splits)

lemma optional_field_Inr:
  "optional_field h p inner v = Inr w \<longleftrightarrow>
     (case blank_unset v of None \<Rightarrow> w = None | Some s \<Rightarrow> inner s \<noteq> None \<and> w = inner s)"
  by (auto simp: optional_field_def split: option.splits)

lemmas field_Inr = enum_field_Inr regex_field_Inr optional_field_Inr

lemma schema_fields:
  assumes "serverSchema h pe = Inr data"
  obtains network allow contract rpc issuer go_token where
    "enum_field h var_network [js ''testnet'', js ''mainnet''] (js ''testnet'') (pe var_network) = Inr network"
    "enum_field h var_allow [js ''true'', js ''false''] (js ''false'') (pe var_allow) = Inr allow"
    "regex_field h var_contract STELLAR_CONTRACT_ID contract_message (pe var_contract) = Inr contract"
    "optional_field h var_rpc (zod_url h) (pe var_rpc) = Inr rpc"
    "regex_field h var_issuer STELLAR_ACCOUNT_ID issuer_message (pe var_issuer) = Inr issuer"
    "optional_field h var_go_token (string_min 32) (pe var_go_token) = Inr go_token"
    "en_network data = (if network = js ''mainnet'' then Mainnet else Testnet)"
    "en_allowMainnet data \<longleftrightarrow> allow = js ''true''" "en_escrowContractId data = contract"
    "en_sorobanRpcUrlVar data = rpc" "en_usdcIssuer data = issuer" "en_coreGoToken data = go_token"
  using assms unfolding serverSchema_def Let_def by (auto split: if_splits)

lemma schema_network:
  assumes "serverSchema h pe = Inr data"
  shows "en_network data = STELLAR_NETWORK pe"
proof -
  from assms obtain network where
    n: "enum_field h var_network [js ''testnet'', js ''mainnet''] (js ''testnet'') (pe var_network) = Inr network"
    and d: "en_network data = (if network = js ''mainnet'' then Mainnet else Testnet)"
    by (rule schema_fields)
  show ?thesis
    using n unfolding d STELLAR_NETWORK_def enum_field_Inr by (auto simp: var_network_def)
qed

lemma schema_allow:
  assumes "serverSchema h pe = Inr data"
  shows "en_allowMainnet data \<longleftrightarrow> pe var_allow = Some (js ''true'')"
proof -
  from assms obtain allow where
    n: "enum_field h var_allow [js ''true'', js ''false''] (js ''false'') (pe var_allow) = Inr allow"
    and d: "en_allowMainnet data \<longleftrightarrow> allow = js ''true''"
    by (rule schema_fields)
  show ?thesis using n unfolding d enum_field_Inr by auto
qed

lemma schema_rpc:
  assumes "serverSchema h pe = Inr data"
  shows "en_sorobanRpcUrlVar data = (case blank_unset (pe var_rpc) of None \<Rightarrow> None | Some s \<Rightarrow> zod_url h s)"
  using assms by (rule schema_fields) (auto simp: optional_field_Inr split: option.splits)

lemma schema_ids:
  assumes "serverSchema h pe = Inr data"
  shows "STELLAR_CONTRACT_ID (en_escrowContractId data) \<and> STELLAR_ACCOUNT_ID (en_usdcIssuer data)
    \<and> pe var_contract = Some (en_escrowContractId data) \<and> pe var_issuer = Some (en_usdcIssuer data)"
  using assms by (rule schema_fields) (simp add: regex_field_Inr)

lemma parseEnv_Inr:
  "parseEnv h pe = Inr d \<longleftrightarrow>
     (\<exists>data. serverSchema h pe = Inr data
       \<and> (en_network data = Mainnet \<longrightarrow> en_allowMainnet data \<and> present (en_sorobanRpcUrlVar data))
       \<and> d = data\<lparr>en_networkPassphrase := nc_passphrase (NETWORK_CONFIG h (STELLAR_NETWORK pe)),
                 en_horizonUrl := nc_horizonUrl (NETWORK_CONFIG h (STELLAR_NETWORK pe)),
                 en_sorobanRpcUrl := (case en_sorobanRpcUrlVar data of Some u \<Rightarrow> Some u
                    | None \<Rightarrow> nc_sorobanRpcUrl (NETWORK_CONFIG h (STELLAR_NETWORK pe)))\<rparr>)"
  unfolding parseEnv_def Let_def by (auto split: sum.splits if_splits)

text \<open>C40: An environment that parses is one network throughout: the passphrase and the Horizon
  server are those of the network the variable names, mainnet needs \<open>ALLOW_MAINNET=true\<close> and an RPC
  server of its own, a Soroban RPC server is always there, and the contract and the issuer are
  well-formed ids, namely the configured ones.\<close>

theorem env_gate:
  assumes "parseEnv h pe = Inr d"
  shows "en_network d = STELLAR_NETWORK pe
    \<and> en_networkPassphrase d = nc_passphrase (NETWORK_CONFIG h (en_network d))
    \<and> en_horizonUrl d = nc_horizonUrl (NETWORK_CONFIG h (en_network d))
    \<and> (en_network d = Mainnet \<longrightarrow> pe var_allow = Some (js ''true'')
         \<and> (\<exists>s. pe var_rpc = Some s \<and> s \<noteq> [] \<and> en_sorobanRpcUrl d = zod_url h s \<and> present (zod_url h s)))
    \<and> en_sorobanRpcUrl d \<noteq> None
    \<and> STELLAR_CONTRACT_ID (en_escrowContractId d) \<and> pe var_contract = Some (en_escrowContractId d)
    \<and> STELLAR_ACCOUNT_ID (en_usdcIssuer d) \<and> pe var_issuer = Some (en_usdcIssuer d)"
proof -
  from assms obtain data where s: "serverSchema h pe = Inr data"
    and gate: "en_network data = Mainnet \<Longrightarrow> en_allowMainnet data \<and> present (en_sorobanRpcUrlVar data)"
    and d: "d = data\<lparr>en_networkPassphrase := nc_passphrase (NETWORK_CONFIG h (STELLAR_NETWORK pe)),
                 en_horizonUrl := nc_horizonUrl (NETWORK_CONFIG h (STELLAR_NETWORK pe)),
                 en_sorobanRpcUrl := (case en_sorobanRpcUrlVar data of Some u \<Rightarrow> Some u
                    | None \<Rightarrow> nc_sorobanRpcUrl (NETWORK_CONFIG h (STELLAR_NETWORK pe)))\<rparr>"
    unfolding parseEnv_Inr by (elim exE conjE) (rule that, simp_all)
  have rpc: "\<exists>s. pe var_rpc = Some s \<and> s \<noteq> [] \<and> en_sorobanRpcUrl d = zod_url h s \<and> present (zod_url h s)"
    if m: "en_network data = Mainnet"
    using gate [OF m] schema_rpc [OF s] unfolding d
    by (auto simp: blank_unset_def present_def split: option.splits if_splits)
  have some: "en_sorobanRpcUrl d \<noteq> None"
    using gate schema_network [OF s] unfolding d
    by (cases "en_network data") (auto simp: NETWORK_CONFIG_def present_def split: option.splits)
  show ?thesis
    using schema_network [OF s] schema_allow [OF s] schema_ids [OF s] gate rpc some
    by (simp add: d)
qed

definition sample_env :: process_env where
  "sample_env = map_of
     [(var_network, js ''mainnet''), (var_allow, js ''true''), (var_contract, js (CHR ''C'' # replicate 55 CHR ''A'')),
      (var_issuer, js (CHR ''G'' # replicate 55 CHR ''B'')), (var_rpc, js ''https://rpc'')]"

definition sample_env_host :: env_host where
  "sample_env_host = \<lparr>zod_url = Some, zod_message = (\<lambda>_ _. []), Networks_TESTNET = js ''t'', Networks_PUBLIC = js ''p''\<rparr>"

lemma env_gate_witness:
  "\<exists>d. parseEnv sample_env_host sample_env = Inr d \<and> en_networkPassphrase d = js ''p''"
proof -
  have isr: "\<not> isl (parseEnv sample_env_host sample_env)"
    by code_simp
  obtain d where d: "parseEnv sample_env_host sample_env = Inr d"
    using isr by (cases "parseEnv sample_env_host sample_env") auto
  have net: "STELLAR_NETWORK sample_env = Mainnet"
    by code_simp
  show ?thesis
    using env_gate [OF d] d net by (simp add: NETWORK_CONFIG_def sample_env_host_def)
qed

text \<open>No site URL ends in a slash, whatever the variables hold.\<close>

lemma getSiteUrl_no_trailing_slash: "getSiteUrl a v = [] \<or> last (getSiteUrl a v) \<noteq> 47"
proof -
  have "strip_slashes s = [] \<or> last (strip_slashes s) \<noteq> 47" for s
    using hd_dropWhile [of "\<lambda>c. c = 47" "rev s"]
    by (auto simp: strip_slashes_def last_rev simp del: hd_dropWhile)
  then show ?thesis by (simp add: getSiteUrl_def Let_def del: not_None_eq)
qed

end
