(* ===== verification/Sign_Step.thy ===== *)
theory Sign_Step
  imports Organizer_Actions Big_Int
begin

text \<open>
  One signing step, \<open>components/events/sign-step.tsx\<close>, inside the screen that shows it. A screen has
  a state \<open>'h\<close>; \<open>offer h\<close> says which step it renders there: the unsigned transaction and what the
  \<open>onSigned\<close> closure of that render has captured. \<open>onSigned\<close> is a small machine of the screen:
  \<open>start\<close> gives its first stage and \<open>served\<close> the answers that move it on, or settle it. Everything the
  wallet, the server and the user may do is a rule of \<open>sign_run\<close>, in any order; a handler runs up to
  its next \<open>await\<close> in one step, and the screen is rendered again after it.

  A value that comes out of an unchecked JSON answer is a \<open>member_value\<close>: \<open>None\<close> is \<open>undefined\<close>.
\<close>

section \<open>Unchecked values\<close>

type_synonym member_value = "json option"

fun truthy_value :: "member_value \<Rightarrow> bool" where
  "truthy_value None = False"
| "truthy_value (Some JNull) = False"
| "truthy_value (Some (JBool b)) = b"
| "truthy_value (Some (JNum x)) = (x \<noteq> Finite 0 \<and> x \<noteq> NaN)"
| "truthy_value (Some (JStr s)) = (s \<noteq> [])"
| "truthy_value (Some (JArr xs)) = True"
| "truthy_value (Some (JObj ms)) = True"

text \<open>\<open>BigInt(v)\<close>; \<open>None\<close> when it throws.\<close>

fun js_BigInt :: "(js_number \<Rightarrow> jstring) \<Rightarrow> member_value \<Rightarrow> int option" where
  "js_BigInt nt None = None"
| "js_BigInt nt (Some JNull) = None"
| "js_BigInt nt (Some (JBool b)) = Some (if b then 1 else 0)"
| "js_BigInt nt (Some (JNum x)) =
     (case x of Finite q \<Rightarrow> (if q \<in> \<int> then Some \<lfloor>q\<rfloor> else None) | _ \<Rightarrow> None)"
| "js_BigInt nt (Some (JStr s)) = StringToBigInt s"
| "js_BigInt nt (Some (JArr xs)) = StringToBigInt (js_String nt (JArr xs))"
| "js_BigInt nt (Some (JObj ms)) = None"

text \<open>Reading a member of what an action returned; \<open>res.ok\<close>.\<close>

definition result_member :: "action_result \<Rightarrow> string \<Rightarrow> member_value" where
  "result_member res k =
     (case res of
        Answer ms \<Rightarrow> members_get ms (js k)
      | Failed f \<Rightarrow>
          if k = ''ok'' then Some (JBool False)
          else if k = ''status'' then Some (JNum (js_int (f_status f)))
          else if k = ''code'' then Some (JStr (f_code f))
          else if k = ''message'' then Some (JStr (f_message f))
          else if k = ''txHash'' then map_option JStr (f_txHash f)
          else None)"

definition result_ok :: "action_result \<Rightarrow> bool" where
  "result_ok res = truthy_value (result_member res ''ok'')"

text \<open>What an asynchronous call can throw at its caller.\<close>

datatype thrown =
    ErrorThrown jstring
  | TextThrown jstring
  | ObjectThrown member_value
  | OtherThrown

text \<open>\<open>new Error(res.message || res.code)\<close>.\<close>

definition result_error :: "(js_number \<Rightarrow> jstring) \<Rightarrow> action_result \<Rightarrow> thrown" where
  "result_error nt res =
     ErrorThrown
       (case (if truthy_value (result_member res ''message'') then result_member res ''message''
              else result_member res ''code'') of
          None \<Rightarrow> []
        | Some v \<Rightarrow> js_String nt v)"

section \<open>sign-step.tsx\<close>

record SignStepResult =
  sr_txHash :: member_value
  sr_status :: member_value

datatype Phase =
    Idle
  | Signing
  | Submitting
  | Confirmed SignStepResult
  | Sign_failed jstring

definition describe :: "thrown \<Rightarrow> jstring \<Rightarrow> jstring" where
  "describe err fallback =
     (case err of
        ErrorThrown m \<Rightarrow> if m \<noteq> [] then m else fallback
      | TextThrown t \<Rightarrow> if t \<noteq> [] then t else fallback
      | ObjectThrown (Some (JStr m)) \<Rightarrow> if m \<noteq> [] then m else fallback
      | _ \<Rightarrow> fallback)"

text \<open>
  The step as React keeps it: \<open>sg_shown\<close> are the props of the mounted instance, whose number is
  \<open>sg_mount\<close>; its phase is the state of that instance. Calls of the wallet and of \<open>onSigned\<close> in flight
  carry the number of the instance that made them, and the props of the render that made them.
  \<open>sg_asked\<close> and \<open>sg_sent\<close> are history: what the wallet was ever asked to sign, and what was handed to
  \<open>onSigned\<close>.
\<close>

record ('k, 'j) signer =
  sg_mount :: nat
  sg_shown :: "(member_value \<times> 'k) option"
  sg_phase :: Phase
  sg_wallet :: "(nat \<times> member_value \<times> 'k) list"
  sg_server :: "(nat \<times> 'j) list"
  sg_asked :: "(member_value \<times> 'k) list"
  sg_sent :: "(member_value \<times> member_value \<times> 'k) list"

definition no_signer :: "('k, 'j) signer" where
  "no_signer = \<lparr>sg_mount = 0, sg_shown = None, sg_phase = Idle, sg_wallet = [], sg_server = [],
     sg_asked = [], sg_sent = []\<rparr>"

text \<open>Rendering: an element that was not there is a new instance with fresh state.\<close>

definition render_sign :: "(member_value \<times> 'k) option \<Rightarrow> ('k, 'j) signer \<Rightarrow> ('k, 'j) signer" where
  "render_sign offered g =
     (if offered \<noteq> None \<and> sg_shown g = None
      then g\<lparr>sg_mount := Suc (sg_mount g), sg_phase := Idle, sg_shown := offered\<rparr>
      else g\<lparr>sg_shown := offered\<rparr>)"

text \<open>\<open>setPhase\<close>: nothing happens when the instance is gone.\<close>

definition setPhase :: "nat \<Rightarrow> Phase \<Rightarrow> ('k, 'j) signer \<Rightarrow> ('k, 'j) signer" where
  "setPhase m p g = (if sg_shown g \<noteq> None \<and> sg_mount g = m then g\<lparr>sg_phase := p\<rparr> else g)"

definition busy :: "('k, 'j) signer \<Rightarrow> bool" where
  "busy g \<longleftrightarrow> sg_phase g = Signing \<or> sg_phase g = Submitting"

definition sign_button :: "('k, 'j) signer \<Rightarrow> bool" where
  "sign_button g \<longleftrightarrow> sg_shown g \<noteq> None \<and> (\<forall>r. sg_phase g \<noteq> Confirmed r) \<and> \<not> busy g"

text \<open>\<open>sign\<close> up to the wallet.\<close>

definition sign :: "('k, 'j) signer \<Rightarrow> ('k, 'j) signer" where
  "sign g =
     (case sg_shown g of
        None \<Rightarrow> g
      | Some (xdr, k) \<Rightarrow>
          (setPhase (sg_mount g) Signing g)
            \<lparr>sg_wallet := sg_wallet g @ [(sg_mount g, xdr, k)], sg_asked := sg_asked g @ [(xdr, k)]\<rparr>)"

text \<open>The wallet answers: \<open>signedTxXdr\<close> goes to \<open>onSigned\<close>, or the step fails.\<close>

definition wallet_signed ::
    "('k \<Rightarrow> member_value \<Rightarrow> 'j) \<Rightarrow> nat \<Rightarrow> member_value \<Rightarrow> ('k, 'j) signer \<Rightarrow> ('k, 'j) signer" where
  "wallet_signed start i signedTxXdr g =
     (case sg_wallet g ! i of (m, xdr, k) \<Rightarrow>
        (setPhase m Submitting g)
          \<lparr>sg_wallet := take i (sg_wallet g) @ drop (Suc i) (sg_wallet g),
           sg_server := sg_server g @ [(m, start k signedTxXdr)],
           sg_sent := sg_sent g @ [(xdr, signedTxXdr, k)]\<rparr>)"

definition wallet_rejected :: "jstring \<Rightarrow> nat \<Rightarrow> thrown \<Rightarrow> ('k, 'j) signer \<Rightarrow> ('k, 'j) signer" where
  "wallet_rejected signRejected i err g =
     (case sg_wallet g ! i of (m, xdr, k) \<Rightarrow>
        (setPhase m (Sign_failed (describe err signRejected)) g)
          \<lparr>sg_wallet := take i (sg_wallet g) @ drop (Suc i) (sg_wallet g)\<rparr>)"

text \<open>A stage of \<open>onSigned\<close> is over: another begins, or the promise settles.\<close>

definition next_stage :: "nat \<Rightarrow> 'j \<Rightarrow> ('k, 'j) signer \<Rightarrow> ('k, 'j) signer" where
  "next_stage i j g = g\<lparr>sg_server := (sg_server g)[i := (fst (sg_server g ! i), j)]\<rparr>"

definition settled :: "jstring \<Rightarrow> nat \<Rightarrow> thrown + SignStepResult \<Rightarrow> ('k, 'j) signer \<Rightarrow> ('k, 'j) signer" where
  "settled submitFailed i r g =
     (setPhase (fst (sg_server g ! i))
        (case r of Inr res \<Rightarrow> Confirmed res | Inl err \<Rightarrow> Sign_failed (describe err submitFailed)) g)
       \<lparr>sg_server := take i (sg_server g) @ drop (Suc i) (sg_server g)\<rparr>"

inductive sign_run ::
    "('h \<Rightarrow> (member_value \<times> 'k) option) \<Rightarrow> ('h \<Rightarrow> 'h \<Rightarrow> bool) \<Rightarrow> ('k \<Rightarrow> member_value \<Rightarrow> 'j) \<Rightarrow>
     ('j \<Rightarrow> 'h \<Rightarrow> 'j + (thrown + SignStepResult) \<Rightarrow> 'h \<Rightarrow> bool) \<Rightarrow> 'h \<Rightarrow> 'h \<Rightarrow> ('k, 'j) signer \<Rightarrow> bool"
  for offer own start served first where
  opens: "sign_run offer own start served first first (render_sign (offer first) no_signer)"
| moves: "sign_run offer own start served first h g \<Longrightarrow> own h h' \<Longrightarrow>
    sign_run offer own start served first h' (render_sign (offer h') g)"
| clicks: "sign_run offer own start served first h g \<Longrightarrow> sign_button g \<Longrightarrow>
    sign_run offer own start served first h (sign g)"
| signs: "sign_run offer own start served first h g \<Longrightarrow> i < length (sg_wallet g) \<Longrightarrow>
    sign_run offer own start served first h (wallet_signed start i y g)"
| rejects: "sign_run offer own start served first h g \<Longrightarrow> i < length (sg_wallet g) \<Longrightarrow>
    sign_run offer own start served first h (wallet_rejected fallback i err g)"
| goes_on: "sign_run offer own start served first h g \<Longrightarrow> i < length (sg_server g) \<Longrightarrow>
    served (snd (sg_server g ! i)) h (Inl j) h' \<Longrightarrow>
    sign_run offer own start served first h' (render_sign (offer h') (next_stage i j g))"
| settles: "sign_run offer own start served first h g \<Longrightarrow> i < length (sg_server g) \<Longrightarrow>
    served (snd (sg_server g ! i)) h (Inr r) h' \<Longrightarrow>
    sign_run offer own start served first h' (settled fallback i r (render_sign (offer h') g))"


section \<open>What every screen gets\<close>

text \<open>The calls in flight belong to different instances, and a mounted instance with one is busy with it:
  an instance has at most one wallet request or submission at a time.\<close>

definition one_at_a_time :: "('k, 'j) signer \<Rightarrow> bool" where
  "one_at_a_time g \<longleftrightarrow>
     distinct (map fst (sg_wallet g) @ map fst (sg_server g)) \<and>
     (\<forall>m\<in>set (map fst (sg_wallet g) @ map fst (sg_server g)). m \<le> sg_mount g) \<and>
     (sg_shown g \<noteq> None \<longrightarrow>
        (sg_mount g \<in> fst ` set (sg_wallet g) \<longrightarrow> sg_phase g = Signing) \<and>
        (sg_mount g \<in> fst ` set (sg_server g) \<longrightarrow> sg_phase g = Submitting))"

lemma take_drop_nth:
  assumes "i < length xs"
  obtains as bs where "xs = as @ xs ! i # bs" "take i xs @ drop (Suc i) xs = as @ bs" "length as = i"
  using assms id_take_nth_drop [OF assms] by (metis length_take min.absorb4)

lemma map_fst_same: "i < length xs \<Longrightarrow> map fst (xs[i := (fst (xs ! i), j)]) = map fst xs"
  using list_update_id [of "map fst xs" i] by (simp add: map_update)

lemma one_at_a_time_render:
  assumes g: "one_at_a_time g"
  shows "one_at_a_time (render_sign offered g)"
proof -
  let ?ms = "map fst (sg_wallet g) @ map fst (sg_server g)"
  have le: "\<forall>m\<in>set ?ms. m \<le> sg_mount g" and d: "distinct ?ms"
    using g unfolding one_at_a_time_def by simp_all
  have new: "Suc (sg_mount g) \<notin> set ?ms" and le': "\<forall>m\<in>set ?ms. m \<le> Suc (sg_mount g)"
    using le by (metis Suc_n_not_le_n, metis le_SucI)
  show ?thesis
  proof (cases "offered \<noteq> None \<and> sg_shown g = None")
    case True
    then show ?thesis
      using d new le' unfolding one_at_a_time_def render_sign_def by simp
  next
    case False
    then show ?thesis
      using g unfolding one_at_a_time_def render_sign_def by auto
  qed
qed

lemma one_at_a_time_sign: "one_at_a_time g \<Longrightarrow> sign_button g \<Longrightarrow> one_at_a_time (sign g)"
  by (auto simp: one_at_a_time_def sign_def sign_button_def busy_def setPhase_def image_iff split: option.splits)

lemma one_at_a_time_wallet:
  assumes g: "one_at_a_time g" and i: "i < length (sg_wallet g)"
  shows "one_at_a_time (wallet_signed start i y g)" and "one_at_a_time (wallet_rejected fallback i err g)"
proof -
  from i obtain as bs where s: "sg_wallet g = as @ sg_wallet g ! i # bs"
    "take i (sg_wallet g) @ drop (Suc i) (sg_wallet g) = as @ bs" "length as = i"
    by (rule take_drop_nth)
  obtain m x k where t: "sg_wallet g ! i = (m, x, k)" by (cases "sg_wallet g ! i") auto
  have w: "sg_wallet g = as @ (m, x, k) # bs" using s(1) t by simp
  show "one_at_a_time (wallet_signed start i y g)"
    using g unfolding wallet_signed_def t prod.case s(2) one_at_a_time_def
    by (simp add: w setPhase_def image_iff) auto
  show "one_at_a_time (wallet_rejected fallback i err g)"
    using g unfolding wallet_rejected_def t prod.case s(2) one_at_a_time_def
    by (simp add: w setPhase_def image_iff) auto
qed

lemma one_at_a_time_server:
  assumes g: "one_at_a_time g" and i: "i < length (sg_server g)"
  shows "one_at_a_time (next_stage i j g)" and "one_at_a_time (settled fallback i r g)"
proof -
  show "one_at_a_time (next_stage i j g)"
    using g i unfolding one_at_a_time_def next_stage_def
    by (simp add: map_fst_same flip: set_map)
  from i obtain as bs where s: "sg_server g = as @ sg_server g ! i # bs"
    "take i (sg_server g) @ drop (Suc i) (sg_server g) = as @ bs" "length as = i"
    by (rule take_drop_nth)
  obtain m k where t: "sg_server g ! i = (m, k)" by (cases "sg_server g ! i") auto
  have w: "sg_server g = as @ (m, k) # bs" using s(1) t by simp
  show "one_at_a_time (settled fallback i r g)"
    using g unfolding settled_def t s(2) one_at_a_time_def
    by (simp add: w setPhase_def image_iff) auto
qed

lemma sign_run_one_at_a_time: "sign_run offer own start served first h g \<Longrightarrow> one_at_a_time g"
proof (induction rule: sign_run.induct)
  case opens
  show ?case by (simp add: one_at_a_time_def render_sign_def no_signer_def)
next
  case (settles h g i r h' fallback)
  then show ?case
    by (intro one_at_a_time_server one_at_a_time_render) (simp_all add: render_sign_def)
next
  case (goes_on h g i j h')
  then show ?case by (intro one_at_a_time_server one_at_a_time_render) simp_all
qed (simp_all add: one_at_a_time_render one_at_a_time_sign one_at_a_time_wallet)


section \<open>The contract of a screen that signs\<close>

lemma sign_shown:
  "sg_shown g = Some (x, k) \<Longrightarrow>
     sign g = g\<lparr>sg_phase := Signing, sg_wallet := sg_wallet g @ [(sg_mount g, x, k)],
                sg_asked := sg_asked g @ [(x, k)]\<rparr>"
  by (simp add: sign_def setPhase_def)

text \<open>
  \<open>grounds h (x, k)\<close>: the screen's history accounts for offering the transaction \<open>x\<close> with the
  captured values \<open>k\<close>; \<open>backed h r\<close>: it accounts for the result \<open>r\<close>; \<open>task_ok h j\<close>: the same for what
  a running \<open>onSigned\<close> carries. They only have to survive what \<open>grows\<close> allows.
\<close>

locale signing_screen =
  fixes offer :: "'h \<Rightarrow> (member_value \<times> 'k) option"
    and own :: "'h \<Rightarrow> 'h \<Rightarrow> bool"
    and start :: "'k \<Rightarrow> member_value \<Rightarrow> 'j"
    and served :: "'j \<Rightarrow> 'h \<Rightarrow> 'j + (thrown + SignStepResult) \<Rightarrow> 'h \<Rightarrow> bool"
    and first :: 'h
    and grows :: "'h \<Rightarrow> 'h \<Rightarrow> bool"
    and good :: "'h \<Rightarrow> bool"
    and grounds :: "'h \<Rightarrow> member_value \<times> 'k \<Rightarrow> bool"
    and task_ok :: "'h \<Rightarrow> 'j \<Rightarrow> bool"
    and backed :: "'h \<Rightarrow> SignStepResult \<Rightarrow> bool"
  assumes first_good: "good first"
    and own_grows: "own h h' \<Longrightarrow> grows h h'"
    and served_grows: "served j h r h' \<Longrightarrow> grows h h'"
    and own_good: "own h h' \<Longrightarrow> good h \<Longrightarrow> good h'"
    and served_good: "served j h r h' \<Longrightarrow> task_ok h j \<Longrightarrow> good h \<Longrightarrow> good h'"
    and offer_grounds: "good h \<Longrightarrow> offer h = Some p \<Longrightarrow> grounds h p"
    and grounds_grow: "grows h h' \<Longrightarrow> grounds h p \<Longrightarrow> grounds h' p"
    and task_grow: "grows h h' \<Longrightarrow> task_ok h j \<Longrightarrow> task_ok h' j"
    and backed_grow: "grows h h' \<Longrightarrow> backed h res \<Longrightarrow> backed h' res"
    and start_ok: "grounds h (x, k) \<Longrightarrow> task_ok h (start k y)"
    and next_ok: "served j h (Inl j') h' \<Longrightarrow> task_ok h j \<Longrightarrow> good h \<Longrightarrow> task_ok h' j'"
    and settled_backed: "served j h (Inr (Inr res)) h' \<Longrightarrow> task_ok h j \<Longrightarrow> good h \<Longrightarrow> backed h' res"
begin

definition safe :: "'h \<Rightarrow> ('k, 'j) signer \<Rightarrow> bool" where
  "safe h g \<longleftrightarrow> good h \<and> sg_shown g = offer h \<and> (\<forall>p\<in>set (sg_asked g). grounds h p)
     \<and> snd ` set (sg_wallet g) \<subseteq> set (sg_asked g)
     \<and> (\<forall>s\<in>set (sg_server g). task_ok h (snd s))
     \<and> (\<forall>(x, y, k)\<in>set (sg_sent g). (x, k) \<in> set (sg_asked g))
     \<and> length (sg_sent g) + length (sg_wallet g) \<le> length (sg_asked g)
     \<and> (\<forall>r. sg_phase g = Confirmed r \<longrightarrow> backed h r)"

lemma safe_render:
  assumes "safe h g" "grows h h'" "good h'"
  shows "safe h' (render_sign (offer h') g)"
  using assms unfolding safe_def render_sign_def
  by (auto intro: grounds_grow task_grow backed_grow)

lemma safe_sign:
  assumes s: "safe h g" and b: "sign_button g"
  shows "safe h (sign g)"
proof -
  obtain x k where k: "sg_shown g = Some (x, k)" using b by (auto simp: sign_button_def)
  have "grounds h (x, k)" using s k by (auto simp: safe_def intro: offer_grounds)
  then show ?thesis using s unfolding sign_shown [OF k] safe_def by (auto simp: k)
qed

lemma safe_wallet:
  assumes s: "safe h g" and i: "i < length (sg_wallet g)"
  shows "safe h (wallet_signed start i y g)" and "safe h (wallet_rejected fallback i err g)"
proof -
  from i obtain as bs where w: "sg_wallet g = as @ sg_wallet g ! i # bs"
    "take i (sg_wallet g) @ drop (Suc i) (sg_wallet g) = as @ bs" "length as = i"
    by (rule take_drop_nth)
  obtain m x k where t: "sg_wallet g ! i = (m, x, k)" by (cases "sg_wallet g ! i") auto
  have w1: "sg_wallet g = as @ (m, x, k) # bs" using w(1) t by simp
  have asked: "(x, k) \<in> set (sg_asked g)" using s w1 by (auto simp: safe_def)
  then have "task_ok h (start k y)" using s by (intro start_ok) (auto simp: safe_def)
  then show "safe h (wallet_signed start i y g)"
    using s asked unfolding wallet_signed_def t prod.case w(2) safe_def
    by (auto simp: w1 setPhase_def)
  show "safe h (wallet_rejected fallback i err g)"
    using s unfolding wallet_rejected_def t prod.case w(2) safe_def
    by (auto simp: w1 setPhase_def)
qed

lemma safe_next:
  assumes s: "safe h g" and i: "i < length (sg_server g)"
    and v: "served (snd (sg_server g ! i)) h (Inl j) h'"
  shows "safe h' (render_sign (offer h') (next_stage i j g))"
proof -
  have ok: "task_ok h (snd (sg_server g ! i))" using s i by (auto simp: safe_def)
  have gr: "grows h h'" and gd: "good h'" and n: "task_ok h' j"
    using served_grows [OF v] served_good [OF v ok] next_ok [OF v ok] s by (auto simp: safe_def)
  have sub: "set (sg_server (next_stage i j g)) \<subseteq> insert (fst (sg_server g ! i), j) (set (sg_server g))"
    unfolding next_stage_def by (simp add: set_update_subset_insert)
  have rest: "\<forall>s\<in>set (sg_server g). task_ok h' (snd s)"
    using s gr by (auto simp: safe_def intro: task_grow)
  have srv: "\<forall>s\<in>set (sg_server (next_stage i j g)). task_ok h' (snd s)"
    using sub rest n by auto
  show ?thesis
    using s gd srv gr unfolding safe_def render_sign_def next_stage_def
    by (auto intro: grounds_grow backed_grow)
qed

lemma safe_settled:
  assumes s: "safe h g" and i: "i < length (sg_server g)"
    and v: "served (snd (sg_server g ! i)) h (Inr r) h'"
  shows "safe h' (settled fallback i r (render_sign (offer h') g))"
proof -
  have ok: "task_ok h (snd (sg_server g ! i))" using s i by (auto simp: safe_def)
  have gr: "grows h h'" and gd: "good h'" using served_grows [OF v] served_good [OF v ok] s by (auto simp: safe_def)
  have b: "backed h' res" if "r = Inr res" for res
    using settled_backed [OF _ ok] v that s by (auto simp: safe_def)
  have "safe h' (render_sign (offer h') g)" using s gr gd by (rule safe_render)
  then show ?thesis
    using b unfolding safe_def settled_def setPhase_def
    by (auto split: sum.splits dest: in_set_takeD in_set_dropD)
qed

lemma run_safe: "sign_run offer own start served first h g \<Longrightarrow> safe h g"
proof (induction rule: sign_run.induct)
  case opens
  show ?case using first_good by (simp add: safe_def render_sign_def no_signer_def)
next
  case (moves h g h')
  then show ?case by (intro safe_render) (auto intro: own_grows own_good simp: safe_def)
next
  case (goes_on h g i j h')
  then show ?case by (intro safe_next)
next
  case (settles h g i r h' fallback)
  then show ?case by (intro safe_settled)
qed (simp_all add: safe_sign safe_wallet)

lemma asked_grounds: "sign_run offer own start served first h g \<Longrightarrow> p \<in> set (sg_asked g) \<Longrightarrow> grounds h p"
  using run_safe by (auto simp: safe_def)

lemma sent_asked:
  "sign_run offer own start served first h g \<Longrightarrow> (x, y, k) \<in> set (sg_sent g) \<Longrightarrow> (x, k) \<in> set (sg_asked g)"
  using run_safe by (fastforce simp: safe_def)

lemma sent_once:
  "sign_run offer own start served first h g \<Longrightarrow>
     length (sg_sent g) + length (sg_wallet g) \<le> length (sg_asked g)"
  using run_safe by (auto simp: safe_def)

lemma confirmed_backed:
  "sign_run offer own start served first h g \<Longrightarrow> sg_phase g = Confirmed r \<Longrightarrow> backed h r"
  using run_safe by (auto simp: safe_def)

lemma run_good: "sign_run offer own start served first h g \<Longrightarrow> good h"
  using run_safe by (auto simp: safe_def)

end


section \<open>A service with one answer\<close>

text \<open>For the concrete runs: a service that answers every request with the same object.\<close>

definition answering_object :: "(jstring \<times> json) list \<Rightarrow> world core_go" where
  "answering_object ms = answering_go \<lparr>rs_status = 200, rs_body = the (json_stringify (JObj ms))\<rparr>"

lemma answering_object_request:
  assumes "printable (JObj ms)" "json_stringify (JObj ms) = Some t"
  shows "request (answering_object ms) meth path wallet body w = (Inr (JObj ms), w)"
proof -
  have "json_parse t = Some (JObj ms)"
    using assms by (rule json_roundtrip)
  then show ?thesis
    using assms(2)
    by (simp add: request_def answering_object_def answering_go_def core_config_def present_def await_def
        read_response_def response_ok_def)
qed

lemma encode_GA: "encodeURIComponent (js ''GA'') = Some (js ''GA'')"
  by (simp add: encodeURIComponent_def surrogate_def encode_point_def uri_unreserved_def is_upper_def
      high_surrogate_def)

text \<open>Runs that reach the wallet: moves without a step on the screen, one that shows it, the click.\<close>

definition quiet_run ::
    "('h \<Rightarrow> (member_value \<times> 'k) option) \<Rightarrow> ('h \<Rightarrow> 'h \<Rightarrow> bool) \<Rightarrow> ('k \<Rightarrow> member_value \<Rightarrow> 'j) \<Rightarrow>
     ('j \<Rightarrow> 'h \<Rightarrow> 'j + (thrown + SignStepResult) \<Rightarrow> 'h \<Rightarrow> bool) \<Rightarrow> 'h \<Rightarrow> 'h \<Rightarrow> bool" where
  "quiet_run offer own start served first h \<longleftrightarrow>
     (\<exists>g. sign_run offer own start served first h g \<and> sg_shown g = None \<and> sg_asked g = [])"

lemma quiet_opens: "offer first = None \<Longrightarrow> quiet_run offer own start served first first"
  unfolding quiet_run_def
  by (rule exI, rule conjI, rule sign_run.opens) (simp add: render_sign_def no_signer_def)

lemma quiet_moves:
  assumes "quiet_run offer own start served first h" "own h h'" "offer h' = None"
  shows "quiet_run offer own start served first h'"
proof -
  obtain g where g: "sign_run offer own start served first h g" "sg_shown g = None" "sg_asked g = []"
    using assms(1) unfolding quiet_run_def by blast
  have "sign_run offer own start served first h' (render_sign (offer h') g)"
    using g(1) assms(2) by (rule sign_run.moves)
  moreover have "sg_shown (render_sign (offer h') g) = None" "sg_asked (render_sign (offer h') g) = []"
    using g(2,3) assms(3) by (simp_all add: render_sign_def)
  ultimately show ?thesis unfolding quiet_run_def by blast
qed

lemma quiet_signs:
  assumes "quiet_run offer own start served first h" "own h h'" and o: "offer h' = Some (x, k)"
  shows "\<exists>g. sign_run offer own start served first h' g \<and> sg_asked g = [(x, k)]"
proof -
  obtain g where g: "sign_run offer own start served first h g" "sg_shown g = None" "sg_asked g = []"
    using assms(1) unfolding quiet_run_def by blast
  let ?g = "render_sign (offer h') g"
  have s: "sg_shown ?g = Some (x, k)" "sg_asked ?g = []" "sign_button ?g"
    using g o by (simp_all add: render_sign_def sign_button_def busy_def)
  have "sign_run offer own start served first h' ?g" using g(1) assms(2) by (rule sign_run.moves)
  then have "sign_run offer own start served first h' (sign ?g)" using s(3) by (rule sign_run.clicks)
  moreover have "sg_asked (sign ?g) = [(x, k)]" unfolding sign_shown [OF s(1)] using s(2) by simp
  ultimately show ?thesis by blast
qed

lemma build_and_sign:
  assumes "own h h'" "own h' h''" "offer h = None" "offer h' = None" "offer h'' = Some (x, k)"
  shows "\<exists>g. sign_run offer own start served h h'' g \<and> sg_asked g = [(x, k)]"
  by (rule quiet_signs, rule quiet_moves, rule quiet_opens) (rule assms)+

end
