(* ===== verification/Deposit_Screen.thy ===== *)
theory Deposit_Screen
  imports Sign_Step Amounts
begin

text \<open>
  The deposit step of the organizer's screens, \<open>organizer/events/[id]/deposit-step.tsx\<close>: its state,
  its handlers, and its \<open>onSigned\<close> as stages. What the server actions answer is any \<open>action_result\<close>;
  a build answers what \<open>buildDeposit\<close> can answer. A server action that rejects inside a transition
  takes the screen down, so it is no step here.
\<close>

section \<open>State and handlers\<close>

record DepositBuilt =
  db_opId :: member_value
  db_unsignedTransactionXdr :: member_value

datatype deposit_task = DepositBuilding jstring jstring | DepositChecking

text \<open>\<open>ds_builds\<close> and \<open>ds_submits\<close> are history: shortfall, amount and answer of each build, and each
  answered submission with its operation.\<close>

record deposit_screen =
  ds_shortfall :: jstring
  ds_amount :: jstring
  ds_built :: "DepositBuilt option"
  ds_failure :: "action_result option"
  ds_pendingHash :: member_value
  ds_pending :: "deposit_task option"
  ds_builds :: "(jstring \<times> jstring \<times> DepositBuilt) list"
  ds_submits :: "(member_value \<times> member_value \<times> action_result) list"

definition deposit_opens :: "jstring \<Rightarrow> deposit_screen" where
  "deposit_opens shortfall =
     \<lparr>ds_shortfall = shortfall, ds_amount = formatSmallestUnits shortfall 7, ds_built = None,
      ds_failure = None, ds_pendingHash = Some JNull, ds_pending = None, ds_builds = [], ds_submits = []\<rparr>"

text \<open>\<open>amountOk\<close>, for a shortfall and an amount.\<close>

definition covers :: "jstring \<Rightarrow> jstring \<Rightarrow> bool" where
  "covers shortfall amount =
     (case (parseUsdcAmount amount, StringToBigInt shortfall) of
        (Some n, Some m) \<Rightarrow> m \<le> int n
      | _ \<Rightarrow> False)"

definition amount_form :: "deposit_screen \<Rightarrow> bool" where
  "amount_form s \<longleftrightarrow> ds_built s = None \<and> \<not> truthy_value (ds_pendingHash s)"

definition build_button :: "deposit_screen \<Rightarrow> bool" where
  "build_button s \<longleftrightarrow> amount_form s \<and> covers (ds_shortfall s) (ds_amount s) \<and> ds_pending s = None"

definition deposit_start :: "deposit_screen \<Rightarrow> deposit_screen" where
  "deposit_start s =
     s\<lparr>ds_failure := None, ds_built := None, ds_pendingHash := Some JNull,
       ds_pending := Some (DepositBuilding (ds_shortfall s) (ds_amount s))\<rparr>"

definition deposit_built_of :: "action_result \<Rightarrow> DepositBuilt" where
  "deposit_built_of res =
     \<lparr>db_opId = result_member res ''opId'',
      db_unsignedTransactionXdr = result_member res ''unsignedTransactionXdr''\<rparr>"

definition deposit_answered :: "jstring \<Rightarrow> jstring \<Rightarrow> action_result \<Rightarrow> deposit_screen \<Rightarrow> deposit_screen" where
  "deposit_answered shortfall amount res s =
     (if result_ok res
      then s\<lparr>ds_pending := None, ds_built := Some (deposit_built_of res),
             ds_builds := ds_builds s @ [(shortfall, amount, deposit_built_of res)]\<rparr>
      else s\<lparr>ds_pending := None, ds_failure := Some res\<rparr>)"

text \<open>The step it renders: \<open>onSigned\<close> captures \<open>built\<close>. \<open>BigInt(shortfall)\<close> may throw in the render.\<close>

definition deposit_offer :: "deposit_screen \<Rightarrow> (member_value \<times> DepositBuilt) option" where
  "deposit_offer s =
     (case ds_built s of
        None \<Rightarrow> None
      | Some b \<Rightarrow>
          if truthy_value (ds_pendingHash s) \<or> StringToBigInt (ds_shortfall s) = None then None
          else Some (db_unsignedTransactionXdr b, b))"

section \<open>onSigned\<close>

datatype deposit_stage =
    DepositSubmitting member_value member_value
  | DepositReading SignStepResult

definition deposit_onSigned :: "DepositBuilt \<Rightarrow> member_value \<Rightarrow> deposit_stage" where
  "deposit_onSigned built signedXdr = DepositSubmitting (db_opId built) signedXdr"

definition sign_result :: "action_result \<Rightarrow> SignStepResult" where
  "sign_result res = \<lparr>sr_txHash = result_member res ''txHash'', sr_status = result_member res ''status''\<rparr>"

definition succeeded :: "action_result \<Rightarrow> bool" where
  "succeeded res \<longleftrightarrow> result_member res ''status'' = Some (JStr (js ''succeeded''))"

definition deposit_submitted ::
    "(js_number \<Rightarrow> jstring) \<Rightarrow> action_result \<Rightarrow> deposit_screen \<Rightarrow>
     (deposit_stage + (thrown + SignStepResult)) \<times> deposit_screen" where
  "deposit_submitted nt res s =
     (if \<not> result_ok res then (Inr (Inl (result_error nt res)), s\<lparr>ds_failure := Some res\<rparr>)
      else if succeeded res then (Inl (DepositReading (sign_result res)), s\<lparr>ds_failure := None\<rparr>)
      else (Inr (Inr (sign_result res)), s\<lparr>ds_failure := None, ds_pendingHash := result_member res ''txHash''\<rparr>))"

definition deposit_read :: "SignStepResult \<Rightarrow> action_result option \<Rightarrow> deposit_screen \<Rightarrow>
     (deposit_stage + (thrown + SignStepResult)) \<times> deposit_screen" where
  "deposit_read r f s = (Inr (Inr r), s\<lparr>ds_failure := f, ds_built := None\<rparr>)"

inductive deposit_served ::
    "(js_number \<Rightarrow> jstring) \<Rightarrow> deposit_stage \<Rightarrow> deposit_screen \<Rightarrow>
     deposit_stage + (thrown + SignStepResult) \<Rightarrow> deposit_screen \<Rightarrow> bool" for nt where
  submit_answers: "deposit_submitted nt res (s\<lparr>ds_submits := ds_submits s @ [(op, y, res)]\<rparr>) = (r, s') \<Longrightarrow>
    deposit_served nt (DepositSubmitting op y) s r s'"
| submit_throws: "deposit_served nt (DepositSubmitting op y) s (Inr (Inl err)) s"
| onDeposited_answers: "deposit_read r f s = (q, s') \<Longrightarrow> deposit_served nt (DepositReading r) s q s'"
| onDeposited_throws: "deposit_served nt (DepositReading r) s (Inr (Inl err)) s"

inductive deposit_own :: "world core_go \<Rightarrow> jstring \<Rightarrow> deposit_screen \<Rightarrow> deposit_screen \<Rightarrow> bool" for cg address where
  setAmount: "amount_form s \<Longrightarrow> deposit_own cg address s (s\<lparr>ds_amount := a\<rparr>)"
| starts: "build_button s \<Longrightarrow> deposit_own cg address s (deposit_start s)"
| build_answers: "ds_pending s = Some (DepositBuilding m a) \<Longrightarrow>
    buildDeposit cg address a w = (Inr res, w') \<Longrightarrow>
    deposit_own cg address s (deposit_answered m a res s)"
| changeAmount: "deposit_offer s \<noteq> None \<Longrightarrow> deposit_own cg address s (s\<lparr>ds_built := None\<rparr>)"
| checks: "truthy_value (ds_pendingHash s) \<Longrightarrow> ds_pending s = None \<Longrightarrow>
    deposit_own cg address s (s\<lparr>ds_pending := Some DepositChecking\<rparr>)"
| check_answers: "ds_pending s = Some DepositChecking \<Longrightarrow>
    deposit_own cg address s (s\<lparr>ds_pending := None, ds_failure := f\<rparr>)"
| rerendered: "deposit_own cg address s (s\<lparr>ds_shortfall := m\<rparr>)"


section \<open>The screen keeps the signing contract\<close>

definition built_by :: "world core_go \<Rightarrow> jstring \<Rightarrow> jstring \<Rightarrow> DepositBuilt \<Rightarrow> bool" where
  "built_by cg address amount b \<longleftrightarrow>
     (\<exists>w res w'. buildDeposit cg address amount w = (Inr res, w') \<and> result_ok res \<and> b = deposit_built_of res)"

definition deposit_good :: "world core_go \<Rightarrow> jstring \<Rightarrow> deposit_screen \<Rightarrow> bool" where
  "deposit_good cg address s \<longleftrightarrow>
     (\<forall>b. ds_built s = Some b \<longrightarrow> b \<in> (snd \<circ> snd) ` set (ds_builds s)) \<and>
     (\<forall>(m, a, b)\<in>set (ds_builds s). covers m a \<and> built_by cg address a b) \<and>
     (\<forall>m a. ds_pending s = Some (DepositBuilding m a) \<longrightarrow> covers m a)"

definition deposit_grows :: "deposit_screen \<Rightarrow> deposit_screen \<Rightarrow> bool" where
  "deposit_grows s s' \<longleftrightarrow>
     set (ds_builds s) \<subseteq> set (ds_builds s') \<and> set (ds_submits s) \<subseteq> set (ds_submits s')"

definition deposit_grounds :: "world core_go \<Rightarrow> jstring \<Rightarrow> deposit_screen \<Rightarrow> member_value \<times> DepositBuilt \<Rightarrow> bool" where
  "deposit_grounds cg address s p \<longleftrightarrow>
     fst p = db_unsignedTransactionXdr (snd p) \<and>
     (\<exists>m a. (m, a, snd p) \<in> set (ds_builds s) \<and> covers m a \<and> built_by cg address a (snd p))"

definition deposit_backed :: "deposit_screen \<Rightarrow> SignStepResult \<Rightarrow> bool" where
  "deposit_backed s r \<longleftrightarrow>
     (\<exists>t\<in>set (ds_submits s). result_ok (snd (snd t)) \<and> r = sign_result (snd (snd t)))"

fun deposit_task_ok :: "deposit_screen \<Rightarrow> deposit_stage \<Rightarrow> bool" where
  "deposit_task_ok s (DepositSubmitting op y) = True"
| "deposit_task_ok s (DepositReading r) = deposit_backed s r"

lemmas deposit_defs = deposit_good_def deposit_grows_def deposit_grounds_def deposit_backed_def

lemma deposit_backed_grows: "deposit_grows s s' \<Longrightarrow> deposit_backed s r \<Longrightarrow> deposit_backed s' r"
  unfolding deposit_backed_def deposit_grows_def by blast

lemma deposit_own_keeps:
  assumes "deposit_own cg address s s'"
  shows "deposit_grows s s'" and "deposit_good cg address s \<Longrightarrow> deposit_good cg address s'"
  using assms
  by (induction rule: deposit_own.induct)
    (auto simp: deposit_defs deposit_start_def build_button_def deposit_answered_def built_by_def)

lemma deposit_served_keeps:
  assumes "deposit_served nt j s r s'"
  shows "deposit_grows s s'" and "deposit_good cg address s \<Longrightarrow> deposit_good cg address s'"
    and "r = Inl j' \<Longrightarrow> deposit_task_ok s' j'"
    and "r = Inr (Inr q) \<Longrightarrow> deposit_task_ok s j \<Longrightarrow> deposit_backed s' q"
  using assms
  by (induction rule: deposit_served.induct)
    (auto simp: deposit_defs deposit_submitted_def deposit_read_def split: if_splits)

lemma deposit_offer_grounds:
  assumes "deposit_good cg address s" "deposit_offer s = Some p"
  shows "deposit_grounds cg address s p"
  using assms by (fastforce simp: deposit_defs deposit_offer_def split: option.splits if_splits)

interpretation deposit: signing_screen deposit_offer "deposit_own cg address" deposit_onSigned
    "deposit_served nt" "deposit_opens shortfall" deposit_grows "deposit_good cg address"
    "deposit_grounds cg address" deposit_task_ok deposit_backed
  for cg address nt shortfall
proof unfold_locales
  show "deposit_good cg address (deposit_opens shortfall)"
    by (simp add: deposit_good_def deposit_opens_def)
  show "deposit_task_ok s' j" if "deposit_grows s s'" "deposit_task_ok s j" for s s' j
    using that by (cases j) (auto intro: deposit_backed_grows)
  show "deposit_grounds cg address s' p" if "deposit_grows s s'" "deposit_grounds cg address s p" for s s' p
    using that unfolding deposit_grounds_def deposit_grows_def by blast
qed (auto intro: deposit_own_keeps deposit_served_keeps deposit_offer_grounds deposit_backed_grows
    simp: deposit_onSigned_def)


section \<open>Properties\<close>

text \<open>The prefilled amount can be built at once: it is the shortfall, read back exactly.\<close>

lemma prefilled_amount_covers:
  "0 < n \<Longrightarrow> build_button (deposit_opens (bigint_to_string n))"
  by (simp add: build_button_def amount_form_def deposit_opens_def covers_def parse_format StringToBigInt_digits)

text \<open>C11: The deposit step, whatever order its user, wallet and server act in: the wallet is only ever
  asked to sign transactions \<open>buildDeposit\<close> answered for an amount that covered the shortfall shown when
  it was built; every signed transaction is submitted under the operation of the very build it
  belongs to, at most once per request and with one call in flight per step; and it reads as confirmed only
  with a hash and status a submission answered.\<close>

theorem deposit_pairs_build_and_submit:
  assumes "sign_run deposit_offer (deposit_own cg address) deposit_onSigned (deposit_served nt)
    (deposit_opens shortfall) s g"
  shows "(\<forall>(x, b)\<in>set (sg_asked g). x = db_unsignedTransactionXdr b \<and>
            (\<exists>m a. built_by cg address a b \<and> (m, a, b) \<in> set (ds_builds s) \<and>
               (\<exists>n k. parseUsdcAmount a = Some n \<and> StringToBigInt m = Some k \<and> k \<le> int n)))
    \<and> (\<forall>(x, y, b)\<in>set (sg_sent g). x = db_unsignedTransactionXdr b \<and>
            deposit_onSigned b y = DepositSubmitting (db_opId b) y \<and> (x, b) \<in> set (sg_asked g))
    \<and> length (sg_sent g) + length (sg_wallet g) \<le> length (sg_asked g)
    \<and> distinct (map fst (sg_wallet g) @ map fst (sg_server g))
    \<and> (\<forall>r. sg_phase g = Confirmed r \<longrightarrow>
         (\<exists>t\<in>set (ds_submits s). result_ok (snd (snd t)) \<and> r = sign_result (snd (snd t))))"
proof (intro conjI)
  have covered: "\<exists>n k. parseUsdcAmount a = Some n \<and> StringToBigInt m = Some k \<and> k \<le> int n"
    if "covers m a" for m a
    using that by (auto simp: covers_def split: option.splits)
  have asked: "deposit_grounds cg address s p" if "p \<in> set (sg_asked g)" for p
    using assms that by (rule deposit.asked_grounds)
  show "\<forall>(x, b)\<in>set (sg_asked g). x = db_unsignedTransactionXdr b \<and>
            (\<exists>m a. built_by cg address a b \<and> (m, a, b) \<in> set (ds_builds s) \<and>
               (\<exists>n k. parseUsdcAmount a = Some n \<and> StringToBigInt m = Some k \<and> k \<le> int n))"
    using asked covered unfolding deposit_grounds_def by fastforce
  show "\<forall>(x, y, b)\<in>set (sg_sent g). x = db_unsignedTransactionXdr b \<and>
            deposit_onSigned b y = DepositSubmitting (db_opId b) y \<and> (x, b) \<in> set (sg_asked g)"
    using deposit.sent_asked [OF assms] asked unfolding deposit_grounds_def deposit_onSigned_def by fastforce
  show "length (sg_sent g) + length (sg_wallet g) \<le> length (sg_asked g)"
    using assms by (rule deposit.sent_once)
  show "distinct (map fst (sg_wallet g) @ map fst (sg_server g))"
    using sign_run_one_at_a_time [OF assms] unfolding one_at_a_time_def by simp
  show "\<forall>r. sg_phase g = Confirmed r \<longrightarrow>
         (\<exists>t\<in>set (ds_submits s). result_ok (snd (snd t)) \<and> r = sign_result (snd (snd t)))"
    using deposit.confirmed_backed [OF assms] unfolding deposit_backed_def by blast
qed

definition deposit_go :: "world core_go" where
  "deposit_go = answering_object [(js ''opId'', JStr (js ''o1'')), (js ''unsignedTransactionXdr'', JStr (js ''x1''))]"

definition deposit_res :: action_result where
  "deposit_res = ok_with [(js ''opId'', JStr (js ''o1'')), (js ''unsignedTransactionXdr'', JStr (js ''x1''))]"

lemma deposit_go_builds:
  "buildDeposit deposit_go (js ''GA'') a signed_in_world = (Inr deposit_res, signed_in_world)"
proof -
  have r: "request deposit_go POST path wallet body w
      = (Inr (JObj [(js ''opId'', JStr (js ''o1'')), (js ''unsignedTransactionXdr'', JStr (js ''x1''))]), w)"
    for path wallet body and w :: world
    unfolding deposit_go_def by (rule answering_object_request) (simp_all add: is_unit_def)
  have a: "session_address test_session = js ''GA''"
    by (simp add: session_address_def test_session_def test_wallet_def)
  have o: "ownAddress test_session (js ''GA'') = None"
    using a by (simp add: ownAddress_def session_address_def)
  show ?thesis
    using signed_in
    by (simp add: buildDeposit_def with_session_def o depositBuild_def core_path_def a encode_GA post_def r spread_def
        deposit_res_def failing_def await_def try_catch_def del: js_Cons)
qed

theorem deposit_pairs_build_and_submit_witness:
  "\<exists>s g. sign_run deposit_offer (deposit_own deposit_go (js ''GA'')) deposit_onSigned
       (deposit_served (\<lambda>_. [])) (deposit_opens (js ''5'')) s g \<and>
     fst (hd (sg_asked g)) = Some (JStr (js ''x1'')) \<and> sg_asked g \<noteq> [] \<and> length (sg_sent g) \<le> 1"
proof -
  let ?s0 = "deposit_opens (js ''5'')"
  let ?s1 = "deposit_start ?s0" and ?b = "deposit_built_of deposit_res"
  let ?s2 = "deposit_answered (js ''5'') (ds_amount ?s0) deposit_res ?s1"
  have "js ''5'' = bigint_to_string 5" by simp
  then have s1: "deposit_own deposit_go (js ''GA'') ?s0 ?s1"
    using prefilled_amount_covers [of 5] by (metis deposit_own.starts zero_less_numeral)
  have s2: "deposit_own deposit_go (js ''GA'') ?s1 ?s2"
    by (rule deposit_own.build_answers [OF _ deposit_go_builds]) (simp add: deposit_start_def deposit_opens_def)
  have none: "deposit_offer ?s0 = None" "deposit_offer ?s1 = None"
    by (simp_all add: deposit_offer_def deposit_opens_def deposit_start_def)
  have ok: "result_ok deposit_res" "result_member deposit_res ''unsignedTransactionXdr'' = Some (JStr (js ''x1''))"
    by (simp_all add: result_ok_def result_member_def deposit_res_def ok_with_def members_get_def)
  have off: "deposit_offer ?s2 = Some (Some (JStr (js ''x1'')), ?b)"
    using ok StringToBigInt_digits [of 5]
    by (simp add: deposit_offer_def deposit_answered_def deposit_start_def deposit_opens_def deposit_built_of_def)
  obtain g where g: "sign_run deposit_offer (deposit_own deposit_go (js ''GA'')) deposit_onSigned
      (deposit_served (\<lambda>_. [])) ?s0 ?s2 g" and asked: "sg_asked g = [(Some (JStr (js ''x1'')), ?b)]"
    using build_and_sign [of "deposit_own deposit_go (js ''GA'')", OF s1 s2 none off] by blast
  have "length (sg_sent g) \<le> length (sg_asked g)"
    using deposit_pairs_build_and_submit [OF g, THEN conjunct2, THEN conjunct2, THEN conjunct1]
    by (rule add_leD1)
  then show ?thesis
    by (intro exI [of _ ?s2] exI [of _ g] conjI) (rule g, simp_all add: asked del: js_Cons)
qed

end
