(* ===== verification/Fund_Screen.thy ===== *)
theory Fund_Screen
  imports Deposit_Screen
begin

text \<open>
  The funding screen, \<open>organizer/events/[id]/fund/fund-and-create.tsx\<close>: the organizer deposits until
  the balance covers the prizes, then signs \<open>create_event\<close>. \<open>fp_required\<close> is the page's own sum. A
  render in which \<open>BigInt(balance)\<close> throws shows nothing. The deposit step inside reaches this screen
  only through \<open>refreshBalance\<close>; it is theory \<open>Deposit_Screen\<close>.
\<close>

section \<open>State and handlers\<close>

record FundAndCreateProps =
  fp_eventId :: jstring
  fp_address :: jstring
  fp_initialBalance :: member_value
  fp_required :: jstring

record CreateBuilt =
  cb_unsignedTransactionXdr :: member_value
  cb_reward :: member_value
  cb_escrowEventId :: member_value

datatype fund_task = CreateBuilding | CreateChecking

text \<open>The last three fields are history: builds, answered submissions, answered status reads.\<close>

record fund_screen =
  fs_balance :: member_value
  fs_createBuilt :: "CreateBuilt option"
  fs_createFailure :: "action_result option"
  fs_createPending :: member_value
  fs_pending :: "fund_task option"
  fs_visited :: "jstring list"
  fs_builds :: "CreateBuilt list"
  fs_submits :: "action_result list"
  fs_reads :: "action_result list"

definition fund_opens :: "FundAndCreateProps \<Rightarrow> fund_screen" where
  "fund_opens p =
     \<lparr>fs_balance = fp_initialBalance p, fs_createBuilt = None, fs_createFailure = None,
      fs_createPending = Some JNull, fs_pending = None, fs_visited = [], fs_builds = [], fs_submits = [],
      fs_reads = []\<rparr>"

text \<open>\<open>shortfall > BigInt(0)\<close>; \<open>None\<close> when the render throws.\<close>

definition needsDeposit :: "(js_number \<Rightarrow> jstring) \<Rightarrow> FundAndCreateProps \<Rightarrow> fund_screen \<Rightarrow> bool option" where
  "needsDeposit nt p s =
     (case (StringToBigInt (fp_required p), js_BigInt nt (fs_balance s)) of
        (Some r, Some b) \<Rightarrow> Some (0 < r - b)
      | _ \<Rightarrow> None)"

definition rewardMismatch :: "FundAndCreateProps \<Rightarrow> CreateBuilt \<Rightarrow> bool" where
  "rewardMismatch p b \<longleftrightarrow> cb_reward b \<noteq> Some (JStr (fp_required p))"

definition fund_offer ::
    "(js_number \<Rightarrow> jstring) \<Rightarrow> FundAndCreateProps \<Rightarrow> fund_screen \<Rightarrow> (member_value \<times> CreateBuilt) option" where
  "fund_offer nt p s =
     (case fs_createBuilt s of
        None \<Rightarrow> None
      | Some b \<Rightarrow>
          if needsDeposit nt p s = Some False \<and> \<not> truthy_value (fs_createPending s) \<and> \<not> rewardMismatch p b
          then Some (cb_unsignedTransactionXdr b, b) else None)"

definition create_button :: "(js_number \<Rightarrow> jstring) \<Rightarrow> FundAndCreateProps \<Rightarrow> fund_screen \<Rightarrow> bool" where
  "create_button nt p s \<longleftrightarrow>
     needsDeposit nt p s = Some False \<and> fs_createBuilt s = None \<and> \<not> truthy_value (fs_createPending s) \<and>
     fs_pending s = None"

definition discard_button :: "(js_number \<Rightarrow> jstring) \<Rightarrow> FundAndCreateProps \<Rightarrow> fund_screen \<Rightarrow> bool" where
  "discard_button nt p s \<longleftrightarrow>
     needsDeposit nt p s = Some False \<and> fs_createBuilt s \<noteq> None \<and> \<not> truthy_value (fs_createPending s)"

definition check_button :: "(js_number \<Rightarrow> jstring) \<Rightarrow> FundAndCreateProps \<Rightarrow> fund_screen \<Rightarrow> bool" where
  "check_button nt p s \<longleftrightarrow>
     needsDeposit nt p s = Some False \<and> truthy_value (fs_createPending s) \<and> fs_pending s = None"

text \<open>\<open>refreshBalance\<close>: the failure goes back to the deposit step.\<close>

definition refreshBalance :: "action_result \<Rightarrow> fund_screen \<Rightarrow> action_result option \<times> fund_screen" where
  "refreshBalance res s =
     (if \<not> result_ok res then (Some res, s) else (None, s\<lparr>fs_balance := result_member res ''balance''\<rparr>))"

definition startCreate :: "fund_screen \<Rightarrow> fund_screen" where
  "startCreate s =
     s\<lparr>fs_createFailure := None, fs_createBuilt := None, fs_createPending := Some JNull,
       fs_pending := Some CreateBuilding\<rparr>"

definition create_built_of :: "action_result \<Rightarrow> CreateBuilt" where
  "create_built_of res =
     \<lparr>cb_unsignedTransactionXdr = result_member res ''unsignedTransactionXdr'',
      cb_reward = result_member res ''reward'', cb_escrowEventId = result_member res ''escrowEventId''\<rparr>"

definition create_answered :: "action_result \<Rightarrow> fund_screen \<Rightarrow> fund_screen" where
  "create_answered res s =
     (if result_ok res
      then s\<lparr>fs_pending := None, fs_createBuilt := Some (create_built_of res),
             fs_builds := fs_builds s @ [create_built_of res]\<rparr>
      else s\<lparr>fs_pending := None, fs_createFailure := Some res\<rparr>)"

definition event_route :: "jstring \<Rightarrow> jstring" where
  "event_route eventId = js ''/events/'' @ eventId"

definition router_push :: "FundAndCreateProps \<Rightarrow> fund_screen \<Rightarrow> fund_screen" where
  "router_push p s = s\<lparr>fs_visited := fs_visited s @ [event_route (fp_eventId p)]\<rparr>"

definition checkCreate :: "FundAndCreateProps \<Rightarrow> action_result \<Rightarrow> fund_screen \<Rightarrow> fund_screen" where
  "checkCreate p res s =
     (let s' = s\<lparr>fs_pending := None, fs_reads := fs_reads s @ [res]\<rparr> in
      if \<not> result_ok res then s'\<lparr>fs_createFailure := Some res\<rparr>
      else if result_member res ''status'' = Some (JStr (js ''CREATED'')) then router_push p s'
      else s')"

section \<open>onSigned\<close>

datatype fund_stage = CreateSubmitting member_value

definition onCreateSigned :: "CreateBuilt \<Rightarrow> member_value \<Rightarrow> fund_stage" where
  "onCreateSigned built signedXdr = CreateSubmitting signedXdr"

definition create_submitted ::
    "(js_number \<Rightarrow> jstring) \<Rightarrow> FundAndCreateProps \<Rightarrow> action_result \<Rightarrow> fund_screen \<Rightarrow>
     (fund_stage + (thrown + SignStepResult)) \<times> fund_screen" where
  "create_submitted nt p res s =
     (let s' = s\<lparr>fs_submits := fs_submits s @ [res]\<rparr> in
      if \<not> result_ok res then (Inr (Inl (result_error nt res)), s'\<lparr>fs_createFailure := Some res\<rparr>)
      else
        (Inr (Inr (sign_result res)),
         if succeeded res then router_push p (s'\<lparr>fs_createFailure := None\<rparr>)
         else s'\<lparr>fs_createFailure := None, fs_createPending := result_member res ''txHash''\<rparr>))"

inductive fund_served ::
    "(js_number \<Rightarrow> jstring) \<Rightarrow> FundAndCreateProps \<Rightarrow> fund_stage \<Rightarrow> fund_screen \<Rightarrow>
     fund_stage + (thrown + SignStepResult) \<Rightarrow> fund_screen \<Rightarrow> bool" for nt p where
  submit_answers: "create_submitted nt p res s = (r, s') \<Longrightarrow> fund_served nt p (CreateSubmitting y) s r s'"
| submit_throws: "fund_served nt p (CreateSubmitting y) s (Inr (Inl err)) s"

inductive fund_own ::
    "world core_go \<Rightarrow> (js_number \<Rightarrow> jstring) \<Rightarrow> FundAndCreateProps \<Rightarrow> fund_screen \<Rightarrow> fund_screen \<Rightarrow> bool"
  for cg nt p where
  starts: "create_button nt p s \<Longrightarrow> fund_own cg nt p s (startCreate s)"
| build_answers: "fs_pending s = Some CreateBuilding \<Longrightarrow>
    buildCreate cg nt (fp_eventId p) w = (Inr res, w') \<Longrightarrow> fund_own cg nt p s (create_answered res s)"
| discards: "discard_button nt p s \<Longrightarrow> fund_own cg nt p s (s\<lparr>fs_createBuilt := None\<rparr>)"
| checks: "check_button nt p s \<Longrightarrow> fund_own cg nt p s (s\<lparr>fs_pending := Some CreateChecking\<rparr>)"
| check_answers: "fs_pending s = Some CreateChecking \<Longrightarrow>
    readEventStatus (fp_eventId p) w = (Inr res, w') \<Longrightarrow> fund_own cg nt p s (checkCreate p res s)"
| deposits: "readBalance cg (fp_address p) w = (Inr res, w') \<Longrightarrow>
    fund_own cg nt p s (snd (refreshBalance res s))"


section \<open>The screen keeps the signing contract\<close>

definition create_built_by ::
    "world core_go \<Rightarrow> (js_number \<Rightarrow> jstring) \<Rightarrow> jstring \<Rightarrow> CreateBuilt \<Rightarrow> bool" where
  "create_built_by cg nt eventId b \<longleftrightarrow>
     (\<exists>w res w'. buildCreate cg nt eventId w = (Inr res, w') \<and> result_ok res \<and> b = create_built_of res)"

definition visit_earned :: "FundAndCreateProps \<Rightarrow> fund_screen \<Rightarrow> bool" where
  "visit_earned p s \<longleftrightarrow>
     fs_visited s = [] \<or>
     set (fs_visited s) = {event_route (fp_eventId p)} \<and>
     ((\<exists>res\<in>set (fs_submits s). result_ok res \<and> succeeded res) \<or>
      (\<exists>res\<in>set (fs_reads s). result_ok res \<and> result_member res ''status'' = Some (JStr (js ''CREATED''))))"

definition fund_good ::
    "world core_go \<Rightarrow> (js_number \<Rightarrow> jstring) \<Rightarrow> FundAndCreateProps \<Rightarrow> fund_screen \<Rightarrow> bool" where
  "fund_good cg nt p s \<longleftrightarrow>
     (\<forall>b. fs_createBuilt s = Some b \<longrightarrow> b \<in> set (fs_builds s)) \<and>
     (\<forall>b\<in>set (fs_builds s). create_built_by cg nt (fp_eventId p) b) \<and> visit_earned p s"

definition fund_grows :: "fund_screen \<Rightarrow> fund_screen \<Rightarrow> bool" where
  "fund_grows s s' \<longleftrightarrow> set (fs_builds s) \<subseteq> set (fs_builds s') \<and> set (fs_submits s) \<subseteq> set (fs_submits s')"

definition fund_grounds ::
    "world core_go \<Rightarrow> (js_number \<Rightarrow> jstring) \<Rightarrow> FundAndCreateProps \<Rightarrow> fund_screen \<Rightarrow>
     member_value \<times> CreateBuilt \<Rightarrow> bool" where
  "fund_grounds cg nt p s q \<longleftrightarrow>
     fst q = cb_unsignedTransactionXdr (snd q) \<and> cb_reward (snd q) = Some (JStr (fp_required p)) \<and>
     snd q \<in> set (fs_builds s) \<and> create_built_by cg nt (fp_eventId p) (snd q)"

definition fund_backed :: "fund_screen \<Rightarrow> SignStepResult \<Rightarrow> bool" where
  "fund_backed s r \<longleftrightarrow> (\<exists>res\<in>set (fs_submits s). result_ok res \<and> r = sign_result res)"

lemma visit_earned_push:
  "visit_earned p s \<Longrightarrow> \<exists>res\<in>set (fs_submits s). result_ok res \<and> succeeded res \<Longrightarrow> visit_earned p (router_push p s)"
  "visit_earned p s \<Longrightarrow> \<exists>res\<in>set (fs_reads s). result_ok res \<and> result_member res ''status'' = Some (JStr (js ''CREATED'')) \<Longrightarrow>
     visit_earned p (router_push p s)"
  by (auto simp: visit_earned_def router_push_def)

lemma visit_earned_more:
  "visit_earned p s \<Longrightarrow> fs_visited s' = fs_visited s \<Longrightarrow> set (fs_submits s) \<subseteq> set (fs_submits s') \<Longrightarrow>
     set (fs_reads s) \<subseteq> set (fs_reads s') \<Longrightarrow> visit_earned p s'"
  unfolding visit_earned_def by auto

lemma fund_own_keeps:
  assumes "fund_own cg nt p s s'"
  shows "fund_grows s s'" and "fund_good cg nt p s \<Longrightarrow> fund_good cg nt p s'"
proof -
  show "fund_grows s s'"
    using assms
    by (induction rule: fund_own.induct)
      (auto simp: fund_grows_def startCreate_def create_answered_def checkCreate_def router_push_def
        refreshBalance_def Let_def)
  show "fund_good cg nt p s'" if "fund_good cg nt p s"
    using assms that
  proof (induction rule: fund_own.induct)
    case (check_answers s w res w')
    let ?s = "s\<lparr>fs_pending := None, fs_reads := fs_reads s @ [res]\<rparr>"
    have v: "visit_earned p ?s" using check_answers by (auto simp: fund_good_def elim: visit_earned_more)
    then have "visit_earned p (checkCreate p res s)"
      by (auto simp: checkCreate_def Let_def simp del: js_Cons intro: visit_earned_push elim: visit_earned_more)
    then show ?case
      using check_answers.prems by (auto simp: fund_good_def checkCreate_def router_push_def Let_def)
  qed (auto simp: fund_good_def startCreate_def create_answered_def create_built_by_def refreshBalance_def
      elim: visit_earned_more)
qed

lemma fund_served_keeps:
  assumes "fund_served nt p j s r s'"
  shows "fund_grows s s'" and "fund_good cg nt p s \<Longrightarrow> fund_good cg nt p s'"
    and "r = Inr (Inr q) \<Longrightarrow> fund_backed s' q"
proof -
  show "fund_grows s s'" "r = Inr (Inr q) \<Longrightarrow> fund_backed s' q"
    using assms
    by (induction rule: fund_served.induct)
      (auto simp: fund_grows_def fund_backed_def create_submitted_def router_push_def Let_def split: if_splits)
  show "fund_good cg nt p s'" if "fund_good cg nt p s"
    using assms that
  proof (induction rule: fund_served.induct)
    case (submit_answers res s r s' y)
    let ?s = "s\<lparr>fs_submits := fs_submits s @ [res]\<rparr>"
    have v: "visit_earned p (?s\<lparr>fs_createFailure := f\<rparr>)" for f
      using submit_answers by (auto simp: fund_good_def elim: visit_earned_more)
    have "visit_earned p s'"
      using submit_answers.hyps v [of None] v [of "Some res"]
      by (auto simp: create_submitted_def Let_def simp del: js_Cons split: if_splits
          intro: visit_earned_push elim: visit_earned_more)
    then show ?case
      using submit_answers by (auto simp: fund_good_def create_submitted_def router_push_def Let_def split: if_splits)
  qed simp
qed

lemma fund_offer_grounds: "fund_good cg nt p s \<Longrightarrow> fund_offer nt p s = Some q \<Longrightarrow> fund_grounds cg nt p s q"
  by (auto simp: fund_good_def fund_grounds_def fund_offer_def rewardMismatch_def split: option.splits if_splits)

interpretation fund: signing_screen "fund_offer nt p" "fund_own cg nt p" onCreateSigned
    "fund_served nt p" "fund_opens p" fund_grows "fund_good cg nt p"
    "fund_grounds cg nt p" "\<lambda>_ _. True" fund_backed
  for cg nt p
proof unfold_locales
  show "fund_good cg nt p (fund_opens p)"
    by (simp add: fund_good_def visit_earned_def fund_opens_def)
  show "fund_grounds cg nt p s' q" if "fund_grows s s'" "fund_grounds cg nt p s q" for s s' q
    using that unfolding fund_grounds_def fund_grows_def by blast
  show "fund_backed s' r" if "fund_grows s s'" "fund_backed s r" for s s' r
    using that unfolding fund_backed_def fund_grows_def by blast
qed (auto intro: fund_own_keeps fund_served_keeps fund_offer_grounds)


section \<open>Properties\<close>

text \<open>What a build that succeeded hands to the screen is what Go answered, its reward as a text.\<close>

definition answered_member :: "json \<Rightarrow> string \<Rightarrow> member_value" where
  "answered_member v k = (case json_field v (js k) of Inr m \<Rightarrow> m | Inl e \<Rightarrow> None)"

definition go_built ::
    "world core_go \<Rightarrow> (js_number \<Rightarrow> jstring) \<Rightarrow> jstring \<Rightarrow> member_value \<Rightarrow> jstring \<Rightarrow> bool" where
  "go_built cg nt eventId xdr reward \<longleftrightarrow>
     (\<exists>session w go w'. createBuild cg eventId (session_address session) w = (Inr go, w') \<and>
        xdr = answered_member go ''unsignedTransactionXdr'' \<and>
        reward = (case answered_member go ''reward'' of None \<Rightarrow> js ''undefined'' | Some v \<Rightarrow> js_String nt v))"

lemma json_fields_member:
  assumes "json_fields v ks = Inr ms" "js k \<in> set ks"
  shows "members_get ms (js k) = answered_member v k"
proof -
  have ms: "ms = List.map_filter (\<lambda>k. case json_field v k of Inr (Some x) \<Rightarrow> Some (k, x) | _ \<Rightarrow> None) ks"
    using assms(1) by (auto simp: json_fields_def split: if_splits)
  let ?g = "\<lambda>k. case json_field v k of Inr (Some x) \<Rightarrow> Some (k, x) | _ \<Rightarrow> None"
  have "map_of (rev (List.map_filter ?g ks)) (js k) = (case json_field v (js k) of Inr m \<Rightarrow> m | Inl e \<Rightarrow> None)"
    if "js k \<in> set ks" for ks
    using that
  proof (induction ks rule: rev_induct)
    case (snoc q ks)
    have app: "List.map_filter ?g (ks @ [q]) = List.map_filter ?g ks @ (case ?g q of None \<Rightarrow> [] | Some y \<Rightarrow> [y])"
      by (induction ks) (simp_all add: List.map_filter_simps split: option.splits sum.splits)
    show ?case
    proof (cases "js k \<in> set ks")
      case True
      then show ?thesis using snoc.IH unfolding app by (auto split: sum.splits option.splits)
    next
      case False
      then have "q = js k" using snoc.prems by simp
      moreover have "map_of (rev (List.map_filter ?g ks)) (js k) = None"
        using False by (auto simp: map_of_eq_None_iff List.map_filter_def split: sum.splits option.splits)
      ultimately show ?thesis unfolding app by (auto split: sum.splits option.splits)
    qed
  qed simp
  with assms(2) ms show ?thesis unfolding members_get_def answered_member_def by blast
qed

lemma buildCreate_answers:
  assumes "buildCreate cg nt eventId w = (Inr (Answer ms), w')"
  shows "\<exists>session w1 go w2 fields. createBuild cg eventId (session_address session) w1 = (Inr go, w2) \<and>
    json_fields go [js ''unsignedTransactionXdr'', js ''escrowEventId''] = Inr fields \<and>
    ms = (js ''ok'', JBool True) # fields @ [string_member nt go (js ''reward'')]"
  using assms
  by (auto simp: buildCreate_def with_session_def failing_def ok_with_def await_def try_catch_def lift_result_def
      simp del: js_Cons
      split: option.splits prod.splits sum.splits)

lemma create_built_by_go:
  assumes "create_built_by cg nt eventId b"
  obtains reward where "go_built cg nt eventId (cb_unsignedTransactionXdr b) reward" "cb_reward b = Some (JStr reward)"
proof -
  obtain w res w' where r: "buildCreate cg nt eventId w = (Inr res, w')" "result_ok res"
    and b: "b = create_built_of res"
    using assms unfolding create_built_by_def by blast
  obtain ms where ms: "res = Answer ms"
    using r(2) by (cases res) (auto simp: result_ok_def result_member_def)
  obtain session w1 go w2 fields where go: "createBuild cg eventId (session_address session) w1 = (Inr go, w2)"
    and fields: "json_fields go [js ''unsignedTransactionXdr'', js ''escrowEventId''] = Inr fields"
    and m: "ms = (js ''ok'', JBool True) # fields @ [string_member nt go (js ''reward'')]"
    using buildCreate_answers [OF r(1) [unfolded ms]] by blast
  have "members_get fields (js ''unsignedTransactionXdr'') = answered_member go ''unsignedTransactionXdr''"
    using fields by (rule json_fields_member) simp
  then have "cb_unsignedTransactionXdr b = answered_member go ''unsignedTransactionXdr''"
    unfolding b ms m create_built_of_def result_member_def members_get_def
    by (simp add: string_member_def map_add_def split: option.splits)
  moreover have "cb_reward b = Some (JStr (case answered_member go ''reward'' of None \<Rightarrow> js ''undefined''
      | Some v \<Rightarrow> js_String nt v))"
    unfolding b ms m create_built_of_def result_member_def members_get_def string_member_def answered_member_def
    by (simp split: option.splits sum.splits)
  ultimately show ?thesis using go that unfolding go_built_def by blast
qed

lemma fund_asked_go:
  assumes "sign_run (fund_offer nt p) (fund_own cg nt p) onCreateSigned (fund_served nt p) (fund_opens p) s g"
    and "(x, b) \<in> set (sg_asked g)"
  shows "go_built cg nt (fp_eventId p) x (fp_required p)"
proof -
  from assms have "fund_grounds cg nt p s (x, b)" by (rule fund.asked_grounds)
  then have x: "x = cb_unsignedTransactionXdr b" and r: "cb_reward b = Some (JStr (fp_required p))"
    and b: "create_built_by cg nt (fp_eventId p) b"
    by (simp_all add: fund_grounds_def)
  from b obtain reward where "go_built cg nt (fp_eventId p) (cb_unsignedTransactionXdr b) reward"
    "cb_reward b = Some (JStr reward)" by (rule create_built_by_go)
  with r show ?thesis unfolding x by simp
qed

text \<open>C8: The funding screen, whatever order its user, wallet and server act in: the wallet is only ever
  asked to sign a transaction Go built for this event with a reward that, printed, is the very sum the
  page required; what is submitted was asked for, at most once per request; the screen reads as confirmed only
  with a hash and status a submission answered; and it leaves for the event's page only after Go
  said the submission succeeded, or the stored status read CREATED.\<close>

theorem fund_signs_the_required_reward:
  assumes "sign_run (fund_offer nt p) (fund_own cg nt p) onCreateSigned (fund_served nt p) (fund_opens p) s g"
  shows "(\<forall>(x, b)\<in>set (sg_asked g). go_built cg nt (fp_eventId p) x (fp_required p))
    \<and> (\<forall>(x, y, b)\<in>set (sg_sent g). (x, b) \<in> set (sg_asked g))
    \<and> length (sg_sent g) + length (sg_wallet g) \<le> length (sg_asked g)
    \<and> (\<forall>r. sg_phase g = Confirmed r \<longrightarrow> (\<exists>res\<in>set (fs_submits s). result_ok res \<and> r = sign_result res))
    \<and> (fs_visited s \<noteq> [] \<longrightarrow> set (fs_visited s) = {event_route (fp_eventId p)} \<and>
         ((\<exists>res\<in>set (fs_submits s). result_ok res \<and> succeeded res) \<or>
          (\<exists>res\<in>set (fs_reads s). result_ok res \<and> result_member res ''status'' = Some (JStr (js ''CREATED'')))))"
proof (intro conjI)
  show "\<forall>(x, b)\<in>set (sg_asked g). go_built cg nt (fp_eventId p) x (fp_required p)"
    using fund_asked_go [OF assms] by blast
  show "\<forall>(x, y, b)\<in>set (sg_sent g). (x, b) \<in> set (sg_asked g)"
    using fund.sent_asked [OF assms] by blast
  show "length (sg_sent g) + length (sg_wallet g) \<le> length (sg_asked g)"
    using assms by (rule fund.sent_once)
  show "\<forall>r. sg_phase g = Confirmed r \<longrightarrow> (\<exists>res\<in>set (fs_submits s). result_ok res \<and> r = sign_result res)"
    using fund.confirmed_backed [OF assms] unfolding fund_backed_def by blast
  show "fs_visited s \<noteq> [] \<longrightarrow> set (fs_visited s) = {event_route (fp_eventId p)} \<and>
         ((\<exists>res\<in>set (fs_submits s). result_ok res \<and> succeeded res) \<or>
          (\<exists>res\<in>set (fs_reads s). result_ok res \<and> result_member res ''status'' = Some (JStr (js ''CREATED''))))"
    using fund.run_good [OF assms] unfolding fund_good_def visit_earned_def by blast
qed


definition fund_go :: "world core_go" where
  "fund_go = answering_object [(js ''unsignedTransactionXdr'', JStr (js ''x1'')), (js ''reward'', JStr (js ''5''))]"

definition fund_props :: FundAndCreateProps where
  "fund_props = \<lparr>fp_eventId = js ''GA'', fp_address = js ''GA'', fp_initialBalance = Some (JStr (js ''5'')),
     fp_required = js ''5''\<rparr>"

definition fund_res :: action_result where
  "fund_res = ok_with [(js ''unsignedTransactionXdr'', JStr (js ''x1'')), (js ''reward'', JStr (js ''5''))]"

lemma fund_go_builds: "buildCreate fund_go nt (js ''GA'') signed_in_world = (Inr fund_res, signed_in_world)"
proof -
  have r: "request fund_go POST path wallet body w
      = (Inr (JObj [(js ''unsignedTransactionXdr'', JStr (js ''x1'')), (js ''reward'', JStr (js ''5''))]), w)"
    for path wallet body and w :: world
    unfolding fund_go_def by (rule answering_object_request) (simp_all add: is_unit_def)
  have f: "json_fields (JObj [(js ''unsignedTransactionXdr'', JStr (js ''x1'')), (js ''reward'', JStr (js ''5''))])
      [js ''unsignedTransactionXdr'', js ''escrowEventId''] = Inr [(js ''unsignedTransactionXdr'', JStr (js ''x1''))]"
    by (simp add: json_fields_def json_field_def members_get_def List.map_filter_simps)
  have m: "string_member nt (JObj [(js ''unsignedTransactionXdr'', JStr (js ''x1'')), (js ''reward'', JStr (js ''5''))])
      (js ''reward'') = (js ''reward'', JStr (js ''5''))"
    by (simp add: string_member_def json_field_def members_get_def)
  show ?thesis
    using signed_in
    by (simp add: buildCreate_def with_session_def createBuild_def core_path_def encode_GA post_def r f m fund_res_def
        failing_def await_def try_catch_def del: js_Cons)
qed

theorem fund_signs_the_required_reward_witness:
  "\<exists>s g. sign_run (fund_offer (\<lambda>_. []) fund_props) (fund_own fund_go (\<lambda>_. []) fund_props) onCreateSigned
       (fund_served (\<lambda>_. []) fund_props) (fund_opens fund_props) s g \<and>
     sg_asked g \<noteq> [] \<and> go_built fund_go (\<lambda>_. []) (js ''GA'') (fst (hd (sg_asked g))) (js ''5'')"
proof -
  let ?nt = "\<lambda>_::js_number. [] :: jstring" and ?p = fund_props
  let ?own = "fund_own fund_go ?nt ?p" and ?s0 = "fund_opens ?p" and ?s1 = "startCreate (fund_opens ?p)"
  let ?s2 = "create_answered fund_res ?s1" and ?b = "create_built_of fund_res"
  have "StringToBigInt (js ''5'') = Some 5" using StringToBigInt_digits [of 5] by simp
  then have need: "needsDeposit ?nt ?p s = Some False" if "fs_balance s = Some (JStr (js ''5''))" for s
    using that by (simp add: needsDeposit_def fund_props_def del: js_Cons)
  have s1: "?own ?s0 ?s1"
    using need [of ?s0] by (intro fund_own.starts) (simp add: create_button_def fund_opens_def fund_props_def)
  have "buildCreate fund_go ?nt (fp_eventId ?p) signed_in_world = (Inr fund_res, signed_in_world)"
    using fund_go_builds [of ?nt] by (simp add: fund_props_def del: js_Cons)
  then have s2: "?own ?s1 ?s2" by (rule fund_own.build_answers [rotated]) (simp add: startCreate_def)
  have none: "fund_offer ?nt ?p ?s0 = None" "fund_offer ?nt ?p ?s1 = None"
    by (simp_all add: fund_offer_def fund_opens_def startCreate_def)
  have ok: "result_ok fund_res" "result_member fund_res ''reward'' = Some (JStr (js ''5''))"
    by (simp_all add: result_ok_def result_member_def fund_res_def ok_with_def members_get_def)
  have off: "fund_offer ?nt ?p ?s2 = Some (cb_unsignedTransactionXdr ?b, ?b)"
    using ok need [of ?s2]
    by (simp add: fund_offer_def create_answered_def startCreate_def fund_opens_def rewardMismatch_def
        create_built_of_def fund_props_def del: js_Cons)
  obtain g where g: "sign_run (fund_offer ?nt ?p) ?own onCreateSigned (fund_served ?nt ?p) ?s0 ?s2 g"
    and asked: "sg_asked g = [(cb_unsignedTransactionXdr ?b, ?b)]"
    using build_and_sign [of ?own, OF s1 s2 none off] by blast
  have "go_built fund_go ?nt (js ''GA'') (fst (hd (sg_asked g))) (js ''5'')"
    using fund_signs_the_required_reward [OF g, THEN conjunct1]
    unfolding asked by (simp add: fund_props_def del: js_Cons)
  then show ?thesis
    by (intro exI [of _ ?s2] exI [of _ g] conjI) (rule g, simp_all add: asked del: js_Cons)
qed

end
