(* ===== verification/Start_Screen.thy ===== *)
theory Start_Screen
  imports Deposit_Screen
begin

text \<open>
  The go-live screen, \<open>organizer/events/[id]/start/go-live.tsx\<close>: the quote decides whether the deposit
  step shows, then the organizer signs \<open>set_event_in_progress\<close>. \<open>handleFailure\<close> runs up to its \<open>await\<close>,
  inside the transition of \<open>start\<close> or inside \<open>onSigned\<close>, and goes on when the quote or the status is
  read: a \<open>follow_up\<close>.
\<close>

section \<open>State and handlers\<close>

record Quote =
  q_fee :: member_value
  q_balance :: member_value
  q_shortfall :: member_value

record StartBuilt =
  sb_unsignedTransactionXdr :: member_value
  sb_judgingDeadline :: member_value
  sb_fee :: member_value

datatype follow_up = Refresh_after action_result | Check_after action_result

datatype start_task = StartBuilding | StartFollowing follow_up | StartChecking

text \<open>The last two fields are history: answered submissions, and answered status reads, each with the
  server's state it was read in.\<close>

record start_screen =
  ss_quote :: Quote
  ss_built :: "StartBuilt option"
  ss_failure :: "action_result option"
  ss_submitted :: "SignStepResult option"
  ss_pending :: "start_task option"
  ss_visited :: "jstring list"
  ss_submits :: "action_result list"
  ss_reads :: "(world \<times> action_result) list"

definition start_opens :: "Quote \<Rightarrow> start_screen" where
  "start_opens initialQuote =
     \<lparr>ss_quote = initialQuote, ss_built = None, ss_failure = None, ss_submitted = None, ss_pending = None,
      ss_visited = [], ss_submits = [], ss_reads = []\<rparr>"

definition shortfall_left :: "(js_number \<Rightarrow> jstring) \<Rightarrow> start_screen \<Rightarrow> bool option" where
  "shortfall_left nt s = map_option (\<lambda>n. 0 < n) (js_BigInt nt (q_shortfall (ss_quote s)))"

definition has_code :: "action_result \<Rightarrow> string \<Rightarrow> bool" where
  "has_code f c \<longleftrightarrow> result_member f ''code'' = Some (JStr (js c))"

definition DEADLINE_CODES :: "action_result \<Rightarrow> bool" where
  "DEADLINE_CODES f \<longleftrightarrow> has_code f ''deadline_missing'' \<or> has_code f ''deadline_past''"

definition deadlineBlocked :: "start_screen \<Rightarrow> bool" where
  "deadlineBlocked s \<longleftrightarrow> (case ss_failure s of None \<Rightarrow> False | Some f \<Rightarrow> DEADLINE_CODES f)"

definition start_offer :: "(js_number \<Rightarrow> jstring) \<Rightarrow> start_screen \<Rightarrow> (member_value \<times> StartBuilt) option" where
  "start_offer nt s =
     (case ss_built s of
        None \<Rightarrow> None
      | Some b \<Rightarrow>
          if shortfall_left nt s = Some False \<and> ss_submitted s = None
          then Some (sb_unsignedTransactionXdr b, b) else None)"

definition start_button :: "(js_number \<Rightarrow> jstring) \<Rightarrow> start_screen \<Rightarrow> bool" where
  "start_button nt s \<longleftrightarrow>
     shortfall_left nt s = Some False \<and> ss_built s = None \<and> ss_submitted s = None \<and> \<not> deadlineBlocked s \<and>
     ss_pending s = None"

definition quote_of :: "action_result \<Rightarrow> Quote" where
  "quote_of res =
     \<lparr>q_fee = result_member res ''fee'', q_balance = result_member res ''balance'',
      q_shortfall = result_member res ''shortfall''\<rparr>"

definition refreshQuote :: "action_result \<Rightarrow> start_screen \<Rightarrow> action_result option \<times> start_screen" where
  "refreshQuote res s =
     (if \<not> result_ok res then (Some res, s) else (None, s\<lparr>ss_quote := quote_of res\<rparr>))"

definition checkLive :: "jstring \<Rightarrow> action_result \<Rightarrow> start_screen \<Rightarrow> bool \<times> start_screen" where
  "checkLive eventId res s =
     (if \<not> result_ok res then (False, s\<lparr>ss_failure := Some res\<rparr>)
      else if result_member res ''status'' = Some (JStr (js ''LIVE''))
      then (True, s\<lparr>ss_visited := ss_visited s @ [js ''/events/'' @ eventId]\<rparr>)
      else (False, s))"

definition handleFailure :: "action_result \<Rightarrow> start_screen \<Rightarrow> follow_up option \<times> start_screen" where
  "handleFailure f s =
     (if has_code f ''insufficient_balance'' then (Some (Refresh_after f), s\<lparr>ss_built := None\<rparr>)
      else if has_code f ''event_not_created'' \<or> has_code f ''start_already_succeeded''
      then (Some (Check_after f), s\<lparr>ss_built := None\<rparr>)
      else if has_code f ''no_pending_start'' \<or> has_code f ''start_build_replaced''
      then (None, s\<lparr>ss_built := None, ss_failure := Some f\<rparr>)
      else (None, s\<lparr>ss_failure := Some f\<rparr>))"

text \<open>\<open>setFailure(quoteFailure ?? f)\<close>, and \<open>if (!(await checkLive())) setFailure(f)\<close>.\<close>

definition quote_followed :: "action_result \<Rightarrow> action_result \<Rightarrow> start_screen \<Rightarrow> start_screen" where
  "quote_followed f res s =
     (case refreshQuote res s of
        (Some e, s') \<Rightarrow> s'\<lparr>ss_failure := Some e\<rparr>
      | (None, s') \<Rightarrow> s'\<lparr>ss_failure := Some f\<rparr>)"

definition status_followed :: "jstring \<Rightarrow> action_result \<Rightarrow> action_result \<Rightarrow> start_screen \<Rightarrow> start_screen" where
  "status_followed eventId f res s =
     (case checkLive eventId res s of
        (live, s') \<Rightarrow> if live then s' else s'\<lparr>ss_failure := Some f\<rparr>)"

definition go_start :: "start_screen \<Rightarrow> start_screen" where
  "go_start s =
     s\<lparr>ss_failure := None, ss_built := None, ss_submitted := None, ss_pending := Some StartBuilding\<rparr>"

definition start_built_of :: "action_result \<Rightarrow> StartBuilt" where
  "start_built_of res =
     \<lparr>sb_unsignedTransactionXdr = result_member res ''unsignedTransactionXdr'',
      sb_judgingDeadline = result_member res ''judgingDeadline'', sb_fee = result_member res ''fee''\<rparr>"

definition start_answered :: "action_result \<Rightarrow> start_screen \<Rightarrow> start_screen" where
  "start_answered res s =
     (if result_ok res then s\<lparr>ss_pending := None, ss_built := Some (start_built_of res)\<rparr>
      else
        (case handleFailure res s of
           (follow, s') \<Rightarrow> s'\<lparr>ss_pending := map_option StartFollowing follow\<rparr>))"

section \<open>onSigned\<close>

datatype start_stage =
    StartSubmitting member_value
  | StartFollowUp follow_up
  | StartConfirming SignStepResult

definition start_onSigned :: "StartBuilt \<Rightarrow> member_value \<Rightarrow> start_stage" where
  "start_onSigned built signedXdr = StartSubmitting signedXdr"

definition start_submitted ::
    "(js_number \<Rightarrow> jstring) \<Rightarrow> action_result \<Rightarrow> start_screen \<Rightarrow>
     (start_stage + (thrown + SignStepResult)) \<times> start_screen" where
  "start_submitted nt res s =
     (let s' = s\<lparr>ss_submits := ss_submits s @ [res]\<rparr> in
      if \<not> result_ok res then
        (case handleFailure res s' of
           (None, t) \<Rightarrow> (Inr (Inl (result_error nt res)), t)
         | (Some u, t) \<Rightarrow> (Inl (StartFollowUp u), t))
      else
        (if succeeded res then Inl (StartConfirming (sign_result res)) else Inr (Inr (sign_result res)),
         s'\<lparr>ss_failure := None, ss_submitted := Some (sign_result res)\<rparr>))"

text \<open>\<open>await readEventStatus(eventId)\<close> is answered.\<close>

definition status_read :: "world \<Rightarrow> action_result \<Rightarrow> start_screen \<Rightarrow> start_screen" where
  "status_read w res s = s\<lparr>ss_reads := ss_reads s @ [(w, res)]\<rparr>"

inductive start_served ::
    "world core_go \<Rightarrow> (js_number \<Rightarrow> jstring) \<Rightarrow> jstring \<Rightarrow> start_stage \<Rightarrow> start_screen \<Rightarrow>
     start_stage + (thrown + SignStepResult) \<Rightarrow> start_screen \<Rightarrow> bool" for cg nt eventId where
  submit_answers: "start_submitted nt res s = (r, s') \<Longrightarrow> start_served cg nt eventId (StartSubmitting y) s r s'"
| quote_answers: "readQuote cg eventId w = (Inr res, w') \<Longrightarrow>
    start_served cg nt eventId (StartFollowUp (Refresh_after f)) s (Inr (Inl (result_error nt f)))
      (quote_followed f res s)"
| status_answers: "readEventStatus eventId w = (Inr res, w') \<Longrightarrow>
    start_served cg nt eventId (StartFollowUp (Check_after f)) s (Inr (Inl (result_error nt f)))
      (status_followed eventId f res (status_read w res s))"
| live_answers: "readEventStatus eventId w = (Inr res, w') \<Longrightarrow>
    start_served cg nt eventId (StartConfirming r) s (Inr (Inr r))
      (snd (checkLive eventId res (status_read w res s)))"
| throws: "start_served cg nt eventId j s (Inr (Inl err)) s"

inductive start_own ::
    "world core_go \<Rightarrow> (js_number \<Rightarrow> jstring) \<Rightarrow> jstring \<Rightarrow> start_screen \<Rightarrow> start_screen \<Rightarrow> bool"
  for cg nt eventId where
  starts: "start_button nt s \<Longrightarrow> start_own cg nt eventId s (go_start s)"
| build_answers: "ss_pending s = Some StartBuilding \<Longrightarrow> buildStart cg nt eventId w = (Inr res, w') \<Longrightarrow>
    start_own cg nt eventId s (start_answered res s)"
| quote_follows: "ss_pending s = Some (StartFollowing (Refresh_after f)) \<Longrightarrow>
    readQuote cg eventId w = (Inr res, w') \<Longrightarrow>
    start_own cg nt eventId s ((quote_followed f res s)\<lparr>ss_pending := None\<rparr>)"
| status_follows: "ss_pending s = Some (StartFollowing (Check_after f)) \<Longrightarrow>
    readEventStatus eventId w = (Inr res, w') \<Longrightarrow>
    start_own cg nt eventId s ((status_followed eventId f res (status_read w res s))\<lparr>ss_pending := None\<rparr>)"
| discards: "start_offer nt s \<noteq> None \<Longrightarrow> start_own cg nt eventId s (s\<lparr>ss_built := None\<rparr>)"
| checks: "shortfall_left nt s = Some False \<Longrightarrow> ss_submitted s \<noteq> None \<Longrightarrow> ss_pending s = None \<Longrightarrow>
    start_own cg nt eventId s (s\<lparr>ss_pending := Some StartChecking\<rparr>)"
| check_answers: "ss_pending s = Some StartChecking \<Longrightarrow> readEventStatus eventId w = (Inr res, w') \<Longrightarrow>
    start_own cg nt eventId s ((snd (checkLive eventId res (status_read w res s)))\<lparr>ss_pending := None\<rparr>)"
| deposits: "readQuote cg eventId w = (Inr res, w') \<Longrightarrow>
    start_own cg nt eventId s (snd (refreshQuote res s))"


section \<open>The screen keeps the signing contract\<close>

definition start_built_by ::
    "world core_go \<Rightarrow> (js_number \<Rightarrow> jstring) \<Rightarrow> jstring \<Rightarrow> StartBuilt \<Rightarrow> bool" where
  "start_built_by cg nt eventId b \<longleftrightarrow>
     (\<exists>w res w'. buildStart cg nt eventId w = (Inr res, w') \<and> result_ok res \<and> b = start_built_of res)"

definition says_live :: "action_result \<Rightarrow> bool" where
  "says_live res \<longleftrightarrow> result_ok res \<and> result_member res ''status'' = Some (JStr (js ''LIVE''))"

text \<open>The screen left once for every read that answered LIVE, and never else; and its reads are answers
  of the server.\<close>

definition visits_of :: "jstring \<Rightarrow> (world \<times> action_result) list \<Rightarrow> jstring list" where
  "visits_of eventId reads = map (\<lambda>_. js ''/events/'' @ eventId) (filter (says_live \<circ> snd) reads)"

definition reads_answered :: "jstring \<Rightarrow> start_screen \<Rightarrow> bool" where
  "reads_answered eventId s \<longleftrightarrow>
     (\<forall>(w, res)\<in>set (ss_reads s). fst (readEventStatus eventId w) = Inr res)"

definition start_backed :: "start_screen \<Rightarrow> SignStepResult \<Rightarrow> bool" where
  "start_backed s r \<longleftrightarrow> (\<exists>res\<in>set (ss_submits s). result_ok res \<and> r = sign_result res)"

definition start_good ::
    "world core_go \<Rightarrow> (js_number \<Rightarrow> jstring) \<Rightarrow> jstring \<Rightarrow> start_screen \<Rightarrow> bool" where
  "start_good cg nt eventId s \<longleftrightarrow>
     (\<forall>b. ss_built s = Some b \<longrightarrow> start_built_by cg nt eventId b) \<and>
     (\<forall>r. ss_submitted s = Some r \<longrightarrow> start_backed s r) \<and>
     ss_visited s = visits_of eventId (ss_reads s) \<and> reads_answered eventId s"

definition start_grows :: "start_screen \<Rightarrow> start_screen \<Rightarrow> bool" where
  "start_grows s s' \<longleftrightarrow> set (ss_submits s) \<subseteq> set (ss_submits s')"

definition start_grounds ::
    "world core_go \<Rightarrow> (js_number \<Rightarrow> jstring) \<Rightarrow> jstring \<Rightarrow> start_screen \<Rightarrow> member_value \<times> StartBuilt \<Rightarrow> bool" where
  "start_grounds cg nt eventId s q \<longleftrightarrow>
     fst q = sb_unsignedTransactionXdr (snd q) \<and> start_built_by cg nt eventId (snd q)"

fun start_task_ok :: "start_screen \<Rightarrow> start_stage \<Rightarrow> bool" where
  "start_task_ok s (StartConfirming r) = start_backed s r"
| "start_task_ok s j = True"

lemma start_backed_grows: "start_grows s s' \<Longrightarrow> start_backed s r \<Longrightarrow> start_backed s' r"
  unfolding start_grows_def start_backed_def by blast

text \<open>The handlers that read the quote or the status: what they leave alone, and what they keep.\<close>

lemma checkLive_good:
  assumes "readEventStatus eventId w = (Inr res, w')" "start_good cg nt eventId s"
  shows "start_good cg nt eventId (snd (checkLive eventId res (status_read w res s)))"
    and "ss_submits (snd (checkLive eventId res (status_read w res s))) = ss_submits s"
    and "start_good cg nt eventId (snd (checkLive eventId res (status_read w res s))\<lparr>ss_failure := f\<rparr>)"
  using assms
  by (auto simp: checkLive_def start_good_def start_backed_def status_read_def visits_of_def says_live_def
      reads_answered_def simp del: js_Cons)

lemma start_good_frame:
  assumes g: "start_good cg nt eventId s"
    and b: "ss_built s' = ss_built s \<or> ss_built s' = None"
    and t: "ss_submitted s' = ss_submitted s \<or> ss_submitted s' = None"
    and v: "ss_visited s' = ss_visited s" "ss_reads s' = ss_reads s" and l: "set (ss_submits s) \<subseteq> set (ss_submits s')"
  shows "start_good cg nt eventId s'"
proof -
  have m: "start_backed s' r" if "start_backed s r" for r
    using l that by (intro start_backed_grows [of s s']) (simp_all add: start_grows_def)
  have "\<forall>c. ss_built s' = Some c \<longrightarrow> start_built_by cg nt eventId c"
    using g b unfolding start_good_def by (elim disjE) simp_all
  moreover have "\<forall>r. ss_submitted s' = Some r \<longrightarrow> start_backed s' r"
    using g t m unfolding start_good_def by (elim disjE) simp_all
  ultimately show ?thesis using g v unfolding start_good_def reads_answered_def by simp
qed

lemma handleFailure_good:
  "start_good cg nt eventId s \<Longrightarrow> start_good cg nt eventId (snd (handleFailure f s))"
  by (erule start_good_frame) (simp_all add: handleFailure_def)

lemma handleFailure_submits [simp]: "ss_submits (snd (handleFailure f s)) = ss_submits s"
  by (simp add: handleFailure_def)

lemma quote_followed_good:
  "start_good cg nt eventId s \<Longrightarrow> start_good cg nt eventId (quote_followed f res s)"
  "ss_submits (quote_followed f res s) = ss_submits s"
  by (erule start_good_frame, simp_all add: quote_followed_def refreshQuote_def)

lemma status_followed_good:
  assumes "readEventStatus eventId w = (Inr res, w')" "start_good cg nt eventId s"
  shows "start_good cg nt eventId (status_followed eventId f res (status_read w res s))"
    and "ss_submits (status_followed eventId f res (status_read w res s)) = ss_submits s"
  using checkLive_good [OF assms] by (auto simp: status_followed_def split: prod.splits)


lemma start_good_pending [simp]: "start_good cg nt eventId (s\<lparr>ss_pending := u\<rparr>) = start_good cg nt eventId s"
  by (simp add: start_good_def start_backed_def reads_answered_def)

lemma start_good_built:
  "start_good cg nt eventId s \<Longrightarrow> start_built_by cg nt eventId b \<Longrightarrow>
     start_good cg nt eventId (s\<lparr>ss_built := Some b\<rparr>)"
  by (simp add: start_good_def start_backed_def reads_answered_def)

lemma handleFailure_parts:
  assumes "handleFailure f s = (u, t)"
  shows "ss_submits t = ss_submits s" and "start_good cg nt eventId s \<Longrightarrow> start_good cg nt eventId t"
  using handleFailure_submits [of f s] handleFailure_good [of cg nt eventId s f] assms by simp_all

lemma start_answered_good:
  assumes "buildStart cg nt eventId w = (Inr res, w')" "start_good cg nt eventId s"
  shows "start_good cg nt eventId (start_answered res s)"
    and "ss_submits (start_answered res s) = ss_submits s"
proof -
  have b: "start_built_by cg nt eventId (start_built_of res)" if "result_ok res"
    using assms(1) that unfolding start_built_by_def by blast
  obtain u t where u: "handleFailure res s = (u, t)" by fastforce
  show "start_good cg nt eventId (start_answered res s)"
    using b start_good_built [of cg nt eventId "s\<lparr>ss_pending := None\<rparr>"] assms(2)
      handleFailure_parts(2) [OF u assms(2)]
    by (simp add: start_answered_def u)
  show "ss_submits (start_answered res s) = ss_submits s"
    using handleFailure_parts(1) [OF u] by (simp add: start_answered_def u)
qed

lemma start_own_keeps:
  assumes "start_own cg nt eventId s s'"
  shows "start_grows s s'" and "start_good cg nt eventId s \<Longrightarrow> start_good cg nt eventId s'"
proof -
  show "start_good cg nt eventId s'" if g: "start_good cg nt eventId s"
    using assms
  proof cases
    case (build_answers w res w')
    then show ?thesis using start_answered_good g by blast
  next
    case (quote_follows f w res w')
    then show ?thesis
      using quote_followed_good(1) [OF g] by simp
  next
    case (status_follows f w res w')
    then show ?thesis
      using status_followed_good(1) [OF status_follows(3) g] by simp
  next
    case (check_answers w res w')
    then show ?thesis
      using checkLive_good(1) [OF check_answers(3) g] by simp
  qed (auto intro: start_good_frame [OF g] simp: go_start_def refreshQuote_def)
  show "start_grows s s'"
    using assms
  proof cases
    case (build_answers w res w')
    obtain u t where u: "handleFailure res s = (u, t)" by fastforce
    show ?thesis
      using build_answers(1) handleFailure_parts(1) [OF u] by (simp add: start_grows_def start_answered_def u)
  next
    case (status_follows f w res w')
    then show ?thesis
      by (simp add: start_grows_def status_followed_def checkLive_def status_read_def)
  qed (auto simp: start_grows_def go_start_def refreshQuote_def quote_followed_good checkLive_def status_read_def)
qed

lemma start_submitted_keeps:
  assumes "start_submitted nt res s = (r, s')" "start_good cg nt eventId s"
  shows "start_grows s s'" and "start_good cg nt eventId s'"
    and "r = Inl j' \<Longrightarrow> start_task_ok s' j'" and "r = Inr (Inr q) \<Longrightarrow> start_backed s' q"
proof -
  let ?s = "s\<lparr>ss_submits := ss_submits s @ [res]\<rparr>"
  have g: "start_good cg nt eventId ?s" by (rule start_good_frame [OF assms(2)]) auto
  obtain u t where u: "handleFailure res ?s = (u, t)" by fastforce
  note h = handleFailure_parts(2) [OF u g] handleFailure_parts(1) [OF u]
  have b: "start_backed (?s\<lparr>ss_failure := None, ss_submitted := Some (sign_result res)\<rparr>) (sign_result res)"
    if "result_ok res" using that by (auto simp: start_backed_def)
  have go: "start_good cg nt eventId (?s\<lparr>ss_failure := None, ss_submitted := Some (sign_result res)\<rparr>)"
    if "result_ok res" using g b [OF that] by (simp add: start_good_def reads_answered_def)
  show "start_grows s s'" "start_good cg nt eventId s'"
    and "r = Inl j' \<Longrightarrow> start_task_ok s' j'" and "r = Inr (Inr q) \<Longrightarrow> start_backed s' q"
    using assms(1) h b go
    by (auto simp: start_submitted_def Let_def u start_grows_def split: if_splits option.splits)
qed


lemma start_served_good:
  assumes "start_served cg nt eventId j s r s'" and g: "start_good cg nt eventId s"
  shows "start_good cg nt eventId s'"
  using assms(1)
proof cases
  case (submit_answers res y)
  show ?thesis using start_submitted_keeps(2) [OF submit_answers(2) g] .
next
  case (quote_answers w res w' f)
  show ?thesis unfolding quote_answers by (rule quote_followed_good(1) [OF g])
next
  case (status_answers w res w' f)
  show ?thesis unfolding status_answers(3) by (rule status_followed_good(1) [OF status_answers(4) g])
next
  case (live_answers w res w' q)
  show ?thesis unfolding live_answers(3) by (rule checkLive_good(1) [OF live_answers(4) g])
qed (use g in simp)

lemma start_served_next:
  assumes "start_served cg nt eventId j s (Inl j') s'" and g: "start_good cg nt eventId s"
  shows "start_task_ok s' j'"
  using assms(1)
proof cases
  case (submit_answers res y)
  show ?thesis using start_submitted_keeps(3) [OF submit_answers(2) g refl] .
qed

lemma start_served_settled:
  assumes "start_served cg nt eventId j s (Inr (Inr q)) s'" "start_task_ok s j" "start_good cg nt eventId s"
  shows "start_backed s' q"
  using assms(1)
proof cases
  case (submit_answers res y)
  show ?thesis using start_submitted_keeps(4) [OF submit_answers(2) assms(3) refl] .
next
  case (live_answers w res w')
  then have "start_backed s q" using assms(2) by simp
  then show ?thesis
    using checkLive_good(2) [OF live_answers(3) assms(3)] unfolding live_answers(2) start_backed_def by simp
qed

lemma followed_submits [simp]:
  "ss_submits (snd (checkLive eventId res s)) = ss_submits s"
  "ss_submits (status_followed eventId f res s) = ss_submits s"
  "ss_submits (quote_followed f res s) = ss_submits s"
  "ss_submits (status_read w res s) = ss_submits s"
proof -
  show "ss_submits (snd (checkLive eventId res s)) = ss_submits s" by (simp add: checkLive_def)
  then show "ss_submits (status_followed eventId f res s) = ss_submits s"
    by (cases "checkLive eventId res s") (simp add: status_followed_def)
  show "ss_submits (quote_followed f res s) = ss_submits s" by (simp add: quote_followed_def refreshQuote_def)
  show "ss_submits (status_read w res s) = ss_submits s" by (simp add: status_read_def)
qed

lemma start_submitted_grows:
  assumes "start_submitted nt res s = (r, s')"
  shows "start_grows s s'"
proof -
  obtain u t where u: "handleFailure res (s\<lparr>ss_submits := ss_submits s @ [res]\<rparr>) = (u, t)" by fastforce
  show ?thesis
    using assms handleFailure_parts(1) [OF u]
    by (auto simp: start_submitted_def Let_def u start_grows_def split: if_splits option.splits)
qed

lemma start_served_grows:
  assumes "start_served cg nt eventId j s r s'"
  shows "start_grows s s'"
  using assms
proof cases
  case (submit_answers res y)
  show ?thesis by (rule start_submitted_grows [OF submit_answers(2)])
next
  case (quote_answers w res w' f)
  show ?thesis unfolding start_grows_def quote_answers(3) by simp
next
  case (status_answers w res w' f)
  show ?thesis unfolding start_grows_def status_answers(3) by simp
next
  case (live_answers w res w' q)
  show ?thesis unfolding start_grows_def live_answers(3) by simp
next
  case (throws err)
  then show ?thesis by (simp add: start_grows_def)
qed

lemma start_offer_grounds:
  assumes "start_good cg nt eventId s" "start_offer nt s = Some q"
  shows "start_grounds cg nt eventId s q"
  using start_good_def [THEN iffD1, THEN conjunct1, OF assms(1)] assms(2)
  by (auto simp: start_grounds_def start_offer_def split: option.splits if_splits)

interpretation golive: signing_screen "start_offer nt" "start_own cg nt eventId" start_onSigned
    "start_served cg nt eventId" "start_opens quote" start_grows "start_good cg nt eventId"
    "start_grounds cg nt eventId" start_task_ok start_backed
  for cg nt eventId quote
proof unfold_locales
  show "start_good cg nt eventId (start_opens quote)"
    by (simp add: start_good_def start_opens_def visits_of_def reads_answered_def)
  show "start_grounds cg nt eventId s' q" if "start_grounds cg nt eventId s q" for s s' q
    using that unfolding start_grounds_def .
  show "start_task_ok s' j" if "start_grows s s'" "start_task_ok s j" for s s' j
    using that by (cases j) (auto intro: start_backed_grows)
  show "start_task_ok s (start_onSigned k y)" for s k y
    by (simp add: start_onSigned_def)
qed (fact start_own_keeps start_served_good start_served_grows start_offer_grounds start_backed_grows
      start_served_next start_served_settled
  | rule start_own_keeps start_served_good start_served_grows start_offer_grounds start_backed_grows
      start_served_next start_served_settled, assumption+)+


section \<open>Properties\<close>

lemma event_status_text_LIVE: "event_status_text st = js ''LIVE'' \<Longrightarrow> st = LIVE"
  by (cases st) simp_all

lemma says_live_stored:
  assumes r: "readEventStatus eventId w = (Inr res, w')" and l: "says_live res"
  shows "\<exists>session e. signed_in_as w session \<and> e \<in> set (events w) \<and> e_id e = uuid_key eventId \<and>
    e_organizerWalletId e = w_id (sw_wallet session) \<and> e_status e = LIVE"
proof -
  have m: "result_ok res" "result_member res ''status'' = Some (JStr (js ''LIVE''))"
    using l unfolding says_live_def by (rule conjunct1, rule conjunct2)
  obtain ms where ms: "res = Answer ms"
    using m(1) by (cases res) (auto simp: result_ok_def result_member_def)
  have told: "\<exists>session e. signed_in_as w session \<and> e \<in> set (events w) \<and> e_id e = uuid_key eventId \<and>
      e_organizerWalletId e = w_id (sw_wallet session) \<and>
      members_get ms (js ''status'') = Some (JStr (event_status_text (e_status e)))"
    using readEventStatus_told [where eventId = eventId and w = w] unfolding r prod.case ms by blast
  then obtain session e where e: "signed_in_as w session" "e \<in> set (events w)" "e_id e = uuid_key eventId"
    "e_organizerWalletId e = w_id (sw_wallet session)"
    "members_get ms (js ''status'') = Some (JStr (event_status_text (e_status e)))" by blast
  have "event_status_text (e_status e) = js ''LIVE''"
    using e(5) m(2) unfolding ms result_member_def by (simp del: js_Cons)
  then have "e_status e = LIVE" by (rule event_status_text_LIVE)
  with e(1-4) show ?thesis by blast
qed

lemma reads_stored:
  assumes "reads_answered eventId s"
  shows "\<forall>(w, res)\<in>set (ss_reads s). \<exists>w'. readEventStatus eventId w = (Inr res, w') \<and>
    (says_live res \<longrightarrow> (\<exists>session e. signed_in_as w session \<and> e \<in> set (events w) \<and> e_id e = uuid_key eventId \<and>
       e_organizerWalletId e = w_id (sw_wallet session) \<and> e_status e = LIVE))"
proof (rule ballI, clarify)
  fix w res assume "(w, res) \<in> set (ss_reads s)"
  then have "fst (readEventStatus eventId w) = Inr res" using assms unfolding reads_answered_def by blast
  then have r: "readEventStatus eventId w = (Inr res, snd (readEventStatus eventId w))" by (metis prod.collapse)
  show "\<exists>w'. readEventStatus eventId w = (Inr res, w') \<and>
    (says_live res \<longrightarrow> (\<exists>session e. signed_in_as w session \<and> e \<in> set (events w) \<and> e_id e = uuid_key eventId \<and>
       e_organizerWalletId e = w_id (sw_wallet session) \<and> e_status e = LIVE))"
    by (rule exI, rule conjI [OF r], rule impI, rule says_live_stored [OF r])
qed

text \<open>C10: The go-live screen, whatever order its user, wallet and server act in and whatever refusals
  come back: the wallet is only asked to sign a transaction \<open>buildStart\<close> answered, and the fee and the
  deadline shown with it are of the same answer; it is submitted at most once per request; the screen
  claims a submission only if one was answered so; and it leaves for the event's page exactly once for
  every one of its own status reads that answered LIVE, and never otherwise. Those reads are answers of
  \<open>readEventStatus\<close> in the server's state at the time, and one that says LIVE was given to the organizer
  whose stored event is LIVE there.\<close>

theorem golive_waits_for_the_stored_status:
  assumes "sign_run (start_offer nt) (start_own cg nt eventId) start_onSigned (start_served cg nt eventId)
    (start_opens quote) s g"
  shows "(\<forall>(x, b)\<in>set (sg_asked g). \<exists>w res w'. buildStart cg nt eventId w = (Inr res, w') \<and> result_ok res \<and>
             x = result_member res ''unsignedTransactionXdr'' \<and> sb_fee b = result_member res ''fee'' \<and>
             sb_judgingDeadline b = result_member res ''judgingDeadline'')
    \<and> length (sg_sent g) + length (sg_wallet g) \<le> length (sg_asked g)
    \<and> (\<forall>r. ss_submitted s = Some r \<or> sg_phase g = Confirmed r \<longrightarrow>
         (\<exists>res\<in>set (ss_submits s). result_ok res \<and> r = sign_result res))
    \<and> ss_visited s = map (\<lambda>_. js ''/events/'' @ eventId)
         (filter (\<lambda>(w, res). result_ok res \<and> result_member res ''status'' = Some (JStr (js ''LIVE''))) (ss_reads s))
    \<and> (\<forall>(w, res)\<in>set (ss_reads s). \<exists>w'. readEventStatus eventId w = (Inr res, w') \<and>
         (says_live res \<longrightarrow> (\<exists>session e. signed_in_as w session \<and> e \<in> set (events w) \<and> e_id e = uuid_key eventId \<and>
            e_organizerWalletId e = w_id (sw_wallet session) \<and> e_status e = LIVE)))"
proof (intro conjI)
  note good = golive.run_good [OF assms, unfolded start_good_def]
  show "\<forall>(x, b)\<in>set (sg_asked g). \<exists>w res w'. buildStart cg nt eventId w = (Inr res, w') \<and> result_ok res \<and>
             x = result_member res ''unsignedTransactionXdr'' \<and> sb_fee b = result_member res ''fee'' \<and>
             sb_judgingDeadline b = result_member res ''judgingDeadline''"
  proof (rule ballI, clarify)
    fix x b assume "(x, b) \<in> set (sg_asked g)"
    with assms have gr: "start_grounds cg nt eventId s (x, b)" by (rule golive.asked_grounds)
    then obtain w res w' where "buildStart cg nt eventId w = (Inr res, w')" "result_ok res" "b = start_built_of res"
      unfolding start_grounds_def start_built_by_def by auto
    then show "\<exists>w res w'. buildStart cg nt eventId w = (Inr res, w') \<and> result_ok res \<and>
             x = result_member res ''unsignedTransactionXdr'' \<and> sb_fee b = result_member res ''fee'' \<and>
             sb_judgingDeadline b = result_member res ''judgingDeadline''"
      using gr unfolding start_grounds_def by (intro exI conjI) (simp_all add: start_built_of_def)
  qed
  show "length (sg_sent g) + length (sg_wallet g) \<le> length (sg_asked g)"
    using assms by (rule golive.sent_once)
  show "\<forall>r. ss_submitted s = Some r \<or> sg_phase g = Confirmed r \<longrightarrow>
         (\<exists>res\<in>set (ss_submits s). result_ok res \<and> r = sign_result res)"
    using good golive.confirmed_backed [OF assms] unfolding start_backed_def by blast
  have "says_live \<circ> snd =
      (\<lambda>(w, res). result_ok res \<and> result_member res ''status'' = Some (JStr (js ''LIVE'')))"
    by (simp add: fun_eq_iff says_live_def)
  then show "ss_visited s = map (\<lambda>_. js ''/events/'' @ eventId)
         (filter (\<lambda>(w, res). result_ok res \<and> result_member res ''status'' = Some (JStr (js ''LIVE''))) (ss_reads s))"
    using good unfolding visits_of_def by metis
  have "reads_answered eventId s" using good by blast
  then show "\<forall>(w, res)\<in>set (ss_reads s). \<exists>w'. readEventStatus eventId w = (Inr res, w') \<and>
         (says_live res \<longrightarrow> (\<exists>session e. signed_in_as w session \<and> e \<in> set (events w) \<and> e_id e = uuid_key eventId \<and>
            e_organizerWalletId e = w_id (sw_wallet session) \<and> e_status e = LIVE))"
    by (rule reads_stored)
qed

definition start_go :: "world core_go" where
  "start_go = answering_object [(js ''unsignedTransactionXdr'', JStr (js ''x1'')), (js ''fee'', JStr (js ''5''))]"

definition start_res :: action_result where
  "start_res = ok_with [(js ''unsignedTransactionXdr'', JStr (js ''x1'')), (js ''fee'', JStr (js ''5''))]"

definition covered_quote :: Quote where
  "covered_quote = \<lparr>q_fee = Some (JStr (js ''5'')), q_balance = Some (JStr (js ''5'')), q_shortfall = Some (JStr (js ''0''))\<rparr>"

lemma start_go_builds: "buildStart start_go nt (js ''GA'') signed_in_world = (Inr start_res, signed_in_world)"
proof -
  let ?v = "JObj [(js ''unsignedTransactionXdr'', JStr (js ''x1'')), (js ''fee'', JStr (js ''5''))]"
  have r: "request start_go POST path wallet body w = (Inr ?v, w)" for path wallet body and w :: world
    unfolding start_go_def by (rule answering_object_request) (simp_all add: is_unit_def)
  have f: "json_fields ?v [js ''unsignedTransactionXdr'', js ''judgingDeadline'']
      = Inr [(js ''unsignedTransactionXdr'', JStr (js ''x1''))]"
    by (simp add: json_fields_def json_field_def members_get_def List.map_filter_simps)
  have m: "string_member nt ?v (js ''fee'') = (js ''fee'', JStr (js ''5''))"
    by (simp add: string_member_def json_field_def members_get_def)
  show ?thesis
    using signed_in
    by (simp add: buildStart_def with_session_def startBuild_def core_path_def encode_GA post_def r f m start_res_def
        failing_def await_def try_catch_def del: js_Cons)
qed

theorem golive_waits_for_the_stored_status_witness:
  "\<exists>s g. sign_run (start_offer (\<lambda>_. [])) (start_own start_go (\<lambda>_. []) (js ''GA'')) start_onSigned
       (start_served start_go (\<lambda>_. []) (js ''GA'')) (start_opens covered_quote) s g \<and>
     sg_asked g \<noteq> [] \<and> ss_visited s = [] \<and> length (sg_sent g) \<le> 1"
proof -
  let ?nt = "\<lambda>_::js_number. [] :: jstring" and ?e = "js ''GA''"
  let ?own = "start_own start_go ?nt ?e" and ?s0 = "start_opens covered_quote" and ?b = "start_built_of start_res"
  let ?s1 = "go_start ?s0" let ?s2 = "start_answered start_res ?s1"
  have "StringToBigInt (js ''0'') = Some 0" using StringToBigInt_digits [of 0] by simp
  then have need: "shortfall_left ?nt s = Some False" if "ss_quote s = covered_quote" for s
    using that by (simp add: shortfall_left_def covered_quote_def del: js_Cons)
  have s1: "?own ?s0 ?s1"
    using need [of ?s0] by (intro start_own.starts) (simp add: start_button_def start_opens_def deadlineBlocked_def)
  have s2: "?own ?s1 ?s2"
    by (rule start_own.build_answers [OF _ start_go_builds]) (simp add: go_start_def)
  have ok: "result_ok start_res"
    by (simp add: result_ok_def result_member_def start_res_def ok_with_def members_get_def)
  have off: "start_offer ?nt ?s2 = Some (sb_unsignedTransactionXdr ?b, ?b)"
    using ok need [of ?s2] by (simp add: start_offer_def start_answered_def go_start_def start_opens_def)
  have none: "start_offer ?nt ?s0 = None" "start_offer ?nt ?s1 = None"
    by (simp_all add: start_offer_def start_opens_def go_start_def)
  obtain g where g: "sign_run (start_offer ?nt) ?own start_onSigned (start_served start_go ?nt ?e) ?s0 ?s2 g"
    and asked: "sg_asked g = [(sb_unsignedTransactionXdr ?b, ?b)]"
    using build_and_sign [of ?own, OF s1 s2 none off] by blast
  have "length (sg_sent g) \<le> length (sg_asked g)"
    using golive_waits_for_the_stored_status [OF g, THEN conjunct2, THEN conjunct1] by (rule add_leD1)
  moreover have "ss_visited ?s2 = []"
    using ok by (simp add: start_answered_def go_start_def start_opens_def)
  ultimately show ?thesis
    by (intro exI [of _ ?s2] exI [of _ g] conjI) (rule g, simp_all add: asked del: js_Cons)
qed

end
