(* ===== verification/Release_Screen.thy ===== *)
theory Release_Screen
  imports Sign_Step Judge_Actions
begin

text \<open>
  The judge's form, \<open>events/[id]/judge/release-form.tsx\<close>: a team for every prize, a transaction Go
  builds for that assignment, the judge's signature. \<open>result_object\<close> reads a \<open>build_result\<close> as the
  object the action returns.
\<close>

section \<open>State and handlers\<close>

definition result_object :: "build_result \<Rightarrow> action_result" where
  "result_object res =
     (case res of
        Built ms \<Rightarrow> Answer ms
      | ReleaseFailed f \<Rightarrow> Failed f
      | MissingTrustline asset ws \<Rightarrow>
          Answer [(js ''ok'', JBool False), (js ''code'', JStr (js ''missingTrustline'')),
                  (js ''asset'', JStr asset), (js ''wallets'', JArr (map JStr ws))])"

record ReleaseFormProps =
  rp_eventId :: jstring
  rp_ranks :: "int list"
  rp_teams :: "jstring list"

record ReleaseBuilt =
  rb_unsignedTransactionXdr :: member_value
  rb_winners :: member_value

text \<open>\<open>rs_pending\<close> holds the assignments of the build in flight. The last two fields are history.\<close>

record release_screen =
  rs_assignments :: "int \<Rightarrow> jstring option"
  rs_built :: "ReleaseBuilt option"
  rs_failure :: "build_result option"
  rs_submitted :: "SignStepResult option"
  rs_pending :: "ReleaseAssignment list option"
  rs_builds :: "(ReleaseAssignment list \<times> ReleaseBuilt) list"
  rs_submits :: "build_result list"

definition release_opens :: release_screen where
  "release_opens =
     \<lparr>rs_assignments = (\<lambda>_. None), rs_built = None, rs_failure = None, rs_submitted = None, rs_pending = None,
      rs_builds = [], rs_submits = []\<rparr>"

definition allAssigned :: "ReleaseFormProps \<Rightarrow> release_screen \<Rightarrow> bool" where
  "allAssigned p s \<longleftrightarrow> list_all (\<lambda>r. present (rs_assignments s r)) (rp_ranks p)"

text \<open>\<open>prizes.map((p) => ({ rank, teamId: assignments[p.rank] }))\<close>, when all are assigned.\<close>

definition assigned :: "ReleaseFormProps \<Rightarrow> release_screen \<Rightarrow> ReleaseAssignment list" where
  "assigned p s = map (\<lambda>r. \<lparr>ra_rank = r, ra_teamId = the (rs_assignments s r)\<rparr>) (rp_ranks p)"

definition select_open :: "release_screen \<Rightarrow> bool" where
  "select_open s \<longleftrightarrow> rs_pending s = None \<and> rs_built s = None \<and> rs_submitted s = None"

definition pick_team :: "int \<Rightarrow> jstring \<Rightarrow> release_screen \<Rightarrow> release_screen" where
  "pick_team rank team s =
     s\<lparr>rs_failure := None, rs_assignments := (rs_assignments s)(rank := Some team)\<rparr>"

definition release_button :: "ReleaseFormProps \<Rightarrow> release_screen \<Rightarrow> bool" where
  "release_button p s \<longleftrightarrow>
     rs_built s = None \<and> rs_submitted s = None \<and> allAssigned p s \<and> rs_pending s = None \<and> rp_teams p \<noteq> []"

definition release_build :: "ReleaseFormProps \<Rightarrow> release_screen \<Rightarrow> release_screen" where
  "release_build p s =
     s\<lparr>rs_failure := None, rs_built := None, rs_submitted := None, rs_pending := Some (assigned p s)\<rparr>"

definition release_built_of :: "build_result \<Rightarrow> ReleaseBuilt" where
  "release_built_of res =
     \<lparr>rb_unsignedTransactionXdr = result_member (result_object res) ''unsignedTransactionXdr'',
      rb_winners = result_member (result_object res) ''winners''\<rparr>"

definition release_answered ::
    "ReleaseAssignment list \<Rightarrow> build_result \<Rightarrow> release_screen \<Rightarrow> release_screen" where
  "release_answered req res s =
     (if result_ok (result_object res)
      then s\<lparr>rs_pending := None, rs_built := Some (release_built_of res),
             rs_builds := rs_builds s @ [(req, release_built_of res)]\<rparr>
      else s\<lparr>rs_pending := None, rs_failure := Some res\<rparr>)"

definition release_offer :: "release_screen \<Rightarrow> (member_value \<times> ReleaseBuilt) option" where
  "release_offer s =
     (case rs_built s of
        None \<Rightarrow> None
      | Some b \<Rightarrow> if rs_submitted s = None then Some (rb_unsignedTransactionXdr b, b) else None)"

section \<open>onSigned\<close>

datatype release_stage = ReleaseSubmitting member_value

definition release_onSigned :: "ReleaseBuilt \<Rightarrow> member_value \<Rightarrow> release_stage" where
  "release_onSigned built signedXdr = ReleaseSubmitting signedXdr"

definition release_result :: "build_result \<Rightarrow> SignStepResult" where
  "release_result res =
     \<lparr>sr_txHash = result_member (result_object res) ''txHash'',
      sr_status = result_member (result_object res) ''status''\<rparr>"

definition release_submitted ::
    "(js_number \<Rightarrow> jstring) \<Rightarrow> build_result \<Rightarrow> release_screen \<Rightarrow>
     (release_stage + (thrown + SignStepResult)) \<times> release_screen" where
  "release_submitted nt res s =
     (let s' = s\<lparr>rs_submits := rs_submits s @ [res]\<rparr> in
      if \<not> result_ok (result_object res)
      then (Inr (Inl (result_error nt (result_object res))), s'\<lparr>rs_failure := Some res\<rparr>)
      else (Inr (Inr (release_result res)),
            s'\<lparr>rs_failure := None, rs_submitted := Some (release_result res)\<rparr>))"

inductive release_served ::
    "(js_number \<Rightarrow> jstring) \<Rightarrow> release_stage \<Rightarrow> release_screen \<Rightarrow>
     release_stage + (thrown + SignStepResult) \<Rightarrow> release_screen \<Rightarrow> bool" for nt where
  submit_answers: "release_submitted nt res s = (r, s') \<Longrightarrow> release_served nt (ReleaseSubmitting y) s r s'"
| submit_throws: "release_served nt (ReleaseSubmitting y) s (Inr (Inl err)) s"

inductive release_own ::
    "world core_go \<Rightarrow> world horizon \<Rightarrow> usdc_env \<Rightarrow> ReleaseFormProps \<Rightarrow> release_screen \<Rightarrow> release_screen \<Rightarrow> bool"
  for cg hz env p where
  picks: "select_open s \<Longrightarrow> rank \<in> set (rp_ranks p) \<Longrightarrow> team = [] \<or> team \<in> set (rp_teams p) \<Longrightarrow>
    release_own cg hz env p s (pick_team rank team s)"
| builds: "release_button p s \<Longrightarrow> release_own cg hz env p s (release_build p s)"
| build_answers: "rs_pending s = Some req \<Longrightarrow>
    buildRelease cg hz env (rp_eventId p) req w = (Inr res, w') \<Longrightarrow>
    release_own cg hz env p s (release_answered req res s)"
| rebuilds: "release_offer s \<noteq> None \<Longrightarrow> release_own cg hz env p s (s\<lparr>rs_built := None\<rparr>)"

section \<open>The screen keeps the signing contract\<close>

definition release_built_by ::
    "world core_go \<Rightarrow> world horizon \<Rightarrow> usdc_env \<Rightarrow> jstring \<Rightarrow> ReleaseAssignment list \<Rightarrow> ReleaseBuilt \<Rightarrow> bool" where
  "release_built_by cg hz env eventId req b \<longleftrightarrow>
     (\<exists>w res w'. buildRelease cg hz env eventId req w = (Inr res, w') \<and>
        result_ok (result_object res) \<and> b = release_built_of res)"

text \<open>Whole assignments: one entry per prize, every one of them a team of the form.\<close>

definition whole :: "ReleaseFormProps \<Rightarrow> ReleaseAssignment list \<Rightarrow> bool" where
  "whole p req \<longleftrightarrow> map ra_rank req = rp_ranks p \<and> ra_teamId ` set req \<subseteq> set (rp_teams p)"

definition release_good ::
    "world core_go \<Rightarrow> world horizon \<Rightarrow> usdc_env \<Rightarrow> ReleaseFormProps \<Rightarrow> release_screen \<Rightarrow> bool" where
  "release_good cg hz env p s \<longleftrightarrow>
     (\<forall>r t. rs_assignments s r = Some t \<longrightarrow> t = [] \<or> t \<in> set (rp_teams p)) \<and>
     (\<forall>r. rs_submitted s = Some r \<longrightarrow>
        (\<exists>res\<in>set (rs_submits s). result_ok (result_object res) \<and> r = release_result res)) \<and>
     (\<forall>req. rs_pending s = Some req \<longrightarrow> req = assigned p s \<and> whole p req) \<and>
     (\<forall>b. rs_built s = Some b \<longrightarrow> (assigned p s, b) \<in> set (rs_builds s)) \<and>
     (\<forall>(req, b)\<in>set (rs_builds s). whole p req \<and> release_built_by cg hz env (rp_eventId p) req b)"

definition release_grows :: "release_screen \<Rightarrow> release_screen \<Rightarrow> bool" where
  "release_grows s s' \<longleftrightarrow>
     set (rs_builds s) \<subseteq> set (rs_builds s') \<and> set (rs_submits s) \<subseteq> set (rs_submits s')"

definition release_grounds ::
    "world core_go \<Rightarrow> world horizon \<Rightarrow> usdc_env \<Rightarrow> ReleaseFormProps \<Rightarrow> release_screen \<Rightarrow>
     member_value \<times> ReleaseBuilt \<Rightarrow> bool" where
  "release_grounds cg hz env p s q \<longleftrightarrow>
     fst q = rb_unsignedTransactionXdr (snd q) \<and>
     (\<exists>req. whole p req \<and> release_built_by cg hz env (rp_eventId p) req (snd q))"

definition release_backed :: "release_screen \<Rightarrow> SignStepResult \<Rightarrow> bool" where
  "release_backed s r \<longleftrightarrow> (\<exists>res\<in>set (rs_submits s). result_ok (result_object res) \<and> r = release_result res)"

lemma assigned_whole:
  assumes "allAssigned p s" and t: "\<forall>r t. rs_assignments s r = Some t \<longrightarrow> t = [] \<or> t \<in> set (rp_teams p)"
  shows "whole p (assigned p s)"
proof -
  have "the (rs_assignments s r) \<in> set (rp_teams p)" if "r \<in> set (rp_ranks p)" for r
  proof -
    have "present (rs_assignments s r)" using assms(1) that by (simp add: allAssigned_def list_all_iff)
    with t show ?thesis by (cases "rs_assignments s r") (auto simp: present_def)
  qed
  then show ?thesis by (auto simp: whole_def assigned_def comp_def)
qed

lemma assigned_frame: "rs_assignments s' = rs_assignments s \<Longrightarrow> assigned p s' = assigned p s"
  by (simp add: assigned_def)

lemma release_own_keeps:
  assumes "release_own cg hz env p s s'"
  shows "release_grows s s'" and "release_good cg hz env p s \<Longrightarrow> release_good cg hz env p s'"
proof -
  show "release_grows s s'"
    using assms
    by cases (auto simp: release_grows_def pick_team_def release_build_def release_answered_def)
  show "release_good cg hz env p s'" if g: "release_good cg hz env p s"
    using assms
  proof cases
    case (picks rank team)
    then show ?thesis using g by (auto simp: release_good_def pick_team_def select_open_def)
  next
    case builds
    then show ?thesis
      using g assigned_whole [of p s]
      by (auto simp: release_good_def release_build_def release_button_def assigned_def)
  next
    case (build_answers req w res w')
    have "release_built_by cg hz env (rp_eventId p) req (release_built_of res)"
      if "result_ok (result_object res)"
      using build_answers that unfolding release_built_by_def by blast
    then show ?thesis
      using g build_answers by (auto simp: release_good_def release_answered_def assigned_def)
  next
    case rebuilds
    then show ?thesis using g by (auto simp: release_good_def assigned_def)
  qed
qed

lemma release_served_keeps:
  assumes "release_served nt j s r s'"
  shows "release_grows s s'" and "release_good cg hz env p s \<Longrightarrow> release_good cg hz env p s'"
    and "r = Inr (Inr q) \<Longrightarrow> release_backed s' q"
  using assms
  by (induction rule: release_served.induct)
    (auto simp: release_grows_def release_good_def release_backed_def release_submitted_def assigned_def Let_def
      split: if_splits)

lemma release_offer_grounds:
  "release_good cg hz env p s \<Longrightarrow> release_offer s = Some q \<Longrightarrow> release_grounds cg hz env p s q"
  by (fastforce simp: release_good_def release_grounds_def release_offer_def split: option.splits if_splits)

interpretation release: signing_screen release_offer "release_own cg hz env p" release_onSigned
    "release_served nt" release_opens release_grows "release_good cg hz env p"
    "release_grounds cg hz env p" "\<lambda>_ _. True" release_backed
  for cg hz env p nt
proof unfold_locales
  show "release_good cg hz env p release_opens"
    by (simp add: release_good_def release_opens_def)
  show "release_grounds cg hz env p s' q" if "release_grounds cg hz env p s q" for s s' q
    using that unfolding release_grounds_def .
  show "release_backed s' r" if "release_grows s s'" "release_backed s r" for s s' r
    using that unfolding release_backed_def release_grows_def by blast
qed (auto intro: release_own_keeps release_served_keeps release_offer_grounds)


section \<open>Properties\<close>

lemma release_asked_built:
  assumes "sign_run release_offer (release_own cg hz env p) release_onSigned (release_served nt) release_opens s g"
    and "(x, b) \<in> set (sg_asked g)"
  shows "\<exists>req w res w'. map ra_rank req = rp_ranks p \<and> ra_teamId ` set req \<subseteq> set (rp_teams p) \<and>
    buildRelease cg hz env (rp_eventId p) req w = (Inr res, w') \<and> result_ok (result_object res) \<and>
    x = result_member (result_object res) ''unsignedTransactionXdr'' \<and>
    rb_winners b = result_member (result_object res) ''winners''"
proof -
  from assms have gr: "release_grounds cg hz env p s (x, b)" by (rule release.asked_grounds)
  then obtain req w res w' where "whole p req" "buildRelease cg hz env (rp_eventId p) req w = (Inr res, w')"
    "result_ok (result_object res)" "b = release_built_of res"
    unfolding release_grounds_def release_built_by_def by auto
  then show ?thesis
    using gr unfolding release_grounds_def whole_def
    by (intro exI conjI) (simp_all add: release_built_of_def)
qed

text \<open>C9: The judge's form, whatever order its user, wallet and server act in: every transaction the
  wallet is asked to sign was built by \<open>buildRelease\<close> for assignments that name, prize by prize, one of
  the form's teams, and the winners shown with it are of the same answer; while a transaction is
  shown, the assignments on the screen are those it was built for; it is submitted at most once per
  request; and nothing reads as released that no submission answered.\<close>

theorem release_signs_the_shown_assignment:
  assumes "sign_run release_offer (release_own cg hz env p) release_onSigned (release_served nt) release_opens s g"
  shows "(\<forall>(x, b)\<in>set (sg_asked g). \<exists>req w res w'.
            map ra_rank req = rp_ranks p \<and> ra_teamId ` set req \<subseteq> set (rp_teams p) \<and>
            buildRelease cg hz env (rp_eventId p) req w = (Inr res, w') \<and> result_ok (result_object res) \<and>
            x = result_member (result_object res) ''unsignedTransactionXdr'' \<and>
            rb_winners b = result_member (result_object res) ''winners'')
    \<and> (\<forall>b. rs_built s = Some b \<longrightarrow> release_built_by cg hz env (rp_eventId p) (assigned p s) b)
    \<and> length (sg_sent g) + length (sg_wallet g) \<le> length (sg_asked g)
    \<and> (\<forall>r. rs_submitted s = Some r \<or> sg_phase g = Confirmed r \<longrightarrow>
         (\<exists>res\<in>set (rs_submits s). result_ok (result_object res) \<and> r = release_result res))"
proof (intro conjI)
  note good = release.run_good [OF assms, unfolded release_good_def]
  show "\<forall>(x, b)\<in>set (sg_asked g). \<exists>req w res w'.
            map ra_rank req = rp_ranks p \<and> ra_teamId ` set req \<subseteq> set (rp_teams p) \<and>
            buildRelease cg hz env (rp_eventId p) req w = (Inr res, w') \<and> result_ok (result_object res) \<and>
            x = result_member (result_object res) ''unsignedTransactionXdr'' \<and>
            rb_winners b = result_member (result_object res) ''winners''"
    using release_asked_built [OF assms] by fast
  show "\<forall>b. rs_built s = Some b \<longrightarrow> release_built_by cg hz env (rp_eventId p) (assigned p s) b"
    using good by fast
  show "length (sg_sent g) + length (sg_wallet g) \<le> length (sg_asked g)"
    using assms by (rule release.sent_once)
  show "\<forall>r. rs_submitted s = Some r \<or> sg_phase g = Confirmed r \<longrightarrow>
         (\<exists>res\<in>set (rs_submits s). result_ok (result_object res) \<and> r = release_result res)"
    using good release.confirmed_backed [OF assms] unfolding release_backed_def by blast
qed


definition release_go :: "world core_go" where
  "release_go = answering_object [(js ''unsignedTransactionXdr'', JStr (js ''x1'')), (js ''winners'', JArr [])]"

definition release_res :: build_result where
  "release_res = Built [(js ''ok'', JBool True), (js ''unsignedTransactionXdr'', JStr (js ''x1'')), (js ''winners'', JArr [])]"

definition release_props :: ReleaseFormProps where
  "release_props = \<lparr>rp_eventId = js ''GA'', rp_ranks = [1], rp_teams = [js ''t1'']\<rparr>"

lemma release_go_builds:
  "buildRelease release_go hz env (js ''GA'') req signed_in_world = (Inr release_res, signed_in_world)"
proof -
  let ?v = "JObj [(js ''unsignedTransactionXdr'', JStr (js ''x1'')), (js ''winners'', JArr [])]"
  have r: "request release_go POST path wallet body w = (Inr ?v, w)" for path wallet body and w :: world
    unfolding release_go_def by (rule answering_object_request) (simp_all add: is_unit_def)
  have f: "json_fields ?v [js ''unsignedTransactionXdr'', js ''winners'']
      = Inr [(js ''unsignedTransactionXdr'', JStr (js ''x1'')), (js ''winners'', JArr [])]"
    by (simp add: json_fields_def json_field_def members_get_def List.map_filter_simps)
  have u: "\<not> isUuid (js ''GA'')" by code_simp
  show ?thesis
    using signed_in
    by (simp add: buildRelease_def isActiveJudge_def u releaseBuild_def core_path_def encode_GA post_def r f
        release_res_def await_def try_catch_def del: js_Cons)
qed

theorem release_signs_the_shown_assignment_witness:
  "\<exists>s g. sign_run release_offer (release_own release_go closed_horizon test_usdc release_props) release_onSigned
       (release_served (\<lambda>_. [])) release_opens s g \<and>
     sg_asked g \<noteq> [] \<and> length (sg_sent g) \<le> 1 \<and>
     (\<exists>b. rs_built s = Some b \<and>
        release_built_by release_go closed_horizon test_usdc (js ''GA'') [\<lparr>ra_rank = 1, ra_teamId = js ''t1''\<rparr>] b)"
proof -
  let ?p = release_props
  let ?own = "release_own release_go closed_horizon test_usdc ?p"
  let ?s0 = release_opens and ?b = "release_built_of release_res" and ?req = "[\<lparr>ra_rank = 1, ra_teamId = js ''t1''\<rparr>]"
  let ?s1 = "pick_team 1 (js ''t1'') ?s0" let ?s2 = "release_build ?p ?s1"
  let ?s3 = "release_answered ?req release_res ?s2"
  have req: "assigned ?p ?s1 = ?req" by (simp add: assigned_def pick_team_def release_props_def)
  have s1: "?own ?s0 ?s1"
    by (rule release_own.picks) (simp_all add: select_open_def release_opens_def release_props_def)
  have s2: "?own ?s1 ?s2"
    by (rule release_own.builds)
      (simp add: release_button_def allAssigned_def present_def pick_team_def release_opens_def release_props_def)
  have pend: "rs_pending ?s2 = Some ?req" unfolding release_build_def req by simp
  have s3: "?own ?s2 ?s3"
    using release_own.build_answers [OF pend, where w = signed_in_world and p = ?p]
      release_go_builds [of closed_horizon test_usdc ?req]
    by (simp add: release_props_def del: js_Cons)
  have none: "release_offer ?s0 = None" "release_offer ?s1 = None" "release_offer ?s2 = None"
    by (simp_all add: release_offer_def release_opens_def pick_team_def release_build_def)
  have ok: "result_ok (result_object release_res)"
    by (simp add: result_ok_def result_object_def result_member_def release_res_def members_get_def)
  have off: "release_offer ?s3 = Some (rb_unsignedTransactionXdr ?b, ?b)"
    using ok by (simp add: release_offer_def release_answered_def release_build_def)
  have "quiet_run release_offer ?own release_onSigned (release_served (\<lambda>_. [])) ?s0 ?s2"
    by (rule quiet_moves, rule quiet_moves, rule quiet_opens) (rule none s1 s2)+
  then have "\<exists>g. sign_run release_offer ?own release_onSigned (release_served (\<lambda>_. [])) ?s0 ?s3 g \<and>
      sg_asked g = [(rb_unsignedTransactionXdr ?b, ?b)]"
    using s3 off by (rule quiet_signs [where own = ?own and offer = release_offer])
  then obtain g where g: "sign_run release_offer ?own release_onSigned (release_served (\<lambda>_. [])) ?s0 ?s3 g"
    and asked: "sg_asked g = [(rb_unsignedTransactionXdr ?b, ?b)]" by blast
  have "length (sg_sent g) \<le> length (sg_asked g)"
    using release_signs_the_shown_assignment [OF g, THEN conjunct2, THEN conjunct2, THEN conjunct1]
    by (rule add_leD1)
  moreover have "rs_built ?s3 = Some ?b" using ok by (simp add: release_answered_def)
  moreover have "assigned ?p ?s3 = ?req"
    using ok req by (simp add: assigned_def release_answered_def release_build_def del: js_Cons)
  ultimately show ?thesis
    using release_signs_the_shown_assignment [OF g, THEN conjunct2, THEN conjunct1]
    by (intro exI [of _ ?s3] exI [of _ g] conjI, intro g)
      (simp_all add: asked release_props_def del: js_Cons)
qed

end
