(* ===== verification/Pages.thy ===== *)
theory Pages
  imports Fund_Screen Start_Screen Release_Screen
begin

text \<open>
  The pages in front of the signing screens: \<open>organizer/events/[id]/fund/page.tsx\<close>,
  \<open>start/page.tsx\<close> and \<open>events/[id]/judge/page.tsx\<close>. A page is an action that answers which of its
  views it renders, with the props of the screen. \<open>decimal_text\<close> is how Prisma's \<open>Decimal\<close> prints an
  amount of ten-millionths; \<open>symbol\<close> is what reading \<open>env.USDC_SYMBOL\<close> gives (theory \<open>Environment\<close>);
  \<open>deadline_text\<close> is \<open>Intl.DateTimeFormat(locale, ..).format\<close> in a timezone.
\<close>

section \<open>Shared steps\<close>

text \<open>\<open>p.then(ok, err)\<close>: what a promise settles to, as a value.\<close>

definition outcome :: "('w, 'a) action \<Rightarrow> ('w, exn + 'a) action" where
  "outcome m w = (case m w of (r, w') \<Rightarrow> (Inr r, w'))"

text \<open>Prisma throws when the row a required relation points to is gone.\<close>

definition dangling_relation :: exn where
  "dangling_relation = PlainError (js ''Inconsistent query result'')"

definition require_row :: "'r option \<Rightarrow> exn + 'r" where
  "require_row r = (case r of None \<Rightarrow> Inl dangling_relation | Some x \<Rightarrow> Inr x)"

definition organizer_address :: "event_row \<Rightarrow> world \<Rightarrow> jstring option" where
  "organizer_address e w =
     map_option w_address (find_unique (\<lambda>r. w_id r = e_organizerWalletId e) (wallets w))"

definition event_prizes :: "event_row \<Rightarrow> world \<Rightarrow> prize_row list" where
  "event_prizes e w = sort_key p_rank (filter (\<lambda>p. p_eventId p = e_id e) (prizes w))"

text \<open>\<open>generateMetadata\<close>: the page's own title, with the event's name when there is one.\<close>

definition page_title :: "jstring \<Rightarrow> jstring \<Rightarrow> (world, jstring) action" where
  "page_title title i =
     await (if isUuid i then select_by_uuid i (\<lambda>w. map_option e_name (find_event i w))
            else return_value None) (\<lambda>name.
     return_value (case name of None \<Rightarrow> title | Some n \<Rightarrow> title @ js '' '' @ [8212] @ js '' '' @ n))"

section \<open>fund/page.tsx\<close>

datatype fund_page =
    FundNotFound
  | FundRedirect jstring
  | FundConnect
  | FundForbidden
  | FundServiceFailure ActionFailure
  | FundForm FundAndCreateProps

definition fund_loadEvent :: "jstring \<Rightarrow> (world, (event_row \<times> jstring \<times> prize_row list) option) action" where
  "fund_loadEvent i =
     (if \<not> isUuid i then return_value None
      else
        await (select_by_uuid i
                 (\<lambda>w. map_option (\<lambda>e. (e, organizer_address e w, event_prizes e w)) (find_event i w))) (\<lambda>found.
        case found of
          None \<Rightarrow> return_value None
        | Some (e, address, ps) \<Rightarrow>
            await (lift_result (require_row address)) (\<lambda>a. return_value (Some (e, a, ps)))))"

definition FundPage ::
    "world core_go \<Rightarrow> (nat \<Rightarrow> jstring) \<Rightarrow> exn + jstring \<Rightarrow> jstring \<Rightarrow> (world, fund_page) action" where
  "FundPage cg decimal_text symbol i =
     await (fund_loadEvent i) (\<lambda>found.
     case found of
       None \<Rightarrow> return_value FundNotFound
     | Some (e, organizer, ps) \<Rightarrow>
         if e_status e \<noteq> DRAFT then return_value (FundRedirect (event_route (e_id e)))
         else
           await getSessionWallet (\<lambda>s.
           await (lift_result symbol) (\<lambda>_.
           case s of
             None \<Rightarrow> return_value FundConnect
           | Some session \<Rightarrow>
               if session_address session \<noteq> organizer then return_value FundForbidden
               else
                 await (lift_result (sumUsdcAmounts (map (\<lambda>p. decimal_text (p_amount p)) ps))) (\<lambda>required.
                 await (outcome (walletBalance cg (session_address session) (session_address session))) (\<lambda>read.
                 case read of
                   Inl err \<Rightarrow> return_value (FundServiceFailure (failure err))
                 | Inr res \<Rightarrow>
                     await (lift_result (json_field res (js ''balance''))) (\<lambda>balance.
                     return_value (FundForm
                       \<lparr>fp_eventId = e_id e, fp_address = session_address session, fp_initialBalance = balance,
                        fp_required = bigint_to_string required\<rparr>)))))))"

section \<open>start/page.tsx\<close>

record GoLiveProps =
  gp_eventId :: jstring
  gp_address :: jstring
  gp_initialQuote :: Quote
  gp_judgingDeadline :: "jstring option"
  gp_timezone :: jstring

datatype start_page =
    StartNotFound
  | StartRedirect jstring
  | StartConnect
  | StartServiceFailure action_result
  | StartForm GoLiveProps

definition start_loadEvent :: "jstring \<Rightarrow> (world, (event_row \<times> jstring) option) action" where
  "start_loadEvent i =
     (if \<not> isUuid i then return_value None
      else
        await (select_by_uuid i (\<lambda>w. map_option (\<lambda>e. (e, organizer_address e w)) (find_event i w))) (\<lambda>found.
        case found of
          None \<Rightarrow> return_value None
        | Some (e, address) \<Rightarrow>
            await (lift_result (require_row address)) (\<lambda>a. return_value (Some (e, a)))))"

definition quote_answer :: "exn + json \<Rightarrow> action_result" where
  "quote_answer read = (case read of Inl err \<Rightarrow> Failed (failure err) | Inr res \<Rightarrow> ok_with (spread res))"

definition StartPage ::
    "world core_go \<Rightarrow> (jstring \<Rightarrow> int \<Rightarrow> exn + jstring) \<Rightarrow> exn + jstring \<Rightarrow> jstring \<Rightarrow> (world, start_page) action" where
  "StartPage cg deadline_text symbol i =
     await (start_loadEvent i) (\<lambda>found.
     case found of
       None \<Rightarrow> return_value StartNotFound
     | Some (e, organizer) \<Rightarrow>
         if e_status e \<noteq> CREATED then return_value (StartRedirect (event_route (e_id e)))
         else
           await getSessionWallet (\<lambda>s.
           case s of
             None \<Rightarrow> return_value StartConnect
           | Some session \<Rightarrow>
               if session_address session \<noteq> organizer then return_value (StartRedirect (event_route (e_id e)))
               else
                 await (outcome (startQuote cg (e_id e) (session_address session))) (\<lambda>read.
                 await (lift_result
                          (case e_judgingDeadlineAt e of
                             None \<Rightarrow> Inr None
                           | Some d \<Rightarrow> map_sum id Some (deadline_text (e_timezone e) d))) (\<lambda>deadline.
                 if \<not> result_ok (quote_answer read) then return_value (StartServiceFailure (quote_answer read))
                 else
                   await (lift_result symbol) (\<lambda>_.
                   return_value (StartForm
                     \<lparr>gp_eventId = e_id e, gp_address = session_address session,
                      gp_initialQuote = quote_of (quote_answer read), gp_judgingDeadline = deadline,
                      gp_timezone = e_timezone e\<rparr>))))))"

section \<open>judge/page.tsx\<close>

datatype judge_page =
    JudgeNotFound
  | JudgeDone "(nat \<times> jstring \<times> jstring option) list" "jstring option"
  | JudgeConnect
  | JudgeForbidden bool
  | JudgeForm ReleaseFormProps jstring

record judged_event =
  jd_event :: event_row
  jd_prizes :: "(prize_row \<times> jstring option) list"
  jd_judges :: "judge_row list"
  jd_teams :: "team_row list"

definition winner_name :: "world \<Rightarrow> prize_row \<Rightarrow> jstring option" where
  "winner_name w p =
     Option.bind (p_winnerTeamId p) (\<lambda>i. map_option t_name (find_unique (\<lambda>t. t_id t = i) (teams w)))"

text \<open>Teams are stored in the order they were created.\<close>

definition judged_event_of :: "event_row \<Rightarrow> world \<Rightarrow> judged_event" where
  "judged_event_of e w =
     \<lparr>jd_event = e, jd_prizes = map (\<lambda>p. (p, winner_name w p)) (event_prizes e w),
      jd_judges = active_judges e w, jd_teams = filter (\<lambda>t. t_eventId t = e_id e) (teams w)\<rparr>"

definition release_hash :: "(prize_row \<times> jstring option) list \<Rightarrow> jstring option" where
  "release_hash ps = Option.bind (List.find (\<lambda>p. present (p_releaseTxHash (fst p))) ps) (\<lambda>p. p_releaseTxHash (fst p))"

definition is_sole_judge :: "judged_event \<Rightarrow> session_wallet option \<Rightarrow> bool" where
  "is_sole_judge d s \<longleftrightarrow>
     (case s of
        None \<Rightarrow> False
      | Some session \<Rightarrow>
          length (jd_judges d) = 1 \<and> j_walletAddress (hd (jd_judges d)) = session_address session)"

definition JudgePage :: "(nat \<Rightarrow> jstring) \<Rightarrow> exn + jstring \<Rightarrow> jstring \<Rightarrow> (world, judge_page) action" where
  "JudgePage decimal_text symbol i =
     (if \<not> isUuid i then return_value JudgeNotFound
      else
        await (select_by_uuid i (\<lambda>w. map_option (\<lambda>e. judged_event_of e w) (find_event i w))) (\<lambda>found.
        case found of
          None \<Rightarrow> return_value JudgeNotFound
        | Some d \<Rightarrow>
            await getSessionWallet (\<lambda>s.
            if e_status (jd_event d) = COMPLETED then
              await (lift_result (if jd_prizes d = [] then Inr [] else symbol)) (\<lambda>_.
              return_value (JudgeDone (map (\<lambda>(p, n). (p_rank p, decimal_text (p_amount p), n)) (jd_prizes d))
                (release_hash (jd_prizes d))))
            else
              (case s of
                 None \<Rightarrow> return_value JudgeConnect
               | Some session \<Rightarrow>
                   if \<not> is_sole_judge d s \<or> e_status (jd_event d) \<noteq> JUDGING
                   then return_value (JudgeForbidden (is_sole_judge d s))
                   else
                     await (lift_result symbol) (\<lambda>_.
                     return_value (JudgeForm
                       \<lparr>rp_eventId = e_id (jd_event d),
                        rp_ranks = map (\<lambda>p. int (p_rank (fst p))) (jd_prizes d),
                        rp_teams = map t_id (jd_teams d)\<rparr>
                       (session_address session)))))))"


section \<open>Who gets which screen\<close>

lemma signed_in_as_faults [simp]: "signed_in_as (w\<lparr>faults := fs\<rparr>) s = signed_in_as w s"
  by (simp add: signed_in_as_def)

lemma page_views_faults [simp]:
  "organizer_address e (w\<lparr>faults := fs\<rparr>) = organizer_address e w"
  "event_prizes e (w\<lparr>faults := fs\<rparr>) = event_prizes e w"
  "find_event i (w\<lparr>faults := fs\<rparr>) = find_event i w"
  "judged_event_of e (w\<lparr>faults := fs\<rparr>) = judged_event_of e w"
  by (simp_all add: organizer_address_def event_prizes_def find_event_def judged_event_of_def winner_name_def
      active_judges_def fun_eq_iff)

lemma find_event_Some: "find_event i w = Some e \<Longrightarrow> e \<in> set (events w) \<and> e_id e = uuid_key i"
  unfolding find_event_def by (rule find_unique_Some)

text \<open>What a read by id found, and what a session read found, in the world the page started from.\<close>

lemma select_event_Inr:
  assumes "select_by_uuid i (\<lambda>w. map_option (f w) (find_event i w)) w = (Inr (Some x), w')"
    and "\<And>fs e. f (w\<lparr>faults := fs\<rparr>) e = f w e"
  shows "\<exists>e fs. e \<in> set (events w) \<and> e_id e = uuid_key i \<and> x = f w e \<and> w' = w\<lparr>faults := fs\<rparr>"
proof -
  obtain fs where w': "w' = w\<lparr>faults := fs\<rparr>"
    and x: "Some x = map_option (f (w\<lparr>faults := fs\<rparr>)) (find_event i (w\<lparr>faults := fs\<rparr>))"
    using assms(1) by (cases rule: select_by_uuidE) blast
  then obtain e where "find_event i w = Some e" "x = f w e"
    by (cases "find_event i w") (auto simp: assms(2))
  with w' show ?thesis using find_event_Some by blast
qed

lemma session_Inr:
  assumes "getSessionWallet w = (Inr (Some s), w')"
  shows "signed_in_as w s \<and> (\<exists>fs. w' = w\<lparr>faults := fs\<rparr>)"
  using getSessionWallet_cases [OF assms] by blast

lemma fund_loadEvent_Inr:
  assumes "fund_loadEvent i w = (Inr (Some (e, a, ps)), w')"
  shows "e \<in> set (events w) \<and> e_id e = uuid_key i \<and> organizer_address e w = Some a \<and> ps = event_prizes e w \<and>
    (\<exists>fs. w' = w\<lparr>faults := fs\<rparr>)"
proof -
  let ?f = "\<lambda>w e. (e, organizer_address e w, event_prizes e w)"
  have u: "isUuid i" using assms by (auto simp: fund_loadEvent_def split: if_splits)
  obtain x v where x: "select_by_uuid i (\<lambda>w. map_option (?f w) (find_event i w)) w = (Inr x, v)"
    and r: "(case x of None \<Rightarrow> return_value None | Some (e, address, ps) \<Rightarrow>
      await (lift_result (require_row address)) (\<lambda>a. return_value (Some (e, a, ps)))) v = (Inr (Some (e, a, ps)), w')"
    using assms u unfolding fund_loadEvent_def by (simp add: u) (erule await_InrE, blast)
  obtain d ad qs where xs: "x = Some (d, ad, qs)" using r by (cases x) auto
  have "ad = Some a \<and> d = e \<and> qs = ps \<and> w' = v"
    using r unfolding xs by (cases ad) (auto simp: require_row_def await_def)
  then show ?thesis using select_event_Inr [OF x [unfolded xs]] by auto
qed


text \<open>The funding screen opens on a DRAFT, for its organizer's session, with the sum of the prizes as they print.\<close>

lemma FundPage_form:
  assumes "FundPage cg decimal_text symbol i w = (Inr (FundForm p), w')"
  obtains e session total where "e \<in> set (events w)" "e_id e = uuid_key i" "e_status e = DRAFT"
    "signed_in_as w session" "organizer_address e w = Some (session_address session)"
    "fp_eventId p = e_id e" "fp_address p = session_address session"
    "sumUsdcAmounts (map (\<lambda>r. decimal_text (p_amount r)) (event_prizes e w)) = Inr total"
    "fp_required p = bigint_to_string total"
proof -
  obtain e a ps v session u total where f: "fund_loadEvent i w = (Inr (Some (e, a, ps)), v)"
    and e: "e_status e = DRAFT" and s: "getSessionWallet v = (Inr (Some session), u)"
    and a: "session_address session = a"
    and t: "sumUsdcAmounts (map (\<lambda>r. decimal_text (p_amount r)) ps) = Inr total"
    and p: "fp_eventId p = e_id e" "fp_address p = a" "fp_required p = bigint_to_string total"
    using assms unfolding FundPage_def
    by (auto elim!: await_InrE split: option.splits if_splits sum.splits prod.splits)
  obtain fs where v: "v = w\<lparr>faults := fs\<rparr>" using fund_loadEvent_Inr [OF f] by blast
  show ?thesis
    using fund_loadEvent_Inr [OF f] session_Inr [OF s] e a t p unfolding v by (intro that [of e session total]) simp_all
qed


lemma start_loadEvent_Inr:
  assumes "start_loadEvent i w = (Inr (Some (e, a)), w')"
  shows "e \<in> set (events w) \<and> e_id e = uuid_key i \<and> organizer_address e w = Some a \<and> (\<exists>fs. w' = w\<lparr>faults := fs\<rparr>)"
proof -
  let ?f = "\<lambda>w e. (e, organizer_address e w)"
  obtain d ad where x: "select_by_uuid i (\<lambda>w. map_option (?f w) (find_event i w)) w = (Inr (Some (d, ad)), w')"
    and r: "require_row ad = Inr a" "d = e"
    using assms unfolding start_loadEvent_def
    by (auto elim!: await_InrE split: if_splits option.splits)
  then have "ad = Some a" by (cases ad) (simp_all add: require_row_def)
  with select_event_Inr [OF x] r(2) show ?thesis by auto
qed

lemma StartPage_form:
  assumes "StartPage cg deadline_text symbol i w = (Inr (StartForm p), w')"
  obtains e session where "e \<in> set (events w)" "e_id e = uuid_key i" "e_status e = CREATED"
    "signed_in_as w session" "organizer_address e w = Some (session_address session)"
    "gp_eventId p = e_id e" "gp_address p = session_address session"
proof -
  obtain e a v session u where f: "start_loadEvent i w = (Inr (Some (e, a)), v)"
    and e: "e_status e = CREATED" and s: "getSessionWallet v = (Inr (Some session), u)"
    and a: "session_address session = a" and p: "gp_eventId p = e_id e" "gp_address p = a"
    using assms unfolding StartPage_def
    by (auto elim!: await_InrE split: option.splits if_splits sum.splits prod.splits)
  obtain fs where v: "v = w\<lparr>faults := fs\<rparr>" using start_loadEvent_Inr [OF f] by blast
  show ?thesis
    using start_loadEvent_Inr [OF f] session_Inr [OF s] e a p unfolding v
    by (intro that [of e session]) simp_all
qed

lemma JudgePage_form:
  assumes "JudgePage decimal_text symbol i w = (Inr (JudgeForm p a), w')"
  obtains e session j where "e \<in> set (events w)" "e_id e = uuid_key i" "e_status e = JUDGING"
    "signed_in_as w session" "active_judges e w = [j]" "j_walletAddress j = session_address session"
    "a = session_address session" "rp_eventId p = e_id e"
    "rp_ranks p = map (\<lambda>r. int (p_rank r)) (event_prizes e w)"
    "rp_teams p = map t_id (filter (\<lambda>t. t_eventId t = e_id e) (teams w))"
proof -
  let ?f = "\<lambda>w e. judged_event_of e w"
  obtain d v s u where x: "select_by_uuid i (\<lambda>w. map_option (?f w) (find_event i w)) w = (Inr (Some d), v)"
    and s: "getSessionWallet v = (Inr (Some s), u)" and st: "e_status (jd_event d) = JUDGING"
    and sole: "is_sole_judge d (Some s)" and a: "a = session_address s"
    and p: "p = \<lparr>rp_eventId = e_id (jd_event d), rp_ranks = map (\<lambda>p. int (p_rank (fst p))) (jd_prizes d),
                 rp_teams = map t_id (jd_teams d)\<rparr>"
    using assms unfolding JudgePage_def
    by (auto elim!: await_InrE split: option.splits if_splits)
  obtain e fs where e: "e \<in> set (events w)" "e_id e = uuid_key i" "d = judged_event_of e w" "v = w\<lparr>faults := fs\<rparr>"
    using select_event_Inr [OF x] by auto
  obtain j where j: "active_judges e w = [j]" "j_walletAddress j = session_address s"
    using sole unfolding e(3) is_sole_judge_def judged_event_of_def
    by (auto simp: length_Suc_conv)
  have si: "signed_in_as w s" using session_Inr [OF s] unfolding e(4) by simp
  show ?thesis
    by (rule that [of e s j]) (use e st si j a p in \<open>simp_all add: judged_event_of_def comp_def\<close>)
qed


section \<open>Properties\<close>

lemma printed_sum:
  assumes dec: "\<And>n m. parseUsdcAmount (decimal_text n) = Some m \<Longrightarrow> m = n"
    and "sumUsdcAmounts (map (\<lambda>r. decimal_text (p_amount r)) ps) = Inr amount_due"
  shows "amount_due = sum_list (map p_amount ps)"
proof -
  obtain vs where vs: "map parseUsdcAmount (map (\<lambda>r. decimal_text (p_amount r)) ps) = map Some vs"
    "amount_due = sum_list vs"
    using assms(2) sum_from_ok [of 0 _ amount_due] by (auto simp: sumUsdcAmounts_def)
  then have "list_all2 (\<lambda>r v. parseUsdcAmount (decimal_text (p_amount r)) = Some v) ps vs"
    by (simp add: list_all2_conv_all_nth list_eq_iff_nth_eq)
  then have "list_all2 (\<lambda>r v. v = p_amount r) ps vs"
    by (rule list_all2_mono) (rule dec)
  then have "vs = map p_amount ps" by (induction rule: list_all2_induct) simp_all
  with vs(2) show ?thesis by simp
qed

text \<open>C6: From the funding page to the wallet. When no printed decimal reads as another amount: if
  the page opens the funding screen, the session is that of the organizer of a DRAFT event, and
  whatever that screen later asks the wallet to sign, Go built for this event with a reward that is
  exactly the sum of the event's stored prizes.\<close>

theorem funding_signs_the_stored_sum:
  assumes "\<And>n m. parseUsdcAmount (decimal_text n) = Some m \<Longrightarrow> m = n"
    and "FundPage cg decimal_text symbol i w = (Inr (FundForm p), w')"
    and "sign_run (fund_offer nt p) (fund_own cg nt p) onCreateSigned (fund_served nt p) (fund_opens p) s g"
  shows "\<exists>e session. e \<in> set (events w) \<and> e_id e = uuid_key i \<and> e_status e = DRAFT \<and>
    signed_in_as w session \<and> organizer_address e w = Some (session_address session) \<and>
    fp_address p = session_address session \<and>
    (\<forall>(x, b)\<in>set (sg_asked g).
       go_built cg nt (e_id e) x (bigint_to_string (sum_list (map p_amount (event_prizes e w)))))"
proof -
  from assms(2) obtain e session amount_due where e: "e \<in> set (events w)" "e_id e = uuid_key i" "e_status e = DRAFT"
    "signed_in_as w session" "organizer_address e w = Some (session_address session)"
    "fp_eventId p = e_id e" "fp_address p = session_address session"
    and t: "sumUsdcAmounts (map (\<lambda>r. decimal_text (p_amount r)) (event_prizes e w)) = Inr amount_due"
    and r: "fp_required p = bigint_to_string amount_due"
    by (rule FundPage_form)
  have "amount_due = sum_list (map p_amount (event_prizes e w))"
    using assms(1) t by (rule printed_sum)
  then have "\<forall>(x, b)\<in>set (sg_asked g).
       go_built cg nt (e_id e) x (bigint_to_string (sum_list (map p_amount (event_prizes e w))))"
    using fund_asked_go [OF assms(3)] r e(6) by fastforce
  with e show ?thesis by blast
qed

text \<open>C7: From the judge's page to the wallet. If the page opens the release form, the event is JUDGING
  and the session is that of its only active judge; and whatever the form later asks the wallet to
  sign was built for this event and an assignment that names every stored prize once, in order,
  each with a stored team of the event.\<close>

theorem judging_pays_the_stored_prizes:
  assumes "JudgePage decimal_text symbol i w = (Inr (JudgeForm p a), w')"
    and "sign_run release_offer (release_own cg hz env p) release_onSigned (release_served nt) release_opens s g"
  shows "\<exists>e session j. e \<in> set (events w) \<and> e_id e = uuid_key i \<and> e_status e = JUDGING \<and>
    signed_in_as w session \<and> a = session_address session \<and> active_judges e w = [j] \<and> j_walletAddress j = a \<and>
    (\<forall>(x, b)\<in>set (sg_asked g). \<exists>req v res v'.
       map ra_rank req = map (\<lambda>r. int (p_rank r)) (event_prizes e w) \<and>
       ra_teamId ` set req \<subseteq> {t_id t |t. t \<in> set (teams w) \<and> t_eventId t = e_id e} \<and>
       buildRelease cg hz env (e_id e) req v = (Inr res, v') \<and> result_ok (result_object res) \<and>
       x = result_member (result_object res) ''unsignedTransactionXdr'' \<and>
       rb_winners b = result_member (result_object res) ''winners'')"
proof -
  from assms(1) obtain e session j where e: "e \<in> set (events w)" "e_id e = uuid_key i" "e_status e = JUDGING"
    "signed_in_as w session" "active_judges e w = [j]" "j_walletAddress j = session_address session"
    "a = session_address session"
    and p: "rp_eventId p = e_id e" "rp_ranks p = map (\<lambda>r. int (p_rank r)) (event_prizes e w)"
      "rp_teams p = map t_id (filter (\<lambda>t. t_eventId t = e_id e) (teams w))"
    by (rule JudgePage_form)
  have sub: "set (rp_teams p) \<subseteq> {t_id t |t. t \<in> set (teams w) \<and> t_eventId t = e_id e}"
    unfolding p(3) by auto
  have "\<forall>(x, b)\<in>set (sg_asked g). \<exists>req v res v'.
       map ra_rank req = map (\<lambda>r. int (p_rank r)) (event_prizes e w) \<and>
       ra_teamId ` set req \<subseteq> {t_id t |t. t \<in> set (teams w) \<and> t_eventId t = e_id e} \<and>
       buildRelease cg hz env (e_id e) req v = (Inr res, v') \<and> result_ok (result_object res) \<and>
       x = result_member (result_object res) ''unsignedTransactionXdr'' \<and>
       rb_winners b = result_member (result_object res) ''winners''"
  proof (rule ballI, clarify)
    fix x b assume "(x, b) \<in> set (sg_asked g)"
    with assms(2) obtain req v res v' where q: "map ra_rank req = rp_ranks p" "ra_teamId ` set req \<subseteq> set (rp_teams p)"
      "buildRelease cg hz env (rp_eventId p) req v = (Inr res, v')" "result_ok (result_object res)"
      "x = result_member (result_object res) ''unsignedTransactionXdr''"
      "rb_winners b = result_member (result_object res) ''winners''"
      using release_asked_built by blast
    show "\<exists>req v res v'.
       map ra_rank req = map (\<lambda>r. int (p_rank r)) (event_prizes e w) \<and>
       ra_teamId ` set req \<subseteq> {t_id t |t. t \<in> set (teams w) \<and> t_eventId t = e_id e} \<and>
       buildRelease cg hz env (e_id e) req v = (Inr res, v') \<and> result_ok (result_object res) \<and>
       x = result_member (result_object res) ''unsignedTransactionXdr'' \<and>
       rb_winners b = result_member (result_object res) ''winners''"
      using q(1) q(3-6) subset_trans [OF q(2) sub] unfolding p(1,2)
      by (intro exI [of _ req] exI [of _ v] exI [of _ res] exI [of _ v'] conjI)
  qed
  with e show ?thesis by blast
qed


section \<open>Concrete runs\<close>

lemma encode_test_event: "encodeURIComponent test_event_id = Some test_event_id"
  unfolding test_event_id_def
  by (simp add: encodeURIComponent_def surrogate_def encode_point_def uri_unreserved_def is_upper_def is_lower_def
      is_digit_def high_surrogate_def low_surrogate_def)

definition stroops_text :: "nat \<Rightarrow> jstring" where
  "stroops_text n = formatSmallestUnits (bigint_to_string n) 7"

lemma stroops_text_reads: "parseUsdcAmount (stroops_text n) = Some m \<Longrightarrow> m = n"
  by (simp add: stroops_text_def parse_format split: if_splits)

definition page_prize :: prize_row where
  "page_prize = \<lparr>p_id = js ''p'', p_eventId = test_event_id, p_rank = 1, p_amount = 50, p_status = PENDING,
     p_winnerTeamId = None, p_releaseTxHash = None, p_releasedAt = None\<rparr>"

definition draft_event_row :: event_row where
  "draft_event_row = test_event\<lparr>e_status := DRAFT\<rparr>"

definition draft_world :: world where
  "draft_world = signed_in_world\<lparr>events := [draft_event_row], prizes := [page_prize]\<rparr>"

definition page_answer :: "(jstring \<times> json) list" where
  "page_answer = [(js ''balance'', JStr (js ''50'')), (js ''unsignedTransactionXdr'', JStr (js ''x1'')),
     (js ''reward'', JStr (js ''50''))]"

definition page_go :: "world core_go" where
  "page_go = answering_object page_answer"

lemma page_go_request: "request page_go meth path wallet body w = (Inr (JObj page_answer), w)"
  unfolding page_go_def by (rule answering_object_request) (simp_all add: page_answer_def is_unit_def)

definition page_props :: FundAndCreateProps where
  "page_props = \<lparr>fp_eventId = test_event_id, fp_address = js ''GA'', fp_initialBalance = Some (JStr (js ''50'')),
     fp_required = js ''50''\<rparr>"

lemma draft_world_session: "getSessionWallet draft_world = (Inr (Some test_session), draft_world)"
  by (simp add: getSessionWallet_def await_def select_by_uuid_def find_unique_def draft_world_def signed_in_world_def
      empty_world_def test_session_def session_of_def test_wallet_def test_wallet_id)

lemma draft_world_loads:
  "fund_loadEvent test_event_id draft_world = (Inr (Some (draft_event_row, js ''GA'', [page_prize])), draft_world)"
  by (simp add: fund_loadEvent_def select_by_uuid_def await_def test_ids find_event_def find_unique_def draft_world_def
      signed_in_world_def empty_world_def draft_event_row_def test_event_def organizer_address_def test_wallet_def
      event_prizes_def page_prize_def require_row_def)

lemma draft_page: "FundPage page_go stroops_text (Inr (js ''USDC'')) test_event_id draft_world
    = (Inr (FundForm page_props), draft_world)"
proof -
  have s: "sumUsdcAmounts (map (\<lambda>p. stroops_text (p_amount p)) [page_prize]) = Inr 50"
    using parse_format [of 50] unfolding page_prize_def sumUsdcAmounts_def stroops_text_def
    by (simp del: bigint_to_string_big bigint_to_string.simps)
  have a: "session_address test_session = js ''GA''"
    by (simp add: session_address_def test_session_def test_wallet_def)
  have b: "walletBalance page_go (js ''GA'') (js ''GA'') draft_world = (Inr (JObj page_answer), draft_world)"
    by (simp add: walletBalance_def core_path_def encode_GA get_def page_go_request await_def del: js_Cons)
  have f: "json_field (JObj page_answer) (js ''balance'') = Inr (Some (JStr (js ''50'')))"
    by (simp add: json_field_def page_answer_def members_get_def)
  have e: "e_status draft_event_row = DRAFT" "e_id draft_event_row = test_event_id"
    by (simp_all add: draft_event_row_def test_event_def)
  have t: "bigint_to_string 50 = js ''50''" by simp
  show ?thesis
    using draft_world_loads draft_world_session s a b f e t
    by (simp add: FundPage_def await_def outcome_def page_props_def del: js_Cons bigint_to_string.simps
        bigint_to_string_big)
qed

lemma page_go_builds: "\<exists>res. buildCreate page_go nt test_event_id signed_in_world = (Inr res, signed_in_world) \<and>
    result_ok res \<and> result_member res ''reward'' = Some (JStr (js ''50''))"
proof -
  have m: "string_member nt (JObj page_answer) (js ''reward'') = (js ''reward'', JStr (js ''50''))"
    by (simp add: string_member_def json_field_def members_get_def page_answer_def)
  obtain ms where f: "json_fields (JObj page_answer) [js ''unsignedTransactionXdr'', js ''escrowEventId''] = Inr ms"
    by (simp add: json_fields_def)
  have "buildCreate page_go nt test_event_id signed_in_world
      = (Inr (ok_with (ms @ [(js ''reward'', JStr (js ''50''))])), signed_in_world)"
    using signed_in
    by (simp add: buildCreate_def with_session_def createBuild_def core_path_def encode_test_event post_def
        page_go_request f m failing_def await_def try_catch_def del: js_Cons)
  moreover have "ms = [(js ''unsignedTransactionXdr'', JStr (js ''x1''))]"
    using f by (simp add: json_fields_def json_field_def page_answer_def members_get_def List.map_filter_simps)
  ultimately show ?thesis
    by (simp add: result_ok_def result_member_def ok_with_def members_get_def)
qed

theorem funding_signs_the_stored_sum_witness:
  "\<exists>s g. sign_run (fund_offer (\<lambda>_. []) page_props) (fund_own page_go (\<lambda>_. []) page_props) onCreateSigned
       (fund_served (\<lambda>_. []) page_props) (fund_opens page_props) s g \<and> sg_asked g \<noteq> [] \<and>
     (\<exists>e session. e_status e = DRAFT \<and> signed_in_as draft_world session \<and>
        go_built page_go (\<lambda>_. []) (e_id e) (fst (hd (sg_asked g)))
          (bigint_to_string (sum_list (map p_amount (event_prizes e draft_world)))))"
proof -
  let ?nt = "\<lambda>_::js_number. [] :: jstring" and ?p = page_props
  let ?own = "fund_own page_go ?nt ?p" and ?s0 = "fund_opens ?p" and ?s1 = "startCreate (fund_opens ?p)"
  obtain res where res: "buildCreate page_go ?nt test_event_id signed_in_world = (Inr res, signed_in_world)"
    "result_ok res" "result_member res ''reward'' = Some (JStr (js ''50''))"
    using page_go_builds by blast
  let ?s2 = "create_answered res ?s1" and ?b = "create_built_of res"
  have "StringToBigInt (js ''50'') = Some 50" using StringToBigInt_digits [of 50] by simp
  then have need: "needsDeposit ?nt ?p s = Some False" if "fs_balance s = Some (JStr (js ''50''))" for s
    using that by (simp add: needsDeposit_def page_props_def del: js_Cons)
  have s1: "?own ?s0 ?s1"
    using need [of ?s0] by (intro fund_own.starts) (simp add: create_button_def fund_opens_def page_props_def)
  have "fp_eventId ?p = test_event_id" by (simp add: page_props_def)
  then have s2: "?own ?s1 ?s2"
    using res(1) by (intro fund_own.build_answers) (simp_all add: startCreate_def)
  have none: "fund_offer ?nt ?p ?s0 = None" "fund_offer ?nt ?p ?s1 = None"
    by (simp_all add: fund_offer_def fund_opens_def startCreate_def)
  have off: "fund_offer ?nt ?p ?s2 = Some (cb_unsignedTransactionXdr ?b, ?b)"
    using res(2,3) need [of ?s2]
    by (simp add: fund_offer_def create_answered_def startCreate_def fund_opens_def rewardMismatch_def
        create_built_of_def page_props_def del: js_Cons)
  obtain g where g: "sign_run (fund_offer ?nt ?p) ?own onCreateSigned (fund_served ?nt ?p) ?s0 ?s2 g"
    and asked: "sg_asked g = [(cb_unsignedTransactionXdr ?b, ?b)]"
    using build_and_sign [of ?own, OF s1 s2 none off] by blast
  obtain e session where e: "e_status e = DRAFT" "signed_in_as draft_world session"
    "\<forall>(x, b)\<in>set (sg_asked g). go_built page_go ?nt (e_id e) x
        (bigint_to_string (sum_list (map p_amount (event_prizes e draft_world))))"
    using funding_signs_the_stored_sum [OF stroops_text_reads draft_page g] by blast
  show ?thesis
    using g e by (intro exI [of _ ?s2] exI [of _ g] exI [of _ e] exI [of _ session] conjI) (simp_all add: asked)
qed


definition released_team :: team_row where
  "released_team = \<lparr>t_id = js ''t1'', t_eventId = test_event_id, t_name = js ''T'', t_submissionUrl = [],
     t_submissionVerifiedAt = None\<rparr>"

definition release_page_world :: world where
  "release_page_world = judging_world\<lparr>prizes := [page_prize], teams := [released_team]\<rparr>"

definition judged_props :: ReleaseFormProps where
  "judged_props = \<lparr>rp_eventId = test_event_id, rp_ranks = [1], rp_teams = [js ''t1'']\<rparr>"

lemma release_page: "JudgePage stroops_text (Inr (js ''USDC'')) test_event_id release_page_world
    = (Inr (JudgeForm judged_props (js ''GA'')), release_page_world)"
proof -
  have w: "release_page_world = signed_in_world\<lparr>events := [judging_event],
      judges := judges judging_world, members := members judging_world, prizes := [page_prize], teams := [released_team]\<rparr>"
    by (simp add: release_page_world_def judging_world_def del: js_Cons)
  have s: "getSessionWallet release_page_world = (Inr (Some test_session), release_page_world)"
    unfolding w
    by (simp add: getSessionWallet_def await_def select_by_uuid_def find_unique_def signed_in_world_def
        empty_world_def test_session_def session_of_def test_wallet_def test_wallet_id del: js_Cons)
  have e: "find_event test_event_id release_page_world = Some judging_event"
    by (simp add: find_event_def find_unique_def w test_ids judging_event_def test_event_def del: js_Cons)
  have d: "jd_event (judged_event_of judging_event release_page_world) = judging_event"
    "map (\<lambda>p. int (p_rank (fst p))) (jd_prizes (judged_event_of judging_event release_page_world)) = [1]"
    "map t_id (jd_teams (judged_event_of judging_event release_page_world)) = [js ''t1'']"
    "is_sole_judge (judged_event_of judging_event release_page_world) (Some test_session)"
    "e_id judging_event = test_event_id" "e_status judging_event = JUDGING"
    by (simp_all add: judged_event_of_def event_prizes_def w page_prize_def released_team_def judging_event_def
        test_event_def is_sole_judge_def active_judges_def judging_world_def session_address_def test_session_def
        test_wallet_def del: js_Cons)
  have f: "faults release_page_world = []"
    by (simp add: w signed_in_world_def empty_world_def del: js_Cons)
  have a: "session_address test_session = js ''GA''"
    by (simp add: session_address_def test_session_def test_wallet_def del: js_Cons)
  show ?thesis
    using s e d f a
    by (simp add: JudgePage_def select_by_uuid_def await_def test_ids judged_props_def del: js_Cons)
qed

lemma release_go_builds_event:
  "buildRelease release_go hz env test_event_id req signed_in_world = (Inr release_res, signed_in_world)"
proof -
  let ?v = "JObj [(js ''unsignedTransactionXdr'', JStr (js ''x1'')), (js ''winners'', JArr [])]"
  have r: "request release_go POST path wallet body w = (Inr ?v, w)" for path wallet body and w :: world
    unfolding release_go_def by (rule answering_object_request) (simp_all add: is_unit_def)
  have f: "json_fields ?v [js ''unsignedTransactionXdr'', js ''winners'']
      = Inr [(js ''unsignedTransactionXdr'', JStr (js ''x1'')), (js ''winners'', JArr [])]"
    by (simp add: json_fields_def json_field_def members_get_def List.map_filter_simps)
  have u: "isActiveJudge test_event_id (session_address test_session) signed_in_world = (Inr False, signed_in_world)"
    by (simp add: isActiveJudge_def test_ids select_by_uuid_def find_event_def find_unique_def signed_in_world_def
        empty_world_def await_def)
  show ?thesis
    using signed_in
    by (simp add: buildRelease_def u releaseBuild_def core_path_def encode_test_event post_def r f
        release_res_def await_def try_catch_def del: js_Cons)
qed

theorem judging_pays_the_stored_prizes_witness:
  "\<exists>s g. sign_run release_offer (release_own release_go closed_horizon test_usdc judged_props) release_onSigned
       (release_served (\<lambda>_. [])) release_opens s g \<and> sg_asked g \<noteq> [] \<and>
     (\<exists>e j. e_status e = JUDGING \<and> active_judges e release_page_world = [j] \<and> j_walletAddress j = js ''GA'' \<and>
        (\<exists>req :: ReleaseAssignment list.
           map ra_rank req = map (\<lambda>r. int (p_rank r)) (event_prizes e release_page_world) \<and>
           ra_teamId ` set req \<subseteq> {t_id t |t. t \<in> set (teams release_page_world) \<and> t_eventId t = e_id e}))"
proof -
  let ?p = judged_props
  let ?own = "release_own release_go closed_horizon test_usdc ?p"
  let ?s0 = release_opens and ?b = "release_built_of release_res" and ?req = "[\<lparr>ra_rank = 1, ra_teamId = js ''t1''\<rparr>]"
  let ?s1 = "pick_team 1 (js ''t1'') ?s0" let ?s2 = "release_build ?p ?s1"
  let ?s3 = "release_answered ?req release_res ?s2"
  have req: "assigned ?p ?s1 = ?req" by (simp add: assigned_def pick_team_def judged_props_def)
  have s1: "?own ?s0 ?s1"
    by (rule release_own.picks) (simp_all add: select_open_def release_opens_def judged_props_def)
  have s2: "?own ?s1 ?s2"
    by (rule release_own.builds)
      (simp add: release_button_def allAssigned_def present_def pick_team_def release_opens_def judged_props_def)
  have pend: "rs_pending ?s2 = Some ?req" unfolding release_build_def req by simp
  have s3: "?own ?s2 ?s3"
    using release_own.build_answers [OF pend, where w = signed_in_world and p = ?p]
      release_go_builds_event [of closed_horizon test_usdc ?req]
    by (simp add: judged_props_def del: js_Cons)
  have none: "release_offer ?s0 = None" "release_offer ?s1 = None" "release_offer ?s2 = None"
    by (simp_all add: release_offer_def release_opens_def pick_team_def release_build_def)
  have ok: "result_ok (result_object release_res)"
    by (simp add: result_ok_def result_object_def result_member_def release_res_def members_get_def)
  have off: "release_offer ?s3 = Some (rb_unsignedTransactionXdr ?b, ?b)"
    using ok by (simp add: release_offer_def release_answered_def release_build_def)
  have "quiet_run release_offer ?own release_onSigned (release_served (\<lambda>_. [])) ?s0 ?s2"
    by (rule quiet_moves, rule quiet_moves, rule quiet_opens) (rule none s1 s2)+
  then have "\<exists>g. sign_run release_offer ?own release_onSigned (release_served (\<lambda>_. [])) ?s0 ?s3 g \<and>
      sg_asked g = [(rb_unsignedTransactionXdr ?b, ?b)]"
    using s3 off by (rule quiet_signs [where own = ?own and offer = release_offer])
  then obtain g where g: "sign_run release_offer ?own release_onSigned (release_served (\<lambda>_. [])) ?s0 ?s3 g"
    and asked: "sg_asked g = [(rb_unsignedTransactionXdr ?b, ?b)]" by blast
  have mem: "(rb_unsignedTransactionXdr ?b, ?b) \<in> set (sg_asked g)" by (simp add: asked)
  obtain e j where e: "e_status e = JUDGING" "active_judges e release_page_world = [j]" "j_walletAddress j = js ''GA''"
    and all: "\<forall>(x, b)\<in>set (sg_asked g). \<exists>req v res v'.
       map ra_rank req = map (\<lambda>r. int (p_rank r)) (event_prizes e release_page_world) \<and>
       ra_teamId ` set req \<subseteq> {t_id t |t. t \<in> set (teams release_page_world) \<and> t_eventId t = e_id e} \<and>
       buildRelease release_go closed_horizon test_usdc (e_id e) req v = (Inr res, v') \<and>
       result_ok (result_object res) \<and>
       x = result_member (result_object res) ''unsignedTransactionXdr'' \<and>
       rb_winners b = result_member (result_object res) ''winners''"
    using judging_pays_the_stored_prizes [OF release_page g] by (elim exE conjE) (rule that, assumption+)
  obtain req :: "ReleaseAssignment list" where "map ra_rank req = map (\<lambda>r. int (p_rank r)) (event_prizes e release_page_world)"
    "ra_teamId ` set req \<subseteq> {t_id t |t. t \<in> set (teams release_page_world) \<and> t_eventId t = e_id e}"
    using bspec [OF all mem] by (simp only: prod.case) (elim exE conjE, rule that, assumption+)
  then have q: "\<exists>req :: ReleaseAssignment list. map ra_rank req = map (\<lambda>r. int (p_rank r)) (event_prizes e release_page_world) \<and>
       ra_teamId ` set req \<subseteq> {t_id t |t. t \<in> set (teams release_page_world) \<and> t_eventId t = e_id e}"
    by (intro exI [of _ req] conjI)
  show ?thesis
    using g e q by (intro exI [of _ ?s3] exI [of _ g] exI [of _ e] exI [of _ j] conjI) (simp_all only: asked list.simps not_False_eq_True)
qed

end
