(* ===== verification/Event_Page.thy ===== *)
theory Event_Page
  imports Pages Public_View Card_Model Environment Qr_Total
begin

text \<open>
  The public page of an event, \<open>events/[id]/page.tsx\<close>, with the components it is made of:
  \<open>event/onchain-badge.tsx\<close>, \<open>prize-list.tsx\<close>, \<open>payout-history.tsx\<close>, \<open>event-qr-code.tsx\<close> and
  \<open>tx-hash-link.tsx\<close>. A page is the record of what it shows; a component that throws while it renders
  makes the page throw. The record \<open>page_env\<close> holds what reading \<open>env\<close> gives (theory \<open>Environment\<close>),
  the two variables of \<open>getSiteUrl\<close> and the two translated labels of a resolver. Styles, the other
  labels and the state of the copy button are left out.
\<close>

section \<open>Links\<close>

record address_link =
  al_href :: jstring
  al_text :: jstring
  al_title :: jstring

definition shortAddress :: "jstring \<Rightarrow> jstring" where
  "shortAddress address = take 6 address @ [ellipsis] @ slice_last 6 address"

definition AddressLink :: "explorer_network \<Rightarrow> jstring \<Rightarrow> address_link" where
  "AddressLink network address =
     \<lparr>al_href = getExplorerAccountUrl address network, al_text = shortAddress address, al_title = address\<rparr>"

text \<open>\<open>handleCopy\<close> writes the hash itself to the clipboard.\<close>

record tx_hash_link =
  tl_href :: jstring
  tl_text :: jstring
  tl_copies :: jstring

definition TxHashLink :: "jstring \<Rightarrow> explorer_network \<Rightarrow> nat \<Rightarrow> nat \<Rightarrow> tx_hash_link option" where
  "TxHashLink hash network leadingChars trailingChars =
     (if hash = [] then None
      else Some \<lparr>tl_href = getExplorerTxUrl hash network,
                 tl_text = truncateHash hash leadingChars trailingChars, tl_copies = hash\<rparr>)"

section \<open>onchain-badge.tsx\<close>

definition LOCKED_ESCROW_STATES :: "jstring list" where
  "LOCKED_ESCROW_STATES = [js ''Created'', js ''WaitingForStart'', js ''InProgress'', js ''Ended'']"

record onchain_badge =
  bv_verified :: bool
  bv_notOnChain :: bool
  bv_reward :: "(jstring \<times> jstring) option"
  bv_error :: "jstring option option"
  bv_eventId :: "jstring option"
  bv_contract :: "(jstring \<times> jstring) option"

definition isConfirmedOnChain :: "jstring option \<Rightarrow> EscrowEvent option \<Rightarrow> bool" where
  "isConfirmedOnChain escrowEventId escrow \<longleftrightarrow>
     present escrowEventId \<and> (case escrow of None \<Rightarrow> False | Some e \<Rightarrow> ee_state e \<in> set LOCKED_ESCROW_STATES)"

definition OnchainBadge ::
    "jstring option \<Rightarrow> EscrowEvent option \<Rightarrow> jstring option \<Rightarrow> jstring \<Rightarrow> explorer_network \<Rightarrow> onchain_badge" where
  "OnchainBadge escrowEventId escrow escrowError contractId network =
     (let confirmed = isConfirmedOnChain escrowEventId escrow in
      if present escrowEventId then
        \<lparr>bv_verified = confirmed, bv_notOnChain = False,
         bv_reward = map_option (\<lambda>e. (formatSmallestUnits (ee_reward e) 7, ee_state e)) escrow,
         bv_error = (if escrow = None then Some escrowError else None), bv_eventId = escrowEventId,
         bv_contract = (if confirmed then Some (getExplorerContractUrl contractId network, contractId) else None)\<rparr>
      else
        \<lparr>bv_verified = confirmed, bv_notOnChain = True, bv_reward = None, bv_error = None, bv_eventId = None,
         bv_contract = None\<rparr>)"

section \<open>prize-list.tsx and payout-history.tsx\<close>

definition null_method :: exn where
  "null_method = PlainError (js ''Cannot read properties of null'')"

text \<open>\<open>v.toString()\<close>\<close>

definition method_toString :: "view_host \<Rightarrow> js_value \<Rightarrow> exn + jstring" where
  "method_toString h v = (if v = VUndefined \<or> v = VNull then Inl null_method else Inr (to_String h v))"

definition winner_view :: "PublicTeamView list \<Rightarrow> PublicPrizeView \<Rightarrow> PublicTeamView option" where
  "winner_view ts prize =
     (if present (pp_winnerTeamId prize) then List.find (\<lambda>t. Some (pt_id t) = pp_winnerTeamId prize) ts
      else None)"

record prize_item =
  pi_rank :: js_number
  pi_amount :: "jstring \<times> jstring"
  pi_winner :: "jstring option"
  pi_tx :: "tx_hash_link option"

definition tx_of :: "PublicPrizeView \<Rightarrow> explorer_network \<Rightarrow> nat \<Rightarrow> tx_hash_link option" where
  "tx_of prize network k = Option.bind (pp_releaseTxHash prize) (\<lambda>hash. TxHashLink hash network k k)"

definition prize_item_of ::
    "view_host \<Rightarrow> PublicTeamView list \<Rightarrow> jstring \<Rightarrow> explorer_network \<Rightarrow> PublicPrizeView \<Rightarrow> exn + prize_item" where
  "prize_item_of h ts assetSymbol network prize =
     and_then (method_toString h (pp_amount prize)) (\<lambda>amount. Inr
       \<lparr>pi_rank = pp_rank prize, pi_amount = (amount, assetSymbol),
        pi_winner = map_option pt_name (winner_view ts prize), pi_tx = tx_of prize network 8\<rparr>)"

definition PrizeList ::
    "view_host \<Rightarrow> PublicPrizeView list \<Rightarrow> PublicTeamView list \<Rightarrow> jstring \<Rightarrow> explorer_network \<Rightarrow>
     exn + prize_item list" where
  "PrizeList h ps ts assetSymbol network = collect (prize_item_of h ts assetSymbol network) ps"

text \<open>In a row of the history \<open>pi_winner = None\<close> reads as the label of an unassigned winner.\<close>

definition payout_item_of ::
    "view_host \<Rightarrow> PublicTeamView list \<Rightarrow> jstring \<Rightarrow> explorer_network \<Rightarrow> PublicPrizeView \<Rightarrow> exn + prize_item" where
  "payout_item_of h ts assetSymbol network prize =
     and_then (method_toString h (pp_amount prize)) (\<lambda>amount. Inr
       \<lparr>pi_rank = pp_rank prize, pi_amount = (amount, assetSymbol),
        pi_winner = map_option pt_name (winner_view ts prize), pi_tx = tx_of prize network 6\<rparr>)"

definition PayoutHistory ::
    "view_host \<Rightarrow> PublicPrizeView list \<Rightarrow> PublicTeamView list \<Rightarrow> jstring \<Rightarrow> explorer_network \<Rightarrow>
     exn + prize_item list" where
  "PayoutHistory h ps ts assetSymbol network =
     collect (payout_item_of h ts assetSymbol network) (filter (\<lambda>p. present (pp_releaseTxHash p)) ps)"

section \<open>event-qr-code.tsx\<close>

definition QUIET_ZONE :: int where
  "QUIET_ZONE = 4"

record event_qr =
  eq_viewBox :: "int \<times> int \<times> int \<times> int"
  eq_path :: jstring
  eq_url :: jstring

definition EventQrCode :: "jstring \<Rightarrow> exn + event_qr" where
  "EventQrCode url =
     and_then (qrSvgPath url) (\<lambda>(path, modules).
       let box = modules + QUIET_ZONE * 2
       in Inr \<lparr>eq_viewBox = (- QUIET_ZONE, - QUIET_ZONE, box, box), eq_path = path, eq_url = url\<rparr>)"

section \<open>page.tsx\<close>

record page_env =
  pv_contract :: "exn + jstring"
  pv_symbol :: "exn + jstring"
  pv_network :: explorer_network
  pv_appUrl :: "jstring option"
  pv_vercelUrl :: "jstring option"
  pv_unavailable :: jstring
  pv_default :: jstring

datatype cta =
    ConnectWallet
  | StartJudging jstring
  | GoLiveLink jstring
  | JudgeLink jstring
  | RegisterTeam jstring
  | Registered
  | RegistrationClosed

text \<open>\<open>ep_judge\<close> is the one judge, or how many there are; \<open>ep_resolver\<close> a label or a link.\<close>

record event_view =
  ep_status :: js_value
  ep_name :: jstring
  ep_description :: "jstring option"
  ep_onchain :: onchain_badge
  ep_prizes :: "prize_item list"
  ep_payouts :: "prize_item list"
  ep_organizer :: address_link
  ep_judge :: "nat + jstring \<times> address_link"
  ep_resolver :: "jstring + address_link"
  ep_qr :: event_qr
  ep_teams :: "(jstring \<times> address_link list) list"
  ep_ctas :: "cta list"

record event_metadata =
  em_title :: jstring
  em_description :: jstring

definition generateMetadata :: "jstring \<Rightarrow> jstring \<Rightarrow> (world, event_metadata option) action" where
  "generateMetadata defaultDescription i =
     (if \<not> isUuid i then return_value None
      else
        await (select_by_uuid i (\<lambda>w. map_option (\<lambda>e. (e_name e, e_description e)) (find_event i w))) (\<lambda>found.
        return_value (map_option (\<lambda>(name, description).
          \<lparr>em_title = name,
           em_description = (case description of None \<Rightarrow> defaultDescription | Some d \<Rightarrow> d)\<rparr>) found)))"

definition page_judge :: "PublicEventView \<Rightarrow> PublicJudgeView option" where
  "page_judge ev = (if length (pe_judges ev) = 1 then Some (hd (pe_judges ev)) else None)"

definition is_organizer :: "PublicEventView \<Rightarrow> session_wallet option \<Rightarrow> bool" where
  "is_organizer ev s \<longleftrightarrow> (case s of None \<Rightarrow> False | Some x \<Rightarrow> w_id (sw_wallet x) = pe_organizerWalletId ev)"

definition is_judge :: "PublicEventView \<Rightarrow> session_wallet option \<Rightarrow> bool" where
  "is_judge ev s \<longleftrightarrow>
     (case s of
        None \<Rightarrow> False
      | Some x \<Rightarrow> (case page_judge ev of None \<Rightarrow> False | Some j \<Rightarrow> pj_walletAddress j = session_address x))"

definition is_registered :: "PublicEventView \<Rightarrow> session_wallet option \<Rightarrow> bool" where
  "is_registered ev s \<longleftrightarrow>
     (case s of
        None \<Rightarrow> False
      | Some x \<Rightarrow> list_ex (\<lambda>t. list_ex (\<lambda>m. pm_walletId m = w_id (sw_wallet x)) (pt_members t)) (pe_teams ev))"

definition page_ctas :: "PublicEventView \<Rightarrow> session_wallet option \<Rightarrow> cta list" where
  "page_ctas ev s =
     (let organizer = is_organizer ev s; judge = is_judge ev s; registered = is_registered ev s;
          status = (\<lambda>t. pe_status ev = VStr (js t))
      in case s of
           None \<Rightarrow> [ConnectWallet]
         | Some _ \<Rightarrow>
             (if organizer \<and> status ''LIVE'' then [StartJudging (pe_id ev)] else []) @
             (if organizer \<and> status ''CREATED''
              then [GoLiveLink (js ''/organizer/events/'' @ pe_id ev @ js ''/start'')] else []) @
             (if judge then [JudgeLink (js ''/events/'' @ pe_id ev @ js ''/judge'')] else []) @
             (if status ''LIVE'' \<and> \<not> registered \<and> \<not> organizer then [RegisterTeam (pe_id ev)] else []) @
             (if registered then [Registered] else []) @
             (if \<not> organizer \<and> \<not> judge \<and> \<not> registered \<and> \<not> status ''LIVE'' then [RegistrationClosed] else []))"

text \<open>\<open>escrow\<close> and \<open>escrowError\<close>\<close>

definition read_reserve ::
    "soroban \<Rightarrow> jstring option \<Rightarrow> (world, EscrowEvent option \<times> jstring option) action" where
  "read_reserve sb escrowEventId =
     (if present escrowEventId then
        await (outcome (readEscrowEvent sb (the escrowEventId))) (\<lambda>read.
        return_value (case read of Inr e \<Rightarrow> (Some e, None) | Inl err \<Rightarrow> (None, Some (error_text err))))
      else return_value (None, None))"

definition page_resolver ::
    "page_env \<Rightarrow> jstring option \<Rightarrow> EscrowEvent option \<Rightarrow> dispute_resolver" where
  "page_resolver pv escrowEventId escrow =
     (if present escrowEventId \<and> escrow = None
      then \<lparr>dr_isDefault = False, dr_label = pv_unavailable pv, dr_address = None\<rparr>
      else resolveDisputeResolver (Option.bind escrow ee_resolver) (pv_default pv))"

definition resolver_card :: "page_env \<Rightarrow> dispute_resolver \<Rightarrow> jstring + address_link" where
  "resolver_card pv r =
     (if dr_isDefault r \<or> \<not> present (dr_address r) then Inl (dr_label r)
      else Inr (AddressLink (pv_network pv) (the (dr_address r))))"

definition share_url :: "page_env \<Rightarrow> jstring \<Rightarrow> jstring \<Rightarrow> jstring" where
  "share_url pv locale eventId =
     getSiteUrl (pv_appUrl pv) (pv_vercelUrl pv) @ js ''/'' @ locale @ js ''/events/'' @ eventId"

definition render_event ::
    "view_host \<Rightarrow> page_env \<Rightarrow> jstring \<Rightarrow> PublicEventView \<Rightarrow> session_wallet option \<Rightarrow>
     EscrowEvent option \<times> jstring option \<Rightarrow> exn + event_view" where
  "render_event h pv locale ev s read =
     and_then (pv_contract pv) (\<lambda>contractId.
     and_then (pv_symbol pv) (\<lambda>symbol.
     and_then (PrizeList h (pe_prizes ev) (pe_teams ev) symbol (pv_network pv)) (\<lambda>ps.
     and_then (PayoutHistory h (pe_prizes ev) (pe_teams ev) symbol (pv_network pv)) (\<lambda>payouts.
     and_then (EventQrCode (share_url pv locale (pe_id ev))) (\<lambda>qr. Inr
       \<lparr>ep_status = pe_status ev, ep_name = pe_name ev,
        ep_description = (if present (pe_description ev) then pe_description ev else None),
        ep_onchain = OnchainBadge (pe_escrowEventId ev) (fst read) (snd read) contractId (pv_network pv),
        ep_prizes = ps, ep_payouts = payouts,
        ep_organizer = AddressLink (pv_network pv) (pe_organizer_address ev),
        ep_judge = (case page_judge ev of
                      None \<Rightarrow> Inl (length (pe_judges ev))
                    | Some j \<Rightarrow> Inr (pj_displayName j, AddressLink (pv_network pv) (pj_walletAddress j))),
        ep_resolver = resolver_card pv (page_resolver pv (pe_escrowEventId ev) (fst read)),
        ep_qr = qr,
        ep_teams = map (\<lambda>t. (pt_name t, map (\<lambda>m. AddressLink (pv_network pv) (pm_wallet_address m)) (pt_members t)))
                     (pe_teams ev),
        ep_ctas = page_ctas ev s\<rparr>)))))"

text \<open>\<open>None\<close> is \<open>notFound()\<close>.\<close>

definition EventPage ::
    "view_host \<Rightarrow> soroban \<Rightarrow> page_env \<Rightarrow> jstring \<Rightarrow> jstring \<Rightarrow> (world, event_view option) action" where
  "EventPage h sb pv locale i =
     (if \<not> isUuid i then return_value None
      else
        await (loadPublicEventView h i) (\<lambda>found.
        case found of
          None \<Rightarrow> return_value None
        | Some ev \<Rightarrow>
            await getSessionWallet (\<lambda>s.
            await (read_reserve sb (pe_escrowEventId ev)) (\<lambda>read.
            await (lift_result (render_event h pv locale ev s read)) (\<lambda>view. return_value (Some view))))))"



section \<open>What the page was made from\<close>

lemma PUBLIC_EVENT_SELECT_faults [simp]: "PUBLIC_EVENT_SELECT h e (w\<lparr>faults := fs\<rparr>) = PUBLIC_EVENT_SELECT h e w"
  by (rule PUBLIC_EVENT_SELECT_visible) simp_all

lemma sanitize_needs_organizer:
  assumes "sanitizePublicEventView h (PUBLIC_EVENT_SELECT h e w) = Inr ev"
  shows "\<exists>r. find_unique (\<lambda>r. w_id r = e_organizerWalletId e) (wallets w) = Some r \<and> ev = shown_event h e r w"
proof (cases "find_unique (\<lambda>r. w_id r = e_organizerWalletId e) (wallets w)")
  case None
  have "obj_get (PUBLIC_EVENT_SELECT h e w) (js ''organizerWallet'') = VNull"
    using None by (simp add: PUBLIC_EVENT_SELECT_def Let_def obj_get_def select_wallet_def)
  then have "sanitizePublicEventView h (PUBLIC_EVENT_SELECT h e w) \<noteq> Inr ev"
    by (simp add: sanitizePublicEventView_def members_of_def del: js_Cons)
  with assms show ?thesis by blast
next
  case (Some r)
  with assms sanitize_event_row [OF Some, of h] show ?thesis by simp
qed

lemma load_Some:
  assumes "loadPublicEventView h i w = (Inr (Some ev), w')"
  obtains e r fs where "e \<in> set (events w)" "e_id e = uuid_key i"
    "find_unique (\<lambda>r. w_id r = e_organizerWalletId e) (wallets w) = Some r" "ev = shown_event h e r w"
    "w' = w\<lparr>faults := fs\<rparr>"
proof -
  let ?f = "\<lambda>w e. PUBLIC_EVENT_SELECT h e w"
  obtain raw where x: "select_by_uuid i (\<lambda>w. map_option (?f w) (find_event i w)) w = (Inr (Some raw), w')"
    and r: "sanitizePublicEventView h raw = Inr ev"
    using assms unfolding loadPublicEventView_def by (auto elim!: await_InrE split: option.splits)
  obtain e fs where e: "e \<in> set (events w)" "e_id e = uuid_key i" "raw = ?f w e" "w' = w\<lparr>faults := fs\<rparr>"
    using select_event_Inr [OF x] by auto
  then show ?thesis using sanitize_needs_organizer [OF r [unfolded e(3)]] that by blast
qed

lemma read_reserve_cases:
  assumes "read_reserve sb k w = (Inr (escrow, err), w')"
  shows "\<not> present k \<and> escrow = None \<and> err = None \<or>
    (\<exists>c e v. k = Some c \<and> c \<noteq> [] \<and> readEscrowEvent sb c w = (Inr e, v) \<and> escrow = Some e \<and> err = None) \<or>
    (\<exists>c x v. k = Some c \<and> c \<noteq> [] \<and> readEscrowEvent sb c w = (Inl x, v) \<and> escrow = None \<and> err = Some (error_text x))"
  using assms
  by (auto simp: read_reserve_def outcome_def await_def present_def split: if_splits option.splits sum.splits prod.splits)

text \<open>The session the cookie of the request stands for.\<close>

definition cookie_session :: "world \<Rightarrow> session_wallet option" where
  "cookie_session w =
     (case session_cookie w of None \<Rightarrow> None | Some i \<Rightarrow> if i = [] then None else session_of i w)"

lemma session_answer:
  assumes "getSessionWallet w = (Inr s, w')"
  shows "(\<exists>fs. w' = w\<lparr>faults := fs\<rparr>) \<and> s = cookie_session w"
proof (cases "session_cookie w")
  case None
  then show ?thesis
    using assms getSessionWallet_cases [OF assms] by (auto simp: getSessionWallet_def cookie_session_def)
next
  case (Some i)
  show ?thesis
  proof (cases "i = []")
    case True
    then show ?thesis
      using Some assms getSessionWallet_cases [OF assms] by (auto simp: getSessionWallet_def cookie_session_def)
  next
    case False
    then have "select_by_uuid i (session_of i) w = (Inr s, w')"
      using assms Some by (simp add: getSessionWallet_def)
    then show ?thesis
      using False Some by (cases rule: select_by_uuidE) (auto simp: cookie_session_def)
  qed
qed

lemma cookie_session_faults [simp]: "cookie_session (w\<lparr>faults := fs\<rparr>) = cookie_session w"
  by (simp add: cookie_session_def split: option.split)

lemma EventPage_view:
  assumes "EventPage h sb pv locale i w = (Inr (Some view), w')"
  obtains e r escrow err fs u' where "e \<in> set (events w)" "e_id e = uuid_key i"
    "read_reserve sb (e_escrowEventId e) (w\<lparr>faults := fs\<rparr>) = (Inr (escrow, err), u')"
    "render_event h pv locale (shown_event h e r w) (cookie_session w) (escrow, err) = Inr view"
proof -
  obtain ev v s u escrow err u' where l: "loadPublicEventView h i w = (Inr (Some ev), v)"
    and s: "getSessionWallet v = (Inr s, u)"
    and k: "read_reserve sb (pe_escrowEventId ev) u = (Inr (escrow, err), u')"
    and r: "render_event h pv locale ev s (escrow, err) = Inr view"
    using assms unfolding EventPage_def by (auto elim!: await_InrE split: if_splits option.splits)
  obtain e r fs where e: "e \<in> set (events w)" "e_id e = uuid_key i" "ev = shown_event h e r w" "v = w\<lparr>faults := fs\<rparr>"
    using load_Some [OF l] by blast
  have "pe_escrowEventId ev = e_escrowEventId e" by (simp add: e(3) shown_event_def Let_def)
  moreover obtain fs' where "u = w\<lparr>faults := fs'\<rparr>" "s = cookie_session w"
    using session_answer [OF s] unfolding e(4) by auto
  ultimately show ?thesis using that [of e fs' escrow err u' r] e k r by simp
qed

text \<open>The rows of the two lists.\<close>

definition ranked_prizes :: "event_row \<Rightarrow> world \<Rightarrow> prize_row list" where
  "ranked_prizes e w = sort_key p_rank (filter (\<lambda>p. p_eventId p = e_id e) (prizes w))"

definition stored_amount :: "view_host \<Rightarrow> jstring \<Rightarrow> prize_row \<Rightarrow> js_number \<times> jstring \<times> jstring" where
  "stored_amount h symbol p = (js_int (int (p_rank p)), to_String h (VDecimal (p_amount p)), symbol)"

lemma items_stored:
  "collect (prize_item_of h ts symbol n) (map shown_prize ps) = Inr xs \<Longrightarrow>
     map (\<lambda>x. (pi_rank x, pi_amount x)) xs = map (stored_amount h symbol) ps"
  "collect (payout_item_of h ts symbol n) (map shown_prize ps) = Inr xs \<Longrightarrow>
     map (\<lambda>x. (pi_rank x, pi_amount x)) xs = map (stored_amount h symbol) ps"
  by (induction ps arbitrary: xs)
    (auto elim!: and_then_InrE simp: prize_item_of_def payout_item_of_def method_toString_def shown_prize_def
      stored_amount_def)

lemma render_lists:
  assumes "render_event h pv locale (shown_event h e r w) s read = Inr view"
  obtains symbol where "pv_symbol pv = Inr symbol"
    "map (\<lambda>x. (pi_rank x, pi_amount x)) (ep_prizes view) = map (stored_amount h symbol) (ranked_prizes e w)"
    "map (\<lambda>x. (pi_rank x, pi_amount x)) (ep_payouts view)
       = map (stored_amount h symbol) (filter (\<lambda>p. present (p_releaseTxHash p)) (ranked_prizes e w))"
proof -
  have sh: "pe_prizes (shown_event h e r w) = map shown_prize (ranked_prizes e w)"
    unfolding ranked_prizes_def by (rule shown_event_prizes)
  have rel: "filter (\<lambda>p. present (pp_releaseTxHash p)) (map shown_prize ps)
      = map shown_prize (filter (\<lambda>p. present (p_releaseTxHash p)) ps)" for ps
    by (simp add: filter_map comp_def shown_prize_def)
  obtain symbol ts where "pv_symbol pv = Inr symbol"
    and p: "collect (prize_item_of h ts symbol (pv_network pv)) (map shown_prize (ranked_prizes e w)) = Inr (ep_prizes view)"
    and q: "collect (payout_item_of h ts symbol (pv_network pv))
      (map shown_prize (filter (\<lambda>p. present (p_releaseTxHash p)) (ranked_prizes e w))) = Inr (ep_payouts view)"
    using assms unfolding render_event_def PrizeList_def PayoutHistory_def sh rel
    by (auto elim!: and_then_InrE)
  then show ?thesis using that items_stored(1) [OF p] items_stored(2) [OF q] by blast
qed

section \<open>Properties\<close>

text \<open>C12: The money on the public page. If the page shows, it is of a stored event, and what it says about
  the escrow is what the chain answered for that event's stored escrow id when the page was made: an
  amount and a state are only shown as that successful \<open>readEscrowEvent\<close> gave them, the "verified" badge
  and the link to the contract exactly when its state is a locked one, and the resolver is exactly the
  one read, the default only when the contract named none. If the read fails, the failure is shown,
  nothing is verified, and the resolver reads as unavailable; without an escrow id the page says so. The
  prizes and the payouts are the stored rows of the event in their rank order, each with its stored
  amount; the payouts are those with a release transaction.\<close>

theorem event_page_money_is_on_chain:
  assumes "EventPage h sb pv locale i w = (Inr (Some view), w')"
  shows "\<exists>e\<in>set (events w). e_id e = uuid_key i \<and>
    (case bv_reward (ep_onchain view) of
       Some (amount, state) \<Rightarrow>
         \<exists>c esc fs v'. e_escrowEventId e = Some c \<and> c \<noteq> [] \<and>
           readEscrowEvent sb c (w\<lparr>faults := fs\<rparr>) = (Inr esc, v') \<and>
           amount = formatSmallestUnits (ee_reward esc) 7 \<and> state = ee_state esc \<and>
           (bv_verified (ep_onchain view) \<longleftrightarrow> state \<in> set LOCKED_ESCROW_STATES) \<and>
           (bv_contract (ep_onchain view) \<noteq> None \<longleftrightarrow> bv_verified (ep_onchain view)) \<and>
           ep_resolver view =
             (case ee_resolver esc of
                None \<Rightarrow> Inl (pv_default pv)
              | Some a \<Rightarrow> if trim a = [] then Inl (pv_default pv) else Inr (AddressLink (pv_network pv) (trim a)))
     | None \<Rightarrow>
         \<not> bv_verified (ep_onchain view) \<and> bv_contract (ep_onchain view) = None \<and>
         (if present (e_escrowEventId e)
          then (\<exists>c x fs v'. e_escrowEventId e = Some c \<and> readEscrowEvent sb c (w\<lparr>faults := fs\<rparr>) = (Inl x, v') \<and>
                  bv_error (ep_onchain view) = Some (Some (error_text x))) \<and>
               ep_resolver view = Inl (pv_unavailable pv)
          else bv_notOnChain (ep_onchain view) \<and> ep_resolver view = Inl (pv_default pv))) \<and>
    (\<exists>symbol. pv_symbol pv = Inr symbol \<and>
       map (\<lambda>x. (pi_rank x, pi_amount x)) (ep_prizes view) = map (stored_amount h symbol) (ranked_prizes e w) \<and>
       map (\<lambda>x. (pi_rank x, pi_amount x)) (ep_payouts view)
         = map (stored_amount h symbol) (filter (\<lambda>p. present (p_releaseTxHash p)) (ranked_prizes e w)))"
    (is "\<exists>e\<in>_. _ \<and> ?chain e \<and> _")
proof -
  obtain e r escrow err fs u' where e: "e \<in> set (events w)" "e_id e = uuid_key i"
    and k: "read_reserve sb (e_escrowEventId e) (w\<lparr>faults := fs\<rparr>) = (Inr (escrow, err), u')"
    and v: "render_event h pv locale (shown_event h e r w) (cookie_session w) (escrow, err) = Inr view"
    using assms by (rule EventPage_view)
  have i: "pe_escrowEventId (shown_event h e r w) = e_escrowEventId e" by (simp add: shown_event_def Let_def)
  obtain c where o: "ep_onchain view = OnchainBadge (e_escrowEventId e) escrow err c (pv_network pv)"
    and p: "ep_resolver view = resolver_card pv (page_resolver pv (e_escrowEventId e) escrow)"
    using v unfolding render_event_def and_then_def i by (auto split: sum.splits)
  obtain symbol where l: "pv_symbol pv = Inr symbol"
    "map (\<lambda>x. (pi_rank x, pi_amount x)) (ep_prizes view) = map (stored_amount h symbol) (ranked_prizes e w)"
    "map (\<lambda>x. (pi_rank x, pi_amount x)) (ep_payouts view)
       = map (stored_amount h symbol) (filter (\<lambda>p. present (p_releaseTxHash p)) (ranked_prizes e w))"
    using v by (rule render_lists)
  have t: "trim [] = []" by code_simp
  show ?thesis
  proof (rule bexI [OF _ e(1)], rule conjI [OF e(2)], rule conjI, cases escrow)
    case None
    with read_reserve_cases [OF k] o p show "?chain e"
      by (auto simp: OnchainBadge_def Let_def isConfirmedOnChain_def resolver_card_def page_resolver_def
          resolveDisputeResolver_def present_def split: option.splits if_splits)
  next
    case (Some esc)
    with read_reserve_cases [OF k] obtain a v where a: "e_escrowEventId e = Some a" "a \<noteq> []"
      and r: "readEscrowEvent sb a (w\<lparr>faults := fs\<rparr>) = (Inr esc, v)" by auto
    have b: "bv_reward (ep_onchain view) = Some (formatSmallestUnits (ee_reward esc) 7, ee_state esc)"
      "bv_verified (ep_onchain view) \<longleftrightarrow> ee_state esc \<in> set LOCKED_ESCROW_STATES"
      "bv_contract (ep_onchain view) \<noteq> None \<longleftrightarrow> bv_verified (ep_onchain view)"
      by (simp_all add: o Some a OnchainBadge_def Let_def isConfirmedOnChain_def present_def)
    have q: "ep_resolver view = (case ee_resolver esc of
          None \<Rightarrow> Inl (pv_default pv)
        | Some a \<Rightarrow> if trim a = [] then Inl (pv_default pv) else Inr (AddressLink (pv_network pv) (trim a)))"
      using t by (auto simp: p Some a page_resolver_def resolver_card_def resolveDisputeResolver_def present_def
          split: option.splits)
    show "?chain e"
      unfolding b(1) option.case prod.case
      by (rule exI [of _ a], rule exI [of _ esc], rule exI [of _ fs], rule exI [of _ v]) (intro conjI a r refl b(2,3) q)
  next
    show "\<exists>symbol. pv_symbol pv = Inr symbol \<and>
       map (\<lambda>x. (pi_rank x, pi_amount x)) (ep_prizes view) = map (stored_amount h symbol) (ranked_prizes e w) \<and>
       map (\<lambda>x. (pi_rank x, pi_amount x)) (ep_payouts view)
         = map (stored_amount h symbol) (filter (\<lambda>p. present (p_releaseTxHash p)) (ranked_prizes e w))"
      using l by blast
  qed
qed


definition chain_id :: jstring where
  "chain_id = replicate 32 48"

definition chain_event :: event_row where
  "chain_event = test_event\<lparr>e_escrowEventId := Some chain_id\<rparr>"

definition chain_world :: world where
  "chain_world = signed_in_world\<lparr>events := [chain_event]\<rparr>"

definition chain_soroban :: soroban where
  "chain_soroban = test_soroban\<lparr>rpc_url := Some (js ''https://rpc''),
     simulate := (\<lambda>_ _ _ _ _. return_value (SimSuccess (Some test_native)))\<rparr>"

definition test_page_env :: page_env where
  "test_page_env = \<lparr>pv_contract = Inr (js ''CC''), pv_symbol = Inr (js ''USDC''), pv_network = testnet,
     pv_appUrl = None, pv_vercelUrl = None, pv_unavailable = js ''unavailable'', pv_default = js ''Astrea''\<rparr>"

lemma chain_reads:
  "\<exists>esc. readEscrowEvent chain_soroban chain_id w = (Inr esc, w) \<and> ee_state esc = js ''Ended'' \<and>
     ee_reward esc = bigint_to_string 60000000"
proof -
  have hex: "EVENT_ID_HEX chain_id" unfolding chain_id_def by code_simp
  have "\<exists>esc. escrow_of chain_soroban test_native = Inr esc \<and> ee_state esc = js ''Ended'' \<and>
      ee_reward esc = bigint_to_string 60000000"
    by (simp add: escrow_of_def chain_soroban_def test_native_def native_member_def toReward_def toState_def
        toAddress_def ESCROW_EVENT_STATES_def Let_def int_text_def)
  then show ?thesis
    using hex by (auto simp: readEscrowEvent_def chain_soroban_def await_def)
qed

lemma chain_loads:
  "loadPublicEventView test_host test_event_id chain_world
     = (Inr (Some (shown_event test_host chain_event test_wallet chain_world)), chain_world)"
proof -
  have f: "find_event test_event_id chain_world = Some chain_event"
    by (simp add: find_event_def find_unique_def chain_world_def test_ids chain_event_def test_event_def)
  have o: "find_unique (\<lambda>r. w_id r = e_organizerWalletId chain_event) (wallets chain_world) = Some test_wallet"
    by (simp add: find_unique_def chain_world_def signed_in_world_def chain_event_def test_event_def test_wallet_def)
  have "faults chain_world = []" by (simp add: chain_world_def signed_in_world_def empty_world_def)
  from load_no_fault [OF this test_ids(1), of test_host] f sanitize_event_row [OF o, of test_host]
  show ?thesis by simp
qed

lemma chain_session: "getSessionWallet chain_world = (Inr (Some test_session), chain_world)"
  by (simp add: getSessionWallet_def await_def select_by_uuid_def find_unique_def chain_world_def signed_in_world_def
      empty_world_def test_session_def session_of_def test_wallet_def test_wallet_id)

lemma chain_qr: "\<exists>qr. EventQrCode (share_url test_page_env (js ''es'') test_event_id) = Inr qr"
proof -
  let ?u = "share_url test_page_env (js ''es'') test_event_id"
  have "list_all (\<lambda>u. u < 128) ?u" "length ?u \<le> 100"
    by (simp_all add: share_url_def test_page_env_def getSiteUrl_def FALLBACK_SITE_URL_def present_def
        strip_slashes_def test_event_id_def)
  then obtain q where "encodeText ?u MEDIUM = Inr q" using short_text_encodes by blast
  then show ?thesis by (simp add: EventQrCode_def qrSvgPath_def Let_def del: js_Cons)
qed

lemma chain_page:
  "\<exists>view. EventPage test_host chain_soroban test_page_env (js ''es'') test_event_id chain_world
      = (Inr (Some view), chain_world) \<and>
    bv_reward (ep_onchain view) = Some (formatSmallestUnits (bigint_to_string 60000000) 7, js ''Ended'') \<and>
    ep_ctas view = page_ctas (shown_event test_host chain_event test_wallet chain_world) (Some test_session)"
proof -
  let ?ev = "shown_event test_host chain_event test_wallet chain_world"
  obtain esc where esc: "readEscrowEvent chain_soroban chain_id chain_world = (Inr esc, chain_world)"
    "ee_state esc = js ''Ended''" "ee_reward esc = bigint_to_string 60000000"
    using chain_reads by blast
  obtain qr where qr: "EventQrCode (share_url test_page_env (js ''es'') test_event_id) = Inr qr"
    using chain_qr by blast
  have ne: "chain_id \<noteq> []" by (simp add: chain_id_def)
  have ev: "pe_escrowEventId ?ev = Some chain_id" "pe_prizes ?ev = []" "pe_id ?ev = test_event_id"
    by (simp_all add: shown_event_def Let_def chain_event_def test_event_def chain_world_def signed_in_world_def
        empty_world_def)
  have read: "read_reserve chain_soroban (Some chain_id) chain_world = (Inr (Some esc, None), chain_world)"
    using esc(1) ne by (simp add: read_reserve_def outcome_def await_def present_def)
  have pv: "pv_contract test_page_env = Inr (js ''CC'')" "pv_symbol test_page_env = Inr (js ''USDC'')"
    "pv_network test_page_env = testnet"
    by (simp_all add: test_page_env_def)
  obtain view where view: "render_event test_host test_page_env (js ''es'') ?ev (Some test_session) (Some esc, None) = Inr view"
    "bv_reward (ep_onchain view) = Some (formatSmallestUnits (ee_reward esc) 7, ee_state esc)"
    "ep_ctas view = page_ctas ?ev (Some test_session)"
    using qr ne by (simp add: render_event_def ev pv PrizeList_def PayoutHistory_def OnchainBadge_def present_def Let_def)
  have "EventPage test_host chain_soroban test_page_env (js ''es'') test_event_id chain_world = (Inr (Some view), chain_world)"
    using chain_loads chain_session read view(1) ev(1) test_ids(1) by (simp add: EventPage_def await_def)
  with view esc(2,3) show ?thesis by auto
qed

theorem event_page_money_is_on_chain_witness:
  "\<exists>view. EventPage test_host chain_soroban test_page_env (js ''es'') test_event_id chain_world
      = (Inr (Some view), chain_world) \<and>
    bv_verified (ep_onchain view) \<and>
    bv_reward (ep_onchain view) = Some (formatSmallestUnits (bigint_to_string 60000000) 7, js ''Ended'')"
proof -
  obtain view where v: "EventPage test_host chain_soroban test_page_env (js ''es'') test_event_id chain_world
      = (Inr (Some view), chain_world)"
    "bv_reward (ep_onchain view) = Some (formatSmallestUnits (bigint_to_string 60000000) 7, js ''Ended'')"
    using chain_page by blast
  have "js ''Ended'' \<in> set LOCKED_ESCROW_STATES" by (simp add: LOCKED_ESCROW_STATES_def)
  then have "bv_verified (ep_onchain view)"
    using event_page_money_is_on_chain [OF v(1)] unfolding v(2) by auto
  with v show ?thesis by blast
qed

lemma page_ctas_offers:
  fixes ev x
  defines "ctas \<equiv> set (page_ctas ev (Some x))"
  assumes "pe_status ev = VStr (event_status_text st)"
  shows "ConnectWallet \<notin> ctas"
    and "StartJudging j \<in> ctas \<longleftrightarrow> j = pe_id ev \<and> is_organizer ev (Some x) \<and> st = LIVE"
    and "GoLiveLink u \<in> ctas \<longleftrightarrow>
      u = js ''/organizer/events/'' @ pe_id ev @ js ''/start'' \<and> is_organizer ev (Some x) \<and> st = CREATED"
    and "JudgeLink u \<in> ctas \<longleftrightarrow> u = js ''/events/'' @ pe_id ev @ js ''/judge'' \<and> is_judge ev (Some x)"
    and "RegisterTeam j \<in> ctas \<longleftrightarrow>
      j = pe_id ev \<and> st = LIVE \<and> \<not> is_organizer ev (Some x) \<and> \<not> is_registered ev (Some x)"
    and "Registered \<in> ctas \<longleftrightarrow> is_registered ev (Some x)"
    and "RegistrationClosed \<in> ctas \<longleftrightarrow> st \<noteq> LIVE \<and> \<not> is_organizer ev (Some x) \<and> \<not> is_judge ev (Some x) \<and>
      \<not> is_registered ev (Some x)"
proof -
  have "event_status_text st = js ''LIVE'' \<longleftrightarrow> st = LIVE" "event_status_text st = js ''CREATED'' \<longleftrightarrow> st = CREATED"
    by (cases st; simp)+
  note facts = this assms(2)
  show "ConnectWallet \<notin> ctas"
    and "StartJudging j \<in> ctas \<longleftrightarrow> j = pe_id ev \<and> is_organizer ev (Some x) \<and> st = LIVE"
    and "GoLiveLink u \<in> ctas \<longleftrightarrow>
      u = js ''/organizer/events/'' @ pe_id ev @ js ''/start'' \<and> is_organizer ev (Some x) \<and> st = CREATED"
    and "JudgeLink u \<in> ctas \<longleftrightarrow> u = js ''/events/'' @ pe_id ev @ js ''/judge'' \<and> is_judge ev (Some x)"
    and "RegisterTeam j \<in> ctas \<longleftrightarrow>
      j = pe_id ev \<and> st = LIVE \<and> \<not> is_organizer ev (Some x) \<and> \<not> is_registered ev (Some x)"
    and "Registered \<in> ctas \<longleftrightarrow> is_registered ev (Some x)"
    and "RegistrationClosed \<in> ctas \<longleftrightarrow> st \<noteq> LIVE \<and> \<not> is_organizer ev (Some x) \<and> \<not> is_judge ev (Some x) \<and>
      \<not> is_registered ev (Some x)"
    unfolding ctas_def by (auto simp: page_ctas_def Let_def facts simp del: js_Cons)
qed

text \<open>C13: What the public page offers is decided by the stored rows and the session of the request.
  Without a session it offers the wallet button and nothing else. With one it does not, and: judging can
  be closed, or the event taken live, exactly by the wallet that organizes it and exactly when it is
  LIVE, or CREATED; the judge's page is linked exactly for the address of the only ACTIVE judge; the
  registration form is shown exactly when the event is LIVE and the wallet neither organizes it nor is in
  one of its teams; a member of one of its teams is told so; and who is none of these is told that
  registration is closed exactly when the event is not LIVE.\<close>

theorem event_page_offers:
  assumes "EventPage h sb pv locale i w = (Inr (Some view), w')"
  shows "\<exists>e\<in>set (events w). e_id e = uuid_key i \<and>
    (case cookie_session w of
       None \<Rightarrow> ep_ctas view = [ConnectWallet]
     | Some s \<Rightarrow>
         let organizer = (w_id (sw_wallet s) = e_organizerWalletId e);
             judge = (\<exists>j. active_judges e w = [j] \<and> j_walletAddress j = session_address s);
             member = (\<exists>t\<in>set (teams w). \<exists>m\<in>set (members w).
               t_eventId t = e_id e \<and> m_teamId m = t_id t \<and> m_walletId m = w_id (sw_wallet s))
         in ConnectWallet \<notin> set (ep_ctas view) \<and>
           (\<forall>j. StartJudging j \<in> set (ep_ctas view) \<longleftrightarrow> j = e_id e \<and> organizer \<and> e_status e = LIVE) \<and>
           (\<forall>u. GoLiveLink u \<in> set (ep_ctas view) \<longleftrightarrow>
              u = js ''/organizer/events/'' @ e_id e @ js ''/start'' \<and> organizer \<and> e_status e = CREATED) \<and>
           (\<forall>u. JudgeLink u \<in> set (ep_ctas view) \<longleftrightarrow> u = js ''/events/'' @ e_id e @ js ''/judge'' \<and> judge) \<and>
           (\<forall>j. RegisterTeam j \<in> set (ep_ctas view) \<longleftrightarrow>
              j = e_id e \<and> e_status e = LIVE \<and> \<not> organizer \<and> \<not> member) \<and>
           (Registered \<in> set (ep_ctas view) \<longleftrightarrow> member) \<and>
           (RegistrationClosed \<in> set (ep_ctas view) \<longleftrightarrow>
              e_status e \<noteq> LIVE \<and> \<not> organizer \<and> \<not> judge \<and> \<not> member))"
proof -
  obtain e r escrow err where e: "e \<in> set (events w)" "e_id e = uuid_key i"
    and v: "render_event h pv locale (shown_event h e r w) (cookie_session w) (escrow, err) = Inr view"
    using assms by (rule EventPage_view)
  let ?ev = "shown_event h e r w" and ?s = "cookie_session w"
  have c: "ep_ctas view = page_ctas ?ev ?s"
    using v unfolding render_event_def and_then_def by (auto split: sum.splits)
  have ev: "pe_id ?ev = e_id e" "pe_status ?ev = VStr (event_status_text (e_status e))"
    "pe_organizerWalletId ?ev = e_organizerWalletId e" "pe_judges ?ev = map shown_judge (active_judges e w)"
    "pe_teams ?ev = map (shown_team w) (filter (\<lambda>t. t_eventId t = e_id e) (teams w))"
    by (simp_all add: shown_event_def Let_def active_judges_def)
  show ?thesis
  proof (cases ?s)
    case None
    then have "ep_ctas view = [ConnectWallet]" unfolding c by (simp add: page_ctas_def Let_def)
    with e None show ?thesis by auto
  next
    case (Some x)
    have j: "is_judge ?ev ?s \<longleftrightarrow> (\<exists>j. active_judges e w = [j] \<and> j_walletAddress j = session_address x)"
      by (cases "active_judges e w" rule: list.exhaust; cases "tl (active_judges e w)")
        (auto simp: is_judge_def page_judge_def Some ev shown_judge_def)
    have reg: "is_registered ?ev ?s \<longleftrightarrow> (\<exists>t\<in>set (teams w). \<exists>m\<in>set (members w).
               t_eventId t = e_id e \<and> m_teamId m = t_id t \<and> m_walletId m = w_id (sw_wallet x))"
      by (auto simp: is_registered_def Some ev shown_team_def shown_member_def list_ex_iff)
    have org: "is_organizer ?ev ?s \<longleftrightarrow> w_id (sw_wallet x) = e_organizerWalletId e"
      by (simp add: is_organizer_def Some ev)
    show ?thesis
      unfolding Some option.case Let_def c
      by (rule bexI [OF _ e(1)], rule conjI [OF e(2)])
        (simp only: page_ctas_offers [OF ev(2), where x = x] j [unfolded Some] reg [unfolded Some] org [unfolded Some]
          ev(1) simp_thms)
  qed
qed

theorem event_page_offers_witness:
  "\<exists>view. EventPage test_host chain_soroban test_page_env (js ''es'') test_event_id chain_world
      = (Inr (Some view), chain_world) \<and> StartJudging test_event_id \<in> set (ep_ctas view)"
proof -
  obtain view where v: "EventPage test_host chain_soroban test_page_env (js ''es'') test_event_id chain_world
      = (Inr (Some view), chain_world)"
    and c: "ep_ctas view = page_ctas (shown_event test_host chain_event test_wallet chain_world) (Some test_session)"
    using chain_page by blast
  have s: "cookie_session chain_world = Some test_session" using session_answer [OF chain_session] by simp
  have o: "events chain_world = [chain_event]" "e_id chain_event = test_event_id" "e_status chain_event = LIVE"
    "e_organizerWalletId chain_event = w_id (sw_wallet test_session)"
    by (simp_all add: chain_world_def chain_event_def test_event_def test_session_def test_wallet_def)
  obtain e where "e \<in> set (events chain_world)"
    "\<forall>j. StartJudging j \<in> set (ep_ctas view) \<longleftrightarrow>
       j = e_id e \<and> w_id (sw_wallet test_session) = e_organizerWalletId e \<and> e_status e = LIVE"
    using event_page_offers [OF v, unfolded s option.case Let_def] by (elim bexE conjE) (rule that)
  then have "StartJudging test_event_id \<in> set (ep_ctas view)" using o by simp
  with v show ?thesis by blast
qed

end
