(* ===== verification/Event_Cards.thy ===== *)
theory Event_Cards
  imports Event_Page GitHub
begin

text \<open>
  The share cards and the receipt of an event: \<open>lib/events/card-templates.tsx\<close> and the three pages that
  use it with \<open>card-model.ts\<close>, \<open>events/[id]/display.png/route.ts\<close>, \<open>opengraph-image.tsx\<close> and
  \<open>print/page.tsx\<close>. A card is the record of the texts it shows and of the choices its code makes; the
  fixed styles are left out. The record \<open>card_site\<close> holds the hosts of the other theories, how a
  \<open>Decimal\<close> prints, the files below the working directory and the translations: of a locale, what
  \<open>getTranslations\<close> throws or its texts by key and by key and count.
\<close>

section \<open>Labels and font\<close>

record EventCardLabels =
  lb_genericTitle :: jstring
  lb_genericSubtitle :: jstring
  lb_builtOnStellar :: jstring
  lb_registrationsOpen :: jstring
  lb_registrationsClosed :: jstring
  lb_judgingInProgress :: jstring
  lb_liveCompetition :: jstring
  lb_lockedPrizePool :: jstring
  lb_escrowAssurance :: jstring
  lb_verifiableOnStellar :: jstring
  lb_deadline :: jstring
  lb_organizer :: jstring
  lb_judge :: jstring
  lb_judges :: jstring
  lb_teamsRegistered :: jstring
  lb_teamsRegisteredDisplay :: jstring
  lb_completedVerifiedPayouts :: jstring
  lb_completedPayoutsPending :: jstring
  lb_total :: jstring
  lb_place :: jstring
  lb_payout :: jstring
  lb_moreWinnersPaid :: "int \<Rightarrow> jstring"
  lb_moreWinnersPending :: "int \<Rightarrow> jstring"
  lb_allPayoutsVerified :: jstring
  lb_payoutsPending :: jstring
  lb_scanToViewAndRegister :: jstring
  lb_scanToFollowJudging :: jstring
  lb_judgingDeadline :: jstring
  lb_securedByStellar :: jstring

definition bullet :: nat where
  "bullet = 8226"

definition more_winners :: "int \<Rightarrow> jstring" where
  "more_winners n = js ''+'' @ int_text n @ js '' more winner'' @ (if 1 < n then js ''s'' else [])"

definition DEFAULT_CARD_LABELS :: EventCardLabels where
  "DEFAULT_CARD_LABELS =
     \<lparr>lb_genericTitle = js ''Escrow-Backed Prize Payouts'',
      lb_genericSubtitle = js ''Smart-contract prize pools on Stellar. Auditable, automated, non-custodial.'',
      lb_builtOnStellar = js ''Built on Stellar Soroban'',
      lb_registrationsOpen = js ''REGISTRATIONS OPEN'',
      lb_registrationsClosed = js ''REGISTRATIONS CLOSED'',
      lb_judgingInProgress = js ''JUDGING IN PROGRESS'',
      lb_liveCompetition = js ''LIVE COMPETITION'',
      lb_lockedPrizePool = js ''LOCKED ON-CHAIN PRIZE POOL'',
      lb_escrowAssurance = js ''Escrow Assurance'',
      lb_verifiableOnStellar = js ''Verifiable on Stellar Soroban'',
      lb_deadline = js ''Deadline'',
      lb_organizer = js ''Organizer'',
      lb_judge = js ''Judge'',
      lb_judges = js ''Judges'',
      lb_teamsRegistered = js ''teams registered'',
      lb_teamsRegisteredDisplay = js ''Teams Registered'',
      lb_completedVerifiedPayouts = js ''COMPLETED '' @ [bullet] @ js '' VERIFIED PAYOUTS'',
      lb_completedPayoutsPending = js ''COMPLETED '' @ [bullet] @ js '' PAYOUTS PENDING'',
      lb_total = js ''Total:'',
      lb_place = js ''PLACE'',
      lb_payout = 10003 # js '' Payout:'',
      lb_moreWinnersPaid = (\<lambda>n. more_winners n @ js '' paid on-chain''),
      lb_moreWinnersPending = (\<lambda>n. more_winners n @ js '' pending payout''),
      lb_allPayoutsVerified = js ''All payouts verified on Stellar'',
      lb_payoutsPending = js ''Payouts pending on-chain confirmation'',
      lb_scanToViewAndRegister = js ''Scan to view & register'',
      lb_scanToFollowJudging = js ''Scan to follow judging'',
      lb_judgingDeadline = js ''Judging Deadline'',
      lb_securedByStellar = js ''Secured by Stellar Soroban Smart Contract Escrow''\<rparr>"

record card_site =
  cs_view :: view_host
  cs_soroban :: soroban
  cs_page :: page_env
  cs_card :: card_host
  cs_decimal :: "nat \<Rightarrow> jstring"
  cs_file :: "jstring \<Rightarrow> exn + nat list"
  cs_translations :: "jstring \<Rightarrow> exn + (jstring \<Rightarrow> jstring) \<times> (jstring \<Rightarrow> int \<Rightarrow> jstring)"

definition getCardLabels :: "card_site \<Rightarrow> jstring \<Rightarrow> EventCardLabels" where
  "getCardLabels S locale =
     (case cs_translations S locale of
        Inl err \<Rightarrow> DEFAULT_CARD_LABELS
      | Inr (t, tn) \<Rightarrow>
          \<lparr>lb_genericTitle = t (js ''genericTitle''), lb_genericSubtitle = t (js ''genericSubtitle''),
           lb_builtOnStellar = t (js ''builtOnStellar''), lb_registrationsOpen = t (js ''registrationsOpen''),
           lb_registrationsClosed = t (js ''registrationsClosed''),
           lb_judgingInProgress = t (js ''judgingInProgress''), lb_liveCompetition = t (js ''liveCompetition''),
           lb_lockedPrizePool = t (js ''lockedPrizePool''), lb_escrowAssurance = t (js ''escrowAssurance''),
           lb_verifiableOnStellar = t (js ''verifiableOnStellar''), lb_deadline = t (js ''deadline''),
           lb_organizer = t (js ''organizer''), lb_judge = t (js ''judge''), lb_judges = t (js ''judges''),
           lb_teamsRegistered = t (js ''teamsRegistered''),
           lb_teamsRegisteredDisplay = t (js ''teamsRegisteredDisplay''),
           lb_completedVerifiedPayouts = t (js ''completedVerifiedPayouts''),
           lb_completedPayoutsPending = t (js ''completedPayoutsPending''), lb_total = t (js ''total''),
           lb_place = t (js ''place''), lb_payout = t (js ''payout''),
           lb_moreWinnersPaid = tn (js ''moreWinnersPaid''),
           lb_moreWinnersPending = tn (js ''moreWinnersPending''),
           lb_allPayoutsVerified = t (js ''allPayoutsVerified''), lb_payoutsPending = t (js ''payoutsPending''),
           lb_scanToViewAndRegister = t (js ''scanToViewAndRegister''),
           lb_scanToFollowJudging = t (js ''scanToFollowJudging''),
           lb_judgingDeadline = t (js ''judgingDeadline''), lb_securedByStellar = t (js ''securedByStellar'')\<rparr>)"

text \<open>\<open>cs_file\<close> reads a path below the working directory; an unreadable one is skipped.\<close>

fun first_readable :: "(jstring \<Rightarrow> exn + nat list) \<Rightarrow> jstring list \<Rightarrow> nat list option" where
  "first_readable f [] = None"
| "first_readable f (path # paths) = (case f path of Inr buf \<Rightarrow> Some buf | Inl _ \<Rightarrow> first_readable f paths)"

definition loadCardFont :: "card_site \<Rightarrow> nat list option" where
  "loadCardFont S = first_readable (cs_file S)
     [js ''src/assets/fonts/Inter-Regular.ttf'', js ''apps/web/src/assets/fonts/Inter-Regular.ttf'']"

section \<open>Cards\<close>

fun joined :: "jstring \<Rightarrow> jstring list \<Rightarrow> jstring" where
  "joined sep [] = []"
| "joined sep [x] = x"
| "joined sep (x # y # xs) = x @ sep @ joined sep (y # xs)"

definition nat_text :: "nat \<Rightarrow> jstring" where
  "nat_text n = int_text (int n)"

text \<open>The first \<open>n\<close> of a list, and how many more there are.\<close>

definition first_and_more :: "nat \<Rightarrow> jstring \<Rightarrow> jstring list \<Rightarrow> jstring" where
  "first_and_more n sep xs =
     joined sep (take n xs) @ (if n < length xs then js '' +'' @ nat_text (length xs - n) else [])"

record generic_view =
  gv_title :: jstring
  gv_subtitle :: jstring
  gv_built :: jstring

definition GenericCard :: "EventCardLabels \<Rightarrow> generic_view" where
  "GenericCard l =
     \<lparr>gv_title = lb_genericTitle l, gv_subtitle = lb_genericSubtitle l, gv_built = lb_builtOnStellar l\<rparr>"

text \<open>Label, background and colour of the status.\<close>

definition open_status :: "EventCardLabels \<Rightarrow> EventCardModel \<Rightarrow> jstring \<times> jstring \<times> jstring" where
  "open_status l model =
     (if cm_status model = JUDGING then (lb_judgingInProgress l, js ''#3b0764'', js ''#c084fc'')
      else if cm_isRegistrationClosed model then (lb_registrationsClosed l, js ''#27272a'', js ''#a1a1aa'')
      else (lb_registrationsOpen l, js ''#064e3b'', js ''#34d399''))"

record open_view =
  ov_status :: "jstring \<times> jstring \<times> jstring"
  ov_name :: jstring
  ov_poolLabel :: jstring
  ov_pool :: "jstring \<times> jstring"
  ov_assurance :: "jstring \<times> jstring"
  ov_deadline :: "(jstring \<times> jstring) option"
  ov_organizer :: jstring
  ov_judges :: "jstring option"
  ov_teams :: jstring

definition organizer_line :: "EventCardLabels \<Rightarrow> EventCardModel \<Rightarrow> jstring" where
  "organizer_line l model = lb_organizer l @ js '': '' @ cm_organizer model"

definition judges_line :: "EventCardLabels \<Rightarrow> jstring list \<Rightarrow> jstring option" where
  "judges_line l jus =
     (if jus = [] then None
      else Some ((if 1 < length jus then lb_judges l else lb_judge l) @ js '': '' @
                 first_and_more 2 (js '', '') jus))"

definition shown_deadline :: "EventCardModel \<Rightarrow> jstring option" where
  "shown_deadline model = (if present (cm_formattedDeadline model) then cm_formattedDeadline model else None)"

definition pool_of :: "EventCardModel \<Rightarrow> jstring \<times> jstring" where
  "pool_of model = (cm_prizeAmount model, cm_prizeAsset model)"

definition OpenEventCard :: "EventCardModel \<Rightarrow> EventCardLabels \<Rightarrow> open_view" where
  "OpenEventCard model l =
     \<lparr>ov_status = open_status l model, ov_name = cm_name model, ov_poolLabel = lb_lockedPrizePool l,
      ov_pool = pool_of model, ov_assurance = (lb_escrowAssurance l, lb_verifiableOnStellar l),
      ov_deadline = map_option (Pair (lb_deadline l)) (shown_deadline model),
      ov_organizer = organizer_line l model, ov_judges = judges_line l (cm_judges model),
      ov_teams = nat_text (cm_teamsRegistered model) @ js '' '' @ lb_teamsRegistered l\<rparr>"

record winner_card_view =
  wc_hero :: bool
  wc_compact :: bool
  wc_place :: jstring
  wc_amount :: "jstring \<times> jstring"
  wc_team :: jstring
  wc_members :: "jstring option"
  wc_payout :: "(jstring \<times> jstring) option"

definition WinnerCard :: "CardWinner \<Rightarrow> bool \<Rightarrow> bool \<Rightarrow> EventCardLabels \<Rightarrow> winner_card_view" where
  "WinnerCard winner isHero isCompact l =
     \<lparr>wc_hero = isHero, wc_compact = isCompact,
      wc_place = js ''#'' @ int_text (cx_rank winner) @ js '' '' @ lb_place l,
      wc_amount = (cx_amount winner, cx_asset winner), wc_team = cx_teamName winner,
      wc_members = (if cx_members winner = [] then None
                    else Some (first_and_more 3 (js '' '' @ [bullet] @ js '' '') (cx_members winner))),
      wc_payout = (if present (cx_txHash winner)
                   then Some (lb_payout l, truncateHash (the (cx_txHash winner)) 6 6) else None)\<rparr>"

record winners_view =
  wv_badge :: jstring
  wv_name :: jstring
  wv_total :: jstring
  wv_pool :: "jstring \<times> jstring"
  wv_winners :: "winner_card_view list"
  wv_organizer :: jstring
  wv_footer :: jstring

definition paid_winner :: "CardWinner \<Rightarrow> bool" where
  "paid_winner x \<longleftrightarrow> present (cx_txHash x)"

definition WinnersEventCard :: "EventCardModel \<Rightarrow> EventCardLabels \<Rightarrow> winners_view" where
  "WinnersEventCard model l =
     (let winnersCount = length (cm_winners model);
          isHero = (winnersCount = 1);
          isMultiGrid = (4 \<le> winnersCount);
          visibleLimit = (if isMultiGrid then 6 else 3 :: nat);
          visibleWinners = take visibleLimit (cm_winners model);
          remainingCount = max 0 (int winnersCount - int visibleLimit);
          omittedWinners = drop visibleLimit (cm_winners model);
          allOmittedPaid = (omittedWinners \<noteq> [] \<and> list_all paid_winner omittedWinners);
          allPayoutsVerified = (0 < winnersCount \<and> list_all paid_winner (cm_winners model))
      in \<lparr>wv_badge = (if allPayoutsVerified then lb_completedVerifiedPayouts l else lb_completedPayoutsPending l),
          wv_name = cm_name model, wv_total = lb_total l, wv_pool = pool_of model,
          wv_winners = (if isHero then [WinnerCard (hd (cm_winners model)) True False l]
                        else map (\<lambda>x. WinnerCard x False isMultiGrid l) visibleWinners),
          wv_organizer = organizer_line l model,
          wv_footer = (if 0 < remainingCount
                       then (if allOmittedPaid then lb_moreWinnersPaid l remainingCount
                             else lb_moreWinnersPending l remainingCount)
                       else if allPayoutsVerified then lb_allPayoutsVerified l else lb_payoutsPending l)\<rparr>)"

record display_view =
  dv_status :: jstring
  dv_name :: jstring
  dv_poolLabel :: jstring
  dv_pool :: "jstring \<times> jstring"
  dv_secured :: jstring
  dv_deadline :: "jstring option"
  dv_teams :: jstring
  dv_organizer :: jstring
  dv_viewBox :: "int \<times> int \<times> int \<times> int"
  dv_path :: jstring
  dv_scan :: jstring

definition DisplayEventCard :: "EventCardModel \<Rightarrow> jstring \<Rightarrow> EventCardLabels \<Rightarrow> exn + display_view" where
  "DisplayEventCard model canonicalUrl l =
     and_then (qrSvgPath canonicalUrl) (\<lambda>(path, modules).
       let isJudging = (cm_status model = JUDGING) in Inr
       \<lparr>dv_status = (if isJudging then lb_judgingInProgress l else lb_liveCompetition l),
        dv_name = cm_name model, dv_poolLabel = lb_lockedPrizePool l, dv_pool = pool_of model,
        dv_secured = lb_securedByStellar l,
        dv_deadline = map_option (\<lambda>d. lb_judgingDeadline l @ js '': '' @ d) (shown_deadline model),
        dv_teams = nat_text (cm_teamsRegistered model) @ js '' '' @ lb_teamsRegisteredDisplay l,
        dv_organizer = organizer_line l model, dv_viewBox = (0, 0, modules, modules), dv_path = path,
        dv_scan = (if isJudging then lb_scanToFollowJudging l else lb_scanToViewAndRegister l)\<rparr>)"

datatype event_card = GenericView generic_view | OpenView open_view | WinnersView winners_view

definition renderEventCard :: "EventCardModel \<Rightarrow> EventCardLabels \<Rightarrow> event_card" where
  "renderEventCard model l =
     (case cm_templateType model of
        open_card \<Rightarrow> OpenView (OpenEventCard model l)
      | winners_card \<Rightarrow> WinnersView (WinnersEventCard model l)
      | generic_card \<Rightarrow> GenericView (GenericCard l))"

section \<open>The rows of a card\<close>

definition card_member :: "world \<Rightarrow> member_row \<Rightarrow> exn + CardMemberWallet" where
  "card_member w m =
     and_then (require_row (find_unique (\<lambda>r. w_id r = m_walletId m) (wallets w))) (\<lambda>r. Inr
       \<lparr>cw_address = w_address r,
        cw_linkedAccounts = Some (map (\<lambda>a. (l_provider a, l_username a))
          (filter (\<lambda>a. l_walletId a = w_id r \<and> l_provider a = js ''github'') (linked w)))\<rparr>)"

definition team_members :: "world \<Rightarrow> team_row \<Rightarrow> member_row list" where
  "team_members w t = sort_key m_ordinal (filter (\<lambda>m. m_teamId m = t_id t) (members w))"

definition card_team_of :: "world \<Rightarrow> team_row \<Rightarrow> exn + card_team" where
  "card_team_of w t =
     and_then (collect (card_member w) (team_members w t)) (\<lambda>ms. Inr
       \<lparr>ct_id = t_id t, ct_name = t_name t, ct_members = ms\<rparr>)"

definition card_event_of :: "card_site \<Rightarrow> world \<Rightarrow> event_row \<Rightarrow> exn + card_event" where
  "card_event_of S w e =
     and_then (require_row (organizer_address e w)) (\<lambda>organizer.
     and_then (collect (card_team_of w) (filter (\<lambda>t. t_eventId t = e_id e) (teams w))) (\<lambda>ts. Inr
       \<lparr>ce_id = e_id e, ce_name = e_name e, ce_status = e_status e, ce_organizer = organizer,
        ce_judges = map (\<lambda>j. \<lparr>ck_displayName = j_displayName j, ck_walletAddress = j_walletAddress j\<rparr>)
                      (active_judges e w),
        ce_teams = ts,
        ce_prizes = map (\<lambda>p. \<lparr>cp_rank = int (p_rank p), cp_amount = cs_decimal S (p_amount p),
                               cp_winnerTeamId = p_winnerTeamId p, cp_releaseTxHash = p_releaseTxHash p\<rparr>)
                      (event_prizes e w),
        ce_judgingDeadlineAt = map_option (\<lambda>t. DateObject (Some t)) (e_judgingDeadlineAt e),
        ce_registrationClosesAt = map_option (\<lambda>t. DateObject (Some t))
                                    (d_registrationClosesAt (details (cs_view S) (e_id e)))\<rparr>))"

definition card_rows :: "card_site \<Rightarrow> jstring \<Rightarrow> (world, (event_row \<times> card_event) option) action" where
  "card_rows S i =
     await (select_by_uuid i (\<lambda>w. map_option (\<lambda>e. (e, card_event_of S w e)) (find_event i w))) (\<lambda>found.
     case found of
       None \<Rightarrow> return_value None
     | Some (e, read) \<Rightarrow> await (lift_result read) (\<lambda>c. return_value (Some (e, c))))"

text \<open>An escrow that cannot be read is none.\<close>

definition card_escrow :: "soroban \<Rightarrow> jstring option \<Rightarrow> (world, EscrowEvent option) action" where
  "card_escrow sb escrowEventId =
     (if present escrowEventId then
        await (outcome (readEscrowEvent sb (the escrowEventId))) (\<lambda>read.
        return_value (case read of Inr e \<Rightarrow> Some e | Inl _ \<Rightarrow> None))
      else return_value None)"

definition card_input :: "jstring \<Rightarrow> card_event \<Rightarrow> EscrowEvent option \<Rightarrow> jstring \<Rightarrow> int \<Rightarrow> BuildCardModelInput" where
  "card_input locale c escrow symbol now =
     \<lparr>ci_event = c, ci_reward = map_option (\<lambda>e. Some (ee_reward e)) escrow, ci_locale = Some locale,
      ci_assetSymbol = Some symbol, ci_now = now\<rparr>"

definition card_model_of ::
    "card_site \<Rightarrow> jstring \<Rightarrow> card_event \<Rightarrow> EscrowEvent option \<Rightarrow> (world, EventCardModel) action" where
  "card_model_of S locale c escrow =
     await (lift_result (pv_symbol (cs_page S))) (\<lambda>symbol.
     await date_now (\<lambda>now.
     lift_result (buildEventCardModel (cs_card S) (card_input locale c escrow symbol now))))"

section \<open>display.png, opengraph-image.tsx\<close>

text \<open>\<open>ir_font\<close> is the one font given to the renderer, if there is one.\<close>

record 'v image_response =
  ir_size :: "int \<times> int"
  ir_font :: "nat list option"
  ir_cache :: jstring
  ir_card :: 'v

datatype display_response = DisplayNotFound "jstring option" | DisplayPng "display_view image_response"

definition display_GET :: "card_site \<Rightarrow> jstring \<Rightarrow> jstring \<Rightarrow> (world, display_response) action" where
  "display_GET S locale i =
     await (card_rows S i) (\<lambda>found.
     case found of
       None \<Rightarrow> return_value (DisplayNotFound None)
     | Some (e, c) \<Rightarrow>
         if e_status e \<noteq> LIVE \<and> e_status e \<noteq> JUDGING then return_value (DisplayNotFound None)
         else
           await (card_escrow (cs_soroban S) (e_escrowEventId e)) (\<lambda>escrow.
           await (card_model_of S locale c escrow) (\<lambda>model.
           if \<not> cm_hasVerifiableMoney model then return_value (DisplayNotFound (Some (js ''no-store'')))
           else
             await (lift_result (DisplayEventCard model (share_url (cs_page S) locale i) (getCardLabels S locale)))
               (\<lambda>card. return_value (DisplayPng
                  \<lparr>ir_size = (1920, 1080), ir_font = loadCardFont S, ir_cache = js ''no-store'',
                   ir_card = card\<rparr>)))))"

definition OG_CACHE :: jstring where
  "OG_CACHE = js ''public, max-age=60, stale-while-revalidate=300''"

definition event_image :: "card_site \<Rightarrow> jstring \<Rightarrow> jstring \<Rightarrow> (world, event_card image_response) action" where
  "event_image S locale i =
     (let labels = getCardLabels S locale;
          image = (\<lambda>card. \<lparr>ir_size = (1200, 630), ir_font = loadCardFont S, ir_cache = OG_CACHE, ir_card = card\<rparr>)
      in
        await (card_rows S i) (\<lambda>found.
        case found of
          None \<Rightarrow> return_value (image (GenericView (GenericCard labels)))
        | Some (e, c) \<Rightarrow>
            await (card_escrow (cs_soroban S) (e_escrowEventId e)) (\<lambda>escrow.
            await (card_model_of S locale c escrow) (\<lambda>model.
            return_value (image (renderEventCard model labels))))))"

section \<open>print/page.tsx\<close>

definition print_metadata ::
    "jstring \<Rightarrow> (jstring \<Rightarrow> jstring) \<Rightarrow> jstring \<Rightarrow> (world, event_metadata option) action" where
  "print_metadata metaTitle metaDescription i =
     await (select_by_uuid i (\<lambda>w. map_option e_name (find_event i w))) (\<lambda>found.
     return_value (map_option (\<lambda>name.
       \<lparr>em_title = name @ js '' '' @ [8212] @ js '' '' @ metaTitle @ js '' | Astrea'',
        em_description = metaDescription name\<rparr>) found))"

record receipt_row =
  rr_rank :: int
  rr_team :: jstring
  rr_members :: jstring
  rr_amount :: "jstring \<times> jstring"
  rr_tx :: "(jstring \<times> jstring) option"

record receipt =
  rv_name :: jstring
  rv_viewBox :: "int \<times> int \<times> int \<times> int"
  rv_path :: jstring
  rv_pool :: "jstring \<times> jstring"
  rv_paid :: bool
  rv_organizer :: "jstring \<times> jstring"
  rv_judges :: "jstring option"
  rv_escrowEventId :: "jstring option"
  rv_contract :: "jstring \<times> jstring"
  rv_winners :: "receipt_row list"
  rv_date :: jstring

datatype print_page = PrintNotFound | PrintUnavailable jstring | PrintReceipt receipt

definition allPayoutsConfirmed :: "card_event \<Rightarrow> bool" where
  "allPayoutsConfirmed c \<longleftrightarrow>
     ce_prizes c \<noteq> [] \<and> list_all (\<lambda>p. present (cp_winnerTeamId p) \<and> present (cp_releaseTxHash p)) (ce_prizes c)"

definition receipt_row_of :: "explorer_network \<Rightarrow> CardWinner \<Rightarrow> receipt_row" where
  "receipt_row_of network winner =
     \<lparr>rr_rank = cx_rank winner, rr_team = cx_teamName winner,
      rr_members = (let txt = joined (js '', '') (cx_members winner) in if txt = [] then [8212] else txt),
      rr_amount = (cx_amount winner, cx_asset winner),
      rr_tx = (if present (cx_txHash winner)
               then Some (getExplorerTxUrl (the (cx_txHash winner)) network, the (cx_txHash winner))
               else None)\<rparr>"

definition receipt_of ::
    "card_site \<Rightarrow> event_row \<Rightarrow> card_event \<Rightarrow> EventCardModel \<Rightarrow> jstring \<times> int \<Rightarrow> jstring \<Rightarrow> int \<Rightarrow> receipt" where
  "receipt_of S e c model qr contract now =
     (let network = pv_network (cs_page S) in
      \<lparr>rv_name = cm_name model, rv_viewBox = (0, 0, snd qr, snd qr), rv_path = fst qr,
       rv_pool = pool_of model, rv_paid = allPayoutsConfirmed c,
       rv_organizer = (cm_organizer model, ce_organizer c),
       rv_judges = (let txt = joined (js '', '') (cm_judges model) in if txt = [] then None else Some txt),
       rv_escrowEventId = e_escrowEventId e,
       rv_contract = (getExplorerContractUrl contract network, contract),
       rv_winners = map (receipt_row_of network) (cm_winners model),
       rv_date = take 10 (iso_text (cs_card S) now)\<rparr>)"

definition EventPrintPage :: "card_site \<Rightarrow> jstring \<Rightarrow> jstring \<Rightarrow> (world, print_page) action" where
  "EventPrintPage S locale i =
     await (card_rows S i) (\<lambda>found.
     case found of
       None \<Rightarrow> return_value PrintNotFound
     | Some (e, c) \<Rightarrow>
         if e_status e \<noteq> COMPLETED then return_value PrintNotFound
         else
           await (card_escrow (cs_soroban S) (e_escrowEventId e)) (\<lambda>escrow.
           await (card_model_of S locale c escrow) (\<lambda>model.
           if \<not> cm_hasVerifiableMoney model then return_value (PrintUnavailable (js ''/events/'' @ i))
           else
             await (lift_result (qrSvgPath (share_url (cs_page S) locale i))) (\<lambda>qr.
             await (lift_result (pv_contract (cs_page S))) (\<lambda>contract.
             await date_now (\<lambda>now.
             return_value (PrintReceipt (receipt_of S e c model qr contract now))))))))"

section \<open>What a card was made from\<close>

lemma collect_InrD: "collect f xs = Inr ys \<Longrightarrow> list_all2 (\<lambda>x y. f x = Inr y) xs ys"
proof (induction xs arbitrary: ys)
  case (Cons x xs)
  then show ?case by (auto elim!: and_then_InrE)
qed simp

lemma collect_source: "collect f xs = Inr ys \<Longrightarrow> y \<in> set ys \<Longrightarrow> \<exists>x\<in>set xs. f x = Inr y"
  by (induction xs arbitrary: ys) (auto elim!: and_then_InrE)

lemma card_event_of_faults [simp]: "card_event_of S (w\<lparr>faults := fs\<rparr>) e = card_event_of S w e"
proof -
  have m: "card_member (w\<lparr>faults := fs\<rparr>) = card_member w" by (rule ext) (simp add: card_member_def)
  have t: "card_team_of (w\<lparr>faults := fs\<rparr>) = card_team_of w"
    by (rule ext) (simp add: card_team_of_def team_members_def m)
  show ?thesis by (simp add: card_event_of_def t organizer_address_def active_judges_def event_prizes_def)
qed

lemma card_rows_Inr:
  assumes "card_rows S i w = (Inr (Some (e, c)), w')"
  obtains fs where "e \<in> set (events w)" "e_id e = uuid_key i" "card_event_of S w e = Inr c" "w' = w\<lparr>faults := fs\<rparr>"
proof -
  let ?f = "\<lambda>w e. (e, card_event_of S w e)"
  obtain d read v where x: "select_by_uuid i (\<lambda>w. map_option (?f w) (find_event i w)) w = (Inr (Some (d, read)), v)"
    and r: "lift_result read v = (Inr c, w')" "d = e"
    using assms unfolding card_rows_def by (auto elim!: await_InrE split: option.splits prod.splits)
  have "read = Inr c" "w' = v" using r(1) by (cases read; simp)+
  moreover obtain e' fs where "e' \<in> set (events w)" "e_id e' = uuid_key i" "(d, read) = ?f w e'" "v = w\<lparr>faults := fs\<rparr>"
    using select_event_Inr [OF x] by auto
  ultimately show ?thesis using that r(2) by auto
qed

lemma card_escrow_cases:
  assumes "card_escrow sb k w = (Inr escrow, w')"
  shows "escrow = None \<or>
    (\<exists>c e v. k = Some c \<and> c \<noteq> [] \<and> readEscrowEvent sb c w = (Inr e, v) \<and> escrow = Some e)"
  using assms
  by (auto simp: card_escrow_def outcome_def await_def present_def split: if_splits option.splits sum.splits prod.splits)

lemma card_model_of_Inr:
  assumes "card_model_of S locale c escrow w = (Inr m, w')"
  shows "w' = w" "\<exists>symbol. pv_symbol (cs_page S) = Inr symbol \<and>
      buildEventCardModel (cs_card S) (card_input locale c escrow symbol (clock w)) = Inr m"
  using assms unfolding card_model_of_def by (auto elim!: await_InrE simp: lift_result_def split: sum.splits)

text \<open>The amount is what a read of the stored escrow id gave, in a positive number of stroops.\<close>

definition pool_read :: "soroban \<Rightarrow> world \<Rightarrow> event_row \<Rightarrow> jstring \<Rightarrow> bool" where
  "pool_read sb w e amount \<longleftrightarrow>
     (\<exists>c esc fs v n. e_escrowEventId e = Some c \<and> c \<noteq> [] \<and>
        readEscrowEvent sb c (w\<lparr>faults := fs\<rparr>) = (Inr esc, v) \<and>
        StringToBigInt (ee_reward esc) = Some (int n) \<and> 0 < n \<and> parseUsdcAmount amount = Some n)"

lemma card_pool:
  assumes k: "card_escrow sb (e_escrowEventId e) (w\<lparr>faults := fs\<rparr>) = (Inr escrow, u)"
    and m: "card_model_of S locale c escrow u = (Inr m, u')" and money: "cm_hasVerifiableMoney m"
  shows "pool_read sb w e (cm_prizeAmount m)"
proof -
  obtain symbol where b: "buildEventCardModel (cs_card S) (card_input locale c escrow symbol (clock u)) = Inr m"
    using card_model_of_Inr(2) [OF m] by blast
  from build_Inr(1) [OF b] money have "escrow \<noteq> None" by (auto simp: card_input_def)
  then obtain i esc v where i: "e_escrowEventId e = Some i" "i \<noteq> []" "escrow = Some esc"
    "readEscrowEvent sb i (w\<lparr>faults := fs\<rparr>) = (Inr esc, v)"
    using card_escrow_cases [OF k] by auto
  have "0 < reward_of (Some (Some (ee_reward esc)))"
    using build_Inr(1) [OF b] money by (simp add: card_input_def i)
  then obtain z where z: "StringToBigInt (ee_reward esc) = Some z" "0 < z"
    by (auto simp: reward_of_def split: option.splits)
  have "parseUsdcAmount (cm_prizeAmount m) = Some (nat z)"
    using build_Inr(2) [OF b] money z format_pos [of z] by (simp add: card_input_def i reward_of_def)
  then show ?thesis
    using i z unfolding pool_read_def
    by (intro exI [of _ i] exI [of _ esc] exI [of _ fs] exI [of _ v] exI [of _ "nat z"]) simp
qed

lemma card_event_of_status: "card_event_of S w e = Inr c \<Longrightarrow> ce_status c = e_status e"
  by (auto simp: card_event_of_def elim!: and_then_InrE)

lemma card_event_of_prizes:
  "card_event_of S w e = Inr c \<Longrightarrow> ce_prizes c = map (\<lambda>p. \<lparr>cp_rank = int (p_rank p),
     cp_amount = cs_decimal S (p_amount p), cp_winnerTeamId = p_winnerTeamId p,
     cp_releaseTxHash = p_releaseTxHash p\<rparr>) (event_prizes e w)"
  by (auto simp: card_event_of_def elim!: and_then_InrE)

lemma card_event_of_teams:
  "card_event_of S w e = Inr c \<Longrightarrow>
     collect (card_team_of w) (filter (\<lambda>t. t_eventId t = e_id e) (teams w)) = Inr (ce_teams c)"
  by (auto simp: card_event_of_def elim!: and_then_InrE)

lemma DisplayEventCard_pool: "DisplayEventCard model url l = Inr d \<Longrightarrow> dv_pool d = pool_of model"
  by (auto simp: DisplayEventCard_def Let_def elim!: and_then_InrE)

lemma display_pool:
  assumes "display_GET S locale i w = (Inr (DisplayPng r), w')"
  shows "\<exists>e\<in>set (events w). e_id e = uuid_key i \<and> e_status e \<in> {LIVE, JUDGING} \<and>
    pool_read (cs_soroban S) w e (fst (dv_pool (ir_card r)))"
proof -
  obtain e c v escrow u m u' where rows: "card_rows S i w = (Inr (Some (e, c)), v)"
    and st: "e_status e \<in> {LIVE, JUDGING}"
    and k: "card_escrow (cs_soroban S) (e_escrowEventId e) v = (Inr escrow, u)"
    and m: "card_model_of S locale c escrow u = (Inr m, u')" "cm_hasVerifiableMoney m"
    and d: "DisplayEventCard m (share_url (cs_page S) locale i) (getCardLabels S locale) = Inr (ir_card r)"
    using assms unfolding display_GET_def
    by (auto elim!: await_InrE simp: lift_result_def split: option.splits prod.splits if_splits sum.splits)
  obtain fs where e: "e \<in> set (events w)" "e_id e = uuid_key i" "v = w\<lparr>faults := fs\<rparr>"
    using card_rows_Inr [OF rows] by metis
  have "fst (dv_pool (ir_card r)) = cm_prizeAmount m"
    using DisplayEventCard_pool [OF d] by (simp add: pool_of_def)
  with card_pool [OF k [unfolded e(3)] m] e st show ?thesis by auto
qed

lemma receipt_pool:
  assumes "EventPrintPage S locale i w = (Inr (PrintReceipt r), w')"
  shows "\<exists>e\<in>set (events w). e_id e = uuid_key i \<and> e_status e = COMPLETED \<and>
    pool_read (cs_soroban S) w e (fst (rv_pool r)) \<and>
    (rv_paid r \<longleftrightarrow> event_prizes e w \<noteq> [] \<and>
       (\<forall>p\<in>set (event_prizes e w). present (p_winnerTeamId p) \<and> present (p_releaseTxHash p)))"
proof -
  obtain e c v escrow u m u' qr contract n where rows: "card_rows S i w = (Inr (Some (e, c)), v)"
    and st: "e_status e = COMPLETED"
    and k: "card_escrow (cs_soroban S) (e_escrowEventId e) v = (Inr escrow, u)"
    and m: "card_model_of S locale c escrow u = (Inr m, u')" "cm_hasVerifiableMoney m"
    and r: "r = receipt_of S e c m qr contract n"
    using assms unfolding EventPrintPage_def
    by (auto elim!: await_InrE split: option.splits prod.splits if_splits)
  obtain fs where e: "e \<in> set (events w)" "e_id e = uuid_key i" "card_event_of S w e = Inr c" "v = w\<lparr>faults := fs\<rparr>"
    using card_rows_Inr [OF rows] by metis
  have "fst (rv_pool r) = cm_prizeAmount m" by (simp add: r receipt_of_def pool_of_def Let_def)
  moreover have "rv_paid r \<longleftrightarrow> event_prizes e w \<noteq> [] \<and>
      (\<forall>p\<in>set (event_prizes e w). present (p_winnerTeamId p) \<and> present (p_releaseTxHash p))"
    by (simp add: r receipt_of_def Let_def allPayoutsConfirmed_def card_event_of_prizes [OF e(3)] list_all_iff)
  ultimately show ?thesis using card_pool [OF k [unfolded e(4)] m] e st by auto
qed

lemma image_pool:
  assumes "event_image S locale i w = (Inr r, w')"
  shows "case ir_card r of
      GenericView g \<Rightarrow> g = GenericCard (getCardLabels S locale)
    | OpenView v \<Rightarrow> \<exists>e\<in>set (events w). e_id e = uuid_key i \<and> e_status e \<in> {LIVE, JUDGING} \<and>
        pool_read (cs_soroban S) w e (fst (ov_pool v))
    | WinnersView v \<Rightarrow> \<exists>e\<in>set (events w). e_id e = uuid_key i \<and> e_status e = COMPLETED \<and>
        pool_read (cs_soroban S) w e (fst (wv_pool v))"
proof -
  consider "ir_card r = GenericView (GenericCard (getCardLabels S locale))"
    | e c v escrow u m u' where "card_rows S i w = (Inr (Some (e, c)), v)"
      "card_escrow (cs_soroban S) (e_escrowEventId e) v = (Inr escrow, u)"
      "card_model_of S locale c escrow u = (Inr m, u')"
      "ir_card r = renderEventCard m (getCardLabels S locale)"
    using assms unfolding event_image_def Let_def
    by (auto elim!: await_InrE split: option.splits prod.splits if_splits)
  then show ?thesis
  proof cases
    case 2
    obtain fs where e: "e \<in> set (events w)" "e_id e = uuid_key i" "card_event_of S w e = Inr c" "v = w\<lparr>faults := fs\<rparr>"
      using card_rows_Inr [OF 2(1)] by metis
    obtain symbol where b: "buildEventCardModel (cs_card S) (card_input locale c escrow symbol (clock u)) = Inr m"
      using card_model_of_Inr(2) [OF 2(3)] by blast
    have t: "cm_templateType m = template_of (cm_hasVerifiableMoney m) (e_status e)"
      using build_Inr(3) [OF b] card_event_of_status [OF e(3)] by (simp add: card_input_def)
    note p = card_pool [OF 2(2) [unfolded e(4)] 2(3)]
    show ?thesis
      using t p e(1,2) unfolding 2(4)
      by (auto simp: renderEventCard_def template_of_def OpenEventCard_def WinnersEventCard_def pool_of_def Let_def
          split: if_splits)
  qed simp
qed

section \<open>Properties\<close>

text \<open>C14: No image and no receipt claims money the chain did not give. A display PNG is only answered for
  an event stored as LIVE or JUDGING, a receipt only for a COMPLETED one, an open-call card for LIVE or
  JUDGING and a winners card for COMPLETED, and each shows as the pool exactly the amount that a
  successful read of that event's stored escrow id gave, which is positive; everything else is a refusal,
  a notice or the generic card. A receipt calls the event paid exactly when it has prizes and every one
  has a winner and a release transaction.\<close>

theorem cards_claim_only_the_chain:
  "(\<forall>r w'. display_GET S locale i w = (Inr (DisplayPng r), w') \<longrightarrow>
      (\<exists>e\<in>set (events w). e_id e = uuid_key i \<and> e_status e \<in> {LIVE, JUDGING} \<and>
         pool_read (cs_soroban S) w e (fst (dv_pool (ir_card r))))) \<and>
   (\<forall>r w'. EventPrintPage S locale i w = (Inr (PrintReceipt r), w') \<longrightarrow>
      (\<exists>e\<in>set (events w). e_id e = uuid_key i \<and> e_status e = COMPLETED \<and>
         pool_read (cs_soroban S) w e (fst (rv_pool r)) \<and>
         (rv_paid r \<longleftrightarrow> event_prizes e w \<noteq> [] \<and>
            (\<forall>p\<in>set (event_prizes e w). present (p_winnerTeamId p) \<and> present (p_releaseTxHash p))))) \<and>
   (\<forall>r w'. event_image S locale i w = (Inr r, w') \<longrightarrow>
      (case ir_card r of
         GenericView g \<Rightarrow> g = GenericCard (getCardLabels S locale)
       | OpenView v \<Rightarrow> \<exists>e\<in>set (events w). e_id e = uuid_key i \<and> e_status e \<in> {LIVE, JUDGING} \<and>
           pool_read (cs_soroban S) w e (fst (ov_pool v))
       | WinnersView v \<Rightarrow> \<exists>e\<in>set (events w). e_id e = uuid_key i \<and> e_status e = COMPLETED \<and>
           pool_read (cs_soroban S) w e (fst (wv_pool v))))"
  by (intro conjI allI impI) (rule display_pool receipt_pool image_pool, assumption)+

definition test_card_site :: card_site where
  "test_card_site = \<lparr>cs_view = test_host, cs_soroban = chain_soroban, cs_page = test_page_env,
     cs_card = test_card_host, cs_decimal = (\<lambda>_. js ''6''), cs_file = (\<lambda>_. Inl connection_lost),
     cs_translations = (\<lambda>_. Inl connection_lost)\<rparr>"

definition card_world :: "EventStatus \<Rightarrow> world" where
  "card_world st = chain_world\<lparr>events := [chain_event\<lparr>e_status := st\<rparr>]\<rparr>"

lemma card_site_simps [simp]:
  "cs_view test_card_site = test_host" "cs_soroban test_card_site = chain_soroban"
  "cs_page test_card_site = test_page_env" "cs_card test_card_site = test_card_host"
  by (simp_all add: test_card_site_def)

lemma card_world_rows:
  "\<exists>c. card_rows test_card_site test_event_id (card_world st)
     = (Inr (Some (chain_event\<lparr>e_status := st\<rparr>, c)), card_world st) \<and>
     ce_judgingDeadlineAt c = None \<and> ce_registrationClosesAt c = None"
proof -
  let ?e = "chain_event\<lparr>e_status := st\<rparr>" and ?w = "card_world st"
  have f: "find_event test_event_id ?w = Some ?e"
    by (simp add: find_event_def find_unique_def card_world_def test_ids chain_event_def test_event_def)
  have "organizer_address ?e ?w = Some (w_address test_wallet)"
    by (simp add: organizer_address_def find_unique_def card_world_def chain_world_def signed_in_world_def
        chain_event_def test_event_def test_wallet_def)
  then obtain c where c: "card_event_of test_card_site ?w ?e = Inr c"
    "ce_judgingDeadlineAt c = None" "ce_registrationClosesAt c = None"
    by (simp add: card_event_of_def require_row_def card_world_def chain_world_def signed_in_world_def
        empty_world_def chain_event_def test_event_def test_host_def)
  have "faults ?w = []" by (simp add: card_world_def chain_world_def signed_in_world_def empty_world_def)
  then have "select_by_uuid test_event_id (\<lambda>w. map_option (\<lambda>e. (e, card_event_of test_card_site w e))
      (find_event test_event_id w)) ?w = (Inr (Some (?e, Inr c)), ?w)"
    using f c(1) test_ids(1) by (simp add: select_by_uuid_def)
  then show ?thesis using c by (simp add: card_rows_def await_def)
qed

lemma card_world_model:
  assumes "ce_judgingDeadlineAt c = None" "ce_registrationClosesAt c = None"
    and "ee_reward esc = bigint_to_string 60000000"
  shows "\<exists>m. card_model_of test_card_site locale c (Some esc) w = (Inr m, w) \<and> cm_hasVerifiableMoney m"
proof -
  let ?in = "card_input locale c (Some esc) (js ''USDC'') (clock w)"
  obtain m where m: "buildEventCardModel test_card_host ?in = Inr m"
    using assms by (simp add: buildEventCardModel_def card_input_def iso_or_null_def Let_def)
  have "reward_of (Some (Some (ee_reward esc))) = 60000000"
    using reward_of_int_text [of 60000000] assms(3) by (simp add: int_text_def)
  then have "cm_hasVerifiableMoney m" using build_Inr(1) [OF m] by (simp add: card_input_def)
  then show ?thesis using m by (simp add: card_model_of_def test_page_env_def await_def)
qed

lemma card_world_reads:
  obtains esc where "card_escrow chain_soroban (Some chain_id) w = (Inr (Some esc), w)"
    "ee_reward esc = bigint_to_string 60000000"
  using chain_reads [of w] by (auto simp: card_escrow_def outcome_def await_def present_def chain_id_def)

lemma card_qr: "\<exists>qr. qrSvgPath (share_url test_page_env (js ''es'') test_event_id) = Inr qr"
  using chain_qr by (auto simp: EventQrCode_def elim!: and_then_InrE)

theorem cards_claim_only_the_chain_witness:
  "(\<exists>r. display_GET test_card_site (js ''es'') test_event_id (card_world LIVE)
      = (Inr (DisplayPng r), card_world LIVE) \<and>
      (\<exists>e. pool_read chain_soroban (card_world LIVE) e (fst (dv_pool (ir_card r))))) \<and>
   (\<exists>r. EventPrintPage test_card_site (js ''es'') test_event_id (card_world COMPLETED)
      = (Inr (PrintReceipt r), card_world COMPLETED) \<and> \<not> rv_paid r)"
proof -
  obtain qr where qr: "qrSvgPath (share_url test_page_env (js ''es'') test_event_id) = Inr qr"
    using card_qr by blast
  have k: "e_escrowEventId (chain_event\<lparr>e_status := st\<rparr>) = Some chain_id" for st by (simp add: chain_event_def)
  obtain c where c: "card_rows test_card_site test_event_id (card_world LIVE)
      = (Inr (Some (chain_event\<lparr>e_status := LIVE\<rparr>, c)), card_world LIVE)"
    "ce_judgingDeadlineAt c = None" "ce_registrationClosesAt c = None"
    using card_world_rows by blast
  obtain esc where esc: "card_escrow chain_soroban (Some chain_id) (card_world LIVE) = (Inr (Some esc), card_world LIVE)"
    "ee_reward esc = bigint_to_string 60000000" by (rule card_world_reads)
  obtain m where m: "card_model_of test_card_site (js ''es'') c (Some esc) (card_world LIVE) = (Inr m, card_world LIVE)"
    "cm_hasVerifiableMoney m" using card_world_model [OF c(2,3) esc(2)] by blast
  obtain d where d: "DisplayEventCard m (share_url test_page_env (js ''es'') test_event_id)
      (getCardLabels test_card_site (js ''es'')) = Inr d"
    using qr by (cases qr) (simp add: DisplayEventCard_def Let_def)
  have png: "\<exists>r. display_GET test_card_site (js ''es'') test_event_id (card_world LIVE) = (Inr (DisplayPng r), card_world LIVE)"
    using c(1) esc(1) m d k by (simp add: display_GET_def await_def del: js_Cons)
  obtain b where b: "card_rows test_card_site test_event_id (card_world COMPLETED)
      = (Inr (Some (chain_event\<lparr>e_status := COMPLETED\<rparr>, b)), card_world COMPLETED)"
    "ce_judgingDeadlineAt b = None" "ce_registrationClosesAt b = None"
    using card_world_rows by blast
  obtain es where es: "card_escrow chain_soroban (Some chain_id) (card_world COMPLETED) = (Inr (Some es), card_world COMPLETED)"
    "ee_reward es = bigint_to_string 60000000" by (rule card_world_reads)
  obtain n where n: "card_model_of test_card_site (js ''es'') b (Some es) (card_world COMPLETED) = (Inr n, card_world COMPLETED)"
    "cm_hasVerifiableMoney n" using card_world_model [OF b(2,3) es(2)] by blast
  have "pv_contract test_page_env = Inr (js ''CC'')" by (simp add: test_page_env_def)
  then have rc: "\<exists>r. EventPrintPage test_card_site (js ''es'') test_event_id (card_world COMPLETED)
      = (Inr (PrintReceipt r), card_world COMPLETED)"
    using b(1) es(1) n qr k by (simp add: EventPrintPage_def await_def del: js_Cons)
  have none: "event_prizes e (card_world COMPLETED) = []" for e
    by (simp add: event_prizes_def card_world_def chain_world_def signed_in_world_def empty_world_def)
  from png rc show ?thesis
    using cards_claim_only_the_chain [where S = test_card_site and i = test_event_id] none by (metis card_site_simps(2))
qed

text \<open>No card and no receipt ever names a GitHub account: the rows of a card only take linked accounts
  whose provider reads \<open>github\<close>, and every one that is stored reads \<open>GITHUB\<close>. So, for every event and
  every model built of its rows, each winner of the model is a stored team of the event and its members
  are exactly the shortened addresses of the team's wallets.\<close>

theorem cards_never_name_members:
  assumes "\<forall>a\<in>set (linked w). l_provider a = GITHUB"
    and "card_event_of S w e = Inr (ci_event input)" and "buildEventCardModel h input = Inr m"
    and "x \<in> set (cm_winners m)"
  shows "\<exists>t\<in>set (teams w). t_eventId t = e_id e \<and> cx_teamName x = truncateText (t_name t) 28 \<and>
    cx_members x = map (\<lambda>k. truncateWallet (w_address (the (find_unique (\<lambda>r. w_id r = m_walletId k) (wallets w)))))
      (team_members w t)"
proof -
  have none: "filter (\<lambda>a. l_walletId a = i \<and> l_provider a = js ''github'') (linked w) = []" for i
    using assms(1) by (auto simp: filter_empty_conv GITHUB_def)
  have member: "formatMemberHandle h y
      = truncateWallet (w_address (the (find_unique (\<lambda>r. w_id r = m_walletId k) (wallets w))))"
    if "card_member w k = Inr y" for k y
    using that none
    by (auto simp: card_member_def require_row_def formatMemberHandle_def Let_def simp del: js_Cons
        elim!: and_then_InrE split: option.splits)
  obtain p b where b: "winner_team (ci_event input) p = Some b" "x = winner_of h (cm_prizeAsset m) p b"
    using assms(4) unfolding build_Inr(4) [OF assms(3)] push_winners_filter by auto
  then have "b \<in> set (ce_teams (ci_event input))"
    by (auto simp: winner_team_def find_Some_iff split: option.splits if_splits)
  then obtain t where t: "t \<in> set (teams w)" "t_eventId t = e_id e" "card_team_of w t = Inr b"
    using collect_source [OF card_event_of_teams [OF assms(2)]] by auto
  obtain ms where ms: "collect (card_member w) (team_members w t) = Inr ms" "ct_members b = ms" "ct_name b = t_name t"
    using t(3) by (auto simp: card_team_of_def elim!: and_then_InrE)
  have "map (formatMemberHandle h) ms
      = map (\<lambda>k. truncateWallet (w_address (the (find_unique (\<lambda>r. w_id r = m_walletId k) (wallets w))))) (team_members w t)"
    using collect_InrD [OF ms(1)] by (induction rule: list_all2_induct) (simp_all add: member)
  with t(1,2) ms(2,3) b(2) show ?thesis by (intro bexI [of _ t]) (simp_all add: winner_of_def)
qed

definition winners_team :: team_row where
  "winners_team = \<lparr>t_id = test_team_id, t_eventId = test_event_id, t_name = js ''T'', t_submissionUrl = [],
     t_submissionVerifiedAt = None\<rparr>"

definition winners_member :: member_row where
  "winners_member = \<lparr>m_id = [], m_teamId = test_team_id, m_eventId = test_event_id, m_walletId = test_wallet_id,
     m_shareBasisPoints = 10000, m_ordinal = 1\<rparr>"

definition winners_world :: world where
  "winners_world = (card_world COMPLETED)\<lparr>teams := [winners_team], members := [winners_member],
     prizes := [(test_prize 1)\<lparr>p_winnerTeamId := Some test_team_id\<rparr>],
     linked := [\<lparr>l_id = [], l_walletId = test_wallet_id, l_provider = GITHUB, l_providerId = [],
                 l_username = js ''octocat'', l_avatarUrl = None, l_profileUrl = None\<rparr>]\<rparr>"

lemma winners_rows:
  "teams winners_world = [winners_team]" "team_members winners_world winners_team = [winners_member]"
  "t_id winners_team = test_team_id" "t_eventId winners_team = test_event_id"
  "m_walletId winners_member = test_wallet_id"
  by (simp_all add: winners_world_def winners_team_def winners_member_def team_members_def)

theorem cards_never_name_members_witness:
  "\<exists>c m x. card_event_of test_card_site winners_world chain_event = Inr c \<and>
     buildEventCardModel test_card_host (card_input (js ''es'') c None (js ''USDC'') 0) = Inr m \<and>
     x \<in> set (cm_winners m) \<and> cx_members x = [truncateWallet (w_address test_wallet)]"
proof -
  have org: "organizer_address chain_event winners_world = Some (w_address test_wallet)"
    "find_unique (\<lambda>r. w_id r = test_wallet_id) (wallets winners_world) = Some test_wallet"
    by (simp_all add: organizer_address_def find_unique_def winners_world_def card_world_def chain_world_def
        signed_in_world_def chain_event_def test_event_def test_wallet_def)
  have e: "e_id chain_event = test_event_id" "e_judgingDeadlineAt chain_event = None"
    by (simp_all add: chain_event_def test_event_def)
  have k: "\<exists>y. card_member winners_world k = Inr y" if "m_walletId k = test_wallet_id" for k
    using that org(2) by (simp add: card_member_def require_row_def)
  obtain ts where ts: "card_team_of winners_world winners_team = Inr ts"
    using k [OF winners_rows(5)] by (auto simp: card_team_of_def winners_rows)
  obtain c where c: "card_event_of test_card_site winners_world chain_event = Inr c" "ce_teams c = [ts]"
    "ce_judgingDeadlineAt c = None" "ce_registrationClosesAt c = None"
    using ts by (simp add: card_event_of_def require_row_def org e test_host_def winners_rows)
  have ne: "test_team_id \<noteq> []" by (simp add: test_team_id_def)
  have "ct_id ts = test_team_id"
    using ts by (auto simp: card_team_of_def winners_rows elim!: and_then_InrE)
  moreover have "map cp_winnerTeamId (ce_prizes c) = [Some test_team_id]"
    unfolding card_event_of_prizes [OF c(1)]
    by (simp add: event_prizes_def winners_world_def test_prize_def e del: js_Cons)
  ultimately obtain p where p: "ce_prizes c = [p]" "winner_team c p = Some ts"
    using ne by (auto simp: winner_team_def c(2) split: option.split)
  obtain m where m: "buildEventCardModel test_card_host (card_input (js ''es'') c None (js ''USDC'') 0) = Inr m"
    using c(3,4) by (simp add: buildEventCardModel_def card_input_def iso_or_null_def Let_def del: js_Cons)
  then have x: "winner_of test_card_host (cm_prizeAsset m) p ts \<in> set (cm_winners m)" (is "?x \<in> _")
    using build_Inr(4) [OF m] p by (simp add: card_input_def)
  have "\<exists>t\<in>set (teams winners_world). t_eventId t = e_id chain_event \<and>
      cx_teamName ?x = truncateText (t_name t) 28 \<and>
      cx_members ?x = map (\<lambda>k. truncateWallet (w_address (the (find_unique (\<lambda>r. w_id r = m_walletId k)
        (wallets winners_world))))) (team_members winners_world t)"
    by (rule cards_never_name_members [where S = test_card_site, OF _ _ m x])
      (simp add: winners_world_def, simp add: card_input_def c(1))
  then have "cx_members ?x = [truncateWallet (w_address test_wallet)]"
    using org(2) by (simp add: winners_rows)
  with c(1) m x show ?thesis by blast
qed

text \<open>Linking an account keeps every stored provider upper case.\<close>

lemma linking_stores_upper_case:
  assumes "relinked i t t'" and "\<forall>a\<in>set t. l_provider a = GITHUB"
  shows "\<forall>a\<in>set t'. l_provider a = GITHUB"
  using assms by (auto simp: relinked_def)

end
