(* ===== verification/Profile_Page.thy ===== *)
theory Profile_Page
  imports Event_Cards Earnings
begin

text \<open>
  The public profile of a builder, \<open>p/[login]/page.tsx\<close>. \<open>decodeURIComponent\<close> is ECMA-262's \<open>Decode\<close>, with
  \<open>None\<close> for its \<open>URIError\<close>. How the database compares a username without regard to case, how a
  \<open>Decimal\<close> prints and \<open>STELLAR_NETWORK\<close> are parameters; a table's rows come in the order of its list.
\<close>

section \<open>decodeURIComponent\<close>

definition uri_hex_digit :: "nat \<Rightarrow> nat option" where
  "uri_hex_digit c =
     (if 48 \<le> c \<and> c \<le> 57 then Some (c - 48)
      else if 65 \<le> c \<and> c \<le> 70 then Some (c - 55)
      else if 97 \<le> c \<and> c \<le> 102 then Some (c - 87)
      else None)"

text \<open>\<open>n\<close> octets, each written as a percent sign and two hexadecimal digits, and the rest.\<close>

fun percent_octets :: "nat \<Rightarrow> jstring \<Rightarrow> (nat list \<times> jstring) option" where
  "percent_octets 0 s = Some ([], s)"
| "percent_octets (Suc n) (p # a # b # s) =
     (if p \<noteq> 37 then None
      else (case (uri_hex_digit a, uri_hex_digit b) of
              (Some x, Some y) \<Rightarrow> map_option (apfst (Cons (x * 16 + y))) (percent_octets n s)
            | _ \<Rightarrow> None))"
| "percent_octets (Suc n) s = None"

text \<open>How many octets the first one announces.\<close>

definition octet_count :: "nat \<Rightarrow> nat option" where
  "octet_count b =
     (if b < 128 then Some 1
      else if 192 \<le> b \<and> b < 224 then Some 2
      else if 224 \<le> b \<and> b < 240 then Some 3
      else if 240 \<le> b \<and> b < 248 then Some 4
      else None)"

text \<open>The code point that the octets are the valid UTF-8 of.\<close>

definition octet_value :: "nat list \<Rightarrow> nat" where
  "octet_value bs =
     (case bs of
        [a] \<Rightarrow> a
      | [a, b] \<Rightarrow> (a - 192) * 64 + (b - 128)
      | [a, b, c] \<Rightarrow> (a - 224) * 4096 + (b - 128) * 64 + (c - 128)
      | [a, b, c, d] \<Rightarrow> (a - 240) * 262144 + (b - 128) * 4096 + (c - 128) * 64 + (d - 128)
      | _ \<Rightarrow> 0)"

definition octets_point :: "nat list \<Rightarrow> nat option" where
  "octets_point bs =
     (let p = octet_value bs in
      if utf8_bytes p = bs \<and> \<not> surrogate p \<and> p < 1114112 then Some p else None)"

definition percent_point :: "jstring \<Rightarrow> (nat \<times> jstring) option" where
  "percent_point s =
     Option.bind (percent_octets 1 s) (\<lambda>(first, _).
     Option.bind (octet_count (hd first)) (\<lambda>n.
     Option.bind (percent_octets n s) (\<lambda>(bs, rest).
     map_option (\<lambda>p. (p, rest)) (octets_point bs))))"

lemma percent_octets_length: "percent_octets n s = Some (bs, rest) \<Longrightarrow> length s = length rest + 3 * n \<and> length bs = n"
  by (induction n s arbitrary: bs rule: percent_octets.induct) (auto split: if_splits option.splits)

lemma percent_point_shorter: "percent_point s = Some (p, rest) \<Longrightarrow> length rest < length s"
  by (auto simp: percent_point_def octet_count_def bind_eq_Some_conv dest!: percent_octets_length
      split: if_splits prod.splits)

function decodeURIComponent :: "jstring \<Rightarrow> jstring option" where
  "decodeURIComponent [] = Some []"
| "decodeURIComponent (c # s) =
     (if c \<noteq> 37 then map_option (Cons c) (decodeURIComponent s)
      else (case percent_point (c # s) of
              None \<Rightarrow> None
            | Some (p, rest) \<Rightarrow> map_option ((@) (utf16_units p)) (decodeURIComponent rest)))"
  by pat_completeness auto

termination
  by (relation "measure length") (auto dest: percent_point_shorter)

text \<open>It undoes \<open>encodeURIComponent\<close>.\<close>

lemma uri_hex_digit_upper [simp]: "n < 16 \<Longrightarrow> uri_hex_digit (hex_upper n) = Some n"
  by (auto simp: uri_hex_digit_def hex_upper_def)

lemma percent_octets_bytes:
  "list_all (\<lambda>b. b < 256) bs \<Longrightarrow> percent_octets (length bs) (concat (map percent_byte bs) @ r) = Some (bs, r)"
proof (induction bs)
  case (Cons b bs)
  then have "b div 16 < 16" "b mod 16 < 16" by auto
  with Cons show ?case by (simp add: percent_byte_def)
qed simp

lemma octets_of_point:
  assumes "p < 1114112" "\<not> surrogate p"
  shows "octet_value (utf8_bytes p) = p" "octet_count (hd (utf8_bytes p)) = Some (length (utf8_bytes p))"
    "utf8_bytes p \<noteq> []"
proof -
  show "octet_value (utf8_bytes p) = p"
    using div_mod_64 [of p] div_mult_mod_eq [of p 64] by (simp add: utf8_bytes_def octet_value_def)
  show "octet_count (hd (utf8_bytes p)) = Some (length (utf8_bytes p))"
    using assms(1) by (auto simp: utf8_bytes_def octet_count_def)
  show "utf8_bytes p \<noteq> []" by (simp add: utf8_bytes_def)
qed

lemma percent_point_encoded:
  assumes "p < 1114112" "\<not> surrogate p"
  shows "percent_point (concat (map percent_byte (utf8_bytes p)) @ r) = Some (p, r)"
proof -
  note o = octets_of_point [OF assms]
  obtain b bs where b: "utf8_bytes p = b # bs" using o(3) by (cases "utf8_bytes p") auto
  have bound: "list_all (\<lambda>b. b < 256) (utf8_bytes p)" by (rule utf8_bytes_bound [OF assms(1)])
  have one: "percent_octets 1 (concat (map percent_byte (utf8_bytes p)) @ r)
      = Some ([b], concat (map percent_byte bs) @ r)"
    using percent_octets_bytes [of "[b]" "concat (map percent_byte bs) @ r"] bound by (simp add: b)
  have "octets_point (utf8_bytes p) = Some p" using o assms by (simp add: octets_point_def)
  then show ?thesis
    using one percent_octets_bytes [OF bound, of r] o(2) by (simp add: percent_point_def b)
qed

lemma decode_encoded_point:
  assumes "p < 1114112" "\<not> surrogate p"
  shows "decodeURIComponent (encode_point p @ r) = map_option ((@) (utf16_units p)) (decodeURIComponent r)"
proof (cases "uri_unreserved p")
  case True
  then show ?thesis using uri_unreserved_ascii [OF True]
    by (cases "decodeURIComponent r") (simp_all add: encode_point_def utf16_units_def)
next
  case False
  let ?t = "concat (map percent_byte (utf8_bytes p)) @ r"
  obtain s where s: "?t = 37 # s"
    using octets_of_point(3) [OF assms] by (cases "utf8_bytes p") (auto simp: percent_byte_def)
  have "decodeURIComponent ?t = map_option ((@) (utf16_units p)) (decodeURIComponent r)"
    using percent_point_encoded [OF assms, of r] unfolding s by simp
  then show ?thesis by (simp add: encode_point_def False)
qed

theorem decodeURIComponent_encodeURIComponent:
  assumes "list_all is_unit s" and "encodeURIComponent s = Some t"
  shows "decodeURIComponent t = Some s"
proof -
  have "decodeURIComponent (concat (map encode_point ps)) = Some (concat (map utf16_units ps))"
    if "list_all (\<lambda>p. p < 1114112) ps" "list_all (\<lambda>p. \<not> surrogate p) ps" for ps
    using that by (induction ps) (simp_all add: decode_encoded_point)
  moreover have "list_all (\<lambda>p. \<not> surrogate p) (code_points s)" "t = concat (map encode_point (code_points s))"
    using assms(2) by (auto simp: encodeURIComponent_def list_all_iff list_ex_iff split: if_splits)
  ultimately show ?thesis
    using code_points_bound [OF assms(1)] units_of_code_points [OF assms(1)] by simp
qed

section \<open>The profile of a login\<close>

definition normalizeLogin :: "jstring \<Rightarrow> jstring" where
  "normalizeLogin raw =
     (case decodeURIComponent raw of
        Some s \<Rightarrow> drop_at (trim s)
      | None \<Rightarrow> drop_at (trim raw))"

definition profile_shortAddress :: "jstring \<Rightarrow> jstring" where
  "profile_shortAddress address =
     (if address = [] then []
      else if length address \<le> 12 then address
      else take 6 address @ [ellipsis] @ slice_last 6 address)"

text \<open>\<open>ph_equals\<close> is the database's comparison of a login with a stored username, regardless of case.\<close>

record profile_host =
  ph_equals :: "jstring \<Rightarrow> jstring \<Rightarrow> bool"
  ph_decimal :: "nat \<Rightarrow> jstring"
  ph_network :: explorer_network

definition profile_metadata :: "jstring \<Rightarrow> event_metadata" where
  "profile_metadata raw =
     \<lparr>em_title = normalizeLogin raw @ js '' '' @ [8212] @ js '' Public Profile | Astrea'',
      em_description = js ''Verified builder profile for '' @ normalizeLogin raw @ js '' on Astrea.''\<rparr>"

record membership_rows =
  mr_team :: team_row
  mr_event :: event_row
  mr_prizes :: "prize_row list"
  mr_payouts :: "payout_row list"

definition membership_of :: "pay_world \<Rightarrow> member_row \<Rightarrow> exn + membership_rows" where
  "membership_of w m =
     and_then (require_row (find_unique (\<lambda>t. t_id t = m_teamId m) (teams w))) (\<lambda>t.
     and_then (require_row (find_unique (\<lambda>e. e_id e = t_eventId t) (events w))) (\<lambda>e. Inr
       \<lparr>mr_team = t, mr_event = e, mr_prizes = filter (\<lambda>p. p_winnerTeamId p = Some (t_id t)) (prizes w),
        mr_payouts = filter (\<lambda>p. po_teamMemberId p = m_id m) (payouts w)\<rparr>))"

text \<open>The first account in the table whose name is the login, with its wallet and what that is part of.\<close>

definition profile_rows ::
    "profile_host \<Rightarrow> jstring \<Rightarrow> pay_world \<Rightarrow> (exn + linked_row \<times> wallet_row \<times> membership_rows list) option" where
  "profile_rows H login w =
     map_option (\<lambda>a.
       and_then (require_row (find_unique (\<lambda>r. w_id r = l_walletId a) (wallets w))) (\<lambda>r.
       and_then (collect (membership_of w) (filter (\<lambda>m. m_walletId m = w_id r) (members w))) (\<lambda>ms.
       Inr (a, r, ms))))
     (List.find (\<lambda>a. l_provider a = GITHUB \<and> ph_equals H login (l_username a)) (linked w))"

record membership_view =
  mv_event :: "jstring \<times> jstring"
  mv_verified :: bool
  mv_team :: jstring
  mv_submission :: "jstring option"
  mv_prizes :: "(jstring \<times> nat) list"
  mv_payouts :: "tx_hash_link option list"

definition event_explorer :: "StellarNetwork \<Rightarrow> explorer_network" where
  "event_explorer n = (case n of MAINNET \<Rightarrow> mainnet | TESTNET \<Rightarrow> testnet)"

text \<open>The payouts stand in the box of the prizes, which a team without prizes does not have.\<close>

definition membership_view_of :: "profile_host \<Rightarrow> membership_rows \<Rightarrow> membership_view" where
  "membership_view_of H d =
     \<lparr>mv_event = (js ''/events/'' @ e_id (mr_event d), e_name (mr_event d)),
      mv_verified = (t_submissionVerifiedAt (mr_team d) \<noteq> None), mv_team = t_name (mr_team d),
      mv_submission = (if t_submissionUrl (mr_team d) = [] then None else Some (t_submissionUrl (mr_team d))),
      mv_prizes = map (\<lambda>p. (ph_decimal H (p_amount p) @ js '' USDC'', p_rank p)) (mr_prizes d),
      mv_payouts = (if mr_prizes d = [] then []
                    else map (\<lambda>p. TxHashLink (po_txHash p) (event_explorer (e_network (mr_event d))) 4 4) (mr_payouts d))\<rparr>"

record public_profile =
  pr_avatar :: "jstring option"
  pr_name :: jstring
  pr_github :: jstring
  pr_wallet :: address_link
  pr_memberships :: "membership_view list"

definition profile_of :: "profile_host \<Rightarrow> linked_row \<Rightarrow> wallet_row \<Rightarrow> membership_rows list \<Rightarrow> public_profile" where
  "profile_of H a r ms =
     \<lparr>pr_avatar = (if present (l_avatarUrl a) then l_avatarUrl a else None), pr_name = l_username a,
      pr_github = (case l_profileUrl a of None \<Rightarrow> js ''https://github.com/'' @ l_username a | Some u \<Rightarrow> u),
      pr_wallet = \<lparr>al_href = getExplorerAccountUrl (w_address r) (ph_network H),
                   al_text = profile_shortAddress (w_address r), al_title = w_address r\<rparr>,
      pr_memberships = map (membership_view_of H) ms\<rparr>"

text \<open>\<open>None\<close> is \<open>notFound()\<close>.\<close>

definition PublicProfilePage :: "profile_host \<Rightarrow> jstring \<Rightarrow> (pay_world, public_profile option) action" where
  "PublicProfilePage H raw =
     await (db_call (read_state (profile_rows H (normalizeLogin raw)))) (\<lambda>found.
     case found of
       None \<Rightarrow> return_value None
     | Some read \<Rightarrow>
         await (lift_result read) (\<lambda>(a, r, ms).
         return_value (if w_profilePublic r then Some (profile_of H a r ms) else None)))"

section \<open>Properties\<close>

text \<open>A link to a profile finds its login again: written with \<open>encodeURIComponent\<close>, with or without an
  \<open>@\<close> in front.\<close>

theorem normalizeLogin_of_link:
  assumes "list_all is_unit login" and "trim login = login" and "drop_at login = login"
    and "encodeURIComponent login = Some t"
  shows "normalizeLogin t = login"
  using decodeURIComponent_encodeURIComponent [OF assms(1,4)] assms(2,3) by (simp add: normalizeLogin_def)

lemma membership_of_faults [simp]: "membership_of (w\<lparr>faults := fs\<rparr>) m = membership_of w m"
  by (simp add: membership_of_def)

lemma profile_rows_faults [simp]: "profile_rows H login (w\<lparr>faults := fs\<rparr>) = profile_rows H login w"
proof -
  have "membership_of (w\<lparr>faults := fs\<rparr>) = membership_of w" by (rule ext) simp
  then show ?thesis by (simp add: profile_rows_def)
qed

lemma profile_rows_Some:
  assumes "profile_rows H login w = Some (Inr (a, r, ms))"
  shows "a \<in> set (linked w)" "l_provider a = GITHUB" "ph_equals H login (l_username a)"
    "r \<in> set (wallets w)" "w_id r = l_walletId a"
    "collect (membership_of w) (filter (\<lambda>m. m_walletId m = w_id r) (members w)) = Inr ms"
proof -
  obtain z where z: "List.find (\<lambda>a. l_provider a = GITHUB \<and> ph_equals H login (l_username a)) (linked w) = Some z"
    and x: "and_then (require_row (find_unique (\<lambda>r. w_id r = l_walletId z) (wallets w))) (\<lambda>r.
       and_then (collect (membership_of w) (filter (\<lambda>m. m_walletId m = w_id r) (members w))) (\<lambda>ms.
       Inr (z, r, ms))) = Inr (a, r, ms)"
    using assms by (auto simp: profile_rows_def)
  have r: "find_unique (\<lambda>r. w_id r = l_walletId z) (wallets w) = Some r" "z = a"
    "collect (membership_of w) (filter (\<lambda>m. m_walletId m = w_id r) (members w)) = Inr ms"
    using x by (auto simp: require_row_def elim!: and_then_InrE split: option.splits)
  show "a \<in> set (linked w)" "l_provider a = GITHUB" "ph_equals H login (l_username a)"
    using z r(2) by (auto simp: find_Some_iff)
  show "r \<in> set (wallets w)" "w_id r = l_walletId a"
    using find_unique_Some [OF r(1)] r(2) by simp_all
  show "collect (membership_of w) (filter (\<lambda>m. m_walletId m = w_id r) (members w)) = Inr ms" by (rule r(3))
qed

lemma PublicProfilePage_Some:
  assumes "PublicProfilePage H raw w = (Inr (Some view), w')"
  obtains a r ms where "profile_rows H (normalizeLogin raw) w = Some (Inr (a, r, ms))" "w_profilePublic r"
    "view = profile_of H a r ms"
proof -
  obtain found v where f: "db_call (read_state (profile_rows H (normalizeLogin raw))) w = (Inr found, v)"
    and k: "(case found of None \<Rightarrow> return_value None | Some read \<Rightarrow> await (lift_result read) (\<lambda>(a, r, ms).
         return_value (if w_profilePublic r then Some (profile_of H a r ms) else None))) v = (Inr (Some view), w')"
    using assms unfolding PublicProfilePage_def by (auto elim!: await_InrE)
  have "found = profile_rows H (normalizeLogin raw) w" using f by (auto elim!: db_call_InrE)
  moreover obtain a r ms where "found = Some (Inr (a, r, ms))" "w_profilePublic r" "view = profile_of H a r ms"
    using k by (auto elim!: await_InrE simp: lift_result_def split: option.splits sum.splits if_splits)
  ultimately show ?thesis using that [of a r ms] by simp
qed

text \<open>C15: A profile is public only when its owner made it so. If \<open>/p/login\<close> shows anything, it is of a
  stored GitHub account whose name is the normalized login, linked to a wallet that is marked public, and
  it shows that wallet's address; every participation on it is of a membership of that wallet, in the
  stored team and event of that membership, with the prizes that team won, and every payout linked on it
  is one to that very membership, and is only linked where a prize was won.\<close>

theorem profile_shows_only_public:
  assumes "PublicProfilePage H raw w = (Inr (Some view), w')"
  shows "\<exists>a\<in>set (linked w). \<exists>r\<in>set (wallets w).
    l_provider a = GITHUB \<and> ph_equals H (normalizeLogin raw) (l_username a) \<and> l_walletId a = w_id r \<and>
    w_profilePublic r \<and> pr_name view = l_username a \<and> al_title (pr_wallet view) = w_address r \<and>
    (\<forall>b\<in>set (pr_memberships view).
      \<exists>m\<in>set (members w). \<exists>t\<in>set (teams w). \<exists>e\<in>set (events w).
        m_walletId m = w_id r \<and> m_teamId m = t_id t \<and> t_eventId t = e_id e \<and>
        mv_event b = (js ''/events/'' @ e_id e, e_name e) \<and> mv_team b = t_name t \<and>
        (mv_verified b \<longleftrightarrow> t_submissionVerifiedAt t \<noteq> None) \<and>
        map snd (mv_prizes b) = map p_rank (filter (\<lambda>p. p_winnerTeamId p = Some (t_id t)) (prizes w)) \<and>
        (\<forall>l. Some l \<in> set (mv_payouts b) \<longrightarrow>
           mv_prizes b \<noteq> [] \<and> (\<exists>p\<in>set (payouts w). po_teamMemberId p = m_id m \<and> tl_copies l = po_txHash p)))"
proof -
  obtain a r ms where x: "profile_rows H (normalizeLogin raw) w = Some (Inr (a, r, ms))" "w_profilePublic r"
    and v: "view = profile_of H a r ms" using assms by (rule PublicProfilePage_Some)
  note rows = profile_rows_Some [OF x(1)]
  have member: "\<exists>m\<in>set (members w). \<exists>t\<in>set (teams w). \<exists>e\<in>set (events w).
        m_walletId m = w_id r \<and> m_teamId m = t_id t \<and> t_eventId t = e_id e \<and>
        mv_event b = (js ''/events/'' @ e_id e, e_name e) \<and> mv_team b = t_name t \<and>
        (mv_verified b \<longleftrightarrow> t_submissionVerifiedAt t \<noteq> None) \<and>
        map snd (mv_prizes b) = map p_rank (filter (\<lambda>p. p_winnerTeamId p = Some (t_id t)) (prizes w)) \<and>
        (\<forall>l. Some l \<in> set (mv_payouts b) \<longrightarrow>
           mv_prizes b \<noteq> [] \<and> (\<exists>p\<in>set (payouts w). po_teamMemberId p = m_id m \<and> tl_copies l = po_txHash p))"
    if b: "b \<in> set (pr_memberships view)" for b
  proof -
    obtain d where d: "d \<in> set ms" "b = membership_view_of H d" using b by (auto simp: v profile_of_def)
    obtain m where m: "m \<in> set (members w)" "m_walletId m = w_id r" "membership_of w m = Inr d"
      using collect_source [OF rows(6) d(1)] by auto
    then obtain t e where "t \<in> set (teams w)" "t_id t = m_teamId m" "e \<in> set (events w)" "e_id e = t_eventId t"
      "d = \<lparr>mr_team = t, mr_event = e, mr_prizes = filter (\<lambda>p. p_winnerTeamId p = Some (t_id t)) (prizes w),
        mr_payouts = filter (\<lambda>p. po_teamMemberId p = m_id m) (payouts w)\<rparr>"
      by (auto simp: membership_of_def require_row_def elim!: and_then_InrE dest!: find_unique_Some split: option.splits)
    with m(1,2) show ?thesis
      by (intro bexI [of _ m] bexI [of _ t] bexI [of _ e])
        (auto simp: d(2) membership_view_of_def TxHashLink_def comp_def simp del: js_Cons split: if_splits)
  qed
  have "pr_name view = l_username a" "al_title (pr_wallet view) = w_address r"
    by (simp_all add: v profile_of_def)
  with rows(1-5) x(2) member show ?thesis by (intro bexI [of _ a] bexI [of _ r]) simp_all
qed


definition test_profile_host :: profile_host where
  "test_profile_host = \<lparr>ph_equals = (=), ph_decimal = (\<lambda>_. js ''1''), ph_network = testnet\<rparr>"

definition octocat :: linked_row where
  "octocat = \<lparr>l_id = [], l_walletId = test_wallet_id, l_provider = GITHUB, l_providerId = [],
     l_username = js ''octocat'', l_avatarUrl = None, l_profileUrl = None\<rparr>"

definition profile_world :: pay_world where
  "profile_world = world.extend
     (empty_world\<lparr>wallets := [test_wallet\<lparr>w_profilePublic := True\<rparr>], linked := [octocat],
        members := [winners_member], teams := [winners_team], events := [test_event],
        prizes := [(test_prize 1)\<lparr>p_winnerTeamId := Some test_team_id\<rparr>]\<rparr>)
     (pay_world.fields [\<lparr>po_id = [9], po_prizeId = [1], po_teamMemberId = [], po_txHash = [7], po_amount = 5,
        po_confirmedAt = 0\<rparr>])"

lemma profile_world_tables:
  "faults profile_world = []" "wallets profile_world = [test_wallet\<lparr>w_profilePublic := True\<rparr>]"
  "linked profile_world = [octocat]" "members profile_world = [winners_member]"
  "teams profile_world = [winners_team]" "events profile_world = [test_event]"
  by (simp_all add: profile_world_def pay_world.defs world.defs empty_world_def)

lemma profile_world_rows:
  "\<exists>d. profile_rows test_profile_host (js ''octocat'') profile_world
     = Some (Inr (octocat, test_wallet\<lparr>w_profilePublic := True\<rparr>, [d]))"
proof -
  have "\<exists>d. membership_of profile_world winners_member = Inr d"
    by (simp add: membership_of_def require_row_def find_unique_def profile_world_tables winners_member_def
        winners_team_def test_event_def del: js_Cons)
  then obtain d where d: "membership_of profile_world winners_member = Inr d" by blast
  have w: "w_id test_wallet = test_wallet_id" "m_walletId winners_member = test_wallet_id"
    by (simp_all add: test_wallet_def winners_member_def)
  have a: "l_provider octocat = GITHUB" "l_username octocat = js ''octocat''" "l_walletId octocat = test_wallet_id"
    by (simp_all add: octocat_def)
  show ?thesis
    by (simp add: profile_rows_def profile_world_tables require_row_def find_unique_def w a d test_profile_host_def
        del: js_Cons)
qed

theorem profile_shows_only_public_witness:
  "\<exists>view. PublicProfilePage test_profile_host (js ''%40octocat'') profile_world = (Inr (Some view), profile_world) \<and>
     pr_name view = js ''octocat'' \<and> length (pr_memberships view) = 1 \<and>
     al_title (pr_wallet view) = w_address test_wallet"
proof -
  have n: "normalizeLogin (js ''%40octocat'') = js ''octocat''" 
    by (simp add: normalizeLogin_def percent_point_def uri_hex_digit_def octet_count_def octets_point_def octet_value_def
        utf8_bytes_def surrogate_def utf16_units_def Let_def trim_def trimStart_def trimEnd_def js_space_def drop_at_def)
  obtain d where d: "profile_rows test_profile_host (js ''octocat'') profile_world
      = Some (Inr (octocat, test_wallet\<lparr>w_profilePublic := True\<rparr>, [d]))"
    using profile_world_rows by blast
  let ?v = "profile_of test_profile_host octocat (test_wallet\<lparr>w_profilePublic := True\<rparr>) [d]"
  have v: "PublicProfilePage test_profile_host (js ''%40octocat'') profile_world = (Inr (Some ?v), profile_world)"
    unfolding PublicProfilePage_def n by (simp add: await_def profile_world_tables(1) d del: js_Cons)
  obtain a r where ar: "a \<in> set (linked profile_world)" "r \<in> set (wallets profile_world)"
    "pr_name ?v = l_username a" "al_title (pr_wallet ?v) = w_address r"
    using profile_shows_only_public [OF v] by (elim bexE conjE) (rule that)
  have "pr_name ?v = js ''octocat''" "al_title (pr_wallet ?v) = w_address test_wallet"
    using ar unfolding profile_world_tables by (simp_all add: octocat_def)
  moreover have "length (pr_memberships ?v) = 1" by (simp add: profile_of_def)
  ultimately show ?thesis using v by (intro exI [of _ ?v] conjI)
qed

end
