(* ===== verification/Wallet_Provider.thy ===== *)
theory Wallet_Provider
  imports Sign_Step Earnings
begin

text \<open>
  The wallet in the browser: \<open>lib/wallet/provider.tsx\<close>, \<open>kit.ts\<close> and \<open>wallet-connect-button.tsx\<close>. The
  provider's three states are the record \<open>wallet_state\<close>; \<open>connect\<close>, \<open>disconnect\<close> and the mount effect
  act on it and, through server actions, on the \<open>world\<close>. The wallets kit is the record \<open>wallet_kit\<close>:
  each of its calls may throw, and the world may have changed when it answers. A server action may not
  reach the server, or its answer may be lost (\<open>network\<close>); \<open>server_error\<close> is the message a thrown
  server error has in the browser.
\<close>

section \<open>Calls\<close>

type_synonym 'a call = "world \<Rightarrow> (thrown + 'a) \<times> world"

datatype network = Delivered | NotSent | ReplyLost

record wallet_kit =
  authModal :: "jstring call"
  selectedProductId :: "jstring option call"
  kit_disconnect :: "unit call"
  signMessage :: "jstring \<Rightarrow> jstring \<Rightarrow> jstring call"
  wire :: "world \<Rightarrow> network"
  wire_error :: thrown
  server_error :: "exn \<Rightarrow> jstring"

definition server_call :: "wallet_kit \<Rightarrow> (world, 'a) action \<Rightarrow> 'a call" where
  "server_call kit m w =
     (case wire kit w of
        NotSent \<Rightarrow> (Inl (wire_error kit), w)
      | ReplyLost \<Rightarrow> (Inl (wire_error kit), snd (m w))
      | Delivered \<Rightarrow>
          (case m w of
             (Inl e, w') \<Rightarrow> (Inl (ErrorThrown (server_error kit e)), w')
           | (Inr x, w') \<Rightarrow> (Inr x, w')))"

definition then_call :: "'a call \<Rightarrow> ('a \<Rightarrow> 'b call) \<Rightarrow> 'b call" where
  "then_call m k w = (case m w of (Inl e, w') \<Rightarrow> (Inl e, w') | (Inr x, w') \<Rightarrow> k x w')"

section \<open>kit.ts\<close>

text \<open>\<open>initialized\<close>, and the networks \<open>StellarWalletsKit.init\<close> was called with.\<close>

record kit_module =
  initialized :: bool
  init_calls :: "jstring list"

definition initWalletKit :: "bool \<Rightarrow> bool \<Rightarrow> kit_module \<Rightarrow> kit_module" where
  "initWalletKit has_window is_mainnet k =
     (if initialized k \<or> \<not> has_window then k
      else k\<lparr>initialized := True,
             init_calls := init_calls k @ [if is_mainnet then js ''PUBLIC'' else js ''TESTNET'']\<rparr>)"

section \<open>provider.tsx\<close>

definition UNSUPPORTED_ALBEDO_MESSAGE :: jstring where
  "UNSUPPORTED_ALBEDO_MESSAGE = js ''Albedo does not support SEP-0043 message signing required for verified authentication. Please connect using Freighter, xBull, or Lobstr.''"

record wallet_state =
  ws_address :: "jstring option"
  ws_isConnecting :: bool
  ws_authError :: "jstring option"

definition provider_opens :: wallet_state where
  "provider_opens = \<lparr>ws_address = None, ws_isConnecting = False, ws_authError = None\<rparr>"

text \<open>The mount effect's \<open>getSessionWallet().then(..).catch(..)\<close>.\<close>

definition rehydrate :: "wallet_kit \<Rightarrow> wallet_state \<times> world \<Rightarrow> wallet_state \<times> world" where
  "rehydrate kit s =
     (case s of (u, w) \<Rightarrow>
        (case server_call kit getSessionWallet w of
           (Inr (Some session), w') \<Rightarrow>
             (if session_address session \<noteq> [] then u\<lparr>ws_address := Some (session_address session)\<rparr> else u, w')
         | (_, w') \<Rightarrow> (u, w')))"

text \<open>\<open>STATE_UPDATED\<close>, with the address of its payload.\<close>

definition state_updated :: "jstring option \<Rightarrow> wallet_state \<Rightarrow> wallet_state" where
  "state_updated address u = (if \<not> present address then u\<lparr>ws_address := None\<rparr> else u)"

definition session_call :: "wallet_kit \<Rightarrow> stellar_sdk \<Rightarrow> jstring \<Rightarrow> unit call" where
  "session_call kit sdk account =
     then_call (server_call kit (issueAuthNonce sdk account)) (\<lambda>n.
     then_call (signMessage kit (in_message n) account) (\<lambda>signedMessage.
     then_call (server_call kit (associateVerifiedWallet sdk account signedMessage (in_nonce n) None)) (\<lambda>_.
     (\<lambda>w. (Inr (), w)))))"

definition connect_message :: "(js_number \<Rightarrow> jstring) \<Rightarrow> thrown \<Rightarrow> jstring" where
  "connect_message nt err =
     (case err of
        ErrorThrown m \<Rightarrow> m
      | ObjectThrown (Some v) \<Rightarrow> js_String nt v
      | _ \<Rightarrow> js ''Session verification failed'')"

definition blames_signing :: "jstring \<Rightarrow> bool" where
  "blames_signing errMsg \<longleftrightarrow>
     text_includes errMsg (js ''Albedo does not support the '' @ [34] @ js ''signMessage'' @ [34]) \<or>
     text_includes errMsg (js ''signMessage'')"

text \<open>\<open>connect\<close> sets \<open>isConnecting\<close> and clears the error, then waits; \<open>connect_rest\<close> is the rest of it, with
  what it sets in the provider's state when it is through, before \<open>setIsConnecting(false)\<close>. In between,
  other handlers may run.\<close>

definition connect_starts :: "wallet_state \<Rightarrow> wallet_state" where
  "connect_starts u = u\<lparr>ws_isConnecting := True, ws_authError := None\<rparr>"

definition refused :: "jstring \<Rightarrow> wallet_state \<Rightarrow> wallet_state" where
  "refused errMsg u = u\<lparr>ws_address := None, ws_authError := Some errMsg\<rparr>"

definition connect_rest ::
    "wallet_kit \<Rightarrow> stellar_sdk \<Rightarrow> (js_number \<Rightarrow> jstring) \<Rightarrow> world \<Rightarrow>
     (thrown + unit) \<times> (wallet_state \<Rightarrow> wallet_state) \<times> world" where
  "connect_rest kit sdk nt w =
     (case authModal kit w of
        (Inl err, w) \<Rightarrow> (Inl err, id, w)
      | (Inr account, w) \<Rightarrow>
          (case selectedProductId kit w of (selected, w) \<Rightarrow>
           if selected = Inr (Some (js ''albedo'')) then
             (Inl (ErrorThrown UNSUPPORTED_ALBEDO_MESSAGE), refused UNSUPPORTED_ALBEDO_MESSAGE,
              snd (kit_disconnect kit w))
           else
             (case session_call kit sdk account w of
                (Inr _, w) \<Rightarrow> (Inr (), \<lambda>u. u\<lparr>ws_address := Some account\<rparr>, w)
              | (Inl err, w) \<Rightarrow>
                  let w = snd (server_call kit clearWalletSession (snd (kit_disconnect kit w)));
                      errMsg = connect_message nt err
                  in if blames_signing errMsg
                     then (Inl (ErrorThrown UNSUPPORTED_ALBEDO_MESSAGE), refused UNSUPPORTED_ALBEDO_MESSAGE, w)
                     else (Inl err, refused errMsg, w))))"

definition connect ::
    "wallet_kit \<Rightarrow> stellar_sdk \<Rightarrow> (js_number \<Rightarrow> jstring) \<Rightarrow> wallet_state \<times> world \<Rightarrow>
     (thrown + unit) \<times> wallet_state \<times> world" where
  "connect kit sdk nt s =
     (case s of (u, w) \<Rightarrow>
        (case connect_rest kit sdk nt w of
           (r, sets, w') \<Rightarrow> (r, (sets (connect_starts u))\<lparr>ws_isConnecting := False\<rparr>, w')))"

definition disconnect :: "wallet_kit \<Rightarrow> wallet_state \<times> world \<Rightarrow> wallet_state \<times> world" where
  "disconnect kit s =
     (case s of (u, w) \<Rightarrow>
        (u\<lparr>ws_address := None, ws_authError := None\<rparr>,
         snd (server_call kit clearWalletSession (snd (kit_disconnect kit w)))))"

section \<open>wallet-connect-button.tsx\<close>

datatype wallet_button =
    DisconnectButton jstring
  | ConnectButton bool "jstring option"

definition truncate_address :: "jstring \<Rightarrow> jstring" where
  "truncate_address address = take 4 address @ [8230] @ drop (length address - 4) address"

definition WalletConnectButton :: "wallet_state \<Rightarrow> wallet_button" where
  "WalletConnectButton u =
     (if present (ws_address u) then DisconnectButton (truncate_address (the (ws_address u)))
      else ConnectButton (ws_isConnecting u) (ws_authError u))"


text \<open>
  The provider on the page: its handlers start and finish in any order, in whatever state the server is
  by then. The last two arguments are the \<open>connect\<close> calls still waiting, and history: the answers of
  \<open>rehydrate\<close> and \<open>connect\<close>, with the server's state they left.
\<close>

datatype provider_event = Restored world | Settled "thrown + unit" world

definition ids_unique :: "world \<Rightarrow> bool" where
  "ids_unique w \<longleftrightarrow> distinct (map w_id (wallets w))"

inductive provider_run ::
    "wallet_kit \<Rightarrow> stellar_sdk \<Rightarrow> (js_number \<Rightarrow> jstring) \<Rightarrow> wallet_state \<Rightarrow> nat \<Rightarrow> provider_event list \<Rightarrow> bool"
  for kit sdk nt where
  provider_mounts: "provider_run kit sdk nt provider_opens 0 []"
| rehydrates: "provider_run kit sdk nt u n h \<Longrightarrow> rehydrate kit (u, w) = (u', w') \<Longrightarrow>
    provider_run kit sdk nt u' n (h @ [Restored w'])"
| updates: "provider_run kit sdk nt u n h \<Longrightarrow> provider_run kit sdk nt (state_updated a u) n h"
| connect_clicked: "provider_run kit sdk nt u n h \<Longrightarrow> provider_run kit sdk nt (connect_starts u) (Suc n) h"
| connect_over: "provider_run kit sdk nt u (Suc n) h \<Longrightarrow> ids_unique w \<Longrightarrow>
    connect_rest kit sdk nt w = (r, sets, w') \<Longrightarrow>
    provider_run kit sdk nt ((sets u)\<lparr>ws_isConnecting := False\<rparr>) n (h @ [Settled r w'])"
| disconnects: "provider_run kit sdk nt u n h \<Longrightarrow> disconnect kit (u, w) = (u', w') \<Longrightarrow>
    provider_run kit sdk nt u' n h"

section \<open>Properties\<close>

text \<open>While the user and the wallet take their time, other requests may change the world, but rows keep
  their own ids.\<close>

definition kit_keeps_ids :: "wallet_kit \<Rightarrow> bool" where
  "kit_keeps_ids kit \<longleftrightarrow>
     (\<forall>w. ids_unique w \<longrightarrow> ids_unique (snd (authModal kit w)) \<and> ids_unique (snd (selectedProductId kit w)) \<and>
        (\<forall>m a. ids_unique (snd (signMessage kit m a w))))"

lemma issue_wallets: "issueAuthNonce sdk a w = (r, w') \<Longrightarrow> wallets w' = wallets w"
proof -
  have "keeps (\<lambda>w w'. wallets w' = wallets w) (issueAuthNonce sdk a)"
    unfolding issueAuthNonce_def Let_def
    by (auto intro!: keeps_await keeps_throw keeps_return keeps_date_now keeps_on_table keeps_random_uuid
        simp: put_nonces_def)
  then show "issueAuthNonce sdk a w = (r, w') \<Longrightarrow> wallets w' = wallets w" by (rule keepsD)
qed

lemma server_call_cases:
  "server_call kit m w = (r, w') \<Longrightarrow>
     (\<exists>x. r = Inl x) \<and> (w' = w \<or> w' = snd (m w)) \<or> (\<exists>x. r = Inr x \<and> m w = (Inr x, w'))"
  by (auto simp: server_call_def split: network.splits prod.splits sum.splits)

text \<open>A verified sign-in: what \<open>associateVerifiedWallet\<close> established in the world it left.\<close>

definition verified_in :: "stellar_sdk \<Rightarrow> jstring \<Rightarrow> world \<Rightarrow> bool" where
  "verified_in sdk a w \<longleftrightarrow>
     valid_address sdk a \<and>
     (\<exists>nonce signature. verifyStellarSignature sdk a (formatAuthMessage a nonce) signature \<and>
        (\<forall>r\<in>set (nonces w). n_nonce r \<noteq> nonce)) \<and>
     (\<exists>r\<in>set (wallets w). w_address r = a \<and> session_cookie w = Some (w_id r))"

lemma session_call_verified:
  assumes "session_call kit sdk a w = (Inr x, w')" "kit_keeps_ids kit" "ids_unique w"
  shows "verified_in sdk a w'"
proof -
  obtain n w1 sig w2 res where 1: "server_call kit (issueAuthNonce sdk a) w = (Inr n, w1)"
    and 2: "signMessage kit (in_message n) a w1 = (Inr sig, w2)"
    and 3: "server_call kit (associateVerifiedWallet sdk a sig (in_nonce n) None) w2 = (Inr res, w')"
    using assms(1) unfolding session_call_def then_call_def by (auto split: prod.splits sum.splits)
  have "issueAuthNonce sdk a w = (Inr n, w1)" using server_call_cases [OF 1] by simp
  then have "ids_unique w1" using issue_wallets assms(3) by (simp add: ids_unique_def)
  then have "ids_unique (snd (signMessage kit (in_message n) a w1))" using assms(2) unfolding kit_keeps_ids_def by blast
  then have u: "distinct (map w_id (wallets w2))" unfolding 2 ids_unique_def by simp
  have "associateVerifiedWallet sdk a sig (in_nonce n) None w2 = (Inr res, w')" using server_call_cases [OF 3] by simp
  then have "valid_address sdk a \<and> verifyStellarSignature sdk a (formatAuthMessage a (in_nonce n)) sig \<and>
      (\<forall>r\<in>set (nonces w'). n_nonce r \<noteq> in_nonce n) \<and> session_cookie w' = Some (as_walletId res) \<and>
      (\<exists>r\<in>set (wallets w'). w_id r = as_walletId res \<and> w_address r = a)"
    using associate_run [OF u, where sdk = sdk and address = a and signature = sig and nonce = "in_nonce n" and email = None] by simp
  then show ?thesis unfolding verified_in_def by auto
qed

lemma clear_cookie:
  assumes "\<And>v. wire kit v \<noteq> NotSent"
  shows "session_cookie (snd (server_call kit clearWalletSession w)) = None"
  using assms [of w] by (cases "wire kit w") (simp_all add: server_call_def clearWalletSession_def)

text \<open>What \<open>connect_rest\<close> sets, and in which state it leaves the server, on each of its ways out.\<close>

lemma connect_rest_cases:
  assumes "connect_rest kit sdk nt w = (r, sets, w')" "ids_unique w" "kit_keeps_ids kit"
  shows "(\<exists>a. r = Inr () \<and> sets = (\<lambda>u. u\<lparr>ws_address := Some a\<rparr>) \<and> verified_in sdk a w' \<and>
      (\<exists>w1 sel w2. authModal kit w = (Inr a, w1) \<and> selectedProductId kit w1 = (sel, w2) \<and>
         sel \<noteq> Inr (Some (js ''albedo'')))) \<or>
    (\<exists>e. r = Inl e \<and>
      (authModal kit w = (Inl e, w') \<and> sets = id \<or>
       (\<exists>a w1 w2. authModal kit w = (Inr a, w1) \<and> selectedProductId kit w1 = (Inr (Some (js ''albedo'')), w2) \<and>
          w' = snd (kit_disconnect kit w2) \<and> sets = refused UNSUPPORTED_ALBEDO_MESSAGE) \<or>
       (\<exists>a w1 sel w2 err w3. authModal kit w = (Inr a, w1) \<and> selectedProductId kit w1 = (sel, w2) \<and>
          sel \<noteq> Inr (Some (js ''albedo'')) \<and> session_call kit sdk a w2 = (Inl err, w3) \<and>
          sets = refused (if blames_signing (connect_message nt err) then UNSUPPORTED_ALBEDO_MESSAGE
                          else connect_message nt err) \<and>
          ((\<forall>v. wire kit v \<noteq> NotSent) \<longrightarrow> session_cookie w' = None))))"
proof -
  obtain m w1 where m: "authModal kit w = (m, w1)" by fastforce
  obtain sel w2 where s: "selectedProductId kit w1 = (sel, w2)" by fastforce
  have "ids_unique w1" using assms(2,3) m unfolding kit_keeps_ids_def by (metis snd_conv)
  then have ids: "ids_unique w2" using assms(3) s unfolding kit_keeps_ids_def by (metis snd_conv)
  show ?thesis
  proof (cases m)
    case (Inl err)
    then show ?thesis using assms(1) m by (simp add: connect_rest_def)
  next
    case (Inr a)
    note m = m [unfolded Inr]
    show ?thesis
    proof (cases "sel = Inr (Some (js ''albedo''))")
      case True
      then show ?thesis using assms(1) m s by (auto simp: connect_rest_def simp del: js_Cons)
    next
      case False
      obtain q w3 where q: "session_call kit sdk a w2 = (q, w3)" by fastforce
      show ?thesis
      proof (cases q)
        case (Inl err)
        then show ?thesis
          using assms(1) m s q False clear_cookie [of kit]
          by (auto simp: connect_rest_def Let_def simp del: js_Cons split: if_splits)
      next
        case ok: (Inr x)
        then have "verified_in sdk a w3" using session_call_verified [OF _ assms(3) ids] q by simp
        then show ?thesis using assms(1) m s q False ok by (auto simp: connect_rest_def simp del: js_Cons)
      qed
    qed
  qed
qed

text \<open>Where an address on the page may come from.\<close>

definition address_from :: "stellar_sdk \<Rightarrow> provider_event list \<Rightarrow> jstring \<Rightarrow> bool" where
  "address_from sdk h a \<longleftrightarrow>
     (\<exists>v. Settled (Inr ()) v \<in> set h \<and> verified_in sdk a v) \<or>
     (\<exists>v s. Restored v \<in> set h \<and> signed_in_as v s \<and> session_address s = a \<and> a \<noteq> [])"

lemma address_from_more: "address_from sdk h a \<Longrightarrow> address_from sdk (h @ h') a"
  unfolding address_from_def by auto

lemma rehydrate_cases:
  assumes "rehydrate kit (u, w) = (u', w')"
  shows "u' = u \<or>
    (\<exists>s. u' = u\<lparr>ws_address := Some (session_address s)\<rparr> \<and> session_address s \<noteq> [] \<and> signed_in_as w' s)"
proof -
  obtain q v where q: "server_call kit getSessionWallet w = (q, v)" by fastforce
  have "signed_in_as v s" if "q = Inr (Some s)" for s
  proof -
    have g: "getSessionWallet w = (Inr (Some s), v)" using server_call_cases [OF q] that by auto
    then obtain fs where "v = w\<lparr>faults := fs\<rparr>" "signed_in_as w s" using getSessionWallet_cases [OF g] by blast
    then show ?thesis by (simp add: signed_in_as_def)
  qed
  then show ?thesis
    using assms q by (auto simp: rehydrate_def split: sum.splits option.splits if_splits)
qed

lemma settled_states:
  "(connect_starts u)\<lparr>ws_isConnecting := False\<rparr>
     = \<lparr>ws_address = ws_address u, ws_isConnecting = False, ws_authError = None\<rparr>"
  "(connect_starts u)\<lparr>ws_address := Some a, ws_isConnecting := False\<rparr>
     = \<lparr>ws_address = Some a, ws_isConnecting = False, ws_authError = None\<rparr>"
  "(refused m (connect_starts u))\<lparr>ws_isConnecting := False\<rparr>
     = \<lparr>ws_address = None, ws_isConnecting = False, ws_authError = Some m\<rparr>"
  by (cases u, simp add: connect_starts_def refused_def)+

lemma provider_run_shows:
  assumes "kit_keeps_ids kit" "provider_run kit sdk nt u n h"
  shows "(\<forall>a. ws_address u = Some a \<longrightarrow> address_from sdk h a) \<and> (n = 0 \<longrightarrow> \<not> ws_isConnecting u)"
  using assms(2)
proof induction
  case provider_mounts
  show ?case by (simp add: provider_opens_def)
next
  case (rehydrates u n h w u' w')
  from rehydrate_cases [OF rehydrates(2)] show ?case
  proof (elim disjE exE conjE)
    fix s assume u': "u' = u\<lparr>ws_address := Some (session_address s)\<rparr>" "session_address s \<noteq> []" "signed_in_as w' s"
    then have "address_from sdk (h @ [Restored w']) (session_address s)" unfolding address_from_def by auto
    with u' rehydrates.IH show ?case by simp
  qed (use rehydrates.IH in \<open>simp add: address_from_more\<close>)
next
  case (updates u n h a)
  then show ?case by (simp add: state_updated_def)
next
  case (connect_clicked u n h)
  then show ?case by (simp add: connect_starts_def)
next
  case (connect_over u n h w r sets w')
  from connect_rest_cases [OF connect_over(3,2) assms(1)]
  have "\<forall>a. ws_address (sets u) = Some a \<longrightarrow> address_from sdk (h @ [Settled r w']) a"
  proof (elim disjE exE conjE)
    fix a assume "r = Inr ()" "sets = (\<lambda>u. u\<lparr>ws_address := Some a\<rparr>)" "verified_in sdk a w'"
    then show ?thesis unfolding address_from_def by auto
  qed (use connect_over.IH in \<open>simp_all add: refused_def address_from_more\<close>)
  then show ?case by simp
next
  case (disconnects u n h w u' w')
  then show ?case by (auto simp: disconnect_def)
qed

text \<open>C4: The browser shows a wallet only for a session the server vouched for. In every run of the
  provider, whatever the user, the wallet extension and the wire do, and however its handlers overlap: an
  address on the button comes either from a \<open>connect\<close> that succeeded, which left the server with the
  cookie on that address's stored wallet after it checked a signature over a nonce now used up, or from
  the session of the cookie the server answered when the page mounted; and with no \<open>connect\<close> waiting the
  button is free. A \<open>connect\<close> on its own ends in exactly one of four ways: it succeeds, never with
  Albedo, and shows the verified address and no error; the wallet modal fails, the address stays what
  it was and no error is shown; the wallet is Albedo, no address and the notice are shown, and the
  session on the server is not cleared; or the sign-in fails, no address and the error are shown, and
  a server that was reached has no session left.\<close>

theorem connect_shows_verified:
  assumes "kit_keeps_ids kit" and "provider_run kit sdk nt u n h"
  shows "(\<forall>t. WalletConnectButton u = DisconnectButton t \<longrightarrow>
      (\<exists>a. ws_address u = Some a \<and> t = truncate_address a \<and>
         ((\<exists>v. Settled (Inr ()) v \<in> set h \<and> verified_in sdk a v) \<or>
          (\<exists>v s. Restored v \<in> set h \<and> signed_in_as v s \<and> session_address s = a))))
    \<and> (n = 0 \<longrightarrow> \<not> ws_isConnecting u)
    \<and> (\<forall>w. ids_unique w \<longrightarrow>
         (case connect kit sdk nt (u, w) of
            (Inr _, u', w') \<Rightarrow>
              \<exists>a w1 sel w2. authModal kit w = (Inr a, w1) \<and> selectedProductId kit w1 = (sel, w2) \<and>
                sel \<noteq> Inr (Some (js ''albedo'')) \<and> verified_in sdk a w' \<and>
                u' = \<lparr>ws_address = Some a, ws_isConnecting = False, ws_authError = None\<rparr>
          | (Inl e, u', w') \<Rightarrow>
              authModal kit w = (Inl e, w') \<and>
                u' = \<lparr>ws_address = ws_address u, ws_isConnecting = False, ws_authError = None\<rparr> \<or>
              (\<exists>a w1 w2. authModal kit w = (Inr a, w1) \<and>
                selectedProductId kit w1 = (Inr (Some (js ''albedo'')), w2) \<and> w' = snd (kit_disconnect kit w2) \<and>
                u' = \<lparr>ws_address = None, ws_isConnecting = False, ws_authError = Some UNSUPPORTED_ALBEDO_MESSAGE\<rparr>) \<or>
              (\<exists>a w1 sel w2 err w3. authModal kit w = (Inr a, w1) \<and> selectedProductId kit w1 = (sel, w2) \<and>
                sel \<noteq> Inr (Some (js ''albedo'')) \<and> session_call kit sdk a w2 = (Inl err, w3) \<and>
                u' = \<lparr>ws_address = None, ws_isConnecting = False,
                      ws_authError = Some (if blames_signing (connect_message nt err)
                        then UNSUPPORTED_ALBEDO_MESSAGE else connect_message nt err)\<rparr> \<and>
                ((\<forall>v. wire kit v \<noteq> NotSent) \<longrightarrow> session_cookie w' = None))))"
proof (intro conjI allI impI)
  fix t assume b: "WalletConnectButton u = DisconnectButton t"
  then obtain a where a: "ws_address u = Some a" "t = truncate_address a"
    by (auto simp: WalletConnectButton_def present_def split: if_splits option.splits)
  then have "address_from sdk h a" using provider_run_shows [OF assms] by blast
  with a show "\<exists>a. ws_address u = Some a \<and> t = truncate_address a \<and>
         ((\<exists>v. Settled (Inr ()) v \<in> set h \<and> verified_in sdk a v) \<or>
          (\<exists>v s. Restored v \<in> set h \<and> signed_in_as v s \<and> session_address s = a))"
    unfolding address_from_def by blast
next
  show "\<not> ws_isConnecting u" if "n = 0" using provider_run_shows [OF assms] that by blast
next
  fix w assume w: "ids_unique w"
  obtain r sets w' where c: "connect_rest kit sdk nt w = (r, sets, w')" by (cases "connect_rest kit sdk nt w") auto
  show "case connect kit sdk nt (u, w) of
            (Inr _, u', w') \<Rightarrow>
              \<exists>a w1 sel w2. authModal kit w = (Inr a, w1) \<and> selectedProductId kit w1 = (sel, w2) \<and>
                sel \<noteq> Inr (Some (js ''albedo'')) \<and> verified_in sdk a w' \<and>
                u' = \<lparr>ws_address = Some a, ws_isConnecting = False, ws_authError = None\<rparr>
          | (Inl e, u', w') \<Rightarrow>
              authModal kit w = (Inl e, w') \<and>
                u' = \<lparr>ws_address = ws_address u, ws_isConnecting = False, ws_authError = None\<rparr> \<or>
              (\<exists>a w1 w2. authModal kit w = (Inr a, w1) \<and>
                selectedProductId kit w1 = (Inr (Some (js ''albedo'')), w2) \<and> w' = snd (kit_disconnect kit w2) \<and>
                u' = \<lparr>ws_address = None, ws_isConnecting = False, ws_authError = Some UNSUPPORTED_ALBEDO_MESSAGE\<rparr>) \<or>
              (\<exists>a w1 sel w2 err w3. authModal kit w = (Inr a, w1) \<and> selectedProductId kit w1 = (sel, w2) \<and>
                sel \<noteq> Inr (Some (js ''albedo'')) \<and> session_call kit sdk a w2 = (Inl err, w3) \<and>
                u' = \<lparr>ws_address = None, ws_isConnecting = False,
                      ws_authError = Some (if blames_signing (connect_message nt err)
                        then UNSUPPORTED_ALBEDO_MESSAGE else connect_message nt err)\<rparr> \<and>
                ((\<forall>v. wire kit v \<noteq> NotSent) \<longrightarrow> session_cookie w' = None))"
    using connect_rest_cases [OF c w assms(1)] unfolding connect_def prod.case c
    by (elim disjE exE conjE; simp add: settled_states del: js_Cons)
qed

definition test_kit :: wallet_kit where
  "test_kit = \<lparr>authModal = (\<lambda>w. (Inr test_address, w)),
     selectedProductId = (\<lambda>w. (Inr (Some (js ''freighter'')), w)), kit_disconnect = (\<lambda>w. (Inr (), w)),
     signMessage = (\<lambda>_ _ w. (Inr test_signature, w)), wire = (\<lambda>_. Delivered), wire_error = OtherThrown,
     server_error = error_text\<rparr>"

lemma test_connects: "\<exists>w'. session_call test_kit test_sdk test_address empty_world = (Inr (), w')"
proof -
  obtain n w1 where 1: "issueAuthNonce test_sdk test_address empty_world = (Inr n, w1)"
    and w1: "w1 = empty_world\<lparr>uuid_next := 1, nonces := [\<lparr>n_nonce = bigint_to_string 0, n_address = test_address, n_expiresAt = 301000\<rparr>]\<rparr>"
      "in_nonce n = bigint_to_string 0"
    by (simp add: issueAuthNonce_def test_address_ok await_def Let_def empty_world_def put_nonces_def insert_row_def
        delete_many_def NONCE_TTL_MS_def)
  have "\<exists>res w'. associateVerifiedWallet test_sdk test_address test_signature (in_nonce n) None w1 = (Inr res, w')"
    unfolding w1
    by (simp add: await_def Let_def associateVerifiedWallet_def test_address_ok test_signature_ok validateOptionalEmail_def
        consumeAuthNonce_def consume_find_def consume_found_def empty_world_def
        find_unique_def delete_unique_def put_nonces_def signin_wallet_def wallet_by_address_def
        user_create_def wallet_create_def insert_row_def put_users_def put_wallets_def)
  with 1 show ?thesis by (auto simp: session_call_def then_call_def server_call_def test_kit_def)
qed

theorem connect_shows_verified_witness:
  "\<exists>u h. provider_run test_kit test_sdk (\<lambda>_. []) u 0 h \<and> ws_address u = Some test_address \<and>
     \<not> ws_isConnecting u \<and>
     ((\<exists>v. Settled (Inr ()) v \<in> set h \<and> verified_in test_sdk test_address v) \<or>
      (\<exists>v s. Restored v \<in> set h \<and> signed_in_as v s \<and> session_address s = test_address))"
proof -
  let ?run = "provider_run test_kit test_sdk (\<lambda>_. [])"
  obtain w' where w': "session_call test_kit test_sdk test_address empty_world = (Inr (), w')"
    using test_connects by blast
  have k: "kit_keeps_ids test_kit" by (simp add: kit_keeps_ids_def test_kit_def)
  have i: "ids_unique empty_world" by (simp add: ids_unique_def empty_world_def)
  have c: "connect_rest test_kit test_sdk (\<lambda>_. []) empty_world
      = (Inr (), \<lambda>u. u\<lparr>ws_address := Some test_address\<rparr>, w')"
    using w' by (simp add: connect_rest_def test_kit_def)
  let ?u = "provider_opens\<lparr>ws_address := Some test_address\<rparr>"
  have "?run (connect_starts provider_opens) (Suc 0) []" by (intro provider_run.intros)
  from connect_over [OF this i c] have run: "?run ?u 0 ([] @ [Settled (Inr ()) w'])"
    by (simp add: connect_starts_def provider_opens_def)
  have b: "WalletConnectButton ?u = DisconnectButton (truncate_address test_address)"
    by (simp add: WalletConnectButton_def present_def test_address_def)
  let ?h = "[] @ [Settled (Inr ()) w']"
  obtain a where "ws_address ?u = Some a" "(\<exists>v. Settled (Inr ()) v \<in> set ?h \<and> verified_in test_sdk a v) \<or>
      (\<exists>v s. Restored v \<in> set ?h \<and> signed_in_as v s \<and> session_address s = a)"
    using connect_shows_verified [OF k run, THEN conjunct1, rule_format, OF b] by blast
  moreover from this(1) have "a = test_address" by simp
  ultimately have v: "(\<exists>v. Settled (Inr ()) v \<in> set ?h \<and> verified_in test_sdk test_address v) \<or>
      (\<exists>v s. Restored v \<in> set ?h \<and> signed_in_as v s \<and> session_address s = test_address)" by blast
  show ?thesis
    by (rule exI [of _ ?u], rule exI [of _ ?h], intro conjI run v) (simp_all add: provider_opens_def)
qed

end
