(* ===== verification/Spec2Isabelle.thy ===== *)
theory Spec2Isabelle
  imports Transitions Amounts Op_Pipeline Teams Organizer_Actions Judge_Actions GitHub Qr_Total Registration Drafts Event_Form Public_View Card_Model Earnings Environment Pages Event_Page Event_Cards Profile_Page Wallet_Provider Deposit_Screen
begin

text \<open>
  A verification library for the web application of Astrea (\<open>src/apps/web\<close>), which runs events whose
  prizes are locked in a Soroban escrow contract on Stellar before the event starts.

  \<^bold>\<open>The program.\<close> An organizer signs in with a wallet, writes an event as a DRAFT, deposits USDC and has
  the wallet sign \<open>create_event\<close> (CREATED), pays the go-live fee (LIVE), and closes registration
  (JUDGING). Teams register with a wallet that can receive USDC and, where asked for, with a GitHub
  repository that is theirs. The one judge picks a team for every prize and signs \<open>release_reward\<close>
  (COMPLETED). Anyone can read the public page of an event, its share cards and its receipt, and the
  profiles their owners made public. Postgres holds the rows; a Go service builds and submits every
  transaction and moves the statuses that depend on the chain; the contract is read over Soroban RPC.
  The application is made of React screens in the browser, pages and server actions on the server, and
  the libraries both use. All paths below are under \<open>src/apps/web/src\<close>.

  \<^bold>\<open>How the code is modelled.\<close> A JavaScript string is a list of UTF-16 code units, a thrown value an
  \<open>exn\<close>, a BigInt an \<open>int\<close> or \<open>nat\<close>, a number an \<open>int\<close>, a rational or a \<open>js_number\<close>, and the 32-bit
  operators of the QR code generator wrap as the language says. A server function is an \<open>action\<close>: it
  returns \<open>Inl\<close> what it throws or \<open>Inr\<close> its result, with the state it leaves, so that what was written
  before a throw stays. The server's state is the record \<open>world\<close> of theory \<open>Store\<close>: the tables as lists
  of rows with the columns the code reads or writes, the two cookies, the clock, the identifiers to come,
  and a schedule of faults. Every query goes through the schedule: it may work, break before it took
  effect, or take effect and lose its answer; so a theorem about any \<open>world\<close> holds under any such
  failures. A \<open>$transaction\<close> restores the tables on a throw. Concurrent server calls are sequences of their
  atomic queries in any order. A screen of the browser is a state with handlers, and a run of it is an
  inductive relation whose steps are renders, clicks, the wallet's answers and the server's, in any order
  the browser allows. A page is the record of what it shows.

  \<^bold>\<open>The theories.\<close>

  \<^item> \<open>Prelude\<close>, \<open>Numbers\<close>, \<open>Big_Int\<close>, \<open>Json\<close>, \<open>Text_Codec\<close>, \<open>Int32\<close>, \<open>Loops\<close>: strings, numbers, \<open>BigInt(..)\<close>,
    \<open>JSON.parse\<close> and \<open>JSON.stringify\<close>, UTF-8, base64url and percent coding, 32-bit integers, loops that
    may throw, and the sequencing of actions with its rules (\<open>await_InrE\<close>, \<open>keeps\<close>, \<open>changes_once\<close>).
    Every coder comes with the lemma that its decoder undoes it.
  \<^item> \<open>Store\<close>: the tables of \<open>prisma/schema.prisma\<close>, faults, transactions, unique keys.
  \<^item> \<open>Status\<close>, \<open>Transitions\<close>: \<open>lib/state-machines\<close>. The transition tables and their guarded writers; of
    concurrent writers that expect one status at most one succeeds, and an event's history is a path of
    the table of bounded length.
  \<^item> \<open>Amounts\<close>, \<open>Teams\<close>: \<open>lib/escrow/amount.ts\<close>, the formatting of \<open>lib/explorer.ts\<close>, Horizon's amounts,
    \<open>lib/teams/shares.ts\<close>. Parsing is exactly the spelling of a decimal; printing is undone by it.
  \<^item> \<open>Core_Go\<close>, \<open>Op_Pipeline\<close>: \<open>lib/core-go\<close> and \<open>lib/escrow/idempotency.ts\<close>, \<open>pipeline.ts\<close>: the client
    of the Go service and the log that makes operations idempotent. A recorded success is final for
    every call that begins after it, whatever overlaps (\<open>op_run\<close>); calls that began before can undo it.
  \<^item> \<open>Auth\<close>, \<open>Wallet_Provider\<close>: \<open>lib/uuid.ts\<close>, \<open>lib/wallet\<close>, \<open>api/auth/nonce\<close>. Nonces are used once, a
    sign-in needs a signature over one, and the browser shows an address only after that, or for the
    session its cookie already stands for (\<open>provider_run\<close>).
  \<^item> \<open>Trustline\<close>: \<open>lib/trustline\<close>, \<open>lib/reconciliation\<close>: who can receive USDC.
  \<^item> \<open>GitHub\<close>: \<open>lib/github\<close> and the routes of \<open>api/auth/github\<close>: the signed OAuth state, the link of an
    account, the ownership of a repository.
  \<^item> \<open>Organizer_Actions\<close>, \<open>Judge_Actions\<close>, \<open>Registration\<close>, \<open>Drafts\<close>: the server actions of
    \<open>organizer/events/[id]\<close>, \<open>events/[id]/judge\<close>, \<open>events/[id]/actions.ts\<close> and \<open>organizer/new/actions.ts\<close>,
    each whole, with every guard and every refusal. \<open>Event_Form\<close> is the forms in front of two of them:
    what they show is what is stored.
  \<^item> \<open>Sign_Step\<close>, \<open>Deposit_Screen\<close>, \<open>Fund_Screen\<close>, \<open>Start_Screen\<close>, \<open>Release_Screen\<close>:
    \<open>components/events/sign-step.tsx\<close> and the four screens that have the wallet sign. The locale
    \<open>signing_screen\<close> is the contract of such a screen; its lemmas are proved once, over runs, and each
    screen is an interpretation of it. \<open>Pages\<close> is the pages in front of the screens and composes both:
    all that is signed was built for the stored event, for the session the page checked.
  \<^item> \<open>Escrow_Read\<close>, \<open>Card_Model\<close>, \<open>Public_View\<close>, \<open>Event_Page\<close>, \<open>Event_Cards\<close>: what the public sees of an
    event: \<open>lib/escrow/read-event.ts\<close>, \<open>lib/events\<close>, \<open>events/[id]/page.tsx\<close> with its components, the display
    image, the share image and the receipt. No amount is shown as locked that a read of the chain did
    not give, what the page offers follows the rows and the session, and nothing private flows into a view.
  \<^item> \<open>Profile_Page\<close>, \<open>Earnings\<close>: \<open>p/[login]/page.tsx\<close> and \<open>lib/earnings\<close>: profiles are public by their
    owner's choice, and earnings are one's own, all of them, as they were paid.
  \<^item> \<open>Environment\<close>: \<open>lib/env.ts\<close>, \<open>lib/stellar-network.ts\<close>, \<open>lib/site-url.ts\<close>: the gate at the start.
  \<^item> \<open>Qr_Tables\<close>, \<open>Qr_Field\<close>, \<open>Qr_Segment\<close>, \<open>Qr_Ecc\<close>, \<open>Qr_Draw\<close>, \<open>Qr_Code\<close>, \<open>Qr_Total\<close>: the QR code
    generator \<open>lib/qr.ts\<close>, all of it: the product is that of the field \<open>GF(2^8/0x11D)\<close>, a block with its
    remainder is a codeword, segments read back as the text, blocks interleave by columns, no drawing
    leaves the grid, \<open>encodeSegments\<close> makes the smallest code at the highest level that fits, and a text
    becomes a code unless it is malformed or too long.

  \<^bold>\<open>Termination and bounds.\<close> Loops are recursion with a measure where it is not structural. The only fuel
  is that of \<open>json_parse\<close>, twice the length of the text and two more, which \<open>json_fuel\<close> shows is always
  enough. The QR code generator checks its own invariants; \<open>encodeText_returns\<close> shows that none of these
  checks fails for any text, level and automatic mask, and \<open>drawFunctionPatterns_stays_inside\<close> that every
  index stays on the grid. Amounts are kept at the precision of their columns, ten-millionths.

  \<^bold>\<open>Parameters.\<close> What is not in the repository is an argument: the Go service (\<open>fetch\<close> of \<open>core_go\<close>, which
  may also change the database), Soroban RPC (\<open>simulate\<close>), Horizon, GitHub, the wallets and the wire
  (\<open>wallet_kit\<close>, \<open>network\<close>), the Stellar SDK's keys, signatures and transaction hashes, SHA-256 and HMAC,
  \<open>new URL\<close>, \<open>z.url()\<close>, dates and \<open>Intl\<close>, letter case beyond ASCII, how Prisma prints a \<open>Decimal\<close> and how
  a double prints, the translations, and in what order Postgres returns rows that no clause orders (the
  order of the list). Hypotheses about them are stated in the theorems that need them: that \<open>Date.parse\<close>
  reads what \<open>toISOString\<close> prints, that a text a \<open>Decimal\<close> prints is only read as that amount, and the
  like; a witness shows each can hold.

  \<^bold>\<open>Choices worth knowing.\<close> \<open>transitionEvent\<close> compares ids as texts, so \<open>startJudging\<close> passes it the id as
  the column stores it (\<open>uuid_key\<close>). Of a \<open>Promise.all\<close> the members run in the order they are written. A
  screen's history fields (builds, submissions, reads) are part of its state only so that a theorem can
  speak of them. Reading \<open>env\<close> may throw, so a page that reads it takes what the read gives.

  \<^bold>\<open>Not modelled.\<close> The Go service and the contract are other programs, in other languages. Styles, icons,
  translated texts and the markup around what a page shows are left out, as are the landing pages, the
  header and footer, the marketing effects (pixels drawn by the DOM, WebGL and GSAP), the preferences of
  theme, motion and language, the service worker and the manifests, the markup of the earnings dashboard
  (its queries and sums are in \<open>Earnings\<close>), the scripts and the spikes. Of the migrations' triggers the
  share rule is modelled where the code writes members (\<open>Registration\<close>). \<open>lib/timezone/iana.ts\<close> has no
  callers.
\<close>

end
